(* ===== verification/Prelude.thy ===== *)
theory Prelude
  imports Main "HOL-Library.Word"
begin

text \<open>
  Shared ground of the development: the names of the machine types the Rust code uses, the
  casts between the unsigned counters of the wire and the signed \<open>INTEGER\<close> columns of
  sqlite, the result monad of fallible operations that also change state, and the generic
  facts on words, lists and options the components rely on.
\<close>

section \<open>Machine types\<close>

type_synonym u8 = "8 word"
type_synonym u32 = "32 word"
type_synonym u64 = "64 word"
type_synonym uuid = "128 word"
type_synonym bytes = "u8 list"

text \<open>
  The casts \<open>x as i64\<close> and \<open>x as u64\<close>: both keep the 64 bits. An sqlite \<open>INTEGER\<close> is
  an \<^typ>\<open>int\<close> here, read and written through these two functions.
\<close>

definition as_i64 :: "u64 \<Rightarrow> int" where
  "as_i64 n = sint n"

definition as_u64 :: "int \<Rightarrow> u64" where
  "as_u64 i = word_of_int i"

text \<open>Rust's \<open>u64::saturating_sub\<close>.\<close>

definition saturating_sub :: "u64 \<Rightarrow> u64 \<Rightarrow> u64" where
  "saturating_sub a b = (if b \<le> a then a - b else 0)"

section \<open>Proof collections\<close>

named_theorems cast_simps "the casts between u64 and i64"

section \<open>Casts\<close>

lemma as_u64_as_i64 [simp, cast_simps]: "as_u64 (as_i64 n) = n"
  by (simp add: as_u64_def as_i64_def)

lemma as_i64_inject [simp, cast_simps]: "as_i64 a = as_i64 b \<longleftrightarrow> a = b"
  using as_u64_as_i64 by metis

lemma as_i64_nonneg:
  assumes "n < 2 ^ 63"
  shows "as_i64 n = uint n"
proof -
  from assms have "uint n < 2 ^ 63" by (simp add: word_less_def)
  moreover have "- (2 ^ 63) \<le> uint n"
    by (rule order_trans [OF _ uint_ge_0]) simp
  ultimately show ?thesis
    by (simp add: as_i64_def sint_uint signed_take_bit_int_eq_self)
qed

lemma as_i64_as_u64 [cast_simps]:
  "- (2 ^ 63) \<le> i \<Longrightarrow> i < 2 ^ 63 \<Longrightarrow> as_i64 (as_u64 i) = i"
  by (simp add: as_i64_def as_u64_def signed_take_bit_int_eq_self sint_sbintrunc')

lemma uint_as_u64 [cast_simps]: "0 \<le> i \<Longrightarrow> i < 2 ^ 64 \<Longrightarrow> uint (as_u64 i) = i"
  by (simp add: as_u64_def uint_word_of_int)

section \<open>Counters that do not wrap\<close>

lemma u64_less_inc: "(n::u64) \<noteq> - 1 \<Longrightarrow> n < n + 1"
  by (metis inc_less_eq_triv_imp linorder_less_linear word_le_less_eq)

lemma u64_inc_le: "(a::u64) < b \<Longrightarrow> a + 1 \<le> b"
  by (rule inc_le)

lemma saturating_sub_0 [simp]: "saturating_sub a a = 0"
  by (simp add: saturating_sub_def)

end
