(* ===== verification/Protocol.thy ===== *)
theory Protocol
  imports Prelude
begin

text \<open>
  The wire types of \<open>crates/protocol/src/sync.rs\<close>: blobs, handshake messages, client frames
  and server frames, with the doc a frame is about. MessagePack itself is third-party code; a
  component that encodes or decodes takes the codec as an argument.
\<close>

section \<open>Blobs\<close>

definition PROTOCOL_VERSION :: u32 where
  "PROTOCOL_VERSION = 1"

record encrypted_blob =
  nonce :: bytes
  ciphertext :: bytes

record stored_blob =
  sb_seq :: u64
  sb_blob :: encrypted_blob

record push_blob =
  pb_push_id :: uuid
  pb_blob :: encrypted_blob

record push_ack =
  pa_push_id :: uuid
  pa_seq :: u64

record snapshot_base =
  base_seq :: u64
  base_vv :: encrypted_blob

section \<open>Handshake\<close>

record hello =
  h_client :: string
  h_client_version :: string
  supported_protocol_versions :: "u32 list"

record hello_ack =
  server_version :: string
  protocol_version :: u32

record hello_rejected =
  rejected_reason :: string

section \<open>Frames\<close>

datatype client_frame =
    OpenDoc uuid
  | PushUpdates uuid "push_blob list"
  | PullUpdates uuid u64
  | Ack uuid u64
  | PushSnapshot uuid u64 u64 "u64 option" encrypted_blob encrypted_blob
    \<comment> \<open>doc, \<open>up_to_seq\<close>, \<open>compaction_floor_seq\<close>, \<open>from_seq\<close>, \<open>up_to_vv\<close>, blob\<close>
  | PullSnapshot uuid

fun client_frame_doc_id :: "client_frame \<Rightarrow> uuid" where
  "client_frame_doc_id (OpenDoc d) = d"
| "client_frame_doc_id (PushUpdates d _) = d"
| "client_frame_doc_id (PullUpdates d _) = d"
| "client_frame_doc_id (Ack d _) = d"
| "client_frame_doc_id (PushSnapshot d _ _ _ _ _) = d"
| "client_frame_doc_id (PullSnapshot d) = d"

record present_account =
  pr_account_id :: uuid
  pr_email :: string

datatype server_frame =
    DocOpened uuid u64
  | DocRejected uuid string
  | DocClosed uuid string
  | UpdatesAck uuid "push_ack list"
  | UpdatesBatch uuid "stored_blob list" bool
  | UpdatesBroadcast uuid "stored_blob list"
  | SnapshotRequest uuid u64 u64 "snapshot_base option"
    \<comment> \<open>doc, \<open>up_to_seq\<close>, \<open>compaction_floor_seq\<close>, base\<close>
  | Snapshot uuid u64 encrypted_blob bool
  | SnapshotRequired uuid u64
  | Presence uuid "present_account list"

fun server_frame_doc :: "server_frame \<Rightarrow> uuid" where
  "server_frame_doc (DocOpened d _) = d"
| "server_frame_doc (DocRejected d _) = d"
| "server_frame_doc (DocClosed d _) = d"
| "server_frame_doc (UpdatesAck d _) = d"
| "server_frame_doc (UpdatesBatch d _ _) = d"
| "server_frame_doc (UpdatesBroadcast d _) = d"
| "server_frame_doc (SnapshotRequest d _ _ _) = d"
| "server_frame_doc (Snapshot d _ _ _) = d"
| "server_frame_doc (SnapshotRequired d _) = d"
| "server_frame_doc (Presence d _) = d"

section \<open>Sizes\<close>

text \<open>
  \<open>blob_len\<close> of \<open>core/src/sync.rs\<close>: ciphertext and nonce bytes, as a \<open>u64\<close>.
\<close>

definition blob_len :: "encrypted_blob \<Rightarrow> u64" where
  "blob_len b = of_nat (length (ciphertext b) + length (nonce b))"

end
