(* ===== verification/Doc_Stream.thy ===== *)
theory Doc_Stream
  imports Protocol
begin

text \<open>
  The update-stream half of \<open>core/src/doc.rs\<close> (export, import, the capture cursor) and the
  sealing half of \<open>core/src/crypto/aead.rs\<close>.

  Loro, XChaCha20-Poly1305 and the random source are third-party code: they are the records
  \<open>loro\<close>, \<open>aead\<close> and \<open>rng\<close>, arguments of every definition that calls them. What the
  code relies on is collected in \<open>loro_ok\<close> and \<open>aead_ok\<close> of \<open>Loro_Laws\<close>, which theorems take
  as hypotheses. The projection index, the undo manager and the queue of \<open>AppEvent\<close>s that an
  import also refreshes are not part of this model: they never feed back into the stream.
\<close>

section \<open>Third-party interfaces\<close>

type_synonym id_span = "u64 \<times> int \<times> int"
type_synonym frontiers = "(u64 \<times> int) list"

record ('d, 'v) loro =
  vv_default :: 'v
  vv_merge :: "'v \<Rightarrow> 'v \<Rightarrow> 'v"
  vv_includes :: "'v \<Rightarrow> 'v \<Rightarrow> bool" \<comment> \<open>\<open>self.includes_vv(other)\<close>\<close>
  vv_encode :: "'v \<Rightarrow> bytes"
  vv_decode :: "bytes \<Rightarrow> string + 'v"
  vv_diff_forward :: "'v \<Rightarrow> 'v \<Rightarrow> id_span list" \<comment> \<open>\<open>from.diff(to).forward\<close>\<close>
  loro_new :: 'd
  loro_set_peer :: "u64 \<Rightarrow> 'd \<Rightarrow> string + 'd"
  loro_oplog_vv :: "'d \<Rightarrow> 'v"
  loro_export_snapshot :: "'d \<Rightarrow> string + bytes"
  loro_export_updates :: "'d \<Rightarrow> 'v \<Rightarrow> string + bytes"
  loro_export_range :: "'d \<Rightarrow> id_span list \<Rightarrow> string + bytes"
  loro_vv_to_frontiers :: "'d \<Rightarrow> 'v \<Rightarrow> frontiers"
  loro_fork_at :: "'d \<Rightarrow> frontiers \<Rightarrow> string + 'd"
  loro_import_with :: "'d \<Rightarrow> bytes \<Rightarrow> string \<Rightarrow> (string + unit) \<times> 'd"
  loro_blob_end_vv :: "bytes \<Rightarrow> string + 'v" \<comment> \<open>\<open>decode_import_blob_meta(..).partial_end_vv\<close>\<close>

record aead =
  xchacha_encrypt :: "bytes \<Rightarrow> bytes \<Rightarrow> bytes \<Rightarrow> bytes option" \<comment> \<open>key, nonce, plaintext\<close>
  xchacha_decrypt :: "bytes \<Rightarrow> bytes \<Rightarrow> bytes \<Rightarrow> bytes option" \<comment> \<open>key, nonce, ciphertext\<close>

text \<open>The \<open>n\<close>-th draw of the process's random source.\<close>

record rng =
  rnd_nonce :: "nat \<Rightarrow> bytes"
  rnd_uuid :: "nat \<Rightarrow> uuid"

section \<open>Errors\<close>

datatype crypto_error =
    CeArgon2 string
  | CeHkdf
  | CeAead
  | CeInvalidRecoveryCode string
  | CeInvalidKeyLength nat nat
  | CeInvalidNonceLength nat nat

datatype doc_error =
    DeLoro string
  | DeItemNotFound "nat list"
  | DeListNotFound "nat list"
  | DeCannotDeleteBuiltin "nat list"
  | DeCannotMoveBuiltin "nat list"
  | DeCannotRenameBuiltin "nat list"
  | DeNotBinned
  | DeInvalidNonce nat nat \<comment> \<open>\<open>Invalid("expected {n}-byte nonce, got {m}")\<close>\<close>
  | DeInvalid string
  | DeCrypto crypto_error
  | DePersistence string
  | DePersistenceEncode string

section \<open>Sealing under the DEK\<close>

type_synonym dek = bytes

definition AEAD_NONCE_LEN :: nat where
  "AEAD_NONCE_LEN = 24"

text \<open>\<open>r\<close> is the draw the nonce comes from; the caller advances it.\<close>

definition dek_seal :: "aead \<Rightarrow> rng \<Rightarrow> dek \<Rightarrow> nat \<Rightarrow> bytes \<Rightarrow> crypto_error + (bytes \<times> bytes)" where
  "dek_seal A R k r plaintext =
     (let n = rnd_nonce R r
      in case xchacha_encrypt A k n plaintext of
           None \<Rightarrow> Inl CeAead
         | Some ct \<Rightarrow> Inr (ct, n))"

definition dek_open :: "aead \<Rightarrow> dek \<Rightarrow> bytes \<Rightarrow> bytes \<Rightarrow> crypto_error + bytes" where
  "dek_open A k ct n =
     (if length n \<noteq> AEAD_NONCE_LEN then Inl (CeInvalidNonceLength AEAD_NONCE_LEN (length n))
      else case xchacha_decrypt A k n ct of
             None \<Rightarrow> Inl CeAead
           | Some pt \<Rightarrow> Inr pt)"

definition seal_blob :: "aead \<Rightarrow> rng \<Rightarrow> dek \<Rightarrow> nat \<Rightarrow> bytes \<Rightarrow> doc_error + encrypted_blob" where
  "seal_blob A R k r plaintext =
     (case dek_seal A R k r plaintext of
        Inl e \<Rightarrow> Inl (DeCrypto e)
      | Inr (ct, n) \<Rightarrow> Inr \<lparr>nonce = n, ciphertext = ct\<rparr>)"

section \<open>The doc and its capture cursor\<close>

record ('d, 'v) doc =
  inner :: 'd
  last_persisted_vv :: 'v

definition doc_empty_inner :: "('d, 'v) loro \<Rightarrow> 'd \<Rightarrow> ('d, 'v) doc" where
  "doc_empty_inner L d = \<lparr>inner = d, last_persisted_vv = loro_oplog_vv L d\<rparr>"

definition doc_empty :: "('d, 'v) loro \<Rightarrow> ('d, 'v) doc" where
  "doc_empty L = doc_empty_inner L (loro_new L)"

definition doc_empty_with_peer :: "('d, 'v) loro \<Rightarrow> u64 \<Rightarrow> doc_error + ('d, 'v) doc" where
  "doc_empty_with_peer L peer =
     (case loro_set_peer L peer (loro_new L) of
        Inl e \<Rightarrow> Inl (DeLoro e)
      | Inr d \<Rightarrow> Inr (doc_empty_inner L d))"

definition oplog_vv :: "('d, 'v) loro \<Rightarrow> ('d, 'v) doc \<Rightarrow> 'v" where
  "oplog_vv L d = loro_oplog_vv L (inner d)"

definition has_uncaptured_ops :: "('d, 'v) loro \<Rightarrow> ('d, 'v) doc \<Rightarrow> bool" where
  "has_uncaptured_ops L d \<longleftrightarrow> loro_oplog_vv L (inner d) \<noteq> last_persisted_vv d"

definition mark_persisted :: "('d, 'v) loro \<Rightarrow> ('d, 'v) doc \<Rightarrow> ('d, 'v) doc" where
  "mark_persisted L d =
     d\<lparr>last_persisted_vv := vv_merge L (last_persisted_vv d) (loro_oplog_vv L (inner d))\<rparr>"

definition mark_persisted_at :: "('d, 'v) loro \<Rightarrow> 'v \<Rightarrow> ('d, 'v) doc \<Rightarrow> ('d, 'v) doc" where
  "mark_persisted_at L vv d = d\<lparr>last_persisted_vv := vv_merge L (last_persisted_vv d) vv\<rparr>"

section \<open>Exports\<close>

definition export_snapshot_bytes :: "('d, 'v) loro \<Rightarrow> ('d, 'v) doc \<Rightarrow> doc_error + bytes" where
  "export_snapshot_bytes L d =
     (case loro_export_snapshot L (inner d) of Inl e \<Rightarrow> Inl (DeLoro e) | Inr b \<Rightarrow> Inr b)"

definition snapshot_blob ::
  "('d, 'v) loro \<Rightarrow> aead \<Rightarrow> rng \<Rightarrow> dek \<Rightarrow> nat \<Rightarrow> ('d, 'v) doc \<Rightarrow> doc_error + encrypted_blob" where
  "snapshot_blob L A R k r d =
     (case export_snapshot_bytes L d of
        Inl e \<Rightarrow> Inl e
      | Inr pt \<Rightarrow> seal_blob A R k r pt)"

definition pending_export ::
  "('d, 'v) loro \<Rightarrow> aead \<Rightarrow> rng \<Rightarrow> dek \<Rightarrow> nat \<Rightarrow> ('d, 'v) doc
     \<Rightarrow> doc_error + encrypted_blob option" where
  "pending_export L A R k r d =
     (if \<not> has_uncaptured_ops L d then Inr None
      else case loro_export_updates L (inner d) (last_persisted_vv d) of
             Inl e \<Rightarrow> Inl (DeLoro e)
           | Inr pt \<Rightarrow> (case seal_blob A R k r pt of Inl e \<Rightarrow> Inl e | Inr b \<Rightarrow> Inr (Some b)))"

definition export_updates_since ::
  "('d, 'v) loro \<Rightarrow> aead \<Rightarrow> rng \<Rightarrow> dek \<Rightarrow> nat \<Rightarrow> 'v \<Rightarrow> ('d, 'v) doc
     \<Rightarrow> doc_error + encrypted_blob option" where
  "export_updates_since L A R k r from d =
     (if vv_includes L from (loro_oplog_vv L (inner d)) then Inr None
      else case loro_export_updates L (inner d) from of
             Inl e \<Rightarrow> Inl (DeLoro e)
           | Inr pt \<Rightarrow>
               if pt = [] then Inr None
               else (case seal_blob A R k r pt of Inl e \<Rightarrow> Inl e | Inr b \<Rightarrow> Inr (Some b)))"

definition snapshot_blob_at ::
  "('d, 'v) loro \<Rightarrow> aead \<Rightarrow> rng \<Rightarrow> dek \<Rightarrow> nat \<Rightarrow> 'v \<Rightarrow> ('d, 'v) doc
     \<Rightarrow> doc_error + encrypted_blob" where
  "snapshot_blob_at L A R k r vv d =
     (case loro_fork_at L (inner d) (loro_vv_to_frontiers L (inner d) vv) of
        Inl e \<Rightarrow> Inl (DeLoro e)
      | Inr fork \<Rightarrow>
          (case loro_export_snapshot L fork of
             Inl e \<Rightarrow> Inl (DeLoro e)
           | Inr pt \<Rightarrow> seal_blob A R k r pt))"

definition delta_blob_between ::
  "('d, 'v) loro \<Rightarrow> aead \<Rightarrow> rng \<Rightarrow> dek \<Rightarrow> nat \<Rightarrow> 'v \<Rightarrow> 'v \<Rightarrow> ('d, 'v) doc
     \<Rightarrow> doc_error + encrypted_blob" where
  "delta_blob_between L A R k r from to d =
     (if \<not> vv_includes L to from
      then Inl (DeInvalid ''delta base is not included in the target frontier'')
      else case loro_export_range L (inner d) (vv_diff_forward L from to) of
             Inl e \<Rightarrow> Inl (DeLoro e)
           | Inr pt \<Rightarrow> seal_blob A R k r pt)"

definition export_updates_after :: "('d, 'v) loro \<Rightarrow> 'v \<Rightarrow> ('d, 'v) doc \<Rightarrow> doc_error + bytes" where
  "export_updates_after L from d =
     (if vv_includes L from (loro_oplog_vv L (inner d)) then Inr []
      else case loro_export_updates L (inner d) from of
             Inl e \<Rightarrow> Inl (DeLoro e)
           | Inr pt \<Rightarrow> Inr pt)"

definition export_updates_after_bytes ::
  "('d, 'v) loro \<Rightarrow> bytes \<Rightarrow> ('d, 'v) doc \<Rightarrow> doc_error + bytes" where
  "export_updates_after_bytes L from_vv_bytes d =
     (if from_vv_bytes = [] then export_updates_after L (vv_default L) d
      else case vv_decode L from_vv_bytes of
             Inl e \<Rightarrow> Inl (DeLoro e)
           | Inr vv \<Rightarrow> export_updates_after L vv d)"

section \<open>Imports\<close>

text \<open>
  An import reports its result beside the doc it leaves behind: a batch that fails half-way
  has already applied its earlier blobs.
\<close>

definition import_remote_blob ::
  "('d, 'v) loro \<Rightarrow> aead \<Rightarrow> dek \<Rightarrow> encrypted_blob \<Rightarrow> ('d, 'v) doc
     \<Rightarrow> (doc_error + 'v) \<times> ('d, 'v) doc" where
  "import_remote_blob L A k b d =
     (if length (nonce b) \<noteq> AEAD_NONCE_LEN
      then (Inl (DeInvalidNonce AEAD_NONCE_LEN (length (nonce b))), d)
      else case dek_open A k (ciphertext b) (nonce b) of
             Inl e \<Rightarrow> (Inl (DeCrypto e), d)
           | Inr pt \<Rightarrow>
               (case loro_blob_end_vv L pt of
                  Inl e \<Rightarrow> (Inl (DeLoro e), d)
                | Inr end_vv \<Rightarrow>
                    (case loro_import_with L (inner d) pt ''remote'' of
                       (Inl e, d') \<Rightarrow> (Inl (DeLoro e), d\<lparr>inner := d'\<rparr>)
                     | (Inr _, d') \<Rightarrow>
                         (Inr end_vv,
                          d\<lparr>inner := d', last_persisted_vv := vv_merge L (last_persisted_vv d) end_vv\<rparr>))))"

fun import_blobs ::
  "('d, 'v) loro \<Rightarrow> aead \<Rightarrow> dek \<Rightarrow> 'v \<Rightarrow> encrypted_blob list \<Rightarrow> ('d, 'v) doc
     \<Rightarrow> (doc_error + 'v) \<times> ('d, 'v) doc" where
  "import_blobs L A k imported [] d = (Inr imported, d)"
| "import_blobs L A k imported (b # bs) d =
     (case import_remote_blob L A k b d of
        (Inl e, d') \<Rightarrow> (Inl e, d')
      | (Inr vv, d') \<Rightarrow> import_blobs L A k (vv_merge L imported vv) bs d')"

definition apply_remote_batch ::
  "('d, 'v) loro \<Rightarrow> aead \<Rightarrow> dek \<Rightarrow> encrypted_blob list \<Rightarrow> ('d, 'v) doc
     \<Rightarrow> (doc_error + 'v) \<times> ('d, 'v) doc" where
  "apply_remote_batch L A k bs d = import_blobs L A k (vv_default L) bs d"

definition apply_remote ::
  "('d, 'v) loro \<Rightarrow> aead \<Rightarrow> dek \<Rightarrow> encrypted_blob \<Rightarrow> ('d, 'v) doc
     \<Rightarrow> (doc_error + 'v) \<times> ('d, 'v) doc" where
  "apply_remote L A k b d = apply_remote_batch L A k [b] d"

definition import_mirror_update ::
  "('d, 'v) loro \<Rightarrow> bytes \<Rightarrow> ('d, 'v) doc \<Rightarrow> (doc_error + 'v) \<times> ('d, 'v) doc" where
  "import_mirror_update L b d =
     (case loro_blob_end_vv L b of
        Inl e \<Rightarrow> (Inl (DeLoro e), d)
      | Inr end_vv \<Rightarrow>
          (case loro_import_with L (inner d) b ''mirror'' of
             (Inl e, d') \<Rightarrow> (Inl (DeLoro e), d\<lparr>inner := d'\<rparr>)
           | (Inr _, d') \<Rightarrow> (Inr end_vv, d\<lparr>inner := d'\<rparr>)))"

definition import_host_update ::
  "('d, 'v) loro \<Rightarrow> bytes \<Rightarrow> ('d, 'v) doc \<Rightarrow> (doc_error + 'v) \<times> ('d, 'v) doc" where
  "import_host_update L b d =
     (case loro_blob_end_vv L b of
        Inl e \<Rightarrow> (Inl (DeLoro e), d)
      | Inr end_vv \<Rightarrow>
          (case loro_import_with L (inner d) b ''remote'' of
             (Inl e, d') \<Rightarrow> (Inl (DeLoro e), d\<lparr>inner := d'\<rparr>)
           | (Inr _, d') \<Rightarrow>
               (Inr end_vv,
                d\<lparr>inner := d', last_persisted_vv := vv_merge L (last_persisted_vv d) end_vv\<rparr>)))"

end
