(* ===== verification/Storage.thy ===== *)
theory Storage
  imports Doc_Stream
begin

text \<open>
  \<open>core/src/storage.rs\<close>: the row types, the \<open>LocalStorage\<close> trait, the glue that boots a doc
  from a storage, and \<open>MemStorage\<close>, the in-memory implementation, which is also the
  reference the sqlite implementation is proved against.

  The trait is the record \<open>storage_api\<close> (the method table a \<open>dyn LocalStorage\<close> carries);
  what it promises is the locale \<open>local_storage\<close>, and \<open>reliable_storage\<close> for an
  implementation whose calls also succeed.
\<close>

section \<open>Rows\<close>

record remote_wal_row =
  rr_server_seq :: u64
  rr_payload :: encrypted_blob

record wal_row =
  wr_local_seq :: u64
  wr_payload :: encrypted_blob

record snapshot_row =
  up_to_local_seq :: u64
  sr_payload :: encrypted_blob

record in_flight_push =
  if_push_id :: uuid
  if_payload :: encrypted_blob
  if_from_vv :: bytes
  if_to_vv :: bytes

record boot_state =
  bs_snapshot :: "snapshot_row option"
  bs_replay :: "wal_row list"
  bs_last_local_seq :: u64
  bs_last_acked_server_seq :: u64
  bs_server_known_vv :: bytes
  bs_in_flight_push :: "in_flight_push option"
  bs_wal_bytes :: u64

record boot_meta =
  bm_last_local_seq :: u64
  bm_last_acked_server_seq :: u64
  bm_server_known_vv :: bytes
  bm_in_flight_push :: "in_flight_push option"
  bm_wal_rows :: u64
  bm_wal_bytes :: u64

definition boot_state_meta :: "boot_state \<Rightarrow> boot_meta" where
  "boot_state_meta b =
     \<lparr>bm_last_local_seq = bs_last_local_seq b,
      bm_last_acked_server_seq = bs_last_acked_server_seq b,
      bm_server_known_vv = bs_server_known_vv b,
      bm_in_flight_push = bs_in_flight_push b,
      bm_wal_rows = of_nat (length (bs_replay b)),
      bm_wal_bytes = bs_wal_bytes b\<rparr>"

section \<open>Errors\<close>

text \<open>
  \<open>StorageError::Backend\<close> carries a formatted message; its constructors here are the
  messages the code formats, with the arguments they carry.
\<close>

datatype storage_error =
    SeSql string
  | SeInvalidUuid string
  | SePendingExport doc_error
  | SeSnapshotBlob doc_error
  | SeDecodeServerKnownVv string
  | SeDocNotFound uuid

datatype boot_error =
    BeStorage storage_error
  | BeDoc doc_error

section \<open>The trait\<close>

type_synonym ('s, 'a) sop = "'s \<Rightarrow> (storage_error + 'a) \<times> 's"

record 's storage_api =
  st_boot :: "uuid \<Rightarrow> ('s, boot_state) sop"
  st_append_local_wal :: "uuid \<Rightarrow> encrypted_blob \<Rightarrow> ('s, u64) sop"
  st_append_remote_wal :: "uuid \<Rightarrow> remote_wal_row \<Rightarrow> bytes \<Rightarrow> ('s, u64 \<times> bool) sop"
  st_write_snapshot :: "uuid \<Rightarrow> u64 \<Rightarrow> encrypted_blob \<Rightarrow> ('s, unit) sop"
  st_write_acked_seq :: "uuid \<Rightarrow> u64 \<Rightarrow> ('s, unit) sop"
  st_write_server_known_vv :: "uuid \<Rightarrow> bytes \<Rightarrow> ('s, unit) sop"
  st_put_in_flight_push :: "uuid \<Rightarrow> in_flight_push \<Rightarrow> ('s, unit) sop"
  st_complete_push :: "uuid \<Rightarrow> uuid \<Rightarrow> bytes \<Rightarrow> ('s, unit) sop"

section \<open>Boot, seed, load\<close>

definition boot_blobs :: "boot_state \<Rightarrow> encrypted_blob list" where
  "boot_blobs b =
     (case bs_snapshot b of None \<Rightarrow> [] | Some snap \<Rightarrow> [sr_payload snap])
       @ map wr_payload (bs_replay b)"

definition boot_doc ::
  "('d, 'v) loro \<Rightarrow> aead \<Rightarrow> 's storage_api \<Rightarrow> dek \<Rightarrow> uuid \<Rightarrow> u64 option \<Rightarrow> 's
     \<Rightarrow> (boot_error + (('d, 'v) doc \<times> boot_meta)) \<times> 's" where
  "boot_doc L A St k doc_id peer_id s =
     (case st_boot St doc_id s of
        (Inl e, s') \<Rightarrow> (Inl (BeStorage e), s')
      | (Inr boot, s') \<Rightarrow>
          (case (case peer_id of
                   Some peer \<Rightarrow> doc_empty_with_peer L peer
                 | None \<Rightarrow> Inr (doc_empty L)) of
             Inl e \<Rightarrow> (Inl (BeDoc e), s')
           | Inr doc \<Rightarrow>
               (if boot_blobs boot = [] then (Inr (doc, boot_state_meta boot), s')
                else case apply_remote_batch L A k (boot_blobs boot) doc of
                       (Inl e, _) \<Rightarrow> (Inl (BeDoc e), s')
                     | (Inr _, doc') \<Rightarrow> (Inr (doc', boot_state_meta boot), s'))))"

definition load_doc ::
  "('d, 'v) loro \<Rightarrow> aead \<Rightarrow> 's storage_api \<Rightarrow> dek \<Rightarrow> uuid \<Rightarrow> 's
     \<Rightarrow> (boot_error + ('d, 'v) doc) \<times> 's" where
  "load_doc L A St k doc_id s =
     (case boot_doc L A St k doc_id None s of
        (Inl e, s') \<Rightarrow> (Inl e, s')
      | (Inr (doc, _), s') \<Rightarrow> (Inr doc, s'))"

definition has_unsynced_ops ::
  "('d, 'v) loro \<Rightarrow> aead \<Rightarrow> 's storage_api \<Rightarrow> dek \<Rightarrow> uuid \<Rightarrow> 's
     \<Rightarrow> (boot_error + bool) \<times> 's" where
  "has_unsynced_ops L A St k doc_id s =
     (case boot_doc L A St k doc_id None s of
        (Inl e, s') \<Rightarrow> (Inl e, s')
      | (Inr (doc, meta), s') \<Rightarrow>
          (if bm_in_flight_push meta \<noteq> None then (Inr True, s')
           else case (if bm_server_known_vv meta = [] then Inr (vv_default L)
                      else vv_decode L (bm_server_known_vv meta)) of
                  Inl e \<Rightarrow> (Inl (BeStorage (SeDecodeServerKnownVv e)), s')
                | Inr known \<Rightarrow> (Inr (\<not> vv_includes L known (oplog_vv L doc)), s')))"

definition seed_snapshot ::
  "('d, 'v) loro \<Rightarrow> aead \<Rightarrow> rng \<Rightarrow> 's storage_api \<Rightarrow> dek \<Rightarrow> nat \<Rightarrow> uuid \<Rightarrow> ('d, 'v) doc \<Rightarrow> 's
     \<Rightarrow> (boot_error + unit) \<times> 's" where
  "seed_snapshot L A R St k r doc_id doc s =
     (case snapshot_blob L A R k r doc of
        Inl e \<Rightarrow> (Inl (BeDoc e), s)
      | Inr blob \<Rightarrow>
          (case st_write_snapshot St doc_id 0 blob s of
             (Inl e, s') \<Rightarrow> (Inl (BeStorage e), s')
           | (Inr _, s') \<Rightarrow> (Inr (), s')))"

section \<open>MemStorage\<close>

record mem_wal_row =
  mw_local_seq :: u64
  mw_server_seq :: "u64 option"
  mw_payload :: encrypted_blob

record mem_inner =
  next_local_seq :: u64
  mi_snapshot :: "snapshot_row option"
  mi_wal :: "mem_wal_row list"
  mi_last_acked_server_seq :: u64
  mi_server_known_vv :: bytes
  mi_in_flight :: "in_flight_push option"

definition mem_new :: mem_inner where
  "mem_new =
     \<lparr>next_local_seq = 0, mi_snapshot = None, mi_wal = [], mi_last_acked_server_seq = 0,
      mi_server_known_vv = [], mi_in_flight = None\<rparr>"

definition mem_boot_state :: "mem_inner \<Rightarrow> boot_state" where
  "mem_boot_state m =
     \<lparr>bs_snapshot = mi_snapshot m,
      bs_replay = map (\<lambda>r. \<lparr>wr_local_seq = mw_local_seq r, wr_payload = mw_payload r\<rparr>) (mi_wal m),
      bs_last_local_seq = next_local_seq m,
      bs_last_acked_server_seq = mi_last_acked_server_seq m,
      bs_server_known_vv = mi_server_known_vv m,
      bs_in_flight_push = mi_in_flight m,
      bs_wal_bytes = sum_list (map (\<lambda>r. blob_len (mw_payload r)) (mi_wal m))\<rparr>"

definition mem_boot :: "uuid \<Rightarrow> (mem_inner, boot_state) sop" where
  "mem_boot _ m = (Inr (mem_boot_state m), m)"

definition mem_append_local_wal :: "uuid \<Rightarrow> encrypted_blob \<Rightarrow> (mem_inner, u64) sop" where
  "mem_append_local_wal _ b m =
     (let n = next_local_seq m + 1
      in (Inr n,
          m\<lparr>next_local_seq := n,
            mi_wal := mi_wal m @ [\<lparr>mw_local_seq = n, mw_server_seq = None, mw_payload = b\<rparr>]\<rparr>))"

definition mem_append_remote_wal ::
  "uuid \<Rightarrow> remote_wal_row \<Rightarrow> bytes \<Rightarrow> (mem_inner, u64 \<times> bool) sop" where
  "mem_append_remote_wal _ row vv m0 =
     (let m = m0\<lparr>mi_server_known_vv := vv\<rparr>
      in case find (\<lambda>r. mw_server_seq r = Some (rr_server_seq row)) (mi_wal m) of
           Some existing \<Rightarrow> (Inr (mw_local_seq existing, False), m)
         | None \<Rightarrow>
             (let n = next_local_seq m + 1
              in (Inr (n, True),
                  m\<lparr>next_local_seq := n,
                    mi_wal := mi_wal m @
                      [\<lparr>mw_local_seq = n, mw_server_seq = Some (rr_server_seq row),
                        mw_payload = rr_payload row\<rparr>]\<rparr>)))"

definition mem_write_snapshot :: "uuid \<Rightarrow> u64 \<Rightarrow> encrypted_blob \<Rightarrow> (mem_inner, unit) sop" where
  "mem_write_snapshot _ cutoff b m =
     (Inr (),
      m\<lparr>mi_snapshot := Some \<lparr>up_to_local_seq = next_local_seq m, sr_payload = b\<rparr>,
        mi_wal := filter (\<lambda>r. mw_local_seq r > cutoff) (mi_wal m)\<rparr>)"

definition mem_write_acked_seq :: "uuid \<Rightarrow> u64 \<Rightarrow> (mem_inner, unit) sop" where
  "mem_write_acked_seq _ n m = (Inr (), m\<lparr>mi_last_acked_server_seq := n\<rparr>)"

definition mem_write_server_known_vv :: "uuid \<Rightarrow> bytes \<Rightarrow> (mem_inner, unit) sop" where
  "mem_write_server_known_vv _ vv m = (Inr (), m\<lparr>mi_server_known_vv := vv\<rparr>)"

definition mem_put_in_flight_push :: "uuid \<Rightarrow> in_flight_push \<Rightarrow> (mem_inner, unit) sop" where
  "mem_put_in_flight_push _ p m = (Inr (), m\<lparr>mi_in_flight := Some p\<rparr>)"

definition mem_complete_push :: "uuid \<Rightarrow> uuid \<Rightarrow> bytes \<Rightarrow> (mem_inner, unit) sop" where
  "mem_complete_push _ pid vv m0 =
     (let m = m0\<lparr>mi_server_known_vv := vv\<rparr>
      in (Inr (),
          if map_option if_push_id (mi_in_flight m) = Some pid then m\<lparr>mi_in_flight := None\<rparr>
          else m))"

definition mem_api :: "mem_inner storage_api" where
  "mem_api =
     \<lparr>st_boot = mem_boot,
      st_append_local_wal = mem_append_local_wal,
      st_append_remote_wal = mem_append_remote_wal,
      st_write_snapshot = mem_write_snapshot,
      st_write_acked_seq = mem_write_acked_seq,
      st_write_server_known_vv = mem_write_server_known_vv,
      st_put_in_flight_push = mem_put_in_flight_push,
      st_complete_push = mem_complete_push\<rparr>"

section \<open>The contract of the trait\<close>

text \<open>
  A storage is described by a view of its state as a \<^typ>\<open>mem_inner\<close>. A call that succeeds
  acts on the view as the reference does; a call that fails leaves the view alone. Local
  counters are below \<open>2^62\<close>, so that neither the \<open>u64\<close> nor the \<open>i64\<close> column wraps.
\<close>

definition fits :: "mem_inner \<Rightarrow> bool" where
  "fits m \<longleftrightarrow> next_local_seq m < 2 ^ 62"

definition refines_op ::
  "('s \<Rightarrow> mem_inner) \<Rightarrow> ('s \<Rightarrow> bool) \<Rightarrow> ('s, 'a) sop \<Rightarrow> (mem_inner, 'a) sop \<Rightarrow> bool" where
  "refines_op view sinv f g \<longleftrightarrow>
     (\<forall>s. sinv s \<longrightarrow> fits (view s) \<longrightarrow>
        (case f s of
           (Inl e, s') \<Rightarrow> view s' = view s \<and> sinv s'
         | (Inr x, s') \<Rightarrow> g (view s) = (Inr x, view s') \<and> sinv s'))"

definition succeeds_op ::
  "('s \<Rightarrow> mem_inner) \<Rightarrow> ('s \<Rightarrow> bool) \<Rightarrow> ('s, 'a) sop \<Rightarrow> bool" where
  "succeeds_op view sinv f \<longleftrightarrow>
     (\<forall>s. sinv s \<longrightarrow> fits (view s) \<longrightarrow> (\<exists>x s'. f s = (Inr x, s')))"

lemma refines_opI:
  assumes "\<And>s e s'. sinv s \<Longrightarrow> fits (view s) \<Longrightarrow> f s = (Inl e, s') \<Longrightarrow> view s' = view s \<and> sinv s'"
    and "\<And>s x s'. sinv s \<Longrightarrow> fits (view s) \<Longrightarrow> f s = (Inr x, s') \<Longrightarrow>
           g (view s) = (Inr x, view s') \<and> sinv s'"
  shows "refines_op view sinv f g"
  unfolding refines_op_def
proof (intro allI impI)
  fix s
  assume s: "sinv s" "fits (view s)"
  obtain r s' where f: "f s = (r, s')" by (cases "f s")
  show "case f s of (Inl e, s') \<Rightarrow> view s' = view s \<and> sinv s'
    | (Inr x, s') \<Rightarrow> g (view s) = (Inr x, view s') \<and> sinv s'"
    using assms(1) [OF s] assms(2) [OF s] f by (cases r) simp_all
qed

lemma refines_op_ok:
  "refines_op view sinv f g \<Longrightarrow> sinv s \<Longrightarrow> fits (view s) \<Longrightarrow> f s = (Inr x, s') \<Longrightarrow>
     g (view s) = (Inr x, view s') \<and> sinv s'"
  by (fastforce simp: refines_op_def)

lemma refines_op_err:
  "refines_op view sinv f g \<Longrightarrow> sinv s \<Longrightarrow> fits (view s) \<Longrightarrow> f s = (Inl e, s') \<Longrightarrow>
     view s' = view s \<and> sinv s'"
  by (fastforce simp: refines_op_def)

locale local_storage =
  fixes St :: "'s storage_api"
    and did :: uuid
    and view :: "'s \<Rightarrow> mem_inner"
    and sinv :: "'s \<Rightarrow> bool"
  assumes boot_refines: "refines_op view sinv (st_boot St did) (mem_boot did)"
    and append_local_refines:
      "refines_op view sinv (st_append_local_wal St did b) (mem_append_local_wal did b)"
    and append_remote_refines:
      "refines_op view sinv (st_append_remote_wal St did row vv) (mem_append_remote_wal did row vv)"
    and write_snapshot_refines:
      "cutoff < 2 ^ 63 \<Longrightarrow>
         refines_op view sinv (st_write_snapshot St did cutoff b) (mem_write_snapshot did cutoff b)"
    and write_acked_refines:
      "refines_op view sinv (st_write_acked_seq St did n) (mem_write_acked_seq did n)"
    and write_vv_refines:
      "refines_op view sinv (st_write_server_known_vv St did vv) (mem_write_server_known_vv did vv)"
    and put_in_flight_refines:
      "refines_op view sinv (st_put_in_flight_push St did p) (mem_put_in_flight_push did p)"
    and complete_push_refines:
      "refines_op view sinv (st_complete_push St did pid vv) (mem_complete_push did pid vv)"

locale reliable_storage = local_storage +
  assumes boot_succeeds: "succeeds_op view sinv (st_boot St did)"
    and append_local_succeeds: "succeeds_op view sinv (st_append_local_wal St did b)"
    and append_remote_succeeds: "succeeds_op view sinv (st_append_remote_wal St did row vv)"
    and write_snapshot_succeeds:
      "cutoff < 2 ^ 63 \<Longrightarrow> succeeds_op view sinv (st_write_snapshot St did cutoff b)"
    and write_acked_succeeds: "succeeds_op view sinv (st_write_acked_seq St did n)"
    and write_vv_succeeds: "succeeds_op view sinv (st_write_server_known_vv St did vv)"
    and put_in_flight_succeeds: "succeeds_op view sinv (st_put_in_flight_push St did p)"
    and complete_push_succeeds: "succeeds_op view sinv (st_complete_push St did pid vv)"

lemmas mem_op_defs =
  mem_boot_def mem_append_local_wal_def mem_append_remote_wal_def mem_write_snapshot_def
  mem_write_acked_seq_def mem_write_server_known_vv_def mem_put_in_flight_push_def
  mem_complete_push_def

interpretation mem: reliable_storage mem_api did id "\<lambda>_. True"
  by unfold_locales
    (auto simp: refines_op_def succeeds_op_def mem_api_def mem_op_defs Let_def split: option.splits)

section \<open>The invariant of the reference\<close>

text \<open>
  WAL rows carry strictly increasing local seqs up to the counter, a server seq occurs once,
  and the snapshot's recorded high-water is no later than the counter.
\<close>

definition mem_inv :: "mem_inner \<Rightarrow> bool" where
  "mem_inv m \<longleftrightarrow>
     sorted_wrt (<) (map mw_local_seq (mi_wal m)) \<and>
     (\<forall>r \<in> set (mi_wal m). mw_local_seq r \<le> next_local_seq m) \<and>
     distinct (List.map_filter mw_server_seq (mi_wal m)) \<and>
     (\<forall>sn. mi_snapshot m = Some sn \<longrightarrow> up_to_local_seq sn \<le> next_local_seq m)"

lemma fits_inc_less: "fits m \<Longrightarrow> next_local_seq m < next_local_seq m + 1"
  by (rule u64_less_inc) (auto simp: fits_def)

lemma map_filter_append1:
  "List.map_filter f (xs @ [x]) = List.map_filter f xs @ (case f x of None \<Rightarrow> [] | Some y \<Rightarrow> [y])"
  by (auto simp: List.map_filter_def split: option.splits)

lemma in_map_filter: "y \<in> set (List.map_filter f xs) \<longleftrightarrow> (\<exists>x \<in> set xs. f x = Some y)"
  by (force simp: List.map_filter_def)

lemma distinct_map_filter_filter:
  "distinct (List.map_filter f xs) \<Longrightarrow> distinct (List.map_filter f (filter P xs))"
  by (induction xs) (auto simp: List.map_filter_simps in_map_filter split: option.splits)

lemma mem_inv_append:
  assumes "mem_inv m" "fits m"
    and fresh: "case ss of None \<Rightarrow> True | Some n \<Rightarrow> n \<notin> set (List.map_filter mw_server_seq (mi_wal m))"
  shows "mem_inv (m\<lparr>next_local_seq := next_local_seq m + 1,
      mi_wal := mi_wal m @
        [\<lparr>mw_local_seq = next_local_seq m + 1, mw_server_seq = ss, mw_payload = b\<rparr>]\<rparr>)"
proof -
  note less = fits_inc_less [OF assms(2)]
  have lt: "\<forall>r \<in> set (mi_wal m). mw_local_seq r < next_local_seq m + 1"
    using assms(1) less by (auto simp: mem_inv_def intro: le_less_trans)
  have "\<forall>sn. mi_snapshot m = Some sn \<longrightarrow> up_to_local_seq sn \<le> next_local_seq m + 1"
    using assms(1) less by (auto simp: mem_inv_def intro: order_trans less_imp_le)
  with assms(1) fresh lt show ?thesis
    by (auto simp: mem_inv_def sorted_wrt_append map_filter_append1 less_imp_le split: option.splits)
qed

lemma find_server_seq_None:
  "find (\<lambda>r. mw_server_seq r = Some n) rs = None \<longleftrightarrow>
     n \<notin> set (List.map_filter mw_server_seq rs)"
  by (auto simp: find_None_iff in_map_filter)

lemma sorted_wrt_map_filter:
  "sorted_wrt R (map f xs) \<Longrightarrow> sorted_wrt R (map f (filter P xs))"
  by (induction xs) auto

lemma mem_inv_prune:
  assumes "mem_inv m"
  shows "mem_inv (m\<lparr>mi_snapshot := Some \<lparr>up_to_local_seq = next_local_seq m, sr_payload = b\<rparr>,
      mi_wal := filter P (mi_wal m)\<rparr>)"
  using assms
  by (auto simp: mem_inv_def sorted_wrt_map_filter distinct_map_filter_filter)

lemma mem_inv_append_remote:
  assumes "mem_inv m" "fits m"
  shows "mem_inv (snd (mem_append_remote_wal d row vv m))"
proof -
  have inv': "mem_inv (m\<lparr>mi_server_known_vv := vv\<rparr>)" "fits (m\<lparr>mi_server_known_vv := vv\<rparr>)"
    using assms by (simp_all add: mem_inv_def fits_def)
  show ?thesis
  proof (cases "find (\<lambda>r. mw_server_seq r = Some (rr_server_seq row)) (mi_wal m)")
    case None
    then have "rr_server_seq row \<notin> set (List.map_filter mw_server_seq (mi_wal m))"
      by (rule find_server_seq_None [THEN iffD1])
    with None show ?thesis
      using mem_inv_append [OF inv', of "Some (rr_server_seq row)" "rr_payload row"]
      by (simp add: mem_append_remote_wal_def Let_def)
  next
    case (Some a)
    with inv' show ?thesis by (simp add: mem_append_remote_wal_def Let_def)
  qed
qed

section \<open>Sequences of calls\<close>

datatype storage_call =
    CBoot
  | CAppendLocal encrypted_blob
  | CAppendRemote remote_wal_row bytes
  | CWriteSnapshot u64 encrypted_blob
  | CWriteAcked u64
  | CWriteVv bytes
  | CPutInFlight in_flight_push
  | CCompletePush uuid bytes

definition outcome :: "(storage_error + 'a) \<times> 's \<Rightarrow> storage_error option \<times> 's" where
  "outcome r = (case r of (Inl e, s) \<Rightarrow> (Some e, s) | (Inr _, s) \<Rightarrow> (None, s))"

fun run_call :: "'s storage_api \<Rightarrow> uuid \<Rightarrow> storage_call \<Rightarrow> 's \<Rightarrow> storage_error option \<times> 's" where
  "run_call St d CBoot s = outcome (st_boot St d s)"
| "run_call St d (CAppendLocal b) s = outcome (st_append_local_wal St d b s)"
| "run_call St d (CAppendRemote row vv) s = outcome (st_append_remote_wal St d row vv s)"
| "run_call St d (CWriteSnapshot cutoff b) s = outcome (st_write_snapshot St d cutoff b s)"
| "run_call St d (CWriteAcked n) s = outcome (st_write_acked_seq St d n s)"
| "run_call St d (CWriteVv vv) s = outcome (st_write_server_known_vv St d vv s)"
| "run_call St d (CPutInFlight p) s = outcome (st_put_in_flight_push St d p s)"
| "run_call St d (CCompletePush pid vv) s = outcome (st_complete_push St d pid vv s)"

fun run_calls :: "'s storage_api \<Rightarrow> uuid \<Rightarrow> storage_call list \<Rightarrow> 's \<Rightarrow> 's" where
  "run_calls St d [] s = s"
| "run_calls St d (c # cs) s = run_calls St d cs (snd (run_call St d c s))"

lemma snd_outcome [simp]: "snd (outcome r) = snd r"
  by (auto simp: outcome_def split: prod.splits sum.splits)

fun call_ok :: "storage_call \<Rightarrow> bool" where
  "call_ok (CWriteSnapshot cutoff _) \<longleftrightarrow> cutoff < 2 ^ 63"
| "call_ok _ \<longleftrightarrow> True"

lemma fits_iff_unat: "fits m \<longleftrightarrow> unat (next_local_seq m) < 2 ^ 62"
  by (simp add: fits_def word_less_nat_alt)

lemma unat_inc_le: "unat (n + 1 :: u64) \<le> Suc (unat n)"
proof -
  have "unat (n + 1) = Suc (unat n) mod 2 ^ 64"
    by (simp add: unat_word_ariths)
  then show ?thesis
    by (simp add: mod_less_eq_dividend)
qed

lemma mem_run_call_inv:
  assumes "mem_inv m" "fits m"
  shows "mem_inv (snd (run_call mem_api d c m))"
proof (cases c)
  case (CAppendLocal b)
  then show ?thesis
    using mem_inv_append [OF assms, of None b]
    by (simp add: mem_api_def mem_append_local_wal_def Let_def)
next
  case (CAppendRemote row vv)
  then show ?thesis
    using mem_inv_append_remote [OF assms] by (simp add: mem_api_def)
next
  case (CWriteSnapshot cutoff b)
  then show ?thesis
    using mem_inv_prune [OF assms(1)] by (simp add: mem_api_def mem_write_snapshot_def)
qed (use assms in \<open>simp_all add: mem_api_def mem_op_defs mem_inv_def Let_def\<close>)

lemma mem_run_call_counter:
  "unat (next_local_seq (snd (run_call mem_api d c m))) \<le> Suc (unat (next_local_seq m))"
  by (cases c)
    (auto simp: mem_api_def mem_op_defs Let_def unat_inc_le split: option.splits)

lemma run_call_refines:
  assumes "refines_op view sinv f g" "sinv s" "fits (view s)"
    and "outcome (f s) = (r, s')"
  shows "sinv s' \<and> (if r = None then view s' = snd (g (view s)) \<and> outcome (g (view s)) = (None, view s')
         else view s' = view s)"
proof (cases "f s")
  case (Pair x s1)
  then show ?thesis
    using assms(4) refines_op_ok [OF assms(1-3)] refines_op_err [OF assms(1-3)]
    by (cases x) (auto simp: outcome_def)
qed

context local_storage
begin

text \<open>
  Any call on an implementation of the trait either acts on the view as the reference does or
  fails and leaves the view unchanged.
\<close>

lemma run_call_view:
  assumes "sinv s" "fits (view s)" "call_ok c" "run_call St did c s = (r, s')"
  shows "sinv s' \<and> (if r = None then run_call mem_api did c (view s) = (None, view s')
         else view s' = view s)"
proof (cases c)
  case CBoot
  then show ?thesis
    using run_call_refines [OF boot_refines assms(1,2), of r s'] assms(3,4)
    by (auto simp: mem_api_def split: if_splits)
next
  case (CAppendLocal b)
  then show ?thesis
    using run_call_refines [OF append_local_refines assms(1,2)] assms(3,4)
    by (auto simp: mem_api_def split: if_splits)
next
  case (CAppendRemote row vv)
  then show ?thesis
    using run_call_refines [OF append_remote_refines assms(1,2)] assms(3,4)
    by (auto simp: mem_api_def split: if_splits)
next
  case (CWriteSnapshot cutoff b)
  then show ?thesis
    using run_call_refines [OF write_snapshot_refines assms(1,2)] assms(3,4)
    by (auto simp: mem_api_def split: if_splits)
next
  case (CWriteAcked n)
  then show ?thesis
    using run_call_refines [OF write_acked_refines assms(1,2)] assms(3,4)
    by (auto simp: mem_api_def split: if_splits)
next
  case (CWriteVv vv)
  then show ?thesis
    using run_call_refines [OF write_vv_refines assms(1,2)] assms(3,4)
    by (auto simp: mem_api_def split: if_splits)
next
  case (CPutInFlight p)
  then show ?thesis
    using run_call_refines [OF put_in_flight_refines assms(1,2)] assms(3,4)
    by (auto simp: mem_api_def split: if_splits)
next
  case (CCompletePush pid vv)
  then show ?thesis
    using run_call_refines [OF complete_push_refines assms(1,2)] assms(3,4)
    by (auto simp: mem_api_def split: if_splits)
qed

end

lemma outcome_succeeds:
  "succeeds_op view sinv f \<Longrightarrow> sinv s \<Longrightarrow> fits (view s) \<Longrightarrow> fst (outcome (f s)) = None"
  by (auto simp: succeeds_op_def outcome_def split: prod.splits sum.splits)

context reliable_storage
begin

lemma run_call_succeeds:
  "sinv s \<Longrightarrow> fits (view s) \<Longrightarrow> call_ok c \<Longrightarrow> fst (run_call St did c s) = None"
  by (cases c)
    (simp_all add: outcome_succeeds [OF boot_succeeds] outcome_succeeds [OF append_local_succeeds]
      outcome_succeeds [OF append_remote_succeeds] outcome_succeeds [OF write_snapshot_succeeds]
      outcome_succeeds [OF write_acked_succeeds] outcome_succeeds [OF write_vv_succeeds]
      outcome_succeeds [OF put_in_flight_succeeds] outcome_succeeds [OF complete_push_succeeds])

lemma run_calls_view:
  assumes "sinv s" "list_all call_ok cs" "unat (next_local_seq (view s)) + length cs < 2 ^ 62"
  shows "sinv (run_calls St did cs s) \<and> view (run_calls St did cs s) = run_calls mem_api did cs (view s)"
  using assms
proof (induction cs arbitrary: s)
  case Nil
  then show ?case by simp
next
  case (Cons c cs)
  obtain r s' where s': "run_call St did c s = (r, s')" by (cases "run_call St did c s")
  have fit: "fits (view s)" using Cons.prems(3) by (simp add: fits_iff_unat)
  have "r = None"
    using run_call_succeeds [OF Cons.prems(1) fit, of c] Cons.prems(2) s' by simp
  with run_call_view [OF Cons.prems(1) fit _ s'] Cons.prems(2)
  have v: "sinv s'" "view s' = snd (run_call mem_api did c (view s))" by simp_all
  have "unat (next_local_seq (view s')) + length cs < 2 ^ 62"
    using Cons.prems(3) mem_run_call_counter [of did c "view s"] v(2) by simp
  with Cons.IH [OF v(1)] Cons.prems(2) s' v(2) show ?case by simp
qed

end

lemma mem_run_calls_inv:
  assumes "mem_inv m" and "unat (next_local_seq m) + length cs < 2 ^ 62"
  shows "mem_inv (run_calls mem_api d cs m)"
  using assms
proof (induction cs arbitrary: m)
  case Nil
  then show ?case by simp
next
  case (Cons c cs)
  have "mem_inv (snd (run_call mem_api d c m))"
    using Cons.prems by (intro mem_run_call_inv) (auto simp: fits_iff_unat)
  moreover have "unat (next_local_seq (snd (run_call mem_api d c m))) + length cs < 2 ^ 62"
    using Cons.prems(2) mem_run_call_counter [of d c m] by simp
  ultimately show ?case
    using Cons.IH by simp
qed

end
