(* ===== verification/Sqlite_Storage.thy ===== *)
theory Sqlite_Storage
  imports Storage
begin

text \<open>
  \<open>crates/storage-sqlite/src/lib.rs\<close>: the native \<open>LocalStorage\<close>. The tables are the ones of
  \<open>migrations/001_init.sql\<close> less their time stamps; an \<open>INTEGER\<close> column is an
  \<^typ>\<open>int\<close> that the code reaches through \<open>as i64\<close> and \<open>as u64\<close>. Each SQL
  statement may fail: the environment's choice is the list \<open>sq_faults\<close>, one entry per
  statement executed (an exhausted list means no further fault). A transaction that does not
  commit leaves the tables as they were.

  The theory shows that the eight methods implement the reference of \<open>Storage\<close>, through
  the locale \<open>local_storage\<close>, and that a fault never leaves a half-written state.
\<close>

section \<open>Tables\<close>

record sq_doc =
  sd_last_acked :: int
  sd_server_known_vv :: "bytes option"

record sq_wal_row =
  sw_doc :: uuid
  sw_local_seq :: int
  sw_server_seq :: "int option"
  sw_payload :: encrypted_blob

record sq_db =
  sq_docs :: "uuid \<Rightarrow> sq_doc option"
  sq_wal :: "sq_wal_row list"
  sq_snapshots :: "uuid \<Rightarrow> (int \<times> encrypted_blob) option"
  sq_in_flight :: "uuid \<Rightarrow> in_flight_push option"
  sq_faults :: "string option list"

definition sq_empty :: sq_db where
  "sq_empty =
     \<lparr>sq_docs = (\<lambda>_. None), sq_wal = [], sq_snapshots = (\<lambda>_. None), sq_in_flight = (\<lambda>_. None),
      sq_faults = []\<rparr>"

section \<open>Statements and transactions\<close>

definition sbind :: "('s, 'a) sop \<Rightarrow> ('a \<Rightarrow> ('s, 'b) sop) \<Rightarrow> ('s, 'b) sop" where
  "sbind m f s = (case m s of (Inl e, s') \<Rightarrow> (Inl e, s') | (Inr x, s') \<Rightarrow> f x s')"

definition sreturn :: "'a \<Rightarrow> ('s, 'a) sop" where
  "sreturn x s = (Inr x, s)"

text \<open>
  One statement: the next fault, if any, fails it; so does a constraint the statement itself
  reports by \<open>Inl\<close>.
\<close>

definition sql :: "(sq_db \<Rightarrow> string + ('a \<times> sq_db)) \<Rightarrow> (sq_db, 'a) sop" where
  "sql f s =
     (case sq_faults s of
        Some e # fs \<Rightarrow> (Inl (SeSql e), s\<lparr>sq_faults := fs\<rparr>)
      | fs \<Rightarrow>
          (let s1 = s\<lparr>sq_faults := tl fs\<rparr>
           in case f s1 of
                Inl e \<Rightarrow> (Inl (SeSql e), s1)
              | Inr (x, s2) \<Rightarrow> (Inr x, s2)))"

text \<open>
  \<open>conn.transaction()\<close>, a body, \<open>tx.commit()\<close>: dropping the transaction on any error rolls
  the tables back.
\<close>

definition transaction :: "(sq_db, 'a) sop \<Rightarrow> (sq_db, 'a) sop" where
  "transaction body s =
     (case sbind (sql (\<lambda>s. Inr ((), s)))
             (\<lambda>_. sbind body (\<lambda>x. sbind (sql (\<lambda>s. Inr ((), s))) (\<lambda>_. sreturn x))) s of
        (Inl e, s') \<Rightarrow> (Inl e, s\<lparr>sq_faults := sq_faults s'\<rparr>)
      | (Inr x, s') \<Rightarrow> (Inr x, s'))"

section \<open>Shared queries\<close>

definition sql_max :: "int list \<Rightarrow> int" where
  "sql_max xs = (case xs of [] \<Rightarrow> 0 | x # ys \<Rightarrow> fold max ys x)" \<comment> \<open>\<open>COALESCE(MAX(..), 0)\<close>\<close>

definition doc_wal :: "uuid \<Rightarrow> sq_db \<Rightarrow> sq_wal_row list" where
  "doc_wal did s = filter (\<lambda>r. sw_doc r = did) (sq_wal s)"

definition max_local_seq_of :: "uuid \<Rightarrow> sq_db \<Rightarrow> int" where
  "max_local_seq_of did s =
     max (sql_max (map sw_local_seq (doc_wal did s)))
         (case sq_snapshots s did of None \<Rightarrow> 0 | Some (n, _) \<Rightarrow> n)"

definition max_local_seq :: "uuid \<Rightarrow> (sq_db, u64) sop" where
  "max_local_seq did = sql (\<lambda>s. Inr (as_u64 (max_local_seq_of did s), s))"

definition ensure_doc :: "uuid \<Rightarrow> (sq_db, unit) sop" where
  "ensure_doc did =
     sql (\<lambda>s. Inr ((), case sq_docs s did of
                         Some _ \<Rightarrow> s
                       | None \<Rightarrow> s\<lparr>sq_docs := (sq_docs s)(did \<mapsto>
                                     \<lparr>sd_last_acked = 0, sd_server_known_vv = None\<rparr>)\<rparr>))"

text \<open>
  \<open>INSERT INTO wal\<close>, under the primary key \<open>(doc_id, local_seq)\<close> and the unique index on
  \<open>(doc_id, server_seq)\<close>.
\<close>

definition insert_wal :: "sq_wal_row \<Rightarrow> (sq_db, unit) sop" where
  "insert_wal row =
     sql (\<lambda>s. if \<exists>r \<in> set (doc_wal (sw_doc row) s). sw_local_seq r = sw_local_seq row
              then Inl ''UNIQUE constraint failed: wal.doc_id, wal.local_seq''
              else if sw_server_seq row \<noteq> None \<and>
                      (\<exists>r \<in> set (doc_wal (sw_doc row) s). sw_server_seq r = sw_server_seq row)
              then Inl ''UNIQUE constraint failed: wal.doc_id, wal.server_seq''
              else Inr ((), s\<lparr>sq_wal := sq_wal s @ [row]\<rparr>))"

definition update_server_known_vv :: "uuid \<Rightarrow> bytes \<Rightarrow> (sq_db, unit) sop" where
  "update_server_known_vv did vv =
     sql (\<lambda>s. Inr ((), s\<lparr>sq_docs := (sq_docs s)(did :=
              map_option (\<lambda>d. d\<lparr>sd_server_known_vv := Some vv\<rparr>) (sq_docs s did))\<rparr>))"

section \<open>The trait methods\<close>

definition sq_boot :: "uuid \<Rightarrow> (sq_db, boot_state) sop" where
  "sq_boot did =
     sbind (sql (\<lambda>s. Inr (map_option (\<lambda>(n, b). \<lparr>up_to_local_seq = as_u64 n, sr_payload = b\<rparr>)
                            (sq_snapshots s did), s)))
       (\<lambda>snapshot.
     sbind (sql (\<lambda>s. Inr (map (\<lambda>r. \<lparr>wr_local_seq = as_u64 (sw_local_seq r),
                                   wr_payload = sw_payload r\<rparr>)
                            (sort_key sw_local_seq (doc_wal did s)), s)))
       (\<lambda>rows.
     sbind (max_local_seq did)
       (\<lambda>last_local.
     sbind (sql (\<lambda>s. Inr (case sq_docs s did of
                            None \<Rightarrow> (0, None)
                          | Some d \<Rightarrow> (sd_last_acked d, sd_server_known_vv d), s)))
       (\<lambda>(last_acked, known).
     sbind (sql (\<lambda>s. Inr (sq_in_flight s did, s)))
       (\<lambda>in_flight.
     sreturn \<lparr>bs_snapshot = snapshot,
              bs_replay = rows,
              bs_last_local_seq = last_local,
              bs_last_acked_server_seq = as_u64 last_acked,
              bs_server_known_vv = (case known of None \<Rightarrow> [] | Some v \<Rightarrow> v),
              bs_in_flight_push = in_flight,
              bs_wal_bytes = fold (\<lambda>r n. n + blob_len (wr_payload r)) rows 0\<rparr>)))))"

definition sq_append_local_wal :: "uuid \<Rightarrow> encrypted_blob \<Rightarrow> (sq_db, u64) sop" where
  "sq_append_local_wal did b =
     sbind (ensure_doc did) (\<lambda>_.
     sbind (max_local_seq did) (\<lambda>m.
     let n = m + 1 in
     sbind (insert_wal \<lparr>sw_doc = did, sw_local_seq = as_i64 n, sw_server_seq = None,
                        sw_payload = b\<rparr>) (\<lambda>_.
     sreturn n)))"

definition sq_append_remote_wal ::
  "uuid \<Rightarrow> remote_wal_row \<Rightarrow> bytes \<Rightarrow> (sq_db, u64 \<times> bool) sop" where
  "sq_append_remote_wal did row vv =
     transaction
       (sbind (ensure_doc did) (\<lambda>_.
        sbind (update_server_known_vv did vv) (\<lambda>_.
        sbind (sql (\<lambda>s. Inr (map_option sw_local_seq
                   (find (\<lambda>r. sw_server_seq r = Some (as_i64 (rr_server_seq row)))
                      (doc_wal did s)), s))) (\<lambda>existing.
        case existing of
          Some n \<Rightarrow> sreturn (as_u64 n, False)
        | None \<Rightarrow>
            sbind (max_local_seq did) (\<lambda>m.
            let n = m + 1 in
            sbind (insert_wal \<lparr>sw_doc = did, sw_local_seq = as_i64 n,
                               sw_server_seq = Some (as_i64 (rr_server_seq row)),
                               sw_payload = rr_payload row\<rparr>) (\<lambda>_.
            sreturn (n, True)))))))"

definition sq_write_snapshot :: "uuid \<Rightarrow> u64 \<Rightarrow> encrypted_blob \<Rightarrow> (sq_db, unit) sop" where
  "sq_write_snapshot did cutoff b =
     transaction
       (sbind (ensure_doc did) (\<lambda>_.
        sbind (max_local_seq did) (\<lambda>high_water.
        sbind (sql (\<lambda>s. Inr ((), s\<lparr>sq_snapshots :=
                       (sq_snapshots s)(did \<mapsto> (as_i64 high_water, b))\<rparr>))) (\<lambda>_.
        sql (\<lambda>s. Inr ((), s\<lparr>sq_wal := filter
                   (\<lambda>r. \<not> (sw_doc r = did \<and> sw_local_seq r \<le> as_i64 cutoff)) (sq_wal s)\<rparr>))))))"

definition sq_write_acked_seq :: "uuid \<Rightarrow> u64 \<Rightarrow> (sq_db, unit) sop" where
  "sq_write_acked_seq did n =
     sbind (ensure_doc did) (\<lambda>_.
     sql (\<lambda>s. Inr ((), s\<lparr>sq_docs := (sq_docs s)(did :=
              map_option (\<lambda>d. d\<lparr>sd_last_acked := as_i64 n\<rparr>) (sq_docs s did))\<rparr>)))"

definition sq_write_server_known_vv :: "uuid \<Rightarrow> bytes \<Rightarrow> (sq_db, unit) sop" where
  "sq_write_server_known_vv did vv =
     sbind (ensure_doc did) (\<lambda>_. update_server_known_vv did vv)"

definition sq_put_in_flight_push :: "uuid \<Rightarrow> in_flight_push \<Rightarrow> (sq_db, unit) sop" where
  "sq_put_in_flight_push did p =
     sbind (ensure_doc did) (\<lambda>_.
     sql (\<lambda>s. Inr ((), s\<lparr>sq_in_flight := (sq_in_flight s)(did \<mapsto> p)\<rparr>)))"

definition sq_complete_push :: "uuid \<Rightarrow> uuid \<Rightarrow> bytes \<Rightarrow> (sq_db, unit) sop" where
  "sq_complete_push did pid vv =
     transaction
       (sbind (ensure_doc did) (\<lambda>_.
        sbind (update_server_known_vv did vv) (\<lambda>_.
        sql (\<lambda>s. Inr ((), if map_option if_push_id (sq_in_flight s did) = Some pid
                          then s\<lparr>sq_in_flight := (sq_in_flight s)(did := None)\<rparr>
                          else s)))))"

definition sq_api :: "sq_db storage_api" where
  "sq_api =
     \<lparr>st_boot = sq_boot,
      st_append_local_wal = sq_append_local_wal,
      st_append_remote_wal = sq_append_remote_wal,
      st_write_snapshot = sq_write_snapshot,
      st_write_acked_seq = sq_write_acked_seq,
      st_write_server_known_vv = sq_write_server_known_vv,
      st_put_in_flight_push = sq_put_in_flight_push,
      st_complete_push = sq_complete_push\<rparr>"

section \<open>The view of one doc\<close>

definition sq_view :: "uuid \<Rightarrow> sq_db \<Rightarrow> mem_inner" where
  "sq_view did s =
     \<lparr>next_local_seq = as_u64 (max_local_seq_of did s),
      mi_snapshot = map_option (\<lambda>(n, b). \<lparr>up_to_local_seq = as_u64 n, sr_payload = b\<rparr>)
                      (sq_snapshots s did),
      mi_wal = map (\<lambda>r. \<lparr>mw_local_seq = as_u64 (sw_local_seq r),
                         mw_server_seq = map_option as_u64 (sw_server_seq r),
                         mw_payload = sw_payload r\<rparr>) (doc_wal did s),
      mi_last_acked_server_seq =
        (case sq_docs s did of None \<Rightarrow> 0 | Some d \<Rightarrow> as_u64 (sd_last_acked d)),
      mi_server_known_vv =
        (case sq_docs s did of None \<Rightarrow> [] | Some d \<Rightarrow>
           (case sd_server_known_vv d of None \<Rightarrow> [] | Some v \<Rightarrow> v)),
      mi_in_flight = sq_in_flight s did\<rparr>"

text \<open>Rows of the doc are stored in increasing local seqs, and every stored seq is an \<open>i64\<close>.\<close>

definition is_i64 :: "int \<Rightarrow> bool" where
  "is_i64 i \<longleftrightarrow> - (2 ^ 63) \<le> i \<and> i < 2 ^ 63"

definition sq_inv :: "uuid \<Rightarrow> sq_db \<Rightarrow> bool" where
  "sq_inv did s \<longleftrightarrow>
     sorted_wrt (<) (map sw_local_seq (doc_wal did s)) \<and>
     (\<forall>r \<in> set (doc_wal did s). 0 < sw_local_seq r \<and> sw_local_seq r < 2 ^ 63 \<and>
        (\<forall>n. sw_server_seq r = Some n \<longrightarrow> is_i64 n)) \<and>
     (\<forall>n b. sq_snapshots s did = Some (n, b) \<longrightarrow> 0 \<le> n \<and> n < 2 ^ 63)"

section \<open>Statements and the view\<close>

lemma sql_ok: "sql f s = (Inr x, s') \<Longrightarrow> \<exists>fs. f (s\<lparr>sq_faults := fs\<rparr>) = Inr (x, s')"
  by (auto simp: sql_def Let_def split: list.splits option.splits sum.splits prod.splits)

lemma sql_update_ok:
  "sql (\<lambda>s. Inr ((), g s)) s = (Inr u, s') \<Longrightarrow> \<exists>fs. s' = g (s\<lparr>sq_faults := fs\<rparr>)"
  by (drule sql_ok) blast

lemma sql_err: "sql f s = (Inl e, s') \<Longrightarrow> \<exists>fs. s' = s\<lparr>sq_faults := fs\<rparr>"
  by (auto simp: sql_def Let_def split: list.splits option.splits sum.splits prod.splits)

lemma sbind_ok:
  "sbind m f s = (Inr y, s'') \<longleftrightarrow> (\<exists>x s'. m s = (Inr x, s') \<and> f x s' = (Inr y, s''))"
  by (auto simp: sbind_def split: prod.splits sum.splits)

lemma sbind_err:
  "sbind m f s = (Inl e, s'') \<longleftrightarrow>
     m s = (Inl e, s'') \<or> (\<exists>x s'. m s = (Inr x, s') \<and> f x s' = (Inl e, s''))"
  by (auto simp: sbind_def split: prod.splits sum.splits)

lemma sreturn_simps [simp]:
  "sreturn x s = (Inr y, s') \<longleftrightarrow> y = x \<and> s' = s"
  "sreturn x s \<noteq> (Inl e, s')"
  by (auto simp: sreturn_def)

lemma transaction_err:
  "transaction body s = (Inl e, s') \<Longrightarrow> \<exists>fs. s' = s\<lparr>sq_faults := fs\<rparr>"
  by (auto simp: transaction_def split: prod.splits sum.splits)

lemma transaction_ok:
  assumes "transaction body s = (Inr x, s')"
  obtains fs s1 fs' where "body (s\<lparr>sq_faults := fs\<rparr>) = (Inr x, s1)" "s' = s1\<lparr>sq_faults := fs'\<rparr>"
  using assms
  by (fastforce simp: transaction_def sbind_ok dest!: sql_ok split: prod.splits sum.splits)

lemma faults_invisible [simp]:
  "doc_wal did (s\<lparr>sq_faults := fs\<rparr>) = doc_wal did s"
  "max_local_seq_of did (s\<lparr>sq_faults := fs\<rparr>) = max_local_seq_of did s"
  "sq_view did (s\<lparr>sq_faults := fs\<rparr>) = sq_view did s"
  "sq_inv did (s\<lparr>sq_faults := fs\<rparr>) = sq_inv did s"
  by (simp_all add: doc_wal_def max_local_seq_of_def sq_view_def sq_inv_def)

lemma max_local_seq_ok:
  "max_local_seq did s = (Inr n, s') \<Longrightarrow>
     n = as_u64 (max_local_seq_of did s) \<and> (\<exists>fs. s' = s\<lparr>sq_faults := fs\<rparr>)"
  by (auto simp: max_local_seq_def dest!: sql_ok)

lemma ensure_doc_ok:
  assumes "ensure_doc did s = (Inr u, s')"
  shows "\<exists>d. sq_docs s' did = Some d \<and>
      (sq_docs s did = None \<longrightarrow> sd_last_acked d = 0 \<and> sd_server_known_vv d = None) \<and>
      (\<forall>d'. sq_docs s did = Some d' \<longrightarrow> d = d') \<and>
      sq_wal s' = sq_wal s \<and> sq_snapshots s' = sq_snapshots s \<and> sq_in_flight s' = sq_in_flight s"
  using assms by (auto simp: ensure_doc_def dest!: sql_ok split: option.splits)

lemma as_u64_0 [simp]: "as_u64 0 = 0"
  by (simp add: as_u64_def)

text \<open>What \<open>ensure_doc\<close> leaves unchanged; the errors of the other statements are immediate.\<close>

lemma ensure_doc_view:
  assumes "ensure_doc did s = (r, s')"
  shows "sq_view did s' = sq_view did s \<and> sq_inv did s' = sq_inv did s \<and>
    max_local_seq_of did s' = max_local_seq_of did s"
proof (cases r)
  case (Inl e)
  with assms obtain fs where "s' = s\<lparr>sq_faults := fs\<rparr>"
    unfolding ensure_doc_def by (blast dest: sql_err)
  then show ?thesis by simp
next
  case (Inr u)
  with assms ensure_doc_ok [of did s u s'] show ?thesis
    by (cases "sq_docs s did")
      (auto simp: sq_view_def sq_inv_def doc_wal_def max_local_seq_of_def)
qed

section \<open>The counter\<close>

lemma fold_max_ge: "(x::int) \<le> fold max xs x"
  by (induction xs arbitrary: x) (auto intro: order_trans [OF max.cobounded2])

lemma fold_max_ge_elem: "y \<in> set xs \<Longrightarrow> (y::int) \<le> fold max xs x"
  by (induction xs arbitrary: x) (auto intro: order_trans [OF _ fold_max_ge])

lemma fold_max_less: "(x::int) < b \<Longrightarrow> \<forall>y \<in> set xs. y < b \<Longrightarrow> fold max xs x < b"
  by (induction xs arbitrary: x) auto

lemma sql_max_nonneg: "\<forall>y \<in> set xs. 0 \<le> y \<Longrightarrow> sql_max xs = fold max xs 0"
  by (auto simp: sql_max_def split: list.splits)

lemma max_local_seq_of_bounds:
  assumes "sq_inv did s"
  shows "0 \<le> max_local_seq_of did s" "max_local_seq_of did s < 2 ^ 63"
    and "r \<in> set (doc_wal did s) \<Longrightarrow> sw_local_seq r \<le> max_local_seq_of did s"
    and "sq_snapshots s did = Some (n, b) \<Longrightarrow> n \<le> max_local_seq_of did s"
proof -
  let ?xs = "map sw_local_seq (doc_wal did s)"
  have xs: "\<forall>y \<in> set ?xs. 0 \<le> y \<and> y < 2 ^ 63"
    using assms by (auto simp: sq_inv_def intro: less_imp_le)
  then have eq: "sql_max ?xs = fold max ?xs 0"
    by (intro sql_max_nonneg) auto
  show "0 \<le> max_local_seq_of did s"
    unfolding max_local_seq_of_def eq using fold_max_ge [of 0 ?xs] by simp
  show "max_local_seq_of did s < 2 ^ 63"
    unfolding max_local_seq_of_def eq using fold_max_less [of 0 "2 ^ 63" ?xs] xs assms
    by (auto simp: sq_inv_def split: option.splits)
  show "r \<in> set (doc_wal did s) \<Longrightarrow> sw_local_seq r \<le> max_local_seq_of did s"
    unfolding max_local_seq_of_def eq using fold_max_ge_elem [of "sw_local_seq r" ?xs 0]
    by simp
  show "sq_snapshots s did = Some (n, b) \<Longrightarrow> n \<le> max_local_seq_of did s"
    unfolding max_local_seq_of_def by simp
qed

lemma next_counter:
  assumes "sq_inv did s" "fits (sq_view did s)"
  shows "as_i64 (as_u64 (max_local_seq_of did s) + 1) = max_local_seq_of did s + 1"
    and "as_u64 (max_local_seq_of did s + 1) = as_u64 (max_local_seq_of did s) + 1"
    and "max_local_seq_of did s < 2 ^ 62"
proof -
  let ?m = "max_local_seq_of did s"
  note b = max_local_seq_of_bounds(1,2) [OF assms(1)]
  have "uint (as_u64 ?m) = ?m"
    using b by (intro uint_as_u64) auto
  moreover have "uint (as_u64 ?m) < 2 ^ 62"
    using assms(2) by (simp add: fits_def sq_view_def word_less_def)
  ultimately show lt: "?m < 2 ^ 62" by simp
  show eq: "as_u64 (?m + 1) = as_u64 ?m + 1"
    by (simp add: as_u64_def)
  show "as_i64 (as_u64 ?m + 1) = ?m + 1"
    unfolding eq [symmetric] using lt b by (intro as_i64_as_u64) auto
qed

lemma sql_max_snoc:
  "\<forall>z \<in> set xs. 0 \<le> z \<Longrightarrow> 0 \<le> y \<Longrightarrow> sql_max (xs @ [y]) = max y (sql_max xs)"
  by (subst sql_max_nonneg, auto simp: sql_max_nonneg)

section \<open>Appending a row\<close>

lemma append_row_view:
  assumes inv: "sq_inv did s" and fit: "fits (sq_view did s)"
    and ss: "\<forall>n. ss = Some n \<longrightarrow> is_i64 n"
    and s': "s' = s\<lparr>sq_wal := sq_wal s @ [\<lparr>sw_doc = did,
        sw_local_seq = as_i64 (as_u64 (max_local_seq_of did s) + 1), sw_server_seq = ss,
        sw_payload = b\<rparr>]\<rparr>"
  shows "sq_inv did s' \<and> sq_view did s' = (sq_view did s)\<lparr>
      next_local_seq := next_local_seq (sq_view did s) + 1,
      mi_wal := mi_wal (sq_view did s) @ [\<lparr>mw_local_seq = next_local_seq (sq_view did s) + 1,
        mw_server_seq = map_option as_u64 ss, mw_payload = b\<rparr>]\<rparr>"
proof -
  let ?m = "max_local_seq_of did s"
  note nc = next_counter [OF inv fit] and bd = max_local_seq_of_bounds [OF inv]
  have dw: "doc_wal did s' = doc_wal did s @
      [\<lparr>sw_doc = did, sw_local_seq = ?m + 1, sw_server_seq = ss, sw_payload = b\<rparr>]"
    by (simp add: s' doc_wal_def nc)
  have pos: "\<forall>z \<in> set (map sw_local_seq (doc_wal did s)). 0 \<le> z"
    using inv by (auto simp: sq_inv_def intro: less_imp_le)
  have snap: "sq_snapshots s' = sq_snapshots s" by (simp add: s')
  have mx: "max_local_seq_of did s' = ?m + 1"
    using bd(1) sql_max_snoc [OF pos, of "?m + 1"]
    unfolding max_local_seq_of_def [of did s'] dw snap
    by (auto simp: max_local_seq_of_def split: option.splits)
  have "sq_inv did s'"
    using inv nc(3) bd(1,3) ss
    by (auto simp: sq_inv_def dw snap sorted_wrt_append intro: le_less_trans)
  moreover have "sq_view did s' = (sq_view did s)\<lparr>
      next_local_seq := next_local_seq (sq_view did s) + 1,
      mi_wal := mi_wal (sq_view did s) @ [\<lparr>mw_local_seq = next_local_seq (sq_view did s) + 1,
        mw_server_seq = map_option as_u64 ss, mw_payload = b\<rparr>]\<rparr>"
    by (simp add: sq_view_def mx dw nc(2)) (simp add: s')
  ultimately show ?thesis by blast
qed

lemma insert_wal_ok:
  "insert_wal row s = (Inr u, s') \<Longrightarrow> \<exists>fs. s' = s\<lparr>sq_faults := fs, sq_wal := sq_wal s @ [row]\<rparr>"
  by (auto simp: insert_wal_def dest!: sql_ok split: if_splits)

lemma insert_wal_err: "insert_wal row s = (Inl e, s') \<Longrightarrow> \<exists>fs. s' = s\<lparr>sq_faults := fs\<rparr>"
  unfolding insert_wal_def by (rule sql_err)

lemma max_local_seq_err: "max_local_seq did s = (Inl e, s') \<Longrightarrow> \<exists>fs. s' = s\<lparr>sq_faults := fs\<rparr>"
  unfolding max_local_seq_def by (rule sql_err)

lemma append_local_refines_mem:
  "refines_op (sq_view did) (sq_inv did) (sq_append_local_wal did b) (mem_append_local_wal did b)"
proof (rule refines_opI)
  fix s e s'
  assume "sq_inv did s" "sq_append_local_wal did b s = (Inl e, s')"
  then show "sq_view did s' = sq_view did s \<and> sq_inv did s'"
    by (auto simp: sq_append_local_wal_def sbind_err Let_def
        dest!: max_local_seq_err max_local_seq_ok insert_wal_err dest: ensure_doc_view)
next
  fix s n s'
  assume inv: "sq_inv did s" and fit: "fits (sq_view did s)"
    and "sq_append_local_wal did b s = (Inr n, s')"
  then obtain s1 fs fs2 where s1: "ensure_doc did s = (Inr (), s1)"
    and n: "n = as_u64 (max_local_seq_of did s1) + 1"
    and s': "s' = s1\<lparr>sq_faults := fs2, sq_wal := sq_wal s1 @ [\<lparr>sw_doc = did,
      sw_local_seq = as_i64 n, sw_server_seq = None, sw_payload = b\<rparr>]\<rparr>"
    by (auto simp: sq_append_local_wal_def sbind_ok Let_def dest!: max_local_seq_ok insert_wal_ok)
  note v = ensure_doc_view [OF s1]
  have "sq_inv did (s1\<lparr>sq_faults := fs2\<rparr>)" "fits (sq_view did (s1\<lparr>sq_faults := fs2\<rparr>))"
    using v inv fit by simp_all
  from append_row_view [OF this, of None s' b] n s' v
  show "mem_append_local_wal did b (sq_view did s) = (Inr n, sq_view did s') \<and> sq_inv did s'"
    by (simp add: mem_append_local_wal_def Let_def) (simp add: sq_view_def)
qed

section \<open>The other methods\<close>

lemma find_map: "find P (map f xs) = map_option f (find (P \<circ> f) xs)"
  by (induction xs) auto

lemma find_cong_set: "(\<And>x. x \<in> set xs \<Longrightarrow> P x = Q x) \<Longrightarrow> find P xs = find Q xs"
  by (induction xs) auto

lemma is_i64_round: "is_i64 i \<Longrightarrow> as_i64 (as_u64 i) = i"
  by (simp add: is_i64_def as_i64_as_u64)

lemma as_u64_eq_iff: "is_i64 i \<Longrightarrow> as_u64 i = n \<longleftrightarrow> i = as_i64 n"
  using as_i64_as_u64 [of i] by (auto simp: is_i64_def)

lemma is_i64_as_i64 [simp]: "is_i64 (as_i64 n)"
proof -
  have "- (2 ^ (LENGTH(64) - 1)) \<le> sint n \<and> sint n < 2 ^ (LENGTH(64) - 1)"
    by (intro conjI sint_ge sint_lt)
  then show ?thesis by (simp add: is_i64_def as_i64_def)
qed

lemma find_server_seq_view:
  assumes "sq_inv did s"
  shows "find (\<lambda>r. mw_server_seq r = Some n) (mi_wal (sq_view did s)) =
    map_option (\<lambda>r. \<lparr>mw_local_seq = as_u64 (sw_local_seq r),
        mw_server_seq = map_option as_u64 (sw_server_seq r), mw_payload = sw_payload r\<rparr>)
      (find (\<lambda>r. sw_server_seq r = Some (as_i64 n)) (doc_wal did s))"
  unfolding sq_view_def
  using assms
  by (auto simp: find_map sq_inv_def is_i64_round intro!: arg_cong2 [where f = map_option] find_cong_set)

lemma update_vv_ok:
  assumes "update_server_known_vv did vv s = (Inr u, s')" "sq_docs s did \<noteq> None"
  shows "sq_view did s' = (sq_view did s)\<lparr>mi_server_known_vv := vv\<rparr> \<and> sq_inv did s' = sq_inv did s \<and>
    max_local_seq_of did s' = max_local_seq_of did s \<and> doc_wal did s' = doc_wal did s \<and>
    sq_in_flight s' = sq_in_flight s"
  using assms
  by (auto simp: update_server_known_vv_def sq_view_def sq_inv_def doc_wal_def
      max_local_seq_of_def dest!: sql_ok)

lemma update_vv_err:
  "update_server_known_vv did vv s = (Inl e, s') \<Longrightarrow> \<exists>fs. s' = s\<lparr>sq_faults := fs\<rparr>"
  unfolding update_server_known_vv_def by (rule sql_err)

lemma ensure_then_update_vv:
  assumes "ensure_doc did s = (Inr u, s1)" "update_server_known_vv did vv s1 = (Inr u', s2)"
  shows "sq_view did s2 = (sq_view did s)\<lparr>mi_server_known_vv := vv\<rparr> \<and> sq_inv did s2 = sq_inv did s \<and>
    sq_in_flight s2 = sq_in_flight s"
  using update_vv_ok [OF assms(2)] ensure_doc_view [OF assms(1)] ensure_doc_ok [OF assms(1)]
  by auto

lemma append_remote_refines_mem:
  "refines_op (sq_view did) (sq_inv did) (sq_append_remote_wal did row vv)
     (mem_append_remote_wal did row vv)"
proof (rule refines_opI)
  fix s e s'
  assume "sq_inv did s" "sq_append_remote_wal did row vv s = (Inl e, s')"
  then show "sq_view did s' = sq_view did s \<and> sq_inv did s'"
    by (auto simp: sq_append_remote_wal_def dest!: transaction_err)
next
  fix s x s'
  assume inv: "sq_inv did s" and fit: "fits (sq_view did s)"
    and "sq_append_remote_wal did row vv s = (Inr x, s')"
  then obtain fs0 fs4 s1 s2 s4 fs3 where
      s1: "ensure_doc did (s\<lparr>sq_faults := fs0\<rparr>) = (Inr (), s1)"
    and s2: "update_server_known_vv did vv s1 = (Inr (), s2)"
    and body: "(case map_option sw_local_seq (find (\<lambda>r. sw_server_seq r =
            Some (as_i64 (rr_server_seq row))) (doc_wal did s2)) of
          Some n \<Rightarrow> sreturn (as_u64 n, False)
        | None \<Rightarrow>
            sbind (max_local_seq did) (\<lambda>m.
            sbind (insert_wal \<lparr>sw_doc = did, sw_local_seq = as_i64 (m + 1),
                               sw_server_seq = Some (as_i64 (rr_server_seq row)),
                               sw_payload = rr_payload row\<rparr>) (\<lambda>_.
            sreturn (m + 1, True)))) (s2\<lparr>sq_faults := fs3\<rparr>) = (Inr x, s4)"
    and s': "s' = s4\<lparr>sq_faults := fs4\<rparr>"
    unfolding sq_append_remote_wal_def
    by (auto simp: sbind_ok Let_def elim!: transaction_ok dest!: sql_ok)
  have v: "sq_view did s2 = (sq_view did s)\<lparr>mi_server_known_vv := vv\<rparr>" "sq_inv did s2"
    using ensure_then_update_vv [OF s1 s2] inv by simp_all
  have fit2: "fits (sq_view did s2)" using fit v(1) by (simp add: fits_def)
  note fnd = find_server_seq_view [OF v(2), of "rr_server_seq row"]
  show "mem_append_remote_wal did row vv (sq_view did s) = (Inr x, sq_view did s') \<and> sq_inv did s'"
  proof (cases "find (\<lambda>r. sw_server_seq r = Some (as_i64 (rr_server_seq row))) (doc_wal did s2)")
    case (Some r)
    with body s' fnd v show ?thesis
      by (simp add: mem_append_remote_wal_def)
  next
    case None
    then obtain fs5 where x: "x = (as_u64 (max_local_seq_of did s2) + 1, True)"
      and s4: "s4 = s2\<lparr>sq_faults := fs5, sq_wal := sq_wal s2 @ [\<lparr>sw_doc = did,
        sw_local_seq = as_i64 (as_u64 (max_local_seq_of did s2) + 1),
        sw_server_seq = Some (as_i64 (rr_server_seq row)), sw_payload = rr_payload row\<rparr>]\<rparr>"
      using body by (auto simp: sbind_ok dest!: max_local_seq_ok insert_wal_ok)
    have "sq_inv did (s2\<lparr>sq_faults := fs5\<rparr>)" "fits (sq_view did (s2\<lparr>sq_faults := fs5\<rparr>))"
      using v(2) fit2 by simp_all
    from append_row_view [OF this, of "Some (as_i64 (rr_server_seq row))" s4 "rr_payload row"]
    have "sq_inv did s4 \<and> sq_view did s4 = (sq_view did s2)\<lparr>
        next_local_seq := next_local_seq (sq_view did s2) + 1,
        mi_wal := mi_wal (sq_view did s2) @ [\<lparr>mw_local_seq = next_local_seq (sq_view did s2) + 1,
          mw_server_seq = Some (rr_server_seq row), mw_payload = rr_payload row\<rparr>]\<rparr>"
      by (simp add: s4)
    moreover have "as_u64 (max_local_seq_of did s2) = next_local_seq (sq_view did s2)"
      by (simp add: sq_view_def)
    ultimately show ?thesis
      using fnd None v s' x by (simp add: mem_append_remote_wal_def Let_def)
  qed
qed

lemma write_snapshot_refines_mem:
  assumes cutoff: "cutoff < 2 ^ 63"
  shows "refines_op (sq_view did) (sq_inv did) (sq_write_snapshot did cutoff b)
    (mem_write_snapshot did cutoff b)"
proof (rule refines_opI)
  fix s e s'
  assume "sq_inv did s" "sq_write_snapshot did cutoff b s = (Inl e, s')"
  then show "sq_view did s' = sq_view did s \<and> sq_inv did s'"
    by (auto simp: sq_write_snapshot_def dest!: transaction_err)
next
  fix s x s'
  assume inv: "sq_inv did s" and fit: "fits (sq_view did s)"
    and "sq_write_snapshot did cutoff b s = (Inr x, s')"
  then obtain fs0 fs s1 where s1: "ensure_doc did (s\<lparr>sq_faults := fs0\<rparr>) = (Inr (), s1)"
    and s': "s' = s1\<lparr>
        sq_snapshots := (sq_snapshots s1)(did \<mapsto> (as_i64 (as_u64 (max_local_seq_of did s1)), b)),
        sq_wal := filter (\<lambda>r. \<not> (sw_doc r = did \<and> sw_local_seq r \<le> as_i64 cutoff)) (sq_wal s1),
        sq_faults := fs\<rparr>"
    unfolding sq_write_snapshot_def
    by (auto simp: sbind_ok elim!: transaction_ok dest!: sql_ok max_local_seq_ok)
  have v: "sq_view did s1 = sq_view did s" "sq_inv did s1"
    using ensure_doc_view [OF s1] inv by simp_all
  let ?m = "max_local_seq_of did s1"
  note bd = max_local_seq_of_bounds [OF v(2)]
  have m: "as_i64 (as_u64 ?m) = ?m"
    using bd by (intro as_i64_as_u64) auto
  have dw: "doc_wal did s' = filter (\<lambda>r. as_i64 cutoff < sw_local_seq r) (doc_wal did s1)"
    by (auto simp: s' doc_wal_def intro!: filter_cong)
  have snap: "sq_snapshots s' did = Some (?m, b)"
    by (simp add: s' m)
  have "fold max (map sw_local_seq (doc_wal did s')) 0 \<le> ?m"
    using fold_max_less [of 0 "?m + 1" "map sw_local_seq (doc_wal did s')"] bd(1,3) dw by auto
  moreover have "sql_max (map sw_local_seq (doc_wal did s'))
      = fold max (map sw_local_seq (doc_wal did s')) 0"
    using v(2) dw by (intro sql_max_nonneg) (auto simp: sq_inv_def intro: less_imp_le)
  ultimately have mx: "max_local_seq_of did s' = ?m"
    using snap by (simp add: max_local_seq_of_def)
  have inv': "sq_inv did s'"
    using v(2) bd(1,2) by (auto simp: sq_inv_def dw snap sorted_wrt_map_filter)
  have gt: "as_i64 cutoff < i \<longleftrightarrow> cutoff < as_u64 i" if "0 < i" "i < 2 ^ 63" for i
  proof -
    have "uint (as_u64 i) = i" using that by (intro uint_as_u64) auto
    then show ?thesis using as_i64_nonneg [OF cutoff] by (simp add: word_less_def)
  qed
  have "mi_wal (sq_view did s') = filter (\<lambda>r. cutoff < mw_local_seq r) (mi_wal (sq_view did s1))"
    using v(2)
    by (auto simp: sq_view_def dw filter_map comp_def sq_inv_def gt intro!: arg_cong2 [where f = map]
        filter_cong)
  moreover have "sq_view did s' = (sq_view did s1)\<lparr>mi_snapshot := mi_snapshot (sq_view did s'),
      mi_wal := mi_wal (sq_view did s')\<rparr>"
    by (simp add: sq_view_def mx) (simp add: s')
  moreover have "mi_snapshot (sq_view did s') =
      Some \<lparr>up_to_local_seq = next_local_seq (sq_view did s1), sr_payload = b\<rparr>"
    by (simp add: sq_view_def snap)
  ultimately show "mem_write_snapshot did cutoff b (sq_view did s) = (Inr x, sq_view did s') \<and>
      sq_inv did s'"
    using v(1) inv' by (simp add: mem_write_snapshot_def)
qed

lemma write_acked_refines_mem:
  "refines_op (sq_view did) (sq_inv did) (sq_write_acked_seq did n) (mem_write_acked_seq did n)"
proof (rule refines_opI)
  fix s e s'
  assume "sq_inv did s" "sq_write_acked_seq did n s = (Inl e, s')"
  then show "sq_view did s' = sq_view did s \<and> sq_inv did s'"
    by (auto simp: sq_write_acked_seq_def sbind_err dest: ensure_doc_view dest!: sql_err)
next
  fix s x s'
  assume "sq_inv did s" "sq_write_acked_seq did n s = (Inr x, s')"
  then obtain fs s1 where s1: "ensure_doc did s = (Inr (), s1)" "sq_inv did s"
    and s': "s' = s1\<lparr>sq_faults := fs, sq_docs := (sq_docs s1)(did :=
        map_option (\<lambda>d. d\<lparr>sd_last_acked := as_i64 n\<rparr>) (sq_docs s1 did))\<rparr>"
    by (auto simp: sq_write_acked_seq_def sbind_ok dest!: sql_ok)
  have "sq_view did s' = (sq_view did s1)\<lparr>mi_last_acked_server_seq := n\<rparr> \<and> sq_inv did s' = sq_inv did s1"
    using ensure_doc_ok [OF s1(1)]
    by (auto simp: s' sq_view_def sq_inv_def doc_wal_def max_local_seq_of_def)
  with s1 ensure_doc_view [OF s1(1)]
  show "mem_write_acked_seq did n (sq_view did s) = (Inr x, sq_view did s') \<and> sq_inv did s'"
    by (simp add: mem_write_acked_seq_def)
qed

lemma write_vv_refines_mem:
  "refines_op (sq_view did) (sq_inv did) (sq_write_server_known_vv did vv)
     (mem_write_server_known_vv did vv)"
proof (rule refines_opI)
  fix s e s'
  assume "sq_inv did s" "sq_write_server_known_vv did vv s = (Inl e, s')"
  then show "sq_view did s' = sq_view did s \<and> sq_inv did s'"
    by (auto simp: sq_write_server_known_vv_def sbind_err dest: ensure_doc_view dest!: update_vv_err)
next
  fix s x s'
  assume inv: "sq_inv did s" and "sq_write_server_known_vv did vv s = (Inr x, s')"
  then obtain s1 where "ensure_doc did s = (Inr (), s1)"
      "update_server_known_vv did vv s1 = (Inr (), s')"
    by (auto simp: sq_write_server_known_vv_def sbind_ok)
  from ensure_then_update_vv [OF this] inv
  show "mem_write_server_known_vv did vv (sq_view did s) = (Inr x, sq_view did s') \<and> sq_inv did s'"
    by (simp add: mem_write_server_known_vv_def)
qed

lemma in_flight_view [simp]:
  "sq_view did (s\<lparr>sq_in_flight := f\<rparr>) = (sq_view did s)\<lparr>mi_in_flight := f did\<rparr>"
  "sq_inv did (s\<lparr>sq_in_flight := f\<rparr>) = sq_inv did s"
  "(sq_view did s)\<lparr>mi_in_flight := sq_in_flight s did\<rparr> = sq_view did s"
  by (simp_all add: sq_view_def sq_inv_def doc_wal_def max_local_seq_of_def)

lemma put_in_flight_refines_mem:
  "refines_op (sq_view did) (sq_inv did) (sq_put_in_flight_push did p) (mem_put_in_flight_push did p)"
proof (rule refines_opI)
  fix s e s'
  assume "sq_inv did s" "sq_put_in_flight_push did p s = (Inl e, s')"
  then show "sq_view did s' = sq_view did s \<and> sq_inv did s'"
    by (auto simp: sq_put_in_flight_push_def sbind_err dest: ensure_doc_view dest!: sql_err)
next
  fix s x s'
  assume "sq_inv did s" "sq_put_in_flight_push did p s = (Inr x, s')"
  then obtain fs s1 where s1: "ensure_doc did s = (Inr (), s1)" "sq_inv did s"
    and s': "s' = s1\<lparr>sq_faults := fs, sq_in_flight := (sq_in_flight s1)(did \<mapsto> p)\<rparr>"
    by (auto simp: sq_put_in_flight_push_def sbind_ok dest!: sql_ok)
  have "sq_view did s' = (sq_view did s1)\<lparr>mi_in_flight := Some p\<rparr> \<and> sq_inv did s' = sq_inv did s1"
    by (simp add: s')
  with s1 ensure_doc_view [OF s1(1)]
  show "mem_put_in_flight_push did p (sq_view did s) = (Inr x, sq_view did s') \<and> sq_inv did s'"
    by (simp add: mem_put_in_flight_push_def)
qed

lemma complete_push_refines_mem:
  "refines_op (sq_view did) (sq_inv did) (sq_complete_push did pid vv) (mem_complete_push did pid vv)"
proof (rule refines_opI)
  fix s e s'
  assume "sq_inv did s" "sq_complete_push did pid vv s = (Inl e, s')"
  then show "sq_view did s' = sq_view did s \<and> sq_inv did s'"
    by (auto simp: sq_complete_push_def dest!: transaction_err)
next
  fix s x s'
  assume inv: "sq_inv did s" and "sq_complete_push did pid vv s = (Inr x, s')"
  then obtain fs0 s1 s2 s3 fs where
      s12: "ensure_doc did (s\<lparr>sq_faults := fs0\<rparr>) = (Inr (), s1)"
      "update_server_known_vv did vv s1 = (Inr (), s2)"
    and s3: "sql (\<lambda>s. Inr ((), if map_option if_push_id (sq_in_flight s did) = Some pid
                          then s\<lparr>sq_in_flight := (sq_in_flight s)(did := None)\<rparr>
                          else s)) s2 = (Inr (), s3)" "s' = s3\<lparr>sq_faults := fs\<rparr>"
    unfolding sq_complete_push_def
    by (auto simp: sbind_ok elim!: transaction_ok)
  have v: "sq_view did s2 = (sq_view did s)\<lparr>mi_server_known_vv := vv\<rparr>" "sq_inv did s2"
    using ensure_then_update_vv [OF s12] inv by simp_all
  have fl: "sq_in_flight s2 did = mi_in_flight (sq_view did s)"
    using ensure_then_update_vv [OF s12] by (simp add: sq_view_def)
  obtain fs1 where s3_eq: "s3 = (let s = s2\<lparr>sq_faults := fs1\<rparr> in
      if map_option if_push_id (sq_in_flight s did) = Some pid
      then s\<lparr>sq_in_flight := (sq_in_flight s)(did := None)\<rparr> else s)"
    using sql_update_ok [OF s3(1)] unfolding Let_def by blast
  have "sq_view did s3 = (if map_option if_push_id (sq_in_flight s2 did) = Some pid
      then (sq_view did s2)\<lparr>mi_in_flight := None\<rparr> else sq_view did s2) \<and> sq_inv did s3 = sq_inv did s2"
    by (auto simp: s3_eq Let_def)
  then show "mem_complete_push did pid vv (sq_view did s) = (Inr x, sq_view did s') \<and> sq_inv did s'"
    using v fl s3(2) by (auto simp: mem_complete_push_def Let_def)
qed

lemma fold_add_sum: "fold (\<lambda>r n. n + f r) xs (a::u64) = a + sum_list (map f xs)"
  by (induction xs arbitrary: a) (auto simp: algebra_simps)

text \<open>A sequence of queries changes no table, whether it succeeds or not.\<close>

definition reads :: "(sq_db, 'a) sop \<Rightarrow> bool" where
  "reads m \<longleftrightarrow> (\<forall>s r s'. m s = (r, s') \<longrightarrow> (\<exists>fs. s' = s\<lparr>sq_faults := fs\<rparr>))"

lemma reads_sql: "reads (sql (\<lambda>s. Inr (f s, s)))"
  unfolding reads_def
proof (intro allI impI)
  fix s r s'
  assume "sql (\<lambda>s. Inr (f s, s)) s = (r, s')"
  then show "\<exists>fs. s' = s\<lparr>sq_faults := fs\<rparr>"
    by (cases r) (auto dest: sql_err dest!: sql_ok)
qed

lemma reads_sbind: "reads m \<Longrightarrow> (\<And>x. reads (f x)) \<Longrightarrow> reads (sbind m f)"
  by (fastforce simp: reads_def sbind_def split: prod.splits sum.splits)

lemma reads_sreturn: "reads (sreturn x)"
  unfolding reads_def sreturn_def by (metis Pair_inject sq_db.surjective sq_db.update_convs(5))

lemma reads_boot: "reads (sq_boot did)"
  unfolding sq_boot_def max_local_seq_def split_beta
  by (intro reads_sbind reads_sql reads_sreturn)

lemma boot_refines_mem:
  "refines_op (sq_view did) (sq_inv did) (sq_boot did) (mem_boot did)"
proof (rule refines_opI)
  fix s e s'
  assume "sq_inv did s" "sq_boot did s = (Inl e, s')"
  with reads_boot [of did] show "sq_view did s' = sq_view did s \<and> sq_inv did s'"
    by (fastforce simp: reads_def)
next
  fix s x s'
  assume inv: "sq_inv did s" and b: "sq_boot did s = (Inr x, s')"
  have srt: "sort_key sw_local_seq (doc_wal did s) = doc_wal did s"
    using inv by (auto simp: sq_inv_def intro!: sort_key_id_if_sorted strict_sorted_imp_sorted)
  have "x = mem_boot_state (sq_view did s)"
  proof -
    from b obtain snap s1 rows s2 lls s3 la kn s4 fl s5 where
        1: "sql (\<lambda>s. Inr (map_option (\<lambda>(n, b). \<lparr>up_to_local_seq = as_u64 n, sr_payload = b\<rparr>)
             (sq_snapshots s did), s)) s = (Inr snap, s1)"
      and 2: "sql (\<lambda>s. Inr (map (\<lambda>r. \<lparr>wr_local_seq = as_u64 (sw_local_seq r),
             wr_payload = sw_payload r\<rparr>) (sort_key sw_local_seq (doc_wal did s)), s)) s1
             = (Inr rows, s2)"
      and 3: "max_local_seq did s2 = (Inr lls, s3)"
      and 4: "sql (\<lambda>s. Inr (case sq_docs s did of None \<Rightarrow> (0, None)
             | Some d \<Rightarrow> (sd_last_acked d, sd_server_known_vv d), s)) s3 = (Inr (la, kn), s4)"
      and 5: "sql (\<lambda>s. Inr (sq_in_flight s did, s)) s4 = (Inr fl, s5)"
      and x: "x = \<lparr>bs_snapshot = snap, bs_replay = rows, bs_last_local_seq = lls,
             bs_last_acked_server_seq = as_u64 la,
             bs_server_known_vv = (case kn of None \<Rightarrow> [] | Some v \<Rightarrow> v),
             bs_in_flight_push = fl,
             bs_wal_bytes = fold (\<lambda>r n. n + blob_len (wr_payload r)) rows 0\<rparr>"
      unfolding sq_boot_def by (auto simp: sbind_ok)
    note q = sql_ok [OF 1] sql_ok [OF 2] max_local_seq_ok [OF 3] sql_ok [OF 4] sql_ok [OF 5]
    have "s1 = s\<lparr>sq_faults := sq_faults s1\<rparr>" using q(1) by auto
    then have s1: "sq_view did s1 = sq_view did s" "doc_wal did s1 = doc_wal did s"
      by (metis faults_invisible)+
    have s2: "sq_view did s2 = sq_view did s" and rows: "rows = map (\<lambda>r. \<lparr>wr_local_seq =
        as_u64 (sw_local_seq r), wr_payload = sw_payload r\<rparr>) (doc_wal did s)"
      using q(2) s1 srt by auto
    have s3: "sq_view did s3 = sq_view did s" and lls: "lls = next_local_seq (sq_view did s)"
      using q(3) s2 by (auto simp: sq_view_def)
    have s4: "sq_view did s4 = sq_view did s"
      and la: "as_u64 la = mi_last_acked_server_seq (sq_view did s)"
      and kn: "(case kn of None \<Rightarrow> [] | Some v \<Rightarrow> v) = mi_server_known_vv (sq_view did s)"
      using q(4) unfolding s3 [symmetric]
      by (cases "sq_docs s3 did"; auto simp: sq_view_def)+
    have fl: "fl = mi_in_flight (sq_view did s)"
      using q(5) s4 by (auto simp: sq_view_def)
    have snap: "snap = mi_snapshot (sq_view did s)"
      using q(1) by (auto simp: sq_view_def)
    show ?thesis
      by (simp add: x snap lls la kn fl rows mem_boot_state_def fold_add_sum comp_def)
        (simp add: sq_view_def comp_def)
  qed
  moreover have "\<exists>fs. s' = s\<lparr>sq_faults := fs\<rparr>"
    using reads_boot [of did] b by (auto simp: reads_def)
  ultimately show "mem_boot did (sq_view did s) = (Inr x, sq_view did s') \<and> sq_inv did s'"
    using inv by (auto simp: mem_boot_def)
qed

section \<open>The contract holds\<close>

interpretation sqlite: local_storage sq_api did "sq_view did" "sq_inv did"
  by unfold_locales
    (simp_all add: sq_api_def boot_refines_mem append_local_refines_mem append_remote_refines_mem
      write_snapshot_refines_mem write_acked_refines_mem write_vv_refines_mem
      put_in_flight_refines_mem complete_push_refines_mem)

text \<open>
  Without faults every call succeeds. A call is built from statements, and each of them keeps
  the (empty) list of faults.
\<close>

definition no_faults :: "sq_db \<Rightarrow> bool" where
  "no_faults s \<longleftrightarrow> sq_faults s = []"

definition keeps_no_faults :: "(sq_db, 'a) sop \<Rightarrow> bool" where
  "keeps_no_faults m \<longleftrightarrow> (\<forall>s. no_faults s \<longrightarrow> no_faults (snd (m s)))"

lemma sql_no_faults:
  "no_faults s \<Longrightarrow>
     sql f s = (case f s of Inl e \<Rightarrow> (Inl (SeSql e), s) | Inr (x, s2) \<Rightarrow> (Inr x, s2))"
  by (cases s) (auto simp: sql_def no_faults_def Let_def)

lemma keeps_sql:
  "(\<And>s x s'. f s = Inr (x, s') \<Longrightarrow> sq_faults s' = sq_faults s) \<Longrightarrow> keeps_no_faults (sql f)"
  by (fastforce simp: keeps_no_faults_def sql_no_faults split: sum.splits prod.splits
      simp: no_faults_def)

lemma keeps_sbind: "keeps_no_faults m \<Longrightarrow> (\<And>x. keeps_no_faults (f x)) \<Longrightarrow> keeps_no_faults (sbind m f)"
  by (fastforce simp: keeps_no_faults_def sbind_def split: sum.splits prod.splits)

lemma keeps_sreturn: "keeps_no_faults (sreturn x)"
  by (simp add: keeps_no_faults_def sreturn_def)

lemma keeps_transaction: "keeps_no_faults m \<Longrightarrow> keeps_no_faults (transaction m)"
proof -
  assume "keeps_no_faults m"
  then have "keeps_no_faults (sbind (sql (\<lambda>s. Inr ((), s)))
      (\<lambda>_. sbind m (\<lambda>x. sbind (sql (\<lambda>s. Inr ((), s))) (\<lambda>_. sreturn x))))"
    by (intro keeps_sbind keeps_sql keeps_sreturn) auto
  then show ?thesis
    by (fastforce simp: keeps_no_faults_def transaction_def no_faults_def split: sum.splits prod.splits)
qed

lemma keeps_shared:
  "keeps_no_faults (max_local_seq did)" "keeps_no_faults (ensure_doc did)"
  "keeps_no_faults (insert_wal row)" "keeps_no_faults (update_server_known_vv did vv)"
  by (auto simp: max_local_seq_def ensure_doc_def insert_wal_def update_server_known_vv_def
      intro!: keeps_sql split: option.splits if_splits)

lemma keeps_case_option:
  "keeps_no_faults a \<Longrightarrow> (\<And>x. keeps_no_faults (b x)) \<Longrightarrow>
     keeps_no_faults (case z of None \<Rightarrow> a | Some x \<Rightarrow> b x)"
  by (cases z) auto

lemmas keeps_intros =
  keeps_transaction keeps_sbind keeps_shared keeps_sreturn keeps_case_option

lemma keeps_methods:
  "keeps_no_faults (sq_boot did)"
  "keeps_no_faults (sq_append_local_wal did b)"
  "keeps_no_faults (sq_append_remote_wal did row vv)"
  "keeps_no_faults (sq_write_snapshot did cutoff b)"
  "keeps_no_faults (sq_write_acked_seq did n)"
  "keeps_no_faults (sq_write_server_known_vv did vv)"
  "keeps_no_faults (sq_put_in_flight_push did p)"
  "keeps_no_faults (sq_complete_push did pid vv)"
  unfolding sq_boot_def sq_append_local_wal_def sq_append_remote_wal_def sq_write_snapshot_def
    sq_write_acked_seq_def sq_write_server_known_vv_def sq_put_in_flight_push_def
    sq_complete_push_def Let_def split_beta
  by (intro keeps_intros keeps_sql; auto split: if_splits)+

lemma refines_no_faults:
  "refines_op view sinv f g \<Longrightarrow> keeps_no_faults f \<Longrightarrow>
     refines_op view (\<lambda>s. sinv s \<and> no_faults s) f g"
  by (fastforce simp: refines_op_def keeps_no_faults_def split: sum.splits prod.splits)

lemma transaction_no_faults:
  assumes "no_faults s" "body s = (Inr x, s')" "no_faults s'"
  shows "transaction body s = (Inr x, s')"
  using assms by (simp add: transaction_def sbind_def sql_no_faults sreturn_def)

lemma ensure_doc_no_faults: "no_faults s \<Longrightarrow> \<exists>s'. ensure_doc did s = (Inr (), s') \<and> no_faults s'"
  by (auto simp: ensure_doc_def sql_no_faults no_faults_def split: option.splits)

lemma insert_next_no_faults:
  assumes "sq_inv did s" "fits (sq_view did s)" "no_faults s"
    and "\<forall>n. ss = Some n \<longrightarrow> find (\<lambda>r. sw_server_seq r = Some n) (doc_wal did s) = None"
  shows "\<exists>s'. insert_wal \<lparr>sw_doc = did, sw_local_seq = as_i64 (as_u64 (max_local_seq_of did s) + 1),
      sw_server_seq = ss, sw_payload = b\<rparr> s = (Inr (), s') \<and> no_faults s'"
proof -
  note nc = next_counter(1) [OF assms(1,2)] and bd = max_local_seq_of_bounds(3) [OF assms(1)]
  have "\<not> (\<exists>r \<in> set (doc_wal did s). sw_local_seq r = max_local_seq_of did s + 1)"
    using bd by fastforce
  moreover have "\<not> (ss \<noteq> None \<and> (\<exists>r \<in> set (doc_wal did s). sw_server_seq r = ss))"
    using assms(4) by (auto simp: find_None_iff)
  ultimately show ?thesis
    using assms(3) by (auto simp: insert_wal_def sql_no_faults nc no_faults_def)
qed

lemma append_local_succeeds_sqlite:
  "succeeds_op (sq_view did) (\<lambda>s. sq_inv did s \<and> no_faults s) (sq_append_local_wal did b)"
  unfolding succeeds_op_def
proof (intro allI impI)
  fix s
  assume s: "sq_inv did s \<and> no_faults s" and fit: "fits (sq_view did s)"
  then obtain s1 where s1: "ensure_doc did s = (Inr (), s1)" "no_faults s1"
    using ensure_doc_no_faults by blast
  have v: "sq_view did s1 = sq_view did s" "sq_inv did s1"
    using ensure_doc_view [OF s1(1)] s by simp_all
  have "fits (sq_view did s1)" using v(1) fit by simp
  from insert_next_no_faults [OF v(2) this s1(2), of None b] s1
  show "\<exists>x s'. sq_append_local_wal did b s = (Inr x, s')"
    by (auto simp: sq_append_local_wal_def sbind_def max_local_seq_def sql_no_faults sreturn_def Let_def)
qed

lemma append_remote_succeeds_sqlite:
  "succeeds_op (sq_view did) (\<lambda>s. sq_inv did s \<and> no_faults s) (sq_append_remote_wal did row vv)"
  unfolding succeeds_op_def
proof (intro allI impI)
  fix s
  assume s: "sq_inv did s \<and> no_faults s" and fit: "fits (sq_view did s)"
  then obtain s1 where s1: "ensure_doc did s = (Inr (), s1)" "no_faults s1"
    using ensure_doc_no_faults by blast
  obtain s2 where s2: "update_server_known_vv did vv s1 = (Inr (), s2)" "no_faults s2"
    using s1(2) by (auto simp: update_server_known_vv_def sql_no_faults no_faults_def)
  have v: "sq_view did s2 = (sq_view did s)\<lparr>mi_server_known_vv := vv\<rparr>" "sq_inv did s2"
    using ensure_then_update_vv [OF s1(1) s2(1)] s by simp_all
  have "fits (sq_view did s2)" using v(1) fit by (simp add: fits_def)
  note ins = insert_next_no_faults [OF v(2) this s2(2), of "Some (as_i64 (rr_server_seq row))"
      "rr_payload row"]
  show "\<exists>x s'. sq_append_remote_wal did row vv s = (Inr x, s')"
  proof (cases "find (\<lambda>r. sw_server_seq r = Some (as_i64 (rr_server_seq row))) (doc_wal did s2)")
    case None
    with ins obtain s3 where "insert_wal \<lparr>sw_doc = did,
        sw_local_seq = as_i64 (as_u64 (max_local_seq_of did s2) + 1),
        sw_server_seq = Some (as_i64 (rr_server_seq row)), sw_payload = rr_payload row\<rparr> s2
        = (Inr (), s3)" "no_faults s3"
      by auto
    with None s s1 s2 show ?thesis
      by (auto simp: sq_append_remote_wal_def sbind_def max_local_seq_def sql_no_faults sreturn_def
          Let_def intro!: exI transaction_no_faults)
  next
    case (Some r)
    with s s1 s2 show ?thesis
      by (auto simp: sq_append_remote_wal_def sbind_def max_local_seq_def sql_no_faults sreturn_def
          Let_def intro!: exI transaction_no_faults)
  qed
qed

text \<open>The remaining methods are statements that no constraint can fail.\<close>

definition total_op :: "(sq_db, 'a) sop \<Rightarrow> bool" where
  "total_op m \<longleftrightarrow> (\<forall>s. no_faults s \<longrightarrow> (\<exists>x s'. m s = (Inr x, s') \<and> no_faults s'))"

lemma total_sql:
  "(\<And>s. sq_faults (snd (g s)) = sq_faults s) \<Longrightarrow> total_op (sql (\<lambda>s. Inr (g s)))"
  unfolding total_op_def
proof (intro allI impI)
  fix s
  assume g: "\<And>s. sq_faults (snd (g s)) = sq_faults s" and s: "no_faults s"
  then have "sql (\<lambda>s. Inr (g s)) s = (Inr (fst (g s)), snd (g s))"
    by (simp add: sql_no_faults split_beta)
  with g s show "\<exists>x s'. sql (\<lambda>s. Inr (g s)) s = (Inr x, s') \<and> no_faults s'"
    by (simp add: no_faults_def)
qed

lemma total_sbind: "total_op m \<Longrightarrow> (\<And>x. total_op (f x)) \<Longrightarrow> total_op (sbind m f)"
  by (fastforce simp: total_op_def sbind_def)

lemma total_sreturn: "total_op (sreturn x)"
  by (simp add: total_op_def sreturn_def)

lemma total_transaction: "total_op m \<Longrightarrow> total_op (transaction m)"
  by (auto simp: total_op_def) (metis transaction_no_faults)

lemma total_shared:
  "total_op (max_local_seq did)" "total_op (ensure_doc did)" "total_op (update_server_known_vv did vv)"
  unfolding max_local_seq_def ensure_doc_def update_server_known_vv_def
  by (rule total_sql; simp split: option.splits)+

lemma total_methods:
  "total_op (sq_boot did)"
  "total_op (sq_write_snapshot did cutoff b)"
  "total_op (sq_write_acked_seq did n)"
  "total_op (sq_write_server_known_vv did vv)"
  "total_op (sq_put_in_flight_push did p)"
  "total_op (sq_complete_push did pid vv)"
  unfolding sq_boot_def sq_write_snapshot_def sq_write_acked_seq_def sq_write_server_known_vv_def
    sq_put_in_flight_push_def sq_complete_push_def split_beta
  by (intro total_transaction total_sbind total_shared total_sreturn total_sql; simp)+

lemma total_succeeds: "total_op m \<Longrightarrow> succeeds_op view (\<lambda>s. sinv s \<and> no_faults s) m"
  by (fastforce simp: total_op_def succeeds_op_def)

interpretation sqlite_nofault: reliable_storage sq_api did "sq_view did"
    "\<lambda>s. sq_inv did s \<and> no_faults s"
  by unfold_locales
    (simp_all add: sq_api_def refines_no_faults keeps_methods total_succeeds total_methods
      boot_refines_mem append_local_refines_mem append_remote_refines_mem
      write_snapshot_refines_mem write_acked_refines_mem write_vv_refines_mem
      put_in_flight_refines_mem complete_push_refines_mem append_local_succeeds_sqlite
      append_remote_succeeds_sqlite)

section \<open>Docs do not interfere\<close>

definition isolated :: "uuid \<Rightarrow> (sq_db, 'a) sop \<Rightarrow> bool" where
  "isolated did m \<longleftrightarrow> (\<forall>s d'. d' \<noteq> did \<longrightarrow> sq_view d' (snd (m s)) = sq_view d' s)"

lemma isolated_sql:
  assumes "\<And>s x s' d'. f s = Inr (x, s') \<Longrightarrow> d' \<noteq> did \<Longrightarrow> sq_view d' s' = sq_view d' s"
  shows "isolated did (sql f)"
  unfolding isolated_def
proof (intro allI impI)
  fix s d'
  assume d': "d' \<noteq> did"
  obtain r s' where rs: "sql f s = (r, s')" by (cases "sql f s")
  show "sq_view d' (snd (sql f s)) = sq_view d' s"
  proof (cases r)
    case (Inl e)
    with rs show ?thesis by (auto dest: sql_err)
  next
    case (Inr x)
    with rs obtain fs where "f (s\<lparr>sq_faults := fs\<rparr>) = Inr (x, s')" by (auto dest: sql_ok)
    from assms [OF this d'] rs show ?thesis by simp
  qed
qed

lemma isolated_sbind:
  assumes "isolated did m" and "\<And>x. isolated did (f x)"
  shows "isolated did (sbind m f)"
  unfolding isolated_def
proof (intro allI impI)
  fix s d'
  assume d': "d' \<noteq> did"
  obtain r s' where rs: "m s = (r, s')" by (cases "m s")
  have "sq_view d' s' = sq_view d' s"
    using assms(1) d' rs unfolding isolated_def by (metis snd_conv)
  then show "sq_view d' (snd (sbind m f s)) = sq_view d' s"
    using assms(2) d' rs by (cases r) (simp_all add: sbind_def isolated_def)
qed

lemma isolated_sreturn: "isolated did (sreturn x)"
  by (simp add: isolated_def sreturn_def)

lemma isolated_transaction: "isolated did m \<Longrightarrow> isolated did (transaction m)"
proof -
  assume "isolated did m"
  then have "isolated did (sbind (sql (\<lambda>s. Inr ((), s)))
      (\<lambda>_. sbind m (\<lambda>x. sbind (sql (\<lambda>s. Inr ((), s))) (\<lambda>_. sreturn x))))"
    by (intro isolated_sbind isolated_sql isolated_sreturn) auto
  then show ?thesis
    unfolding isolated_def transaction_def
    by (auto split: prod.splits sum.splits) (metis snd_conv)
qed

lemma isolated_case_option:
  "isolated did a \<Longrightarrow> (\<And>x. isolated did (b x)) \<Longrightarrow>
     isolated did (case z of None \<Rightarrow> a | Some x \<Rightarrow> b x)"
  by (cases z) auto

lemma other_doc_view:
  "d' \<noteq> did \<Longrightarrow> sq_view d' (s\<lparr>sq_docs := (sq_docs s)(did := x)\<rparr>) = sq_view d' s"
  "d' \<noteq> did \<Longrightarrow> sq_view d' (s\<lparr>sq_snapshots := (sq_snapshots s)(did := y)\<rparr>) = sq_view d' s"
  "d' \<noteq> did \<Longrightarrow> sq_view d' (s\<lparr>sq_in_flight := (sq_in_flight s)(did := z)\<rparr>) = sq_view d' s"
  "d' \<noteq> sw_doc row \<Longrightarrow> sq_view d' (s\<lparr>sq_wal := sq_wal s @ [row]\<rparr>) = sq_view d' s"
  "d' \<noteq> did \<Longrightarrow>
     sq_view d' (s\<lparr>sq_wal := filter (\<lambda>r. sw_doc r = did \<longrightarrow> \<not> P r) (sq_wal s)\<rparr>) = sq_view d' s"
proof -
  assume "d' \<noteq> did"
  then have "doc_wal d' (s\<lparr>sq_wal := filter (\<lambda>r. sw_doc r = did \<longrightarrow> \<not> P r) (sq_wal s)\<rparr>) = doc_wal d' s"
    by (auto simp: doc_wal_def intro!: filter_cong)
  then show "sq_view d' (s\<lparr>sq_wal := filter (\<lambda>r. sw_doc r = did \<longrightarrow> \<not> P r) (sq_wal s)\<rparr>) = sq_view d' s"
    by (simp add: sq_view_def max_local_seq_of_def)
qed (simp_all add: sq_view_def max_local_seq_of_def doc_wal_def)

lemma isolated_shared:
  "isolated did (max_local_seq did)" "isolated did (ensure_doc did)"
  "sw_doc row = did \<Longrightarrow> isolated did (insert_wal row)"
  "isolated did (update_server_known_vv did vv)"
  by (auto simp: max_local_seq_def ensure_doc_def insert_wal_def update_server_known_vv_def
      other_doc_view intro!: isolated_sql split: option.splits if_splits)

lemma isolated_methods:
  "isolated did (sq_boot did)"
  "isolated did (sq_append_local_wal did b)"
  "isolated did (sq_append_remote_wal did row vv)"
  "isolated did (sq_write_snapshot did cutoff b)"
  "isolated did (sq_write_acked_seq did n)"
  "isolated did (sq_write_server_known_vv did vv)"
  "isolated did (sq_put_in_flight_push did p)"
  "isolated did (sq_complete_push did pid vv)"
  unfolding sq_boot_def sq_append_local_wal_def sq_append_remote_wal_def sq_write_snapshot_def
    sq_write_acked_seq_def sq_write_server_known_vv_def sq_put_in_flight_push_def
    sq_complete_push_def Let_def split_beta
  by (intro isolated_transaction isolated_sbind isolated_shared isolated_sreturn isolated_case_option
      isolated_sql; auto simp: other_doc_view split: if_splits)+

section \<open>Properties\<close>

text \<open>
  C10: from a state without faults, any sequence of trait calls on the sqlite storage succeeds
  and leaves, for the doc it is about, exactly what the same calls leave in the in-memory
  reference, as long as the local counter stays below \<open>2^62\<close>.
\<close>

theorem sqlite_implements_reference:
  assumes "sq_inv did s" and "no_faults s" and "list_all call_ok cs"
    and "unat (next_local_seq (sq_view did s)) + length cs < 2 ^ 62"
  shows "sq_view did (run_calls sq_api did cs s) = run_calls mem_api did cs (sq_view did s)"
  using sqlite_nofault.run_calls_view [of did s cs] assms by simp

theorem sqlite_implements_reference_witness:
  "sq_view 7 (run_calls sq_api 7
      [CAppendLocal \<lparr>nonce = [1], ciphertext = [2]\<rparr>, CWriteSnapshot 1 \<lparr>nonce = [3], ciphertext = [4]\<rparr>]
      sq_empty) =
   run_calls mem_api 7
      [CAppendLocal \<lparr>nonce = [1], ciphertext = [2]\<rparr>, CWriteSnapshot 1 \<lparr>nonce = [3], ciphertext = [4]\<rparr>]
      (sq_view 7 sq_empty)"
  by (rule sqlite_implements_reference)
    (simp_all add: sq_inv_def no_faults_def sq_empty_def doc_wal_def sq_view_def
      max_local_seq_of_def sql_max_def)

text \<open>
  C11: whatever statements fail, a trait call that returns an error leaves the doc's persisted
  state (snapshot, WAL, cursors, in-flight push) as it was: no half-written row, no cursor that
  advanced without its row.
\<close>

theorem sqlite_failed_call_changes_nothing:
  assumes "sq_inv did s" and "fits (sq_view did s)" and "call_ok c"
    and "run_call sq_api did c s = (Some e, s')"
  shows "sq_view did s' = sq_view did s \<and> sq_inv did s'"
  using sqlite.run_call_view [OF assms] by simp

theorem sqlite_failed_call_changes_nothing_witness:
  "sq_view 7 (snd (run_call sq_api 7 (CAppendRemote \<lparr>rr_server_seq = 5,
       rr_payload = \<lparr>nonce = [1], ciphertext = [2]\<rparr>\<rparr> [9])
       (sq_empty\<lparr>sq_faults := [None, None, None, Some ''disk I/O error'']\<rparr>)))
   = sq_view 7 sq_empty"
proof -
  let ?s = "sq_empty\<lparr>sq_faults := [None, None, None, Some ''disk I/O error'']\<rparr>"
  let ?c = "CAppendRemote \<lparr>rr_server_seq = 5, rr_payload = \<lparr>nonce = [1], ciphertext = [2]\<rparr>\<rparr> [9]"
  have "fst (run_call sq_api 7 ?c ?s) = Some (SeSql ''disk I/O error'')"
    by (simp add: sq_api_def sq_append_remote_wal_def transaction_def sbind_def sql_def Let_def
        ensure_doc_def update_server_known_vv_def sq_empty_def outcome_def)
  then have r: "run_call sq_api 7 ?c ?s =
      (Some (SeSql ''disk I/O error''), snd (run_call sq_api 7 ?c ?s))"
    by (metis prod.collapse)
  have "sq_inv 7 ?s" "fits (sq_view 7 ?s)"
    by (simp_all add: sq_inv_def sq_empty_def doc_wal_def fits_def sq_view_def max_local_seq_of_def
        sql_max_def)
  from sqlite_failed_call_changes_nothing [OF this _ r] show ?thesis by simp
qed

text \<open>
  A trait call for one doc never changes what another doc would boot from, whether the call
  succeeds or fails, and under any faults.
\<close>

theorem sqlite_docs_isolated:
  "other \<noteq> did \<longrightarrow> sq_view other (snd (run_call sq_api did c s)) = sq_view other s"
  using isolated_methods [of did]
  by (cases c) (auto simp: sq_api_def isolated_def)

theorem sqlite_docs_isolated_witness:
  "sq_view 8 (snd (run_call sq_api 7 (CWriteAcked 3) sq_empty)) = sq_view 8 sq_empty"
  using sqlite_docs_isolated [of 8 7 "CWriteAcked 3" sq_empty] by simp

end
