(* ===== verification/Sync_Engine.thy ===== *)
theory Sync_Engine
  imports Storage
begin

text \<open>
  \<open>core/src/sync.rs\<close>: the sans-IO sync engine. Its state is the record \<open>engine\<close>; each
  method is a function on it, and \<open>handle_server_frame\<close> is split into one definition per
  frame it matches. The engine's dependencies (Loro, the AEAD, the random source, the storage's
  method table, the MessagePack codec) are the record \<open>env\<close>.

  An \<open>Event::Error\<close> carries a formatted message in the code; here it carries an
  \<open>engine_error\<close>, one constructor per message with the arguments it formats. Rust's \<open>+\<close>
  on \<open>u64\<close> is word addition (the release build's wrap-around). A \<open>debug_assert!\<close> that
  would fire sets \<open>en_assert_failed\<close> and execution goes on, as in a release build.
\<close>

section \<open>Types\<close>

datatype conn_state =
    Disconnected | Opening | Pulling | Bootstrapping | Idle | Pushing | PushingDirty

datatype engine_error =
    EeDecodeServerKnownVv string
  | EeDecodeInFlightToVv string
  | EeWriteAckedSeq storage_error
  | EeAlreadyConnected
  | EeEncodeOpenDoc string
  | EeHandshakeTimedOut
  | EeServerBytesWhileDisconnected
  | EeDecodeServerFrame string
  | EeWrongDoc uuid uuid
  | EeDocOpenedUnexpected conn_state
  | EeEncodePullUpdates string
  | EeBatchDuringBootstrapping
  | EeUpdatesAckUnexpected conn_state
  | EeUpdatesAckNoInFlight
  | EeUpdatesAckMismatch uuid "uuid list"
  | EeCompletePush storage_error
  | EeSnapshotRequiredUnexpected conn_state
  | EeEncodePullSnapshot string
  | EeSnapshotUnexpected conn_state
  | EeApplySnapshot doc_error
  | EeWriteServerKnownVv storage_error
  | EeSnapshotBlob doc_error
  | EeWriteBootstrapSnapshot storage_error
  | EeDeltaBaseOutside u64
  | EeOpenDeltaBase crypto_error
  | EeDecodeDeltaBase string
  | EeSnapshotExport doc_error
  | EeSealUpToVv crypto_error
  | EeEncodePushSnapshot string
  | EeApplyRemoteBlob u64 doc_error
  | EeAppendRemoteWal storage_error
  | EeAppendLocalWal storage_error
  | EeExportUpdatesSince doc_error
  | EePutInFlightPush storage_error
  | EeEncodePushUpdates string

datatype event =
    ConnStateChanged bool
  | PulledInitial
  | Pushed
  | FrontierAdvanced u64
  | EvError engine_error
  | EvDocClosed string
  | EvPresence "present_account list"

record engine_options =
  client_name :: string
  client_version :: string

record 'v in_flight_state =
  fl_push_id :: uuid
  fl_payload :: encrypted_blob
  fl_to_vv :: 'v

record ('d, 'v, 's) env =
  e_loro :: "('d, 'v) loro"
  e_aead :: aead
  e_rng :: rng
  e_st :: "'s storage_api"
  e_enc :: "client_frame \<Rightarrow> string + bytes" \<comment> \<open>\<open>rmp_serde::to_vec_named\<close>\<close>
  e_dec :: "bytes \<Rightarrow> string + server_frame" \<comment> \<open>\<open>rmp_serde::from_slice\<close>\<close>

record ('d, 'v, 's) engine =
  en_doc :: "('d, 'v) doc"
  en_dek :: dek
  en_doc_id :: uuid
  en_storage :: 's
  en_server_known_vv :: 'v
  en_in_flight :: "'v in_flight_state option"
  en_last_local_seq :: u64
  en_wal_rows :: u64
  en_wal_bytes :: u64
  en_state :: conn_state
  en_last_contiguous_seq :: u64
  en_server_epoch :: "u64 option"
  en_last_durable_seq :: u64
  en_last_sent_ack :: u64
  en_outbox :: "bytes list"
  en_events :: "event list"
  en_draws :: nat \<comment> \<open>draws taken from the random source\<close>
  en_assert_failed :: bool \<comment> \<open>a \<open>debug_assert!\<close> has fired\<close>

section \<open>Connection-level handshake\<close>

definition hello_frame :: "(hello \<Rightarrow> bytes) \<Rightarrow> engine_options \<Rightarrow> bytes" where
  "hello_frame enc opts =
     enc \<lparr>h_client = client_name opts, h_client_version = client_version opts,
          supported_protocol_versions = [PROTOCOL_VERSION]\<rparr>"

datatype hello_error = HeRejected string | HeVersionMismatch u32 | HeMalformed

definition parse_hello_response ::
  "(bytes \<Rightarrow> hello_ack option) \<Rightarrow> (bytes \<Rightarrow> hello_rejected option) \<Rightarrow> bytes
     \<Rightarrow> hello_error + hello_ack" where
  "parse_hello_response dec_ack dec_rejected b =
     (case dec_ack b of
        Some ack \<Rightarrow>
          (if protocol_version ack \<noteq> PROTOCOL_VERSION
           then Inl (HeVersionMismatch (protocol_version ack)) else Inr ack)
      | None \<Rightarrow>
          (case dec_rejected b of
             Some rej \<Rightarrow> Inl (HeRejected (rejected_reason rej))
           | None \<Rightarrow> Inl HeMalformed))"

definition server_frame_doc_id :: "(bytes \<Rightarrow> string + server_frame) \<Rightarrow> bytes \<Rightarrow> uuid option" where
  "server_frame_doc_id dec b =
     (case dec b of Inl _ \<Rightarrow> None | Inr f \<Rightarrow> Some (server_frame_doc f))"

section \<open>Construction and seeding\<close>

definition engine_new ::
  "('d, 'v, 's) env \<Rightarrow> ('d, 'v) doc \<Rightarrow> uuid \<Rightarrow> dek \<Rightarrow> u64 \<Rightarrow> 's \<Rightarrow> nat \<Rightarrow> ('d, 'v, 's) engine" where
  "engine_new E d did k last_acked_seq s r =
     \<lparr>en_doc = d, en_dek = k, en_doc_id = did, en_storage = s,
      en_server_known_vv = vv_default (e_loro E), en_in_flight = None,
      en_last_local_seq = 0, en_wal_rows = 0, en_wal_bytes = 0,
      en_state = Disconnected, en_last_contiguous_seq = last_acked_seq,
      en_server_epoch = None, en_last_durable_seq = last_acked_seq,
      en_last_sent_ack = last_acked_seq, en_outbox = [], en_events = [],
      en_draws = r, en_assert_failed = False\<rparr>"

definition push_event :: "event \<Rightarrow> ('d, 'v, 's) engine \<Rightarrow> ('d, 'v, 's) engine" where
  "push_event ev e = e\<lparr>en_events := en_events e @ [ev]\<rparr>"

abbreviation push_error :: "engine_error \<Rightarrow> ('d, 'v, 's) engine \<Rightarrow> ('d, 'v, 's) engine" where
  "push_error err \<equiv> push_event (EvError err)"

definition set_last_local_seq :: "u64 \<Rightarrow> ('d, 'v, 's) engine \<Rightarrow> ('d, 'v, 's) engine" where
  "set_last_local_seq n e = e\<lparr>en_last_local_seq := n\<rparr>"

definition seed_wal_stats :: "u64 \<Rightarrow> u64 \<Rightarrow> ('d, 'v, 's) engine \<Rightarrow> ('d, 'v, 's) engine" where
  "seed_wal_stats rows bts e = e\<lparr>en_wal_rows := rows, en_wal_bytes := bts\<rparr>"

definition seed_server_known_vv ::
  "('d, 'v, 's) env \<Rightarrow> bytes \<Rightarrow> ('d, 'v, 's) engine \<Rightarrow> ('d, 'v, 's) engine" where
  "seed_server_known_vv E encoded e =
     (if encoded = [] then e
      else case vv_decode (e_loro E) encoded of
             Inr vv \<Rightarrow> e\<lparr>en_server_known_vv := vv\<rparr>
           | Inl err \<Rightarrow> push_error (EeDecodeServerKnownVv err) e)"

definition seed_in_flight_push ::
  "('d, 'v, 's) env \<Rightarrow> in_flight_push \<Rightarrow> ('d, 'v, 's) engine \<Rightarrow> ('d, 'v, 's) engine" where
  "seed_in_flight_push E p e =
     (case vv_decode (e_loro E) (if_to_vv p) of
        Inr to_vv \<Rightarrow>
          e\<lparr>en_in_flight := Some \<lparr>fl_push_id = if_push_id p, fl_payload = if_payload p,
                                   fl_to_vv = to_vv\<rparr>\<rparr>
      | Inl err \<Rightarrow> push_error (EeDecodeInFlightToVv err) e)"

definition seed_boot ::
  "('d, 'v, 's) env \<Rightarrow> boot_meta \<Rightarrow> ('d, 'v, 's) engine \<Rightarrow> ('d, 'v, 's) engine" where
  "seed_boot E meta e =
     (let e1 = set_last_local_seq (bm_last_local_seq meta) e;
          e2 = seed_wal_stats (bm_wal_rows meta) (bm_wal_bytes meta) e1;
          e3 = seed_server_known_vv E (bm_server_known_vv meta) e2
      in case bm_in_flight_push meta of
           Some p \<Rightarrow> seed_in_flight_push E p e3
         | None \<Rightarrow> e3)"

definition engine_has_unsynced_ops :: "('d, 'v, 's) env \<Rightarrow> ('d, 'v, 's) engine \<Rightarrow> bool" where
  "engine_has_unsynced_ops E e \<longleftrightarrow>
     en_in_flight e \<noteq> None \<or>
     \<not> vv_includes (e_loro E) (en_server_known_vv e) (oplog_vv (e_loro E) (en_doc e))"

section \<open>WAL capture and local snapshots\<close>

definition capture_local_ops ::
  "('d, 'v, 's) env \<Rightarrow> ('d, 'v, 's) engine \<Rightarrow> (storage_error + u64 option) \<times> ('d, 'v, 's) engine" where
  "capture_local_ops E e =
     (if \<not> has_uncaptured_ops (e_loro E) (en_doc e) then (Inr None, e)
      else
        let vv = oplog_vv (e_loro E) (en_doc e);
            e1 = e\<lparr>en_draws := Suc (en_draws e)\<rparr>
        in case pending_export (e_loro E) (e_aead E) (e_rng E) (en_dek e) (en_draws e) (en_doc e) of
             Inl err \<Rightarrow> (Inl (SePendingExport err), e1)
           | Inr None \<Rightarrow> (Inr None, e1)
           | Inr (Some blob) \<Rightarrow>
               (case st_append_local_wal (e_st E) (en_doc_id e) blob (en_storage e) of
                  (Inl err, s') \<Rightarrow> (Inl err, e1\<lparr>en_storage := s'\<rparr>)
                | (Inr local_seq, s') \<Rightarrow>
                    (Inr (Some local_seq),
                     e1\<lparr>en_storage := s',
                        en_last_local_seq := local_seq,
                        en_wal_rows := en_wal_rows e + 1,
                        en_wal_bytes := en_wal_bytes e + blob_len blob,
                        en_doc := mark_persisted_at (e_loro E) vv (en_doc e)\<rparr>)))"

definition write_local_snapshot ::
  "('d, 'v, 's) env \<Rightarrow> ('d, 'v, 's) engine \<Rightarrow> (storage_error + bool) \<times> ('d, 'v, 's) engine" where
  "write_local_snapshot E e =
     (let cutoff = en_last_local_seq e;
          e1 = e\<lparr>en_draws := Suc (en_draws e)\<rparr>
      in case snapshot_blob (e_loro E) (e_aead E) (e_rng E) (en_dek e) (en_draws e) (en_doc e) of
           Inl err \<Rightarrow> (Inl (SeSnapshotBlob err), e1)
         | Inr blob \<Rightarrow>
             (case st_write_snapshot (e_st E) (en_doc_id e) cutoff blob (en_storage e) of
                (Inl err, s') \<Rightarrow> (Inl err, e1\<lparr>en_storage := s'\<rparr>)
              | (Inr _, s') \<Rightarrow>
                  (Inr True, e1\<lparr>en_storage := s', en_wal_rows := 0, en_wal_bytes := 0\<rparr>)))"

definition snapshot_if_wal_exceeds ::
  "('d, 'v, 's) env \<Rightarrow> u64 \<Rightarrow> u64 \<Rightarrow> ('d, 'v, 's) engine
     \<Rightarrow> (storage_error + bool) \<times> ('d, 'v, 's) engine" where
  "snapshot_if_wal_exceeds E max_rows max_bytes e =
     (case capture_local_ops E e of
        (Inl err, e1) \<Rightarrow> (Inl err, e1)
      | (Inr _, e1) \<Rightarrow>
          (if en_wal_rows e1 < max max_rows 1 \<and> en_wal_bytes e1 \<le> max_bytes then (Inr False, e1)
           else write_local_snapshot E e1))"

definition force_snapshot ::
  "('d, 'v, 's) env \<Rightarrow> ('d, 'v, 's) engine \<Rightarrow> (storage_error + bool) \<times> ('d, 'v, 's) engine" where
  "force_snapshot E e =
     (case capture_local_ops E e of
        (Inl err, e1) \<Rightarrow> (Inl err, e1)
      | (Inr _, e1) \<Rightarrow>
          (if en_wal_rows e1 = 0 then (Inr False, e1) else write_local_snapshot E e1))"

section \<open>The outbox\<close>

definition encode_into_outbox ::
  "('d, 'v, 's) env \<Rightarrow> client_frame \<Rightarrow> ('d, 'v, 's) engine \<Rightarrow> (string + unit) \<times> ('d, 'v, 's) engine" where
  "encode_into_outbox E f e =
     (case e_enc E f of
        Inl err \<Rightarrow> (Inl err, e)
      | Inr b \<Rightarrow> (Inr (), e\<lparr>en_outbox := en_outbox e @ [b]\<rparr>))"

definition go_disconnected :: "('d, 'v, 's) engine \<Rightarrow> ('d, 'v, 's) engine" where
  "go_disconnected e =
     push_event (ConnStateChanged False) (e\<lparr>en_state := Disconnected, en_outbox := []\<rparr>)"

text \<open>The shape every \<open>handle_*\<close> arm shares: queue a frame or report and go down.\<close>

definition send_or_disconnect ::
  "('d, 'v, 's) env \<Rightarrow> client_frame \<Rightarrow> (string \<Rightarrow> engine_error) \<Rightarrow> ('d, 'v, 's) engine
     \<Rightarrow> ('d, 'v, 's) engine" where
  "send_or_disconnect E f mk e =
     (case encode_into_outbox E f e of
        (Inl err, e1) \<Rightarrow> go_disconnected (push_error (mk err) e1)
      | (Inr _, e1) \<Rightarrow> e1)"

definition queue_ack_if_advanced ::
  "('d, 'v, 's) env \<Rightarrow> ('d, 'v, 's) engine \<Rightarrow> ('d, 'v, 's) engine" where
  "queue_ack_if_advanced E e =
     (if en_last_durable_seq e > en_last_sent_ack e then
        (case encode_into_outbox E (Ack (en_doc_id e) (en_last_durable_seq e)) e of
           (Inl _, e1) \<Rightarrow> e1
         | (Inr _, e1) \<Rightarrow> e1\<lparr>en_last_sent_ack := en_last_durable_seq e1\<rparr>)
      else e)"

definition notify_oplog_durable ::
  "('d, 'v, 's) env \<Rightarrow> u64 \<Rightarrow> ('d, 'v, 's) engine \<Rightarrow> ('d, 'v, 's) engine" where
  "notify_oplog_durable E n e =
     (let clamped = min n (en_last_contiguous_seq e)
      in if clamped > en_last_durable_seq e then
           let e1 = e\<lparr>en_last_durable_seq := clamped\<rparr>;
               (r, s') = st_write_acked_seq (e_st E) (en_doc_id e) clamped (en_storage e);
               e2 = e1\<lparr>en_storage := s'\<rparr>;
               e3 = (case r of Inl err \<Rightarrow> push_error (EeWriteAckedSeq err) e2 | Inr _ \<Rightarrow> e2)
           in queue_ack_if_advanced E e3
         else e)"

definition is_online :: "('d, 'v, 's) engine \<Rightarrow> bool" where
  "is_online e \<longleftrightarrow> en_state e \<noteq> Disconnected"

definition is_idle :: "('d, 'v, 's) engine \<Rightarrow> bool" where
  "is_idle e \<longleftrightarrow> en_state e = Idle"

definition pop_outbox :: "('d, 'v, 's) engine \<Rightarrow> bytes option \<times> ('d, 'v, 's) engine" where
  "pop_outbox e =
     (case en_outbox e of [] \<Rightarrow> (None, e) | b # bs \<Rightarrow> (Some b, e\<lparr>en_outbox := bs\<rparr>))"

definition pop_event :: "('d, 'v, 's) engine \<Rightarrow> event option \<times> ('d, 'v, 's) engine" where
  "pop_event e =
     (case en_events e of [] \<Rightarrow> (None, e) | ev # evs \<Rightarrow> (Some ev, e\<lparr>en_events := evs\<rparr>))"

section \<open>Transport events\<close>

definition handle_connected ::
  "('d, 'v, 's) env \<Rightarrow> ('d, 'v, 's) engine \<Rightarrow> ('d, 'v, 's) engine" where
  "handle_connected E e =
     (if en_state e \<noteq> Disconnected then push_error EeAlreadyConnected e
      else send_or_disconnect E (OpenDoc (en_doc_id e)) EeEncodeOpenDoc
             (push_event (ConnStateChanged True) (e\<lparr>en_state := Opening\<rparr>)))"

definition handle_disconnected :: "('d, 'v, 's) engine \<Rightarrow> ('d, 'v, 's) engine" where
  "handle_disconnected e = (if en_state e = Disconnected then e else go_disconnected e)"

definition handle_timeout :: "('d, 'v, 's) engine \<Rightarrow> ('d, 'v, 's) engine" where
  "handle_timeout e = (if en_state e = Opening then push_error EeHandshakeTimedOut e else e)"

section \<open>Pushing\<close>

text \<open>The part of \<open>try_start_push\<close> that sends the in-flight push it has ensured.\<close>

definition send_in_flight ::
  "('d, 'v, 's) env \<Rightarrow> 'v in_flight_state \<Rightarrow> ('d, 'v, 's) engine \<Rightarrow> ('d, 'v, 's) engine" where
  "send_in_flight E fl e =
     (case encode_into_outbox E (PushUpdates (en_doc_id e)
              [\<lparr>pb_push_id = fl_push_id fl, pb_blob = fl_payload fl\<rparr>]) e of
        (Inl err, e1) \<Rightarrow> push_error (EeEncodePushUpdates err) e1
      | (Inr _, e1) \<Rightarrow> e1\<lparr>en_state := Pushing\<rparr>)"

definition start_fresh_push ::
  "('d, 'v, 's) env \<Rightarrow> ('d, 'v, 's) engine \<Rightarrow> ('d, 'v, 's) engine" where
  "start_fresh_push E e0 =
     (case capture_local_ops E e0 of
        (Inl err, e) \<Rightarrow> push_error (EeAppendLocalWal err) e
      | (Inr _, e) \<Rightarrow>
          (let to_vv = oplog_vv (e_loro E) (en_doc e)
           in case export_updates_since (e_loro E) (e_aead E) (e_rng E) (en_dek e) (en_draws e)
                     (en_server_known_vv e) (en_doc e) of
                Inl err \<Rightarrow> push_error (EeExportUpdatesSince err) (e\<lparr>en_draws := Suc (en_draws e)\<rparr>)
              | Inr None \<Rightarrow> e\<lparr>en_draws := Suc (en_draws e)\<rparr>
              | Inr (Some blob) \<Rightarrow>
                  (let pid = rnd_uuid (e_rng E) (Suc (en_draws e));
                       e1 = e\<lparr>en_draws := Suc (Suc (en_draws e))\<rparr>;
                       p = \<lparr>if_push_id = pid, if_payload = blob,
                            if_from_vv = vv_encode (e_loro E) (en_server_known_vv e),
                            if_to_vv = vv_encode (e_loro E) to_vv\<rparr>
                   in case st_put_in_flight_push (e_st E) (en_doc_id e) p (en_storage e) of
                        (Inl err, s') \<Rightarrow>
                          push_error (EePutInFlightPush err) (e1\<lparr>en_storage := s'\<rparr>)
                      | (Inr _, s') \<Rightarrow>
                          (let fl = \<lparr>fl_push_id = pid, fl_payload = blob, fl_to_vv = to_vv\<rparr>
                           in send_in_flight E fl
                                (e1\<lparr>en_storage := s', en_in_flight := Some fl\<rparr>)))))"

definition try_start_push ::
  "('d, 'v, 's) env \<Rightarrow> ('d, 'v, 's) engine \<Rightarrow> ('d, 'v, 's) engine" where
  "try_start_push E e =
     (if en_state e \<noteq> Idle then e
      else case en_in_flight e of
             None \<Rightarrow> start_fresh_push E e
           | Some fl \<Rightarrow> send_in_flight E fl e)"

definition flush :: "('d, 'v, 's) env \<Rightarrow> ('d, 'v, 's) engine \<Rightarrow> ('d, 'v, 's) engine" where
  "flush E e =
     (case en_state e of
        Idle \<Rightarrow> try_start_push E e
      | Pushing \<Rightarrow> e\<lparr>en_state := PushingDirty\<rparr>
      | _ \<Rightarrow> e)"

section \<open>Remote updates\<close>

definition ingest_seq :: "u64 \<Rightarrow> ('d, 'v, 's) engine \<Rightarrow> ('d, 'v, 's) engine" where
  "ingest_seq n e =
     (if n = en_last_contiguous_seq e + 1 then e\<lparr>en_last_contiguous_seq := n\<rparr>
      else if n \<le> en_last_contiguous_seq e then e
      else e\<lparr>en_assert_failed := True\<rparr>)"

definition append_remote ::
  "('d, 'v, 's) env \<Rightarrow> bytes \<Rightarrow> stored_blob \<Rightarrow> ('d, 'v, 's) engine \<Rightarrow> ('d, 'v, 's) engine" where
  "append_remote E vv_bytes u e =
     (case st_append_remote_wal (e_st E) (en_doc_id e)
             \<lparr>rr_server_seq = sb_seq u, rr_payload = sb_blob u\<rparr> vv_bytes (en_storage e) of
        (Inr (local_seq, inserted), s') \<Rightarrow>
          (if inserted
           then e\<lparr>en_storage := s', en_last_local_seq := local_seq,
                  en_wal_rows := en_wal_rows e + 1,
                  en_wal_bytes := en_wal_bytes e + blob_len (sb_blob u)\<rparr>
           else e\<lparr>en_storage := s'\<rparr>)
      | (Inl err, s') \<Rightarrow> push_error (EeAppendRemoteWal err) (e\<lparr>en_storage := s'\<rparr>))"

definition failed_seq :: "u64 \<Rightarrow> stored_blob list \<Rightarrow> u64" where
  "failed_seq contig updates =
     (case find (\<lambda>u. sb_seq u > contig) updates of
        Some u \<Rightarrow> sb_seq u
      | None \<Rightarrow> fold max (map sb_seq updates) 0)"

definition frontier_event ::
  "u64 \<Rightarrow> ('d, 'v, 's) engine \<Rightarrow> ('d, 'v, 's) engine" where
  "frontier_event prev e =
     (if en_last_contiguous_seq e > prev
      then push_event (FrontierAdvanced (en_last_contiguous_seq e)) e else e)"

definition apply_remote_updates ::
  "('d, 'v, 's) env \<Rightarrow> stored_blob list \<Rightarrow> ('d, 'v, 's) engine \<Rightarrow> ('d, 'v, 's) engine" where
  "apply_remote_updates E updates e =
     (if updates = [] then e
      else case apply_remote_batch (e_loro E) (e_aead E) (en_dek e) (map sb_blob updates) (en_doc e) of
             (Inl err, d') \<Rightarrow>
               push_error (EeApplyRemoteBlob (failed_seq (en_last_contiguous_seq e) updates) err)
                 (e\<lparr>en_doc := d'\<rparr>)
           | (Inr imported, d') \<Rightarrow>
               (let known = vv_merge (e_loro E) (en_server_known_vv e) imported;
                    e1 = e\<lparr>en_doc := d', en_server_known_vv := known\<rparr>;
                    e2 = fold (append_remote E (vv_encode (e_loro E) known)) updates e1;
                    prev = en_last_contiguous_seq e2;
                    e3 = fold ingest_seq (map sb_seq updates) e2
                in frontier_event prev e3))"

section \<open>Server frames\<close>

definition on_doc_opened ::
  "('d, 'v, 's) env \<Rightarrow> u64 \<Rightarrow> ('d, 'v, 's) engine \<Rightarrow> ('d, 'v, 's) engine" where
  "on_doc_opened E epoch e =
     (if en_state e \<noteq> Opening then push_error (EeDocOpenedUnexpected (en_state e)) e
      else send_or_disconnect E (PullUpdates (en_doc_id e) (en_last_contiguous_seq e))
             EeEncodePullUpdates
             (e\<lparr>en_server_epoch := Some epoch, en_state := Pulling\<rparr>))"

definition on_doc_rejected :: "string \<Rightarrow> ('d, 'v, 's) engine \<Rightarrow> ('d, 'v, 's) engine" where
  "on_doc_rejected reason e =
     go_disconnected (push_event (EvDocClosed (''doc rejected: '' @ reason)) e)"

definition on_doc_closed :: "string \<Rightarrow> ('d, 'v, 's) engine \<Rightarrow> ('d, 'v, 's) engine" where
  "on_doc_closed reason e =
     go_disconnected (push_event (EvDocClosed (''doc closed: '' @ reason)) e)"

definition on_updates_batch ::
  "('d, 'v, 's) env \<Rightarrow> stored_blob list \<Rightarrow> bool \<Rightarrow> ('d, 'v, 's) engine \<Rightarrow> ('d, 'v, 's) engine" where
  "on_updates_batch E updates complete e =
     (if en_state e = Bootstrapping then push_error EeBatchDuringBootstrapping e
      else
        let e1 = apply_remote_updates E updates e
        in if complete \<and> en_state e1 = Pulling
           then try_start_push E (push_event PulledInitial (e1\<lparr>en_state := Idle\<rparr>))
           else e1)"

definition on_updates_broadcast ::
  "('d, 'v, 's) env \<Rightarrow> stored_blob list \<Rightarrow> ('d, 'v, 's) engine \<Rightarrow> ('d, 'v, 's) engine" where
  "on_updates_broadcast E updates e =
     (if en_state e = Bootstrapping then e else apply_remote_updates E updates e)"

text \<open>The well-formed acknowledgement: exactly one, for our push.\<close>

definition complete_in_flight ::
  "('d, 'v, 's) env \<Rightarrow> 'v in_flight_state \<Rightarrow> u64 \<Rightarrow> ('d, 'v, 's) engine \<Rightarrow> ('d, 'v, 's) engine" where
  "complete_in_flight E fl n e =
     (let known = vv_merge (e_loro E) (en_server_known_vv e) (fl_to_vv fl);
          e1 = e\<lparr>en_server_known_vv := known\<rparr>;
          (r, s') = st_complete_push (e_st E) (en_doc_id e) (fl_push_id fl)
                      (vv_encode (e_loro E) known) (en_storage e);
          e2 = e1\<lparr>en_storage := s'\<rparr>;
          e3 = (case r of Inl err \<Rightarrow> push_error (EeCompletePush err) e2 | Inr _ \<Rightarrow> e2);
          prev = en_last_contiguous_seq e3;
          e4 = frontier_event prev (ingest_seq n e3)
      in try_start_push E ((push_event Pushed e4)\<lparr>en_state := Idle\<rparr>))"

definition on_updates_ack ::
  "('d, 'v, 's) env \<Rightarrow> push_ack list \<Rightarrow> ('d, 'v, 's) engine \<Rightarrow> ('d, 'v, 's) engine" where
  "on_updates_ack E acks e =
     (if en_state e \<noteq> Pushing \<and> en_state e \<noteq> PushingDirty
      then push_error (EeUpdatesAckUnexpected (en_state e)) e
      else case en_in_flight e of
             None \<Rightarrow> (push_error EeUpdatesAckNoInFlight e)\<lparr>en_state := Idle\<rparr>
           | Some fl \<Rightarrow>
               (case acks of
                  [ack] \<Rightarrow>
                    (if pa_push_id ack = fl_push_id fl
                     then complete_in_flight E fl (pa_seq ack) (e\<lparr>en_in_flight := None\<rparr>)
                     else push_error (EeUpdatesAckMismatch (fl_push_id fl) (map pa_push_id acks)) e)
                | _ \<Rightarrow> push_error (EeUpdatesAckMismatch (fl_push_id fl) (map pa_push_id acks)) e))"

definition on_snapshot_required ::
  "('d, 'v, 's) env \<Rightarrow> ('d, 'v, 's) engine \<Rightarrow> ('d, 'v, 's) engine" where
  "on_snapshot_required E e =
     (if en_state e \<noteq> Pulling then push_error (EeSnapshotRequiredUnexpected (en_state e)) e
      else send_or_disconnect E (PullSnapshot (en_doc_id e)) EeEncodePullSnapshot
             (e\<lparr>en_state := Bootstrapping\<rparr>))"

text \<open>The last row of the chain: checkpoint the merged doc and resume the pull.\<close>

definition finish_bootstrap ::
  "('d, 'v, 's) env \<Rightarrow> u64 \<Rightarrow> ('d, 'v, 's) engine \<Rightarrow> ('d, 'v, 's) engine" where
  "finish_bootstrap E up_to_seq e =
     (case st_write_server_known_vv (e_st E) (en_doc_id e)
             (vv_encode (e_loro E) (en_server_known_vv e)) (en_storage e) of
        (Inl err, s') \<Rightarrow>
          go_disconnected (push_error (EeWriteServerKnownVv err) (e\<lparr>en_storage := s'\<rparr>))
      | (Inr _, s1) \<Rightarrow>
          (let cutoff = en_last_local_seq e;
               e1 = e\<lparr>en_storage := s1, en_draws := Suc (en_draws e)\<rparr>
           in case snapshot_blob (e_loro E) (e_aead E) (e_rng E) (en_dek e) (en_draws e) (en_doc e) of
                Inl err \<Rightarrow> go_disconnected (push_error (EeSnapshotBlob err) e1)
              | Inr local_blob \<Rightarrow>
                  (case st_write_snapshot (e_st E) (en_doc_id e) cutoff local_blob s1 of
                     (Inl err, s2) \<Rightarrow>
                       go_disconnected
                         (push_error (EeWriteBootstrapSnapshot err) (e1\<lparr>en_storage := s2\<rparr>))
                   | (Inr _, s2) \<Rightarrow>
                       (let e2 = e1\<lparr>en_storage := s2,
                                    en_doc := mark_persisted (e_loro E) (en_doc e),
                                    en_wal_rows := 0, en_wal_bytes := 0\<rparr>;
                            e3 = (if up_to_seq > en_last_contiguous_seq e2
                                  then push_event (FrontierAdvanced up_to_seq)
                                         (e2\<lparr>en_last_contiguous_seq := up_to_seq\<rparr>)
                                  else e2)
                        in send_or_disconnect E
                             (PullUpdates (en_doc_id e) (en_last_contiguous_seq e3))
                             EeEncodePullUpdates (e3\<lparr>en_state := Pulling\<rparr>)))))"

definition on_snapshot ::
  "('d, 'v, 's) env \<Rightarrow> u64 \<Rightarrow> encrypted_blob \<Rightarrow> bool \<Rightarrow> ('d, 'v, 's) engine \<Rightarrow> ('d, 'v, 's) engine" where
  "on_snapshot E up_to_seq blob complete e =
     (if en_state e \<noteq> Bootstrapping then push_error (EeSnapshotUnexpected (en_state e)) e
      else case apply_remote_batch (e_loro E) (e_aead E) (en_dek e) [blob] (en_doc e) of
             (Inl err, d') \<Rightarrow> go_disconnected (push_error (EeApplySnapshot err) (e\<lparr>en_doc := d'\<rparr>))
           | (Inr imported, d') \<Rightarrow>
               (let e1 = e\<lparr>en_doc := d',
                           en_server_known_vv := vv_merge (e_loro E) (en_server_known_vv e) imported\<rparr>
                in if \<not> complete then e1 else finish_bootstrap E up_to_seq e1))"

definition seal_vv ::
  "('d, 'v, 's) env \<Rightarrow> dek \<Rightarrow> nat \<Rightarrow> 'v \<Rightarrow> crypto_error + encrypted_blob" where
  "seal_vv E k r vv =
     (case dek_seal (e_aead E) (e_rng E) k r (vv_encode (e_loro E) vv) of
        Inl err \<Rightarrow> Inl err
      | Inr (ct, n) \<Rightarrow> Inr \<lparr>nonce = n, ciphertext = ct\<rparr>)"

definition open_vv :: "('d, 'v, 's) env \<Rightarrow> dek \<Rightarrow> encrypted_blob \<Rightarrow> engine_error + 'v" where
  "open_vv E k b =
     (case dek_open (e_aead E) k (ciphertext b) (nonce b) of
        Inl err \<Rightarrow> Inl (EeOpenDeltaBase err)
      | Inr pt \<Rightarrow>
          (case vv_decode (e_loro E) pt of
             Inl err \<Rightarrow> Inl (EeDecodeDeltaBase err)
           | Inr vv \<Rightarrow> Inr vv))"

text \<open>What the engine produces for a \<open>SnapshotRequest\<close>: a full snapshot, a delta, or an error.\<close>

definition produce_snapshot ::
  "('d, 'v, 's) env \<Rightarrow> snapshot_base option \<Rightarrow> ('d, 'v, 's) engine
     \<Rightarrow> engine_error + encrypted_blob" where
  "produce_snapshot E base e =
     (case base of
        None \<Rightarrow>
          (case snapshot_blob_at (e_loro E) (e_aead E) (e_rng E) (en_dek e) (en_draws e)
                  (en_server_known_vv e) (en_doc e) of
             Inl err \<Rightarrow> Inl (EeSnapshotExport err)
           | Inr b \<Rightarrow> Inr b)
      | Some sb \<Rightarrow>
          (case open_vv E (en_dek e) (base_vv sb) of
             Inl err \<Rightarrow> Inl err
           | Inr from_vv \<Rightarrow>
               (if vv_includes (e_loro E) (en_server_known_vv e) from_vv then
                  (case delta_blob_between (e_loro E) (e_aead E) (e_rng E) (en_dek e) (en_draws e)
                          from_vv (en_server_known_vv e) (en_doc e) of
                     Inl err \<Rightarrow> Inl (EeSnapshotExport err)
                   | Inr b \<Rightarrow> Inr b)
                else Inl (EeDeltaBaseOutside (base_seq sb)))))"

definition on_snapshot_request ::
  "('d, 'v, 's) env \<Rightarrow> u64 \<Rightarrow> snapshot_base option \<Rightarrow> ('d, 'v, 's) engine \<Rightarrow> ('d, 'v, 's) engine" where
  "on_snapshot_request E compaction_floor_seq base e =
     (let e1 = e\<lparr>en_draws := Suc (Suc (en_draws e))\<rparr>
      in case produce_snapshot E base e of
           Inl err \<Rightarrow> push_error err e1
         | Inr blob \<Rightarrow>
             (case seal_vv E (en_dek e) (Suc (en_draws e)) (en_server_known_vv e) of
                Inl err \<Rightarrow> push_error (EeSealUpToVv err) e1
              | Inr up_to_vv \<Rightarrow>
                  (case encode_into_outbox E (PushSnapshot (en_doc_id e) (en_last_contiguous_seq e)
                           compaction_floor_seq (map_option base_seq base) up_to_vv blob) e1 of
                     (Inl err, e2) \<Rightarrow> push_error (EeEncodePushSnapshot err) e2
                   | (Inr _, e2) \<Rightarrow> e2)))"

definition on_frame ::
  "('d, 'v, 's) env \<Rightarrow> server_frame \<Rightarrow> ('d, 'v, 's) engine \<Rightarrow> ('d, 'v, 's) engine" where
  "on_frame E f e =
     (if server_frame_doc f \<noteq> en_doc_id e
      then push_error (EeWrongDoc (server_frame_doc f) (en_doc_id e)) e
      else case f of
             DocOpened _ epoch \<Rightarrow> on_doc_opened E epoch e
           | DocRejected _ reason \<Rightarrow> on_doc_rejected reason e
           | DocClosed _ reason \<Rightarrow> on_doc_closed reason e
           | Presence _ accounts \<Rightarrow> push_event (EvPresence accounts) e
           | UpdatesBatch _ updates complete \<Rightarrow> on_updates_batch E updates complete e
           | UpdatesBroadcast _ updates \<Rightarrow> on_updates_broadcast E updates e
           | UpdatesAck _ acks \<Rightarrow> on_updates_ack E acks e
           | SnapshotRequired _ _ \<Rightarrow> on_snapshot_required E e
           | Snapshot _ up_to blob complete \<Rightarrow> on_snapshot E up_to blob complete e
           | SnapshotRequest _ _ floor base \<Rightarrow> on_snapshot_request E floor base e)"

definition handle_server_frame ::
  "('d, 'v, 's) env \<Rightarrow> bytes \<Rightarrow> ('d, 'v, 's) engine \<Rightarrow> ('d, 'v, 's) engine" where
  "handle_server_frame E b e =
     (case e_dec E b of
        Inl err \<Rightarrow> push_error (EeDecodeServerFrame err) e
      | Inr f \<Rightarrow> on_frame E f e)"

definition handle_server_bytes ::
  "('d, 'v, 's) env \<Rightarrow> bytes \<Rightarrow> ('d, 'v, 's) engine \<Rightarrow> ('d, 'v, 's) engine" where
  "handle_server_bytes E b e =
     (if en_state e = Disconnected then push_error EeServerBytesWhileDisconnected e
      else handle_server_frame E b e)"

section \<open>The native host's persistence step\<close>

text \<open>
  \<open>persist_engine_state\<close> of \<open>cli/src/sync.rs\<close>, for one engine: capture, fold, then report
  the contiguous frontier as durable.
\<close>

definition persist_engine_state ::
  "('d, 'v, 's) env \<Rightarrow> u64 \<Rightarrow> u64 \<Rightarrow> ('d, 'v, 's) engine
     \<Rightarrow> (storage_error + unit) \<times> ('d, 'v, 's) engine" where
  "persist_engine_state E max_rows max_bytes e =
     (case capture_local_ops E e of
        (Inl err, e1) \<Rightarrow> (Inl err, e1)
      | (Inr _, e1) \<Rightarrow>
          (case snapshot_if_wal_exceeds E max_rows max_bytes e1 of
             (Inl err, e2) \<Rightarrow> (Inl err, e2)
           | (Inr _, e2) \<Rightarrow> (Inr (), notify_oplog_durable E (en_last_contiguous_seq e2) e2)))"

text \<open>
  \<open>boot_doc_state\<close> of \<open>cli/src/sync.rs\<close>: boot the doc from its storage, build the engine and
  seed it, then fold an oversized WAL. \<open>boot_engine\<close> is the part before the fold.
\<close>

definition boot_engine ::
  "('d, 'v, 's) env \<Rightarrow> dek \<Rightarrow> uuid \<Rightarrow> u64 option \<Rightarrow> nat \<Rightarrow> 's
     \<Rightarrow> (boot_error + ('d, 'v, 's) engine) \<times> 's" where
  "boot_engine E k did peer r s =
     (case boot_doc (e_loro E) (e_aead E) (e_st E) k did peer s of
        (Inl err, s') \<Rightarrow> (Inl err, s')
      | (Inr (d, meta), s') \<Rightarrow>
          (Inr (seed_boot E meta (engine_new E d did k (bm_last_acked_server_seq meta) s' r)), s'))"

definition boot_doc_state ::
  "('d, 'v, 's) env \<Rightarrow> dek \<Rightarrow> uuid \<Rightarrow> u64 option \<Rightarrow> u64 \<Rightarrow> u64 \<Rightarrow> nat \<Rightarrow> 's
     \<Rightarrow> (boot_error + ('d, 'v, 's) engine) \<times> 's" where
  "boot_doc_state E k did peer max_rows max_bytes r s =
     (case boot_engine E k did peer r s of
        (Inl err, s') \<Rightarrow> (Inl err, s')
      | (Inr e, _) \<Rightarrow>
          (case snapshot_if_wal_exceeds E max_rows max_bytes e of
             (Inl err, e') \<Rightarrow> (Inl (BeStorage err), en_storage e')
           | (Inr _, e') \<Rightarrow> (Inr e', en_storage e')))"

end
