(* ===== verification/Loro_Laws.thy ===== *)
theory Loro_Laws
  imports Doc_Stream
begin

text \<open>
  What the code relies on of its third-party libraries, as predicates that theorems take as
  hypotheses, and the facts about exports and imports of a doc that follow from them.

  A doc of Loro is, for this purpose, the set of operations in its oplog. \<open>loro_sem\<close> names the
  operations of a doc, of a version vector and of an exported blob, the operations a blob
  depends on, the blobs that are Loro exports, and the causally closed sets. \<open>loro_ok\<close> states
  the documented behaviour in these terms: version vectors form a join semilattice under
  \<open>merge\<close> ordered by \<open>includes_vv\<close>, a snapshot holds the whole oplog, an update export holds
  what the given vector misses, an import whose dependencies are met adds the blob's
  operations, and so on. \<open>aead_ok\<close> says that a sealed blob opens again under the same key.
  The last section gives instances, so the hypotheses can hold.
\<close>

section \<open>The laws\<close>

record ('d, 'v, 'o) loro_sem =
  doc_ops :: "'d \<Rightarrow> 'o set"
  vv_ops :: "'v \<Rightarrow> 'o set"
  blob_ops :: "bytes \<Rightarrow> 'o set"
  blob_deps :: "bytes \<Rightarrow> 'o set"
  blob_valid :: "bytes \<Rightarrow> bool"
  causal :: "'o set \<Rightarrow> bool"

definition vv_laws :: "('d, 'v) loro \<Rightarrow> ('d, 'v, 'o) loro_sem \<Rightarrow> bool" where
  "vv_laws L M \<longleftrightarrow>
     vv_ops M (vv_default L) = {} \<and>
     (\<forall>a b. vv_ops M (vv_merge L a b) = vv_ops M a \<union> vv_ops M b) \<and>
     (\<forall>a b. vv_includes L a b \<longleftrightarrow> vv_ops M b \<subseteq> vv_ops M a) \<and>
     (\<forall>a. vv_decode L (vv_encode L a) = Inr a \<and> vv_encode L a \<noteq> []) \<and>
     (\<forall>d. vv_ops M (loro_oplog_vv L d) = doc_ops M d)"

definition doc_laws :: "('d, 'v) loro \<Rightarrow> ('d, 'v, 'o) loro_sem \<Rightarrow> bool" where
  "doc_laws L M \<longleftrightarrow>
     doc_ops M (loro_new L) = {} \<and>
     (\<forall>p d d'. loro_set_peer L p d = Inr d' \<longrightarrow> doc_ops M d' = doc_ops M d) \<and>
     causal M {} \<and>
     (\<forall>d. causal M (doc_ops M d))"

definition export_laws :: "('d, 'v) loro \<Rightarrow> ('d, 'v, 'o) loro_sem \<Rightarrow> bool" where
  "export_laws L M \<longleftrightarrow>
     (\<forall>d b. loro_export_snapshot L d = Inr b \<longrightarrow>
        blob_valid M b \<and> blob_ops M b = doc_ops M d \<and> blob_deps M b = {}) \<and>
     (\<forall>d v b. loro_export_updates L d v = Inr b \<longrightarrow>
        blob_valid M b \<and> blob_ops M b = doc_ops M d - vv_ops M v \<and> blob_deps M b \<subseteq> vv_ops M v) \<and>
     (\<forall>d u v b. vv_ops M u \<subseteq> vv_ops M v \<longrightarrow> vv_ops M v \<subseteq> doc_ops M d \<longrightarrow> causal M (vv_ops M v) \<longrightarrow>
        loro_export_range L d (vv_diff_forward L u v) = Inr b \<longrightarrow>
        blob_valid M b \<and> blob_ops M b = vv_ops M v - vv_ops M u \<and> blob_deps M b \<subseteq> vv_ops M u) \<and>
     (\<forall>d v f. vv_ops M v \<subseteq> doc_ops M d \<longrightarrow> causal M (vv_ops M v) \<longrightarrow>
        loro_fork_at L d (loro_vv_to_frontiers L d v) = Inr f \<longrightarrow> doc_ops M f = vv_ops M v)"

definition import_laws :: "('d, 'v) loro \<Rightarrow> ('d, 'v, 'o) loro_sem \<Rightarrow> bool" where
  "import_laws L M \<longleftrightarrow>
     (\<forall>d b origin. blob_valid M b \<longrightarrow> blob_deps M b \<subseteq> doc_ops M d \<longrightarrow>
        (\<exists>d'. loro_import_with L d b origin = (Inr (), d') \<and>
              doc_ops M d' = doc_ops M d \<union> blob_ops M b)) \<and>
     (\<forall>b. blob_valid M b \<longrightarrow> (\<exists>v. loro_blob_end_vv L b = Inr v)) \<and>
     (\<forall>b v. blob_valid M b \<longrightarrow> loro_blob_end_vv L b = Inr v \<longrightarrow> blob_ops M b \<subseteq> vv_ops M v) \<and>
     (\<forall>b v S. blob_valid M b \<longrightarrow> loro_blob_end_vv L b = Inr v \<longrightarrow> causal M S \<longrightarrow>
        blob_deps M b \<subseteq> S \<longrightarrow> vv_ops M v \<subseteq> S \<union> blob_ops M b \<and> causal M (S \<union> blob_ops M b))"

definition loro_ok :: "('d, 'v) loro \<Rightarrow> ('d, 'v, 'o) loro_sem \<Rightarrow> bool" where
  "loro_ok L M \<longleftrightarrow> vv_laws L M \<and> doc_laws L M \<and> export_laws L M \<and> import_laws L M"

definition aead_ok :: "aead \<Rightarrow> rng \<Rightarrow> dek \<Rightarrow> bool" where
  "aead_ok A R k \<longleftrightarrow>
     (\<forall>r. length (rnd_nonce R r) = AEAD_NONCE_LEN) \<and>
     (\<forall>n pt ct. length n = AEAD_NONCE_LEN \<longrightarrow> xchacha_encrypt A k n pt = Some ct \<longrightarrow>
        xchacha_decrypt A k n ct = Some pt)"

lemma loro_okD:
  assumes "loro_ok L M"
  shows vv_default_ops: "vv_ops M (vv_default L) = {}"
    and vv_merge_ops: "vv_ops M (vv_merge L a b) = vv_ops M a \<union> vv_ops M b"
    and vv_includes_ops: "vv_includes L a b \<longleftrightarrow> vv_ops M b \<subseteq> vv_ops M a"
    and vv_decode_encode: "vv_decode L (vv_encode L a) = Inr a"
    and vv_encode_nonempty: "vv_encode L a \<noteq> []"
    and oplog_vv_ops: "vv_ops M (loro_oplog_vv L d) = doc_ops M d"
    and new_ops: "doc_ops M (loro_new L) = {}"
    and set_peer_ops: "loro_set_peer L p d = Inr d' \<Longrightarrow> doc_ops M d' = doc_ops M d"
    and causal_empty: "causal M {}"
    and causal_doc: "causal M (doc_ops M d)"
  using assms by (auto simp: loro_ok_def vv_laws_def doc_laws_def)

lemma export_snapshot_ops:
  assumes "loro_ok L M" "loro_export_snapshot L d = Inr b"
  shows "blob_valid M b" "blob_ops M b = doc_ops M d" "blob_deps M b = {}"
  using assms by (auto simp: loro_ok_def export_laws_def)

lemma export_updates_ops:
  assumes "loro_ok L M" "loro_export_updates L d v = Inr b"
  shows "blob_valid M b" "blob_ops M b = doc_ops M d - vv_ops M v" "blob_deps M b \<subseteq> vv_ops M v"
  using assms unfolding loro_ok_def export_laws_def by blast+

lemma export_range_ops:
  assumes "loro_ok L M" "loro_export_range L d (vv_diff_forward L u v) = Inr b"
    and "vv_ops M u \<subseteq> vv_ops M v" "vv_ops M v \<subseteq> doc_ops M d" "causal M (vv_ops M v)"
  shows "blob_valid M b" "blob_ops M b = vv_ops M v - vv_ops M u" "blob_deps M b \<subseteq> vv_ops M u"
  using assms unfolding loro_ok_def export_laws_def by blast+

lemma fork_at_ops:
  assumes "loro_ok L M" "loro_fork_at L d (loro_vv_to_frontiers L d v) = Inr f"
    and "vv_ops M v \<subseteq> doc_ops M d" "causal M (vv_ops M v)"
  shows "doc_ops M f = vv_ops M v"
  using assms unfolding loro_ok_def export_laws_def by blast

lemma import_with_ops:
  assumes "loro_ok L M" "blob_valid M b" "blob_deps M b \<subseteq> doc_ops M d"
  obtains d' where "loro_import_with L d b origin = (Inr (), d')"
    "doc_ops M d' = doc_ops M d \<union> blob_ops M b"
proof -
  have "\<exists>d'. loro_import_with L d b origin = (Inr (), d') \<and> doc_ops M d' = doc_ops M d \<union> blob_ops M b"
    using assms unfolding loro_ok_def import_laws_def by blast
  with that show thesis by blast
qed

lemma blob_end_vv_ops:
  assumes "loro_ok L M" "blob_valid M b" "causal M S" "blob_deps M b \<subseteq> S"
  obtains v where "loro_blob_end_vv L b = Inr v" "vv_ops M v \<union> S = S \<union> blob_ops M b"
    "causal M (S \<union> blob_ops M b)"
proof -
  have laws: "import_laws L M" using assms(1) by (simp add: loro_ok_def)
  from laws obtain v where v: "loro_blob_end_vv L b = Inr v"
    using assms(2) by (auto simp: import_laws_def)
  from laws have lo: "\<forall>b v. blob_valid M b \<longrightarrow> loro_blob_end_vv L b = Inr v \<longrightarrow> blob_ops M b \<subseteq> vv_ops M v"
    and hi: "\<forall>b v S. blob_valid M b \<longrightarrow> loro_blob_end_vv L b = Inr v \<longrightarrow> causal M S \<longrightarrow>
        blob_deps M b \<subseteq> S \<longrightarrow> vv_ops M v \<subseteq> S \<union> blob_ops M b \<and> causal M (S \<union> blob_ops M b)"
    unfolding import_laws_def by simp_all
  have "blob_ops M b \<subseteq> vv_ops M v" using lo assms(2) v by simp
  moreover have "vv_ops M v \<subseteq> S \<union> blob_ops M b \<and> causal M (S \<union> blob_ops M b)"
    using hi [rule_format, OF assms(2) v assms(3,4)] .
  ultimately show thesis using that [OF v] by auto
qed

section \<open>Sealed exports\<close>

text \<open>The plaintext of a blob, if it opens under the key.\<close>

definition plain :: "aead \<Rightarrow> dek \<Rightarrow> encrypted_blob \<Rightarrow> bytes option" where
  "plain A k b = (case dek_open A k (ciphertext b) (nonce b) of Inl _ \<Rightarrow> None | Inr pt \<Rightarrow> Some pt)"

lemma plain_seal_blob:
  assumes "aead_ok A R k" "seal_blob A R k r pt = Inr b"
  shows "plain A k b = Some pt"
  using assms
  by (auto simp: seal_blob_def dek_seal_def Let_def plain_def dek_open_def aead_ok_def
      split: option.splits)

lemma plain_SomeD:
  "plain A k b = Some pt \<Longrightarrow> length (nonce b) = AEAD_NONCE_LEN \<and> dek_open A k (ciphertext b) (nonce b) = Inr pt"
  by (auto simp: plain_def dek_open_def split: sum.splits if_splits option.splits)

lemma snapshot_blob_ops:
  assumes "loro_ok L M" "aead_ok A R k" "snapshot_blob L A R k r d = Inr b"
  obtains pt where "plain A k b = Some pt" "blob_valid M pt" "blob_ops M pt = doc_ops M (inner d)"
    "blob_deps M pt = {}"
proof -
  obtain pt where pt: "loro_export_snapshot L (inner d) = Inr pt" "seal_blob A R k r pt = Inr b"
    using assms(3) by (auto simp: snapshot_blob_def export_snapshot_bytes_def split: sum.splits)
  show thesis
    using that plain_seal_blob [OF assms(2) pt(2)] export_snapshot_ops [OF assms(1) pt(1)] by blast
qed

lemma pending_export_ops:
  assumes "loro_ok L M" "aead_ok A R k" "pending_export L A R k r d = Inr (Some b)"
  obtains pt where "plain A k b = Some pt" "blob_valid M pt"
    "blob_ops M pt = doc_ops M (inner d) - vv_ops M (last_persisted_vv d)"
    "blob_deps M pt \<subseteq> vv_ops M (last_persisted_vv d)"
proof -
  obtain pt where pt: "loro_export_updates L (inner d) (last_persisted_vv d) = Inr pt"
      "seal_blob A R k r pt = Inr b"
    using assms(3) by (auto simp: pending_export_def split: sum.splits if_splits)
  show thesis
    using that plain_seal_blob [OF assms(2) pt(2)] export_updates_ops [OF assms(1) pt(1)] by blast
qed

lemma pending_export_None:
  "pending_export L A R k r d = Inr None \<Longrightarrow> \<not> has_uncaptured_ops L d"
  by (auto simp: pending_export_def split: sum.splits if_splits)

lemma captured_ops:
  "loro_ok L M \<Longrightarrow> \<not> has_uncaptured_ops L d \<Longrightarrow>
     vv_ops M (last_persisted_vv d) = doc_ops M (inner d)"
  by (metis has_uncaptured_ops_def oplog_vv_ops)

section \<open>Replaying a list of blobs\<close>

text \<open>
  \<open>replays M A k S bs T\<close>: every blob opens to a Loro export whose dependencies are among the
  operations present before it, and importing them all takes \<open>S\<close> to \<open>T\<close>.
\<close>

fun replays ::
  "('d, 'v, 'o) loro_sem \<Rightarrow> aead \<Rightarrow> dek \<Rightarrow> 'o set \<Rightarrow> encrypted_blob list \<Rightarrow> 'o set \<Rightarrow> bool" where
  "replays M A k S [] T \<longleftrightarrow> T = S"
| "replays M A k S (b # bs) T \<longleftrightarrow>
     (case plain A k b of
        None \<Rightarrow> False
      | Some pt \<Rightarrow> blob_valid M pt \<and> blob_deps M pt \<subseteq> S \<and> replays M A k (S \<union> blob_ops M pt) bs T)"

lemma replays_append:
  "replays M A k S (xs @ ys) T \<longleftrightarrow> (\<exists>U. replays M A k S xs U \<and> replays M A k U ys T)"
  by (induction xs arbitrary: S) (auto split: option.splits)

lemma replays_mono: "replays M A k S bs T \<Longrightarrow> S \<subseteq> T"
proof (induction bs arbitrary: S)
  case (Cons b bs)
  then obtain pt where "replays M A k (S \<union> blob_ops M pt) bs T"
    by (auto split: option.splits)
  from Cons.IH [OF this] show ?case by simp
qed simp

lemma replays_superset:
  "replays M A k S bs T \<Longrightarrow> S \<subseteq> S' \<Longrightarrow> replays M A k S' bs (S' \<union> T)"
proof (induction bs arbitrary: S S')
  case Nil
  then show ?case by auto
next
  case (Cons b bs)
  then obtain pt where pt: "plain A k b = Some pt" "blob_valid M pt" "blob_deps M pt \<subseteq> S"
      "replays M A k (S \<union> blob_ops M pt) bs T"
    by (auto split: option.splits)
  have "replays M A k (S' \<union> blob_ops M pt) bs (S' \<union> blob_ops M pt \<union> T)"
    by (rule Cons.IH [OF pt(4)]) (use Cons.prems(2) in blast)
  moreover have "blob_ops M pt \<subseteq> T"
    using replays_mono [OF pt(4)] by blast
  then have "S' \<union> blob_ops M pt \<union> T = S' \<union> T" by blast
  ultimately show ?case
    using pt Cons.prems(2) by auto
qed

lemma replays_append1:
  assumes "replays M A k S bs T" "plain A k b = Some pt" "blob_valid M pt" "blob_deps M pt \<subseteq> T"
  shows "replays M A k S (bs @ [b]) (T \<union> blob_ops M pt)"
  using assms by (auto simp: replays_append)

section \<open>Imports\<close>

lemma import_remote_blob_ops:
  assumes "loro_ok L M" "plain A k b = Some pt" "blob_valid M pt" "blob_deps M pt \<subseteq> P"
    and "causal M P" "vv_ops M (last_persisted_vv d) = P" "P \<subseteq> doc_ops M (inner d)"
  obtains v d' where "import_remote_blob L A k b d = (Inr v, d')"
    "vv_ops M v \<union> P = P \<union> blob_ops M pt"
    "doc_ops M (inner d') = doc_ops M (inner d) \<union> blob_ops M pt"
    "vv_ops M (last_persisted_vv d') = P \<union> blob_ops M pt" "causal M (P \<union> blob_ops M pt)"
proof -
  obtain v where v: "loro_blob_end_vv L pt = Inr v" "vv_ops M v \<union> P = P \<union> blob_ops M pt"
      "causal M (P \<union> blob_ops M pt)"
    using blob_end_vv_ops [OF assms(1,3,5,4)] .
  have "blob_deps M pt \<subseteq> doc_ops M (inner d)" using assms(4,7) by blast
  then obtain x where x: "loro_import_with L (inner d) pt ''remote'' = (Inr (), x)"
      "doc_ops M x = doc_ops M (inner d) \<union> blob_ops M pt"
    using import_with_ops [OF assms(1,3)] by metis
  have "import_remote_blob L A k b d =
      (Inr v, d\<lparr>inner := x, last_persisted_vv := vv_merge L (last_persisted_vv d) v\<rparr>)"
    using plain_SomeD [OF assms(2)] v(1) x(1) by (simp add: import_remote_blob_def)
  moreover have "vv_ops M (vv_merge L (last_persisted_vv d) v) = P \<union> blob_ops M pt"
    using v(2) assms(6) vv_merge_ops [OF assms(1)] by (auto simp: Un_commute)
  ultimately show thesis
    using that v(2,3) x(2) by simp
qed

lemma import_blobs_ops:
  assumes "loro_ok L M" "replays M A k P bs T"
    and "causal M P" "vv_ops M (last_persisted_vv d) = P" "P \<subseteq> doc_ops M (inner d)"
  shows "\<exists>v d'. import_blobs L A k imported bs d = (Inr v, d') \<and>
    vv_ops M imported \<subseteq> vv_ops M v \<and> vv_ops M v \<subseteq> vv_ops M imported \<union> T \<and> T \<subseteq> P \<union> vv_ops M v \<and>
    doc_ops M (inner d') = doc_ops M (inner d) \<union> T \<and>
    vv_ops M (last_persisted_vv d') = T \<and> causal M T"
  using assms(2-)
proof (induction bs arbitrary: P d imported)
  case Nil
  then show ?case by auto
next
  case (Cons b bs)
  then obtain pt where pt: "plain A k b = Some pt" "blob_valid M pt" "blob_deps M pt \<subseteq> P"
      "replays M A k (P \<union> blob_ops M pt) bs T"
    by (auto split: option.splits)
  obtain v d1 where d1: "import_remote_blob L A k b d = (Inr v, d1)"
    "vv_ops M v \<union> P = P \<union> blob_ops M pt"
    "doc_ops M (inner d1) = doc_ops M (inner d) \<union> blob_ops M pt"
    "vv_ops M (last_persisted_vv d1) = P \<union> blob_ops M pt" "causal M (P \<union> blob_ops M pt)"
    using import_remote_blob_ops [OF assms(1) pt(1-3) Cons.prems(2-)] .
  have "P \<union> blob_ops M pt \<subseteq> doc_ops M (inner d1)" using d1(3) Cons.prems(4) by blast
  from Cons.IH [OF pt(4) d1(5,4) this, of "vv_merge L imported v"]
  obtain w d' where w: "import_blobs L A k (vv_merge L imported v) bs d1 = (Inr w, d')"
    "vv_ops M (vv_merge L imported v) \<subseteq> vv_ops M w"
    "vv_ops M w \<subseteq> vv_ops M (vv_merge L imported v) \<union> T" "T \<subseteq> P \<union> blob_ops M pt \<union> vv_ops M w"
    "doc_ops M (inner d') = doc_ops M (inner d1) \<union> T"
    "vv_ops M (last_persisted_vv d') = T" "causal M T"
    by blast
  have T: "P \<union> blob_ops M pt \<subseteq> T" using replays_mono [OF pt(4)] .
  have m: "vv_ops M (vv_merge L imported v) = vv_ops M imported \<union> vv_ops M v"
    by (rule vv_merge_ops [OF assms(1)])
  have "vv_ops M imported \<subseteq> vv_ops M w" "vv_ops M w \<subseteq> vv_ops M imported \<union> T" "T \<subseteq> P \<union> vv_ops M w"
    using w(2-4) m d1(2) T by blast+
  moreover have "doc_ops M (inner d') = doc_ops M (inner d) \<union> T"
    using w(5) d1(3) T by blast
  ultimately show ?case
    using d1(1) w(1,6,7) by simp
qed

section \<open>Instances of the laws\<close>

text \<open>
  A doc as the list of its operations, one byte each, in arrival order; a version vector lists
  the operations it covers, and a blob lists the operations it carries.
\<close>

definition list_loro :: "(bytes, bytes) loro" where
  "list_loro =
     \<lparr>vv_default = [],
      vv_merge = (\<lambda>a b. a @ filter (\<lambda>x. x \<notin> set a) b),
      vv_includes = (\<lambda>a b. list_all (\<lambda>x. x \<in> set a) b),
      vv_encode = (\<lambda>a. 0 # a),
      vv_decode = (\<lambda>b. case b of [] \<Rightarrow> Inl ''empty'' | _ # a \<Rightarrow> Inr a),
      vv_diff_forward = (\<lambda>a b. map (\<lambda>x. (ucast x, 0, 1)) (filter (\<lambda>x. x \<notin> set a) b)),
      loro_new = [],
      loro_set_peer = (\<lambda>_ d. Inr d),
      loro_oplog_vv = (\<lambda>d. d),
      loro_export_snapshot = (\<lambda>d. Inr d),
      loro_export_updates = (\<lambda>d v. Inr (filter (\<lambda>x. x \<notin> set v) d)),
      loro_export_range = (\<lambda>_ spans. Inr (map (\<lambda>s. ucast (fst s)) spans)),
      loro_vv_to_frontiers = (\<lambda>_ v. map (\<lambda>x. (ucast x, 0)) v),
      loro_fork_at = (\<lambda>_ fs. Inr (map (\<lambda>f. ucast (fst f)) fs)),
      loro_import_with = (\<lambda>d b _. (Inr (), d @ filter (\<lambda>x. x \<notin> set d) b)),
      loro_blob_end_vv = (\<lambda>b. Inr b)\<rparr>"

definition list_sem :: "(bytes, bytes, u8) loro_sem" where
  "list_sem =
     \<lparr>doc_ops = set, vv_ops = set, blob_ops = set, blob_deps = (\<lambda>_. {}), blob_valid = (\<lambda>_. True),
      causal = (\<lambda>_. True)\<rparr>"

definition id_aead :: aead where
  "id_aead = \<lparr>xchacha_encrypt = (\<lambda>_ _ pt. Some pt), xchacha_decrypt = (\<lambda>_ _ ct. Some ct)\<rparr>"

definition count_rng :: rng where
  "count_rng = \<lparr>rnd_nonce = (\<lambda>r. replicate 24 (of_nat r)), rnd_uuid = (\<lambda>r. of_nat r)\<rparr>"

lemma ucast_u8_u64: "(ucast (ucast (x :: u8) :: u64) :: u8) = x"
  by (simp add: ucast_up_ucast_id is_up)

lemma list_loro_ok: "loro_ok list_loro list_sem"
  by (auto simp: loro_ok_def vv_laws_def doc_laws_def export_laws_def import_laws_def
      list_loro_def list_sem_def list_all_iff image_iff o_def ucast_u8_u64)

lemma id_aead_ok: "aead_ok id_aead count_rng k"
  by (simp add: aead_ok_def id_aead_def count_rng_def AEAD_NONCE_LEN_def)

end
