(* ===== verification/Engine_Durability.thy ===== *)
theory Engine_Durability
  imports Sync_Engine Loro_Laws
begin

text \<open>
  What survives a crash. \<open>tracks\<close> relates an engine to the persisted state of its doc: replaying
  the stored snapshot and WAL gives exactly the operations the doc's capture cursor covers, and
  every cursor the engine holds (local seq, WAL totals, durable seq, server-known vector,
  in-flight push) is the stored one. Every call the host makes preserves it
  (\<open>run_op_tracks\<close>, proved once for any \<open>reliable_storage\<close>), so booting from the storage at any
  moment between calls restores the engine up to operations not captured yet.
\<close>

section \<open>The host's calls\<close>

text \<open>
  The calls a host makes on an engine, in any order. \<open>HEdit d\<close> is a local edit, made through
  the doc the engine shares; \<open>HChain\<close> delivers the rows of one snapshot chain; \<open>HCrash\<close>
  throws the process away and boots the doc again from its storage (\<open>boot_doc_state\<close> is
  \<open>HCrash\<close> followed by \<open>HFold\<close>).
\<close>

datatype 'd host_op =
    HEdit 'd
  | HCapture
  | HFold u64 u64
  | HForce
  | HPersist u64 u64
  | HConnected
  | HDisconnected
  | HTimeout
  | HFlush
  | HDurable u64
  | HBytes bytes
  | HChain "bytes list"
  | HPopOutbox
  | HPopEvent
  | HCrash "u64 option"

definition edit_doc :: "'d \<Rightarrow> ('d, 'v, 's) engine \<Rightarrow> ('d, 'v, 's) engine" where
  "edit_doc d e = e\<lparr>en_doc := (en_doc e)\<lparr>inner := d\<rparr>\<rparr>"

fun run_op :: "('d, 'v, 's) env \<Rightarrow> 'd host_op \<Rightarrow> ('d, 'v, 's) engine \<Rightarrow> ('d, 'v, 's) engine" where
  "run_op E (HEdit d) e = edit_doc d e"
| "run_op E HCapture e = snd (capture_local_ops E e)"
| "run_op E (HFold rows bts) e = snd (snapshot_if_wal_exceeds E rows bts e)"
| "run_op E HForce e = snd (force_snapshot E e)"
| "run_op E (HPersist rows bts) e = snd (persist_engine_state E rows bts e)"
| "run_op E HConnected e = handle_connected E e"
| "run_op E HDisconnected e = handle_disconnected e"
| "run_op E HTimeout e = handle_timeout e"
| "run_op E HFlush e = flush E e"
| "run_op E (HDurable n) e = notify_oplog_durable E n e"
| "run_op E (HBytes b) e = handle_server_bytes E b e"
| "run_op E (HChain bs) e = fold (handle_server_bytes E) bs e"
| "run_op E HPopOutbox e = snd (pop_outbox e)"
| "run_op E HPopEvent e = snd (pop_event e)"
| "run_op E (HCrash peer) e =
     (case boot_engine E (en_dek e) (en_doc_id e) peer (en_draws e) (en_storage e) of
        (Inr e', _) \<Rightarrow> e'
      | (Inl _, s) \<Rightarrow> e\<lparr>en_storage := s\<rparr>)"

fun run_ops :: "('d, 'v, 's) env \<Rightarrow> 'd host_op list \<Rightarrow> ('d, 'v, 's) engine \<Rightarrow> ('d, 'v, 's) engine" where
  "run_ops E [] e = e"
| "run_ops E (x # xs) e = run_ops E xs (run_op E x e)"

section \<open>What the host and the server promise\<close>

text \<open>
  Room for \<open>n\<close> more WAL rows below \<open>2^62\<close>.
\<close>

definition room :: "nat \<Rightarrow> ('d, 'v, 's) engine \<Rightarrow> bool" where
  "room n e \<longleftrightarrow> unat (en_last_local_seq e) + n < 2 ^ 62"

abbreviation captured ::
  "('d, 'v, 'o) loro_sem \<Rightarrow> ('d, 'v, 's) engine \<Rightarrow> 'o set" where
  "captured M e \<equiv> vv_ops M (last_persisted_vv (en_doc e))"

abbreviation present ::
  "('d, 'v, 'o) loro_sem \<Rightarrow> ('d, 'v, 's) engine \<Rightarrow> 'o set" where
  "present M e \<equiv> doc_ops M (inner (en_doc e))"

definition deliverable ::
  "('d, 'v, 's) env \<Rightarrow> ('d, 'v, 'o) loro_sem \<Rightarrow> ('d, 'v, 's) engine \<Rightarrow> encrypted_blob list \<Rightarrow> bool" where
  "deliverable E M e bs \<longleftrightarrow> (\<exists>T. replays M (e_aead E) (en_dek e) (captured M e) bs T)"

text \<open>
  \<open>log\<close> gives the blob the server stores at each seq. Remote updates are those blobs, sealed
  Loro exports whose dependencies the engine has captured: a peer can only build on a local
  operation after it was pushed, and a push captures first.
\<close>

definition updates_ok ::
  "('d, 'v, 's) env \<Rightarrow> ('d, 'v, 'o) loro_sem \<Rightarrow> (u64 \<Rightarrow> encrypted_blob) \<Rightarrow> ('d, 'v, 's) engine
     \<Rightarrow> stored_blob list \<Rightarrow> bool" where
  "updates_ok E M log e us \<longleftrightarrow>
     (\<forall>u \<in> set us. sb_blob u = log (sb_seq u)) \<and> deliverable E M e (map sb_blob us) \<and>
     room (length us + 2) e"

fun frame_ok ::
  "('d, 'v, 's) env \<Rightarrow> ('d, 'v, 'o) loro_sem \<Rightarrow> (u64 \<Rightarrow> encrypted_blob) \<Rightarrow> ('d, 'v, 's) engine
     \<Rightarrow> server_frame \<Rightarrow> bool" where
  "frame_ok E M log e (UpdatesBatch _ us _) \<longleftrightarrow> updates_ok E M log e us"
| "frame_ok E M log e (UpdatesBroadcast _ us) \<longleftrightarrow> updates_ok E M log e us"
| "frame_ok E M log e (Snapshot _ _ _ _) \<longleftrightarrow> False"
| "frame_ok E M log e _ \<longleftrightarrow> True"

text \<open>A chain: rows for our doc, only the last one marked complete.\<close>

fun chain_rows :: "('d, 'v, 's) env \<Rightarrow> uuid \<Rightarrow> bytes list \<Rightarrow> encrypted_blob list option" where
  "chain_rows E did [] = None"
| "chain_rows E did (b # bs) =
     (case e_dec E b of
        Inr (Snapshot d _ blob complete) \<Rightarrow>
          (if d \<noteq> did then None
           else if bs = [] then (if complete then Some [blob] else None)
           else if complete then None
           else map_option ((#) blob) (chain_rows E did bs))
      | _ \<Rightarrow> None)"

definition can_snapshot :: "('d, 'v, 's) env \<Rightarrow> dek \<Rightarrow> bool" where
  "can_snapshot E k \<longleftrightarrow>
     (\<forall>r d. \<exists>b. snapshot_blob (e_loro E) (e_aead E) (e_rng E) k r d = Inr b)"

definition peer_ok :: "('d, 'v, 's) env \<Rightarrow> u64 option \<Rightarrow> bool" where
  "peer_ok E peer \<longleftrightarrow>
     (case peer of None \<Rightarrow> True
      | Some p \<Rightarrow> (\<exists>d. loro_set_peer (e_loro E) p (loro_new (e_loro E)) = Inr d))"

fun op_ok ::
  "('d, 'v, 's) env \<Rightarrow> ('d, 'v, 'o) loro_sem \<Rightarrow> (u64 \<Rightarrow> encrypted_blob) \<Rightarrow> 'd host_op
     \<Rightarrow> ('d, 'v, 's) engine \<Rightarrow> bool" where
  "op_ok E M log (HEdit d) e \<longleftrightarrow> present M e \<subseteq> doc_ops M d"
| "op_ok E M log (HBytes b) e \<longleftrightarrow>
     room 2 e \<and> (case e_dec E b of Inl _ \<Rightarrow> True | Inr f \<Rightarrow> frame_ok E M log e f)"
| "op_ok E M log (HChain bs) e \<longleftrightarrow>
     room 2 e \<and> can_snapshot E (en_dek e) \<and>
     (case chain_rows E (en_doc_id e) bs of None \<Rightarrow> False | Some blobs \<Rightarrow> deliverable E M e blobs)"
| "op_ok E M log (HCrash peer) e \<longleftrightarrow> room 3 e \<and> peer_ok E peer"
| "op_ok E M log _ e \<longleftrightarrow> room 3 e"

fun ops_ok ::
  "('d, 'v, 's) env \<Rightarrow> ('d, 'v, 'o) loro_sem \<Rightarrow> (u64 \<Rightarrow> encrypted_blob) \<Rightarrow> 'd host_op list
     \<Rightarrow> ('d, 'v, 's) engine \<Rightarrow> bool" where
  "ops_ok E M log [] e \<longleftrightarrow> True"
| "ops_ok E M log (x # xs) e \<longleftrightarrow> op_ok E M log x e \<and> ops_ok E M log xs (run_op E x e)"

section \<open>The invariant\<close>

definition stored_vv :: "('d, 'v) loro \<Rightarrow> bytes \<Rightarrow> 'v \<Rightarrow> bool" where
  "stored_vv L b vv \<longleftrightarrow> (if b = [] then vv = vv_default L else b = vv_encode L vv)"

definition stored_push ::
  "('d, 'v) loro \<Rightarrow> in_flight_push option \<Rightarrow> 'v in_flight_state option \<Rightarrow> bool" where
  "stored_push L p fl \<longleftrightarrow>
     map_option (\<lambda>p. (if_push_id p, if_payload p, if_to_vv p)) p =
     map_option (\<lambda>fl. (fl_push_id fl, fl_payload fl, vv_encode L (fl_to_vv fl))) fl"

abbreviation mem_blobs :: "mem_inner \<Rightarrow> encrypted_blob list" where
  "mem_blobs m \<equiv> boot_blobs (mem_boot_state m)"

definition wal_bytes :: "mem_inner \<Rightarrow> u64" where
  "wal_bytes m = sum_list (map (\<lambda>r. blob_len (mw_payload r)) (mi_wal m))"

definition log_tracked :: "(u64 \<Rightarrow> encrypted_blob) \<Rightarrow> mem_inner \<Rightarrow> bool" where
  "log_tracked log m \<longleftrightarrow>
     (\<forall>r \<in> set (mi_wal m). \<forall>n. mw_server_seq r = Some n \<longrightarrow> mw_payload r = log n)"

text \<open>The stored rows replay to \<open>U\<close>, and the cursors the rows determine are the engine's.\<close>

definition rows_tracked ::
  "('d, 'v, 's) env \<Rightarrow> ('d, 'v, 'o) loro_sem \<Rightarrow> (u64 \<Rightarrow> encrypted_blob) \<Rightarrow> mem_inner \<Rightarrow> 'o set
     \<Rightarrow> ('d, 'v, 's) engine \<Rightarrow> bool" where
  "rows_tracked E M log m U e \<longleftrightarrow>
     mem_inv m \<and> log_tracked log m \<and>
     en_last_local_seq e = next_local_seq m \<and>
     en_wal_rows e = of_nat (length (mi_wal m)) \<and>
     en_wal_bytes e = wal_bytes m \<and>
     mi_last_acked_server_seq m = en_last_durable_seq e \<and>
     stored_push (e_loro E) (mi_in_flight m) (en_in_flight e) \<and>
     replays M (e_aead E) (en_dek e) {} (mem_blobs m) U"

definition tracks ::
  "('d, 'v, 's) env \<Rightarrow> ('d, 'v, 'o) loro_sem \<Rightarrow> (u64 \<Rightarrow> encrypted_blob) \<Rightarrow> mem_inner
     \<Rightarrow> ('d, 'v, 's) engine \<Rightarrow> bool" where
  "tracks E M log m e \<longleftrightarrow>
     rows_tracked E M log m (captured M e) e \<and>
     stored_vv (e_loro E) (mi_server_known_vv m) (en_server_known_vv e) \<and>
     captured M e \<subseteq> present M e \<and> causal M (captured M e)"

lemma rows_room_fits: "rows_tracked E M log m U e \<Longrightarrow> room n e \<Longrightarrow> fits m"
  by (simp add: rows_tracked_def room_def fits_iff_unat)

lemma tracks_room_fits: "tracks E M log m e \<Longrightarrow> room n e \<Longrightarrow> fits m"
  by (auto simp: tracks_def intro: rows_room_fits)

lemma mem_blobs_append:
  "mem_blobs (m\<lparr>next_local_seq := n, mi_wal := mi_wal m @ [r]\<rparr>) = mem_blobs m @ [mw_payload r]"
  by (simp add: boot_blobs_def mem_boot_state_def)

lemma tracks_cong:
  assumes "en_dek e' = en_dek e" "en_doc e' = en_doc e" "en_last_local_seq e' = en_last_local_seq e"
    and "en_wal_rows e' = en_wal_rows e" "en_wal_bytes e' = en_wal_bytes e"
    and "en_last_durable_seq e' = en_last_durable_seq e"
    and "en_server_known_vv e' = en_server_known_vv e" "en_in_flight e' = en_in_flight e"
  shows "tracks E M log m e' = tracks E M log m e"
  using assms by (simp add: tracks_def rows_tracked_def)

lemmas tracks_congI = tracks_cong [THEN iffD2, rotated 8]

text \<open>One more row: what an append of either kind does to the rows.\<close>

lemma rows_tracked_append:
  assumes "rows_tracked E M log m U e" "fits m"
    and "plain (e_aead E) (en_dek e) b = Some pt" "blob_valid M pt" "blob_deps M pt \<subseteq> U"
    and "case ss of None \<Rightarrow> True
         | Some n \<Rightarrow> n \<notin> set (List.map_filter mw_server_seq (mi_wal m)) \<and> b = log n"
  shows "rows_tracked E M log
      (m\<lparr>next_local_seq := next_local_seq m + 1,
         mi_wal := mi_wal m @
           [\<lparr>mw_local_seq = next_local_seq m + 1, mw_server_seq = ss, mw_payload = b\<rparr>]\<rparr>)
      (U \<union> blob_ops M pt)
      (e\<lparr>en_last_local_seq := next_local_seq m + 1, en_wal_rows := en_wal_rows e + 1,
         en_wal_bytes := en_wal_bytes e + blob_len b\<rparr>)"
proof -
  have "replays M (e_aead E) (en_dek e) {} (mem_blobs m @ [b]) (U \<union> blob_ops M pt)"
    using replays_append1 [OF _ assms(3-5)] assms(1) by (simp add: rows_tracked_def)
  moreover have "mem_inv (m\<lparr>next_local_seq := next_local_seq m + 1,
         mi_wal := mi_wal m @
           [\<lparr>mw_local_seq = next_local_seq m + 1, mw_server_seq = ss, mw_payload = b\<rparr>]\<rparr>)"
    using mem_inv_append assms(1,2,6) by (auto simp: rows_tracked_def split: option.splits)
  ultimately show ?thesis
    using assms(1,6)
    by (auto simp: rows_tracked_def log_tracked_def mem_blobs_append wal_bytes_def)
qed

text \<open>A captured batch of local operations: one more WAL row, the cursor at the oplog.\<close>

lemma tracks_append_local:
  assumes "tracks E M log m e" "fits m" "loro_ok (e_loro E) M" "aead_ok (e_aead E) (e_rng E) (en_dek e)"
    and "pending_export (e_loro E) (e_aead E) (e_rng E) (en_dek e) r (en_doc e) = Inr (Some b)"
  shows "tracks E M log (snd (mem_append_local_wal did b m))
    (e\<lparr>en_last_local_seq := next_local_seq m + 1, en_wal_rows := en_wal_rows e + 1,
       en_wal_bytes := en_wal_bytes e + blob_len b,
       en_doc := mark_persisted_at (e_loro E) (oplog_vv (e_loro E) (en_doc e)) (en_doc e)\<rparr>)"
proof -
  obtain pt where pt: "plain (e_aead E) (en_dek e) b = Some pt" "blob_valid M pt"
    "blob_ops M pt = present M e - captured M e" "blob_deps M pt \<subseteq> captured M e"
    using pending_export_ops [OF assms(3-5)] .
  have d: "captured M e \<subseteq> present M e" "rows_tracked E M log m (captured M e) e"
    using assms(1) by (simp_all add: tracks_def)
  have un: "captured M e \<union> blob_ops M pt = present M e"
    using d(1) pt(3) by blast
  note rows = rows_tracked_append [where ss = None, OF d(2) assms(2) pt(1,2,4), unfolded un]
  moreover have "vv_ops M (vv_merge (e_loro E) (last_persisted_vv (en_doc e))
      (loro_oplog_vv (e_loro E) (inner (en_doc e)))) = present M e"
    using d(1) by (simp add: vv_merge_ops [OF assms(3)] oplog_vv_ops [OF assms(3)] Un_absorb1)
  ultimately show ?thesis
    using assms(1)
    by (simp add: tracks_def rows_tracked_def mark_persisted_at_def oplog_vv_def
        mem_append_local_wal_def Let_def causal_doc [OF assms(3)])
qed

text \<open>A local snapshot of a fully captured doc replaces the snapshot and the whole WAL.\<close>

lemma prune_all:
  "mem_inv m \<Longrightarrow> filter (\<lambda>r. mw_local_seq r > next_local_seq m) (mi_wal m) = []"
  by (auto simp: mem_inv_def filter_empty_conv)

lemma tracks_write_snapshot:
  assumes "rows_tracked E M log m U e"
    and "stored_vv (e_loro E) (mi_server_known_vv m) (en_server_known_vv e)" "loro_ok (e_loro E) M" "aead_ok (e_aead E) (e_rng E) (en_dek e)"
    and "snapshot_blob (e_loro E) (e_aead E) (e_rng E) (en_dek e) r (en_doc e) = Inr b"
    and "vv_ops M v = present M e"
  shows "tracks E M log (snd (mem_write_snapshot did (en_last_local_seq e) b m))
    (e\<lparr>en_wal_rows := 0, en_wal_bytes := 0, en_doc := (en_doc e)\<lparr>last_persisted_vv := v\<rparr>\<rparr>)"
proof -
  have inv': "mem_inv m" "en_last_local_seq e = next_local_seq m"
    using assms(1) by (simp_all add: rows_tracked_def)
  obtain pt where pt: "plain (e_aead E) (en_dek e) b = Some pt" "blob_valid M pt"
    "blob_ops M pt = present M e" "blob_deps M pt = {}"
    using snapshot_blob_ops [OF assms(3-5)] .
  let ?m = "snd (mem_write_snapshot did (en_last_local_seq e) b m)"
  have m: "?m = m\<lparr>mi_snapshot := Some \<lparr>up_to_local_seq = next_local_seq m, sr_payload = b\<rparr>, mi_wal := []\<rparr>"
    using prune_all [OF inv'(1)] inv'(2) by (simp add: mem_write_snapshot_def)
  have "mem_inv ?m"
    using mem_inv_prune [OF inv'(1)] by (simp add: mem_write_snapshot_def)
  then show ?thesis
    using assms(1,2,6) pt causal_doc [OF assms(3)] unfolding m
    by (simp add: tracks_def rows_tracked_def log_tracked_def wal_bytes_def boot_blobs_def
        mem_boot_state_def)
qed

text \<open>
  A remote row: appended, or already there with the same blob, so that its operations are
  among those the rows replay to.
\<close>

lemma replays_member:
  "replays M A k S bs T \<Longrightarrow> b \<in> set bs \<Longrightarrow> plain A k b = Some pt \<Longrightarrow> blob_ops M pt \<subseteq> T"
proof (induction bs arbitrary: S)
  case (Cons c bs)
  then obtain q where q: "plain A k c = Some q" "replays M A k (S \<union> blob_ops M q) bs T"
    by (auto split: option.splits)
  show ?case
  proof (cases "b = c")
    case True
    with Cons.prems q show ?thesis using replays_mono [OF q(2)] by simp
  next
    case False
    with Cons q(2) show ?thesis by auto
  qed
qed simp

lemma rows_tracked_known:
  "rows_tracked E M log m U e \<Longrightarrow> rows_tracked E M log (m\<lparr>mi_server_known_vv := vv\<rparr>) U e"
  by (simp add: rows_tracked_def mem_inv_def log_tracked_def wal_bytes_def boot_blobs_def
      mem_boot_state_def)

lemma rows_tracked_duplicate:
  assumes "rows_tracked E M log m U e" "r \<in> set (mi_wal m)" "mw_server_seq r = Some n"
    and "plain (e_aead E) (en_dek e) (log n) = Some pt"
  shows "U \<union> blob_ops M pt = U"
proof -
  have "log n \<in> set (mem_blobs m)"
    using assms(1-3) by (force simp: rows_tracked_def log_tracked_def boot_blobs_def mem_boot_state_def)
  with assms(1,4) have "blob_ops M pt \<subseteq> U"
    by (auto simp: rows_tracked_def dest: replays_member)
  then show ?thesis by blast
qed

section \<open>Quiet steps\<close>

text \<open>
  The part of an engine the invariant speaks about; frames, events, the connection state and
  the contiguous frontier are outside it.
\<close>

definition core where
  "core e = (en_doc e, en_dek e, en_doc_id e, en_storage e, en_server_known_vv e, en_in_flight e,
     en_last_local_seq e, en_wal_rows e, en_wal_bytes e, en_last_durable_seq e)"

lemma core_update [simp]:
  "core (e\<lparr>en_state := st\<rparr>) = core e"
  "core (e\<lparr>en_outbox := ob\<rparr>) = core e"
  "core (e\<lparr>en_events := evs\<rparr>) = core e"
  "core (e\<lparr>en_draws := n\<rparr>) = core e"
  "core (e\<lparr>en_assert_failed := af\<rparr>) = core e"
  "core (e\<lparr>en_last_contiguous_seq := c\<rparr>) = core e"
  "core (e\<lparr>en_last_sent_ack := a\<rparr>) = core e"
  "core (e\<lparr>en_server_epoch := ep\<rparr>) = core e"
  "core (push_event ev e) = core e"
  "core (go_disconnected e) = core e"
  by (simp_all add: core_def push_event_def go_disconnected_def)

lemma core_encodeD: "encode_into_outbox E f e = (r, e') \<Longrightarrow> core e' = core e"
  by (auto simp: encode_into_outbox_def split: sum.splits)

lemma core_send [simp]:
  "core (send_or_disconnect E f mk e) = core e"
  "core (send_in_flight E fl e) = core e"
  "core (queue_ack_if_advanced E e) = core e"
  by (auto simp: send_or_disconnect_def send_in_flight_def queue_ack_if_advanced_def
      dest: core_encodeD split: prod.splits sum.splits)

lemma core_frontier [simp]:
  "core (ingest_seq n e) = core e" "core (frontier_event p e) = core e"
  by (simp_all add: ingest_seq_def frontier_event_def)

lemma core_fold_ingest [simp]: "core (fold ingest_seq ns e) = core e"
  by (induction ns arbitrary: e) simp_all

lemma core_transport [simp]:
  "core (handle_connected E e) = core e" "core (handle_disconnected e) = core e"
  "core (handle_timeout e) = core e" "core (snd (pop_outbox e)) = core e"
  "core (snd (pop_event e)) = core e" "core (on_doc_opened E n e) = core e"
  "core (on_doc_rejected r e) = core e" "core (on_doc_closed r e) = core e"
  "core (on_snapshot_required E e) = core e"
  by (auto simp: handle_connected_def handle_disconnected_def handle_timeout_def pop_outbox_def
      pop_event_def on_doc_opened_def on_doc_rejected_def on_doc_closed_def on_snapshot_required_def
      split: list.splits)

lemma core_snapshot_request [simp]: "core (on_snapshot_request E fl base e) = core e"
  by (auto simp: on_snapshot_request_def Let_def dest: core_encodeD split: sum.splits prod.splits)

text \<open>An engine wired to a storage whose persisted state it tracks.\<close>

definition engine_good where
  "engine_good St did view sinv E M log e \<longleftrightarrow>
     e_st E = St \<and> en_doc_id e = did \<and> loro_ok (e_loro E) M \<and>
     aead_ok (e_aead E) (e_rng E) (en_dek e) \<and>
     sinv (en_storage e) \<and> tracks E M log (view (en_storage e)) e"

lemma engine_good_core:
  assumes "core e' = core e"
  shows "engine_good St did view sinv E M log e' = engine_good St did view sinv E M log e"
proof -
  from assms have "tracks E M log m e' = tracks E M log m e" for m
    by (intro tracks_cong) (simp_all add: core_def)
  with assms show ?thesis by (simp add: engine_good_def core_def)
qed

lemma engine_good_coreI:
  "engine_good St did view sinv E M log e \<Longrightarrow> core e' = core e \<Longrightarrow>
     engine_good St did view sinv E M log e'"
  by (rule iffD2 [OF engine_good_core])

lemma room_core: "core e' = core e \<Longrightarrow> room n e' = room n e"
  by (simp add: core_def room_def)

lemma run_storage_op:
  assumes "refines_op view sinv f g" "succeeds_op view sinv f" "sinv s" "fits (view s)"
  obtains x s' where "f s = (Inr x, s')" "g (view s) = (Inr x, view s')" "sinv s'"
proof -
  from assms(2-4) obtain x s' where "f s = (Inr x, s')" by (auto simp: succeeds_op_def)
  with refines_op_ok [OF assms(1,3,4) this] that show thesis by blast
qed

text \<open>Writes of a cursor alone.\<close>

lemma tracks_put_in_flight:
  assumes "tracks E M log m e" "if_push_id p = fl_push_id fl" "if_payload p = fl_payload fl"
    and "if_to_vv p = vv_encode (e_loro E) (fl_to_vv fl)"
  shows "tracks E M log (m\<lparr>mi_in_flight := Some p\<rparr>) (e\<lparr>en_in_flight := Some fl\<rparr>)"
  using assms by (simp add: tracks_def rows_tracked_def mem_inv_def log_tracked_def wal_bytes_def
      boot_blobs_def mem_boot_state_def stored_push_def)

lemma tracks_complete_push:
  assumes "tracks E M log m e" "en_in_flight e = Some fl" "loro_ok (e_loro E) M"
  shows "tracks E M log (snd (mem_complete_push did (fl_push_id fl) (vv_encode (e_loro E) known) m))
    (e\<lparr>en_in_flight := None, en_server_known_vv := known\<rparr>)"
proof -
  have "map_option if_push_id (mi_in_flight m) = Some (fl_push_id fl)"
    using assms(1,2) by (auto simp: tracks_def rows_tracked_def stored_push_def)
  then show ?thesis
    using assms(1) vv_encode_nonempty [OF assms(3)]
    by (simp add: mem_complete_push_def Let_def tracks_def rows_tracked_def mem_inv_def
        log_tracked_def wal_bytes_def boot_blobs_def mem_boot_state_def stored_push_def stored_vv_def)
qed

lemma tracks_write_acked:
  assumes "tracks E M log m e"
  shows "tracks E M log (m\<lparr>mi_last_acked_server_seq := n\<rparr>) (e\<lparr>en_last_durable_seq := n\<rparr>)"
  using assms by (simp add: tracks_def rows_tracked_def mem_inv_def log_tracked_def wal_bytes_def
      boot_blobs_def mem_boot_state_def)

text \<open>The fields that storing remote rows leaves alone.\<close>

definition frame_of where
  "frame_of e = (en_doc e, en_dek e, en_doc_id e, en_server_known_vv e)"

lemma frame_of_core: "core e' = core e \<Longrightarrow> frame_of e' = frame_of e"
  by (simp add: core_def frame_of_def)

context reliable_storage
begin

abbreviation "good \<equiv> engine_good St did view sinv"

lemma good_room_fits: "good E M log e \<Longrightarrow> room n e \<Longrightarrow> fits (view (en_storage e))"
  by (auto simp: engine_good_def intro: tracks_room_fits)

lemma good_local_seq: "good E M log e \<Longrightarrow> en_last_local_seq e = next_local_seq (view (en_storage e))"
  by (simp add: engine_good_def tracks_def rows_tracked_def)

lemma good_capture:
  assumes "good E M log e" "room 1 e" "capture_local_ops E e = (r, e')"
  shows "good E M log e' \<and> unat (en_last_local_seq e') \<le> Suc (unat (en_last_local_seq e)) \<and>
    (\<forall>x. r = Inr x \<longrightarrow> captured M e' = present M e') \<and> present M e' = present M e"
proof -
  let ?L = "e_loro E" and ?A = "e_aead E" and ?R = "e_rng E"
  have ok: "loro_ok ?L M" "aead_ok ?A ?R (en_dek e)" "en_doc_id e = did" "e_st E = St"
    using assms(1) by (simp_all add: engine_good_def)
  have draws: "good E M log (e\<lparr>en_draws := n\<rparr>)" for n
    by (rule engine_good_coreI [OF assms(1)]) simp
  show ?thesis
  proof (cases "has_uncaptured_ops ?L (en_doc e)")
    case False
    with assms captured_ops [OF ok(1) False] show ?thesis
      by (auto simp: capture_local_ops_def)
  next
    case True
    show ?thesis
    proof (cases "pending_export ?L ?A ?R (en_dek e) (en_draws e) (en_doc e)")
      case (Inl err)
      with True assms(3) draws show ?thesis by (auto simp: capture_local_ops_def Let_def)
    next
      case (Inr bo)
      then obtain b where b: "pending_export ?L ?A ?R (en_dek e) (en_draws e) (en_doc e) = Inr (Some b)"
        using True pending_export_None by (cases bo) blast+
      let ?m = "view (en_storage e)"
      have fit: "fits ?m" by (rule good_room_fits [OF assms(1,2)])
      have sv: "sinv (en_storage e)" and tr: "tracks E M log ?m e"
        using assms(1) by (simp_all add: engine_good_def)
      obtain x s' where s': "st_append_local_wal St did b (en_storage e) = (Inr x, s')"
          "mem_append_local_wal did b ?m = (Inr x, view s')" "sinv s'"
        using run_storage_op [OF append_local_refines append_local_succeeds sv fit] .
      have x: "x = next_local_seq ?m + 1" "view s' = snd (mem_append_local_wal did b ?m)"
        using s'(2) by (auto simp: mem_append_local_wal_def Let_def)
      let ?e = "e\<lparr>en_draws := Suc (en_draws e), en_storage := s', en_last_local_seq := x,
        en_wal_rows := en_wal_rows e + 1, en_wal_bytes := en_wal_bytes e + blob_len b,
        en_doc := mark_persisted_at ?L (oplog_vv ?L (en_doc e)) (en_doc e)\<rparr>"
      have e': "e' = ?e" and r: "r = Inr (Some x)"
        using assms(3) True b s'(1) ok by (simp_all add: capture_local_ops_def Let_def)
      have "tracks E M log (view s') ?e"
        unfolding x(2) by (rule tracks_congI [OF tracks_append_local [OF tr fit ok(1,2) b]])
          (simp_all add: x(1))
      moreover have "captured M ?e = present M ?e"
        using tr by (auto simp: mark_persisted_at_def oplog_vv_def vv_merge_ops [OF ok(1)]
            oplog_vv_ops [OF ok(1)] tracks_def)
      ultimately show ?thesis
        using e' r s'(3) ok x(1) good_local_seq [OF assms(1)]
        by (simp add: engine_good_def mark_persisted_at_def unat_inc_le)
    qed
  qed
qed

lemma room_below_63: "room n e \<Longrightarrow> en_last_local_seq e < 2 ^ 63"
  by (simp add: room_def word_less_nat_alt)

lemma good_write_local_snapshot:
  assumes "good E M log e" "room 1 e" "captured M e = present M e"
  shows "good E M log (snd (write_local_snapshot E e))"
proof -
  let ?L = "e_loro E" and ?A = "e_aead E" and ?R = "e_rng E" and ?m = "view (en_storage e)"
  have ok: "loro_ok ?L M" "aead_ok ?A ?R (en_dek e)" "en_doc_id e = did" "e_st E = St"
    and sv: "sinv (en_storage e)" and tr: "tracks E M log ?m e"
    using assms(1) by (simp_all add: engine_good_def)
  show ?thesis
  proof (cases "snapshot_blob ?L ?A ?R (en_dek e) (en_draws e) (en_doc e)")
    case (Inl err)
    then show ?thesis
      using engine_good_coreI [OF assms(1), of "e\<lparr>en_draws := Suc (en_draws e)\<rparr>"]
      by (simp add: write_local_snapshot_def Let_def)
  next
    case (Inr b)
    note cut = room_below_63 [OF assms(2)]
    have tr': "rows_tracked E M log ?m (captured M e) e"
      "stored_vv ?L (mi_server_known_vv ?m) (en_server_known_vv e)"
      using tr by (simp_all add: tracks_def)
    obtain x s' where s': "st_write_snapshot St did (en_last_local_seq e) b (en_storage e) = (Inr x, s')"
        "mem_write_snapshot did (en_last_local_seq e) b ?m = (Inr x, view s')" "sinv s'"
      using run_storage_op [OF write_snapshot_refines [OF cut] write_snapshot_succeeds [OF cut] sv
          good_room_fits [OF assms(1,2)]] .
    have v: "view s' = snd (mem_write_snapshot did (en_last_local_seq e) b ?m)"
      using s'(2) by simp
    have "tracks E M log (view s') (e\<lparr>en_draws := Suc (en_draws e), en_storage := s',
        en_wal_rows := 0, en_wal_bytes := 0\<rparr>)"
      unfolding v
      by (rule tracks_congI [OF tracks_write_snapshot [OF tr' ok(1,2) Inr assms(3)]]) simp_all
    then show ?thesis
      using Inr s'(1,3) ok by (simp add: write_local_snapshot_def Let_def engine_good_def)
  qed
qed

lemma room_after:
  "unat (en_last_local_seq e') \<le> Suc (unat (en_last_local_seq e)) \<Longrightarrow> room (Suc n) e \<Longrightarrow> room n e'"
  by (simp add: room_def)

lemma good_fold:
  assumes "good E M log e" "room 2 e"
  shows "good E M log (snd (snapshot_if_wal_exceeds E rows bts e))"
    and "good E M log (snd (force_snapshot E e))"
proof -
  obtain r e1 where e1: "capture_local_ops E e = (r, e1)" by (cases "capture_local_ops E e")
  have "room 1 e" using assms(2) by (simp add: room_def)
  note c = good_capture [OF assms(1) this e1]
  then have "room 1 e1" using assms(2) room_after [of e1 e 1] by (simp add: numeral_2_eq_2)
  with c show "good E M log (snd (snapshot_if_wal_exceeds E rows bts e))"
    and "good E M log (snd (force_snapshot E e))"
    by (auto simp: snapshot_if_wal_exceeds_def force_snapshot_def e1 good_write_local_snapshot
        split: sum.splits)
qed

lemma append_remote_rows:
  assumes "sinv (en_storage e)" "rows_tracked E M log (view (en_storage e)) U e" "room 1 e"
    and "e_st E = St" "en_doc_id e = did"
    and "plain (e_aead E) (en_dek e) (sb_blob u) = Some pt" "blob_valid M pt" "blob_deps M pt \<subseteq> U"
    and log: "sb_blob u = log (sb_seq u)"
    and e': "e' = append_remote E vvb u e"
  shows "sinv (en_storage e') \<and> rows_tracked E M log (view (en_storage e')) (U \<union> blob_ops M pt) e' \<and>
    mi_server_known_vv (view (en_storage e')) = vvb \<and> frame_of e' = frame_of e \<and>
    unat (en_last_local_seq e') \<le> Suc (unat (en_last_local_seq e))"
proof -
  let ?row = "\<lparr>rr_server_seq = sb_seq u, rr_payload = sb_blob u\<rparr>"
  let ?m = "view (en_storage e)" and ?n = "sb_seq u"
  let ?mv = "?m\<lparr>mi_server_known_vv := vvb\<rparr>"
  have fit: "fits ?m" by (rule rows_room_fits [OF assms(2,3)])
  have rows: "rows_tracked E M log ?mv U e" and fit': "fits ?mv"
    using rows_tracked_known [OF assms(2)] fit by (simp_all add: fits_def)
  have ls: "en_last_local_seq e = next_local_seq ?m" using assms(2) by (simp add: rows_tracked_def)
  obtain x s' where s': "st_append_remote_wal St did ?row vvb (en_storage e) = (Inr x, s')"
      "mem_append_remote_wal did ?row vvb ?m = (Inr x, view s')" "sinv s'"
    using run_storage_op [OF append_remote_refines append_remote_succeeds assms(1) fit] .
  show ?thesis
  proof (cases "find (\<lambda>r. mw_server_seq r = Some ?n) (mi_wal ?m)")
    case None
    let ?m' = "?mv\<lparr>next_local_seq := next_local_seq ?mv + 1, mi_wal := mi_wal ?mv @
      [\<lparr>mw_local_seq = next_local_seq ?mv + 1, mw_server_seq = Some ?n, mw_payload = sb_blob u\<rparr>]\<rparr>"
    let ?e = "e\<lparr>en_last_local_seq := next_local_seq ?mv + 1, en_wal_rows := en_wal_rows e + 1,
      en_wal_bytes := en_wal_bytes e + blob_len (sb_blob u)\<rparr>"
    have fresh: "?n \<notin> set (List.map_filter mw_server_seq (mi_wal ?mv))"
      using None find_server_seq_None [of ?n "mi_wal ?m"] by simp
    have x: "x = (next_local_seq ?m + 1, True)" "view s' = ?m'"
      using s'(2) None by (auto simp: mem_append_remote_wal_def Let_def)
    have "rows_tracked E M log ?m' (U \<union> blob_ops M pt) ?e"
      by (rule rows_tracked_append [OF rows fit' assms(6-8)]) (use fresh log in simp)
    moreover have "e' = ?e\<lparr>en_storage := s'\<rparr>"
      using e' s'(1) x(1) assms(4,5) by (simp add: append_remote_def)
    ultimately show ?thesis
      using s'(3) x(2) ls by (simp add: rows_tracked_def frame_of_def unat_inc_le)
  next
    case (Some r)
    then have r: "r \<in> set (mi_wal ?mv)" "mw_server_seq r = Some ?n"
      by (auto simp: find_Some_iff)
    have "x = (mw_local_seq r, False)" and v: "view s' = ?mv"
      using s'(2) Some by (auto simp: mem_append_remote_wal_def Let_def)
    then have "e' = e\<lparr>en_storage := s'\<rparr>"
      using e' s'(1) assms(4,5) by (simp add: append_remote_def)
    moreover have "U \<union> blob_ops M pt = U"
      by (rule rows_tracked_duplicate [OF rows r]) (use assms(6) log in simp)
    ultimately show ?thesis
      using s'(3) v rows by (simp add: rows_tracked_def frame_of_def)
  qed
qed

lemma fold_append_remote:
  assumes "sinv (en_storage e)" "rows_tracked E M log (view (en_storage e)) U e" "room (length us) e"
    and "e_st E = St" "en_doc_id e = did"
    and "replays M (e_aead E) (en_dek e) U (map sb_blob us) T"
    and "\<forall>u \<in> set us. sb_blob u = log (sb_seq u)"
  shows "\<exists>e'. fold (append_remote E vvb) us e = e' \<and>
    sinv (en_storage e') \<and> rows_tracked E M log (view (en_storage e')) T e' \<and>
    mi_server_known_vv (view (en_storage e')) =
      (if us = [] then mi_server_known_vv (view (en_storage e)) else vvb) \<and>
    frame_of e' = frame_of e \<and>
    unat (en_last_local_seq e') \<le> unat (en_last_local_seq e) + length us"
  using assms
proof (induction us arbitrary: e U)
  case Nil
  then show ?case by auto
next
  case (Cons u us)
  from Cons.prems(6) obtain pt where pt: "plain (e_aead E) (en_dek e) (sb_blob u) = Some pt"
      "blob_valid M pt" "blob_deps M pt \<subseteq> U"
      "replays M (e_aead E) (en_dek e) (U \<union> blob_ops M pt) (map sb_blob us) T"
    by (auto split: option.splits)
  have rm: "room 1 e" and lg: "sb_blob u = log (sb_seq u)"
    using Cons.prems(3,7) by (simp_all add: room_def)
  obtain e1 where e1: "append_remote E vvb u e = e1" by blast
  note h = append_remote_rows [OF Cons.prems(1,2) rm Cons.prems(4,5) pt(1-3) lg e1 [symmetric]]
  have fr: "en_dek e1 = en_dek e" "en_doc_id e1 = did"
    using h Cons.prems(5) by (simp_all add: frame_of_def)
  have "room (length us) e1" using Cons.prems(3) h room_after [of e1 e "length us"] by simp
  from Cons.IH [of e1 "U \<union> blob_ops M pt"] this h Cons.prems(4,7) fr pt(4)
  show ?case by (auto simp: e1)
qed

lemma good_apply_remote_updates:
  assumes "good E M log e" "updates_ok E M log e us"
  shows "\<exists>e'. apply_remote_updates E us e = e' \<and> good E M log e' \<and>
    unat (en_last_local_seq e') \<le> unat (en_last_local_seq e) + length us"
proof (cases "us = []")
  case True
  with assms show ?thesis by (simp add: apply_remote_updates_def)
next
  case False
  let ?L = "e_loro E" and ?A = "e_aead E" and ?m = "view (en_storage e)"
  have ok: "loro_ok ?L M" "aead_ok ?A (e_rng E) (en_dek e)" "en_doc_id e = did" "e_st E = St"
    and sv: "sinv (en_storage e)" and tr: "tracks E M log ?m e"
    using assms(1) by (simp_all add: engine_good_def)
  from tr have d: "rows_tracked E M log ?m (captured M e) e" "causal M (captured M e)"
    "captured M e \<subseteq> present M e" by (simp_all add: tracks_def)
  from assms(2) obtain T where T: "replays M ?A (en_dek e) (captured M e) (map sb_blob us) T"
    and lg: "\<forall>u \<in> set us. sb_blob u = log (sb_seq u)" and rm: "room (length us) e"
    by (auto simp: updates_ok_def deliverable_def room_def)
  from import_blobs_ops [OF ok(1) T d(2) refl d(3), of "vv_default ?L"]
  obtain v d' where d': "apply_remote_batch ?L ?A (en_dek e) (map sb_blob us) (en_doc e) = (Inr v, d')"
    "doc_ops M (inner d') = present M e \<union> T" "vv_ops M (last_persisted_vv d') = T" "causal M T"
    by (auto simp: apply_remote_batch_def)
  let ?known = "vv_merge ?L (en_server_known_vv e) v"
  let ?e1 = "e\<lparr>en_doc := d', en_server_known_vv := ?known\<rparr>"
  obtain e2 where e2: "fold (append_remote E (vv_encode ?L ?known)) us ?e1 = e2"
    "sinv (en_storage e2)" "rows_tracked E M log (view (en_storage e2)) T e2"
    "mi_server_known_vv (view (en_storage e2)) = vv_encode ?L ?known" "frame_of e2 = frame_of ?e1"
    "unat (en_last_local_seq e2) \<le> unat (en_last_local_seq ?e1) + length us"
    using fold_append_remote [of ?e1 E M log "captured M e" us T "vv_encode ?L ?known"]
      sv d(1) rm ok T lg False by (auto simp: rows_tracked_def room_def)
  have e2f: "en_doc e2 = d'" "en_dek e2 = en_dek e" "en_doc_id e2 = did"
    "en_server_known_vv e2 = ?known"
    using e2(5) ok(3) by (simp_all add: frame_of_def)
  have "tracks E M log (view (en_storage e2)) e2"
    using e2(3,4) e2f d' vv_encode_nonempty [OF ok(1)] by (simp add: tracks_def stored_vv_def)
  then have "good E M log e2"
    using e2(2) e2f ok by (simp add: engine_good_def)
  moreover have "core (apply_remote_updates E us e) = core e2"
    using False d'(1) e2(1) by (simp add: apply_remote_updates_def Let_def)
  ultimately show ?thesis
    using e2(6) by (auto intro: engine_good_coreI simp: core_def)
qed

lemma good_start_fresh_push:
  assumes "good E M log e0" "room 2 e0"
  shows "good E M log (start_fresh_push E e0)"
proof -
  obtain r e where e: "capture_local_ops E e0 = (r, e)" by (cases "capture_local_ops E e0")
  have "room 1 e0" using assms(2) by (simp add: room_def)
  note c = good_capture [OF assms(1) this e]
  then have g: "good E M log e" and rm: "room 1 e"
    using assms(2) room_after [of e e0 1] by (simp_all add: numeral_2_eq_2)
  have quiet: "good E M log e'" if "core e' = core e" for e'
    by (rule engine_good_coreI [OF g that])
  let ?L = "e_loro E" and ?x = "export_updates_since (e_loro E) (e_aead E) (e_rng E) (en_dek e)
    (en_draws e) (en_server_known_vv e) (en_doc e)"
  show ?thesis
  proof (cases "(\<exists>err. r = Inl err) \<or> (\<exists>err. ?x = Inl err) \<or> ?x = Inr None")
    case True
    then show ?thesis
      by (auto simp: start_fresh_push_def e Let_def intro!: quiet split: sum.splits)
  next
    case False
    then obtain y b where r: "r = Inr y" and x: "?x = Inr (Some b)"
      by (cases r; cases ?x) auto
    let ?pid = "rnd_uuid (e_rng E) (Suc (en_draws e))" and ?to = "oplog_vv ?L (en_doc e)"
    let ?p = "\<lparr>if_push_id = ?pid, if_payload = b, if_from_vv = vv_encode ?L (en_server_known_vv e),
      if_to_vv = vv_encode ?L ?to\<rparr>"
    let ?fl = "\<lparr>fl_push_id = ?pid, fl_payload = b, fl_to_vv = ?to\<rparr>"
    have sv: "sinv (en_storage e)" "en_doc_id e = did" "e_st E = St"
      "tracks E M log (view (en_storage e)) e"
      using g by (simp_all add: engine_good_def)
    obtain z s' where s': "st_put_in_flight_push St did ?p (en_storage e) = (Inr z, s')"
        "mem_put_in_flight_push did ?p (view (en_storage e)) = (Inr z, view s')" "sinv s'"
      using run_storage_op [OF put_in_flight_refines put_in_flight_succeeds sv(1)
          good_room_fits [OF g rm]] .
    have v: "view s' = (view (en_storage e))\<lparr>mi_in_flight := Some ?p\<rparr>"
      using s'(2) by (simp add: mem_put_in_flight_push_def)
    let ?e1 = "e\<lparr>en_draws := Suc (Suc (en_draws e)), en_storage := s', en_in_flight := Some ?fl\<rparr>"
    have "tracks E M log (view s') ?e1"
      unfolding v by (rule tracks_congI [OF tracks_put_in_flight [OF sv(4), of ?p ?fl]]) simp_all
    then have "good E M log ?e1"
      using g s'(3) sv by (simp add: engine_good_def)
    then have "good E M log (send_in_flight E ?fl ?e1)"
      by (rule engine_good_coreI) simp
    then show ?thesis
      using r x s'(1) sv by (simp add: start_fresh_push_def e Let_def)
  qed
qed

lemma good_try_start_push:
  assumes "good E M log e" "room 2 e"
  shows "good E M log (try_start_push E e)"
  using assms(1) good_start_fresh_push [OF assms] engine_good_coreI [OF assms(1)]
  by (auto simp: try_start_push_def split: option.splits)

lemma good_flush: "good E M log e \<Longrightarrow> room 2 e \<Longrightarrow> good E M log (flush E e)"
  by (auto simp: flush_def good_try_start_push intro: engine_good_coreI split: conn_state.splits)

lemma good_notify:
  assumes "good E M log e" "room 1 e"
  shows "good E M log (notify_oplog_durable E n e)"
proof (cases "min n (en_last_contiguous_seq e) > en_last_durable_seq e")
  case False
  then have "notify_oplog_durable E n e = e" by (auto simp: notify_oplog_durable_def Let_def)
  with assms(1) show ?thesis by simp
next
  case True
  let ?n = "min n (en_last_contiguous_seq e)"
  have sv: "sinv (en_storage e)" "en_doc_id e = did" "e_st E = St"
    "tracks E M log (view (en_storage e)) e"
    using assms(1) by (simp_all add: engine_good_def)
  obtain z s' where s': "st_write_acked_seq St did ?n (en_storage e) = (Inr z, s')"
      "mem_write_acked_seq did ?n (view (en_storage e)) = (Inr z, view s')" "sinv s'"
    using run_storage_op [OF write_acked_refines write_acked_succeeds sv(1)
        good_room_fits [OF assms]] .
  have v: "view s' = (view (en_storage e))\<lparr>mi_last_acked_server_seq := ?n\<rparr>"
    using s'(2) by (simp add: mem_write_acked_seq_def)
  let ?e = "e\<lparr>en_last_durable_seq := ?n, en_storage := s'\<rparr>"
  have "tracks E M log (view s') ?e"
    unfolding v by (rule tracks_congI [OF tracks_write_acked [OF sv(4), of ?n]]) simp_all
  then have "good E M log ?e"
    using assms(1) s'(3) sv by (simp add: engine_good_def)
  then have "good E M log (queue_ack_if_advanced E ?e)"
    by (rule engine_good_coreI) simp
  then show ?thesis
    using True s'(1) sv by (simp add: notify_oplog_durable_def Let_def)
qed

lemma good_complete_in_flight:
  assumes "good E M log e" "room 2 e" "en_in_flight e = Some fl"
  shows "good E M log (complete_in_flight E fl n (e\<lparr>en_in_flight := None\<rparr>))"
proof -
  let ?L = "e_loro E" and ?known = "vv_merge (e_loro E) (en_server_known_vv e) (fl_to_vv fl)"
  have sv: "sinv (en_storage e)" "en_doc_id e = did" "e_st E = St" "loro_ok ?L M"
    "tracks E M log (view (en_storage e)) e"
    using assms(1) by (simp_all add: engine_good_def)
  obtain z s' where s': "st_complete_push St did (fl_push_id fl) (vv_encode ?L ?known) (en_storage e) = (Inr z, s')"
      "mem_complete_push did (fl_push_id fl) (vv_encode ?L ?known) (view (en_storage e)) = (Inr z, view s')"
      "sinv s'"
    using run_storage_op [OF complete_push_refines complete_push_succeeds sv(1)
        good_room_fits [OF assms(1,2)]] .
  have v: "view s' = snd (mem_complete_push did (fl_push_id fl) (vv_encode ?L ?known) (view (en_storage e)))"
    using s'(2) by simp
  let ?e = "e\<lparr>en_in_flight := None, en_server_known_vv := ?known, en_storage := s'\<rparr>"
  let ?e4 = "push_event Pushed (frontier_event (en_last_contiguous_seq ?e) (ingest_seq n ?e))\<lparr>en_state := Idle\<rparr>"
  have "tracks E M log (view s') ?e"
    unfolding v by (rule tracks_congI [OF tracks_complete_push [OF sv(5) assms(3) sv(4), of did ?known]])
      simp_all
  then have ge: "good E M log ?e"
    using assms(1) s'(3) sv by (simp add: engine_good_def)
  have c: "core ?e4 = core ?e" by simp
  have "room 2 ?e" using assms(2) by (simp add: room_def)
  then have "good E M log ?e4" and "room 2 ?e4"
    using engine_good_coreI [OF ge c] room_core [OF c, of 2] by blast+
  then have "good E M log (try_start_push E ?e4)"
    by (rule good_try_start_push)
  then show ?thesis
    using s'(1) sv by (simp add: complete_in_flight_def Let_def)
qed

lemma good_updates_ack:
  assumes "good E M log e" "room 2 e"
  shows "good E M log (on_updates_ack E acks e)"
proof -
  have quiet: "good E M log e'" if "core e' = core e" for e'
    by (rule engine_good_coreI [OF assms(1) that])
  show ?thesis
    using good_complete_in_flight [OF assms]
    by (auto simp: on_updates_ack_def intro!: quiet split: option.splits list.splits)
qed

lemma good_updates_batch:
  assumes "good E M log e" "updates_ok E M log e us"
  shows "good E M log (on_updates_batch E us c e)" "good E M log (on_updates_broadcast E us e)"
proof -
  obtain e1 where e1: "apply_remote_updates E us e = e1" "good E M log e1"
      "unat (en_last_local_seq e1) \<le> unat (en_last_local_seq e) + length us"
    using good_apply_remote_updates [OF assms] by blast
  have rm: "room 2 e1" using assms(2) e1(3) by (auto simp: updates_ok_def room_def)
  let ?e2 = "push_event PulledInitial (e1\<lparr>en_state := Idle\<rparr>)"
  have c: "core ?e2 = core e1" by simp
  have "good E M log (try_start_push E ?e2)"
    by (rule good_try_start_push [OF engine_good_coreI [OF e1(2) c]])
      (use rm room_core [OF c] in simp)
  with e1(2) show "good E M log (on_updates_batch E us c e)"
    using engine_good_coreI [OF assms(1), of "push_error EeBatchDuringBootstrapping e"]
    by (simp add: on_updates_batch_def e1(1) Let_def)
  show "good E M log (on_updates_broadcast E us e)"
    using e1 assms(1) by (simp add: on_updates_broadcast_def)
qed

lemma good_finish_bootstrap:
  assumes "sinv (en_storage e)" "rows_tracked E M log (view (en_storage e)) U e" "room 1 e"
    and "e_st E = St" "en_doc_id e = did"
    and ok: "loro_ok (e_loro E) M" "aead_ok (e_aead E) (e_rng E) (en_dek e)" "can_snapshot E (en_dek e)"
    and "captured M e \<subseteq> present M e"
  shows "good E M log (finish_bootstrap E n e)"
proof -
  let ?L = "e_loro E" and ?m = "view (en_storage e)" and ?known = "vv_encode (e_loro E) (en_server_known_vv e)"
  let ?c = "en_last_local_seq e" and ?e1 = "e\<lparr>en_draws := Suc (en_draws e)\<rparr>"
  have fit: "fits ?m" by (rule rows_room_fits [OF assms(2,3)])
  obtain z s1 where s1: "st_write_server_known_vv St did ?known (en_storage e) = (Inr z, s1)"
      "mem_write_server_known_vv did ?known ?m = (Inr z, view s1)" "sinv s1"
    using run_storage_op [OF write_vv_refines write_vv_succeeds assms(1) fit] .
  have v1: "view s1 = ?m\<lparr>mi_server_known_vv := ?known\<rparr>"
    using s1(2) by (simp add: mem_write_server_known_vv_def)
  have r1: "rows_tracked E M log (view s1) U e" "stored_vv ?L (mi_server_known_vv (view s1)) (en_server_known_vv e)"
    "fits (view s1)"
    using rows_tracked_known [OF assms(2)] v1 vv_encode_nonempty [OF ok(1)] fit
    by (simp_all add: stored_vv_def fits_def)
  obtain b where b: "snapshot_blob ?L (e_aead E) (e_rng E) (en_dek e) (en_draws e) (en_doc e) = Inr b"
    using ok(3) by (auto simp: can_snapshot_def)
  note cut = room_below_63 [OF assms(3)]
  obtain y s2 where s2: "st_write_snapshot St did ?c b s1 = (Inr y, s2)"
      "mem_write_snapshot did ?c b (view s1) = (Inr y, view s2)" "sinv s2"
    using run_storage_op [OF write_snapshot_refines [OF cut] write_snapshot_succeeds [OF cut] s1(3) r1(3)] .
  have v2: "view s2 = snd (mem_write_snapshot did ?c b (view s1))" using s2(2) by simp
  let ?d = "mark_persisted ?L (en_doc e)"
  let ?e2 = "e\<lparr>en_draws := Suc (en_draws e), en_storage := s2, en_doc := ?d, en_wal_rows := 0, en_wal_bytes := 0\<rparr>"
  have lp: "vv_ops M (last_persisted_vv ?d) = present M e"
    using assms(9) by (auto simp: mark_persisted_def vv_merge_ops [OF ok(1)] oplog_vv_ops [OF ok(1)])
  have "tracks E M log (view s2) ?e2"
    unfolding v2 by (rule tracks_congI [OF tracks_write_snapshot [OF r1(1,2) ok(1,2) b lp]])
      (simp_all add: mark_persisted_def)
  then have "good E M log ?e2"
    using s2(3) assms(4,5) ok by (simp add: engine_good_def)
  moreover have "core (finish_bootstrap E n e) = core ?e2"
    using s1(1) b s2(1) assms(4,5) by (simp add: finish_bootstrap_def Let_def)
  ultimately show ?thesis by (rule engine_good_coreI)
qed

text \<open>Before the last row the rows on disk are untouched; the doc runs ahead of them.\<close>

lemma good_chain:
  assumes "sinv (en_storage e)" "rows_tracked E M log (view (en_storage e)) U e" "room 1 e"
    and "e_st E = St" "en_doc_id e = did"
    and "loro_ok (e_loro E) M" "aead_ok (e_aead E) (e_rng E) (en_dek e)" "can_snapshot E (en_dek e)"
    and "captured M e \<subseteq> present M e" "causal M (captured M e)" "en_state e = Bootstrapping"
    and "chain_rows E did bs = Some blobs" "replays M (e_aead E) (en_dek e) (captured M e) blobs T"
  shows "good E M log (fold (handle_server_bytes E) bs e)"
  using assms
proof (induction bs arbitrary: e blobs)
  case Nil
  then show ?case by simp
next
  case (Cons b bs)
  let ?L = "e_loro E" and ?A = "e_aead E"
  obtain n blob c where b: "e_dec E b = Inr (Snapshot did n blob c)" "c \<longleftrightarrow> bs = []"
    and blobs: "if bs = [] then blobs = [blob] else (\<exists>rest. chain_rows E did bs = Some rest \<and> blobs = blob # rest)"
    using Cons.prems(12) by (auto split: sum.splits server_frame.splits if_splits)
  define rest where "rest = tl blobs"
  have bl: "blobs = blob # rest" using blobs by (auto simp: rest_def split: if_splits)
  with Cons.prems(13) obtain W where W: "replays M ?A (en_dek e) (captured M e) [blob] W"
      "replays M ?A (en_dek e) W rest T"
    by (auto split: option.splits)
  from import_blobs_ops [OF Cons.prems(6) W(1) Cons.prems(10) refl Cons.prems(9), of "vv_default ?L"]
  obtain v d' where d': "apply_remote_batch ?L ?A (en_dek e) [blob] (en_doc e) = (Inr v, d')"
    "doc_ops M (inner d') = present M e \<union> W" "vv_ops M (last_persisted_vv d') = W" "causal M W"
    by (auto simp: apply_remote_batch_def)
  let ?e1 = "e\<lparr>en_doc := d', en_server_known_vv := vv_merge ?L (en_server_known_vv e) v\<rparr>"
  have rows: "rows_tracked E M log (view (en_storage ?e1)) U ?e1" "room 1 ?e1"
    using Cons.prems(2,3) by (simp_all add: rows_tracked_def room_def)
  have step: "handle_server_bytes E b e = (if c then finish_bootstrap E n ?e1 else ?e1)"
    using Cons.prems(5,11) b(1) d'(1)
    by (simp add: handle_server_bytes_def handle_server_frame_def on_frame_def on_snapshot_def Let_def)
  show ?case
  proof (cases "bs = []")
    case True
    have "good E M log (finish_bootstrap E n ?e1)"
      by (rule good_finish_bootstrap [OF _ rows]) (use Cons.prems(1-8) d'(2,3) in simp_all)
    with True b(2) step show ?thesis by simp
  next
    case False
    then have "chain_rows E did bs = Some rest" using blobs bl by auto
    then have "good E M log (fold (handle_server_bytes E) bs ?e1)"
      by (intro Cons.IH [OF _ rows]) (use Cons.prems(1-8,11) d'(2-4) W(2) in simp_all)
    with False b(2) step show ?thesis by simp
  qed
qed

lemma quiet_chain:
  assumes "en_state e \<noteq> Bootstrapping" "en_doc_id e = did" "chain_rows E did bs = Some blobs"
  shows "core (fold (handle_server_bytes E) bs e) = core e"
  using assms
proof (induction bs arbitrary: e blobs)
  case (Cons b bs)
  obtain n blob c where b: "e_dec E b = Inr (Snapshot did n blob c)"
    and rest: "bs \<noteq> [] \<Longrightarrow> \<exists>r. chain_rows E did bs = Some r"
    using Cons.prems(3) by (auto split: sum.splits server_frame.splits if_splits)
  obtain ev where step: "handle_server_bytes E b e = push_event ev e"
    using Cons.prems(1,2) b
    by (cases "en_state e = Disconnected")
      (auto simp: handle_server_bytes_def handle_server_frame_def on_frame_def on_snapshot_def)
  have "en_state (push_event ev e) \<noteq> Bootstrapping" "en_doc_id (push_event ev e) = did"
    using Cons.prems(1,2) by (simp_all add: push_event_def)
  with Cons.IH [of "push_event ev e"] rest step show ?case
    by (cases "bs = []") auto
qed simp

lemma good_frame:
  assumes "good E M log e" "room 2 e" "frame_ok E M log e f"
  shows "good E M log (on_frame E f e)"
proof -
  have quiet: "good E M log e'" if "core e' = core e" for e'
    by (rule engine_good_coreI [OF assms(1) that])
  show ?thesis
    using assms(3) good_updates_ack [OF assms(1,2)] good_updates_batch [OF assms(1)]
    by (cases f) (auto simp: on_frame_def intro!: quiet)
qed

lemma local_seq_write_local_snapshot:
  "write_local_snapshot E e = (r, e') \<Longrightarrow> en_last_local_seq e' = en_last_local_seq e"
  by (auto simp: write_local_snapshot_def Let_def split: sum.splits prod.splits)

lemma good_persist:
  assumes "good E M log e" "room 3 e"
  shows "good E M log (snd (persist_engine_state E rows bts e))"
proof -
  obtain r e1 where e1: "capture_local_ops E e = (r, e1)" by (cases "capture_local_ops E e")
  obtain q e2 where e2: "snapshot_if_wal_exceeds E rows bts e1 = (q, e2)"
    by (cases "snapshot_if_wal_exceeds E rows bts e1")
  obtain r' e1' where e1': "capture_local_ops E e1 = (r', e1')" by (cases "capture_local_ops E e1")
  have rm: "room 1 e" using assms(2) by (simp add: room_def)
  note c = good_capture [OF assms(1) rm e1]
  then have g1: "good E M log e1" and rm1: "room 1 e1" "room 2 e1"
    using assms(2) by (auto simp: room_def)
  note c' = good_capture [OF g1 rm1(1) e1']
  have g2: "good E M log e2" using good_fold(1) [OF g1 rm1(2), of rows bts] e2 by simp
  have "en_last_local_seq e2 = en_last_local_seq e1'"
    using e2 by (auto simp: snapshot_if_wal_exceeds_def e1' split: sum.splits if_splits
        dest: local_seq_write_local_snapshot)
  then have "room 1 e2" using c c' assms(2) by (auto simp: room_def)
  from good_notify [OF g2 this] g1 g2 show ?thesis
    by (simp add: persist_engine_state_def e1 e2 split: sum.splits)
qed

text \<open>A boot from the storage of a good engine.\<close>

lemma boot_doc_good:
  assumes "good E M log e" "room 1 e"
    and peer: "peer_ok E peer"
  shows "\<exists>d s'. boot_doc (e_loro E) (e_aead E) St (en_dek e) did peer (en_storage e) =
      (Inr (d, boot_state_meta (mem_boot_state (view (en_storage e)))), s') \<and>
    sinv s' \<and> view s' = view (en_storage e) \<and>
    doc_ops M (inner d) = captured M e \<and> vv_ops M (last_persisted_vv d) = captured M e"
proof -
  let ?L = "e_loro E" and ?A = "e_aead E" and ?m = "view (en_storage e)"
  have ok: "loro_ok ?L M" and sv: "sinv (en_storage e)" and tr: "tracks E M log ?m e"
    using assms(1) by (simp_all add: engine_good_def)
  obtain x s' where s': "st_boot St did (en_storage e) = (Inr x, s')"
      "mem_boot did ?m = (Inr x, view s')" "sinv s'"
    using run_storage_op [OF boot_refines boot_succeeds sv good_room_fits [OF assms(1,2)]] .
  have x: "x = mem_boot_state ?m" "view s' = ?m" using s'(2) by (auto simp: mem_boot_def)
  obtain d0 where d0: "(case peer of Some p \<Rightarrow> doc_empty_with_peer ?L p | None \<Rightarrow> Inr (doc_empty ?L)) = Inr d0"
    "doc_ops M (inner d0) = {}" "vv_ops M (last_persisted_vv d0) = {}"
    using peer new_ops [OF ok] set_peer_ops [OF ok] oplog_vv_ops [OF ok]
    by (cases peer) (auto simp: doc_empty_with_peer_def doc_empty_def doc_empty_inner_def peer_ok_def)
  have rp: "replays M ?A (en_dek e) {} (mem_blobs ?m) (captured M e)"
    using tr by (simp add: tracks_def rows_tracked_def)
  from import_blobs_ops [OF ok rp causal_empty [OF ok] d0(3), of "vv_default ?L"] d0(2)
  obtain v d' where d': "apply_remote_batch ?L ?A (en_dek e) (mem_blobs ?m) d0 = (Inr v, d')"
    "doc_ops M (inner d') = captured M e" "vv_ops M (last_persisted_vv d') = captured M e"
    by (auto simp: apply_remote_batch_def)
  have "\<exists>d. boot_doc ?L ?A St (en_dek e) did peer (en_storage e) =
      (Inr (d, boot_state_meta (mem_boot_state ?m)), s') \<and>
    doc_ops M (inner d) = captured M e \<and> vv_ops M (last_persisted_vv d) = captured M e"
    using s'(1) x(1) d0 d' rp by (auto simp: boot_doc_def)
  then show ?thesis using s'(3) x(2) by blast
qed

lemma good_boot_engine:
  assumes "good E M log e" "room 1 e"
    and peer: "peer_ok E peer"
  shows "\<exists>e' s'. boot_engine E (en_dek e) did peer r (en_storage e) = (Inr e', s') \<and>
    good E M log e' \<and> present M e' = captured M e \<and> captured M e' = captured M e \<and>
    en_server_known_vv e' = en_server_known_vv e \<and> en_in_flight e' = en_in_flight e \<and>
    en_last_local_seq e' = en_last_local_seq e \<and>
    en_wal_rows e' = en_wal_rows e \<and> en_wal_bytes e' = en_wal_bytes e \<and>
    en_last_durable_seq e' = en_last_durable_seq e \<and>
    en_last_contiguous_seq e' = en_last_durable_seq e \<and> en_state e' = Disconnected"
proof -
  let ?L = "e_loro E" and ?m = "view (en_storage e)"
  have ok: "loro_ok ?L M" "aead_ok (e_aead E) (e_rng E) (en_dek e)" "e_st E = St" "en_doc_id e = did"
    and tr: "tracks E M log ?m e"
    using assms(1) by (simp_all add: engine_good_def)
  obtain d s' where d: "boot_doc ?L (e_aead E) St (en_dek e) did peer (en_storage e) =
      (Inr (d, boot_state_meta (mem_boot_state ?m)), s')" "sinv s'" "view s' = ?m"
    "doc_ops M (inner d) = captured M e" "vv_ops M (last_persisted_vv d) = captured M e"
    using boot_doc_good [OF assms] by blast
  let ?meta = "boot_state_meta (mem_boot_state ?m)"
  let ?e0 = "engine_new E d did (en_dek e) (bm_last_acked_server_seq ?meta) s' r"
  let ?e3 = "seed_server_known_vv E (bm_server_known_vv ?meta)
    (seed_wal_stats (bm_wal_rows ?meta) (bm_wal_bytes ?meta)
      (set_last_local_seq (bm_last_local_seq ?meta) ?e0))"
  have kn: "stored_vv ?L (mi_server_known_vv ?m) (en_server_known_vv e)"
    and fl: "stored_push ?L (mi_in_flight ?m) (en_in_flight e)"
    using tr by (simp_all add: tracks_def rows_tracked_def)
  have e3: "?e3 = ?e0\<lparr>en_last_local_seq := next_local_seq ?m, en_wal_rows := of_nat (length (mi_wal ?m)),
      en_wal_bytes := wal_bytes ?m, en_server_known_vv := en_server_known_vv e\<rparr>"
    using kn vv_decode_encode [OF ok(1)]
    by (simp add: seed_server_known_vv_def seed_wal_stats_def set_last_local_seq_def
        boot_state_meta_def mem_boot_state_def stored_vv_def engine_new_def wal_bytes_def
        split: if_splits)
  have "seed_boot E ?meta ?e0 = ?e3\<lparr>en_in_flight := en_in_flight e\<rparr>"
  proof (cases "mi_in_flight ?m")
    case None
    then show ?thesis using fl unfolding seed_boot_def Let_def e3
      by (simp add: stored_push_def boot_state_meta_def mem_boot_state_def e3 engine_new_def)
  next
    case (Some p)
    with fl obtain f where f: "en_in_flight e = Some f" "if_push_id p = fl_push_id f"
        "if_payload p = fl_payload f" "if_to_vv p = vv_encode ?L (fl_to_vv f)"
      by (cases "en_in_flight e") (auto simp: stored_push_def)
    have mp: "bm_in_flight_push ?meta = Some p"
      using Some by (simp add: boot_state_meta_def mem_boot_state_def)
    show ?thesis unfolding seed_boot_def Let_def e3 mp
      by (simp add: seed_in_flight_push_def f vv_decode_encode [OF ok(1)])
  qed
  moreover have "mi_last_acked_server_seq ?m = en_last_durable_seq e" using tr by (simp add: tracks_def rows_tracked_def)
  ultimately obtain e' where e': "boot_engine E (en_dek e) did peer r (en_storage e) = (Inr e', s')"
    "e' = \<lparr>en_doc = d, en_dek = en_dek e, en_doc_id = did, en_storage = s',
      en_server_known_vv = en_server_known_vv e, en_in_flight = en_in_flight e,
      en_last_local_seq = en_last_local_seq e, en_wal_rows = en_wal_rows e,
      en_wal_bytes = en_wal_bytes e, en_state = Disconnected,
      en_last_contiguous_seq = en_last_durable_seq e, en_server_epoch = None,
      en_last_durable_seq = en_last_durable_seq e, en_last_sent_ack = en_last_durable_seq e,
      en_outbox = [], en_events = [], en_draws = r, en_assert_failed = False\<rparr>"
    using d(1) ok(3) e3 tr
    by (simp add: boot_engine_def engine_new_def boot_state_meta_def mem_boot_state_def tracks_def
        rows_tracked_def)
  have "tracks E M log (view s') e'"
    using tr d(3-5) e'(2) by (simp add: tracks_def rows_tracked_def)
  then have "good E M log e'"
    using ok d(2) e'(2) by (simp add: engine_good_def)
  with e' d(4,5) show ?thesis by simp
qed

lemma good_edit:
  assumes "good E M log e" "present M e \<subseteq> doc_ops M d"
  shows "good E M log (edit_doc d e)"
  using assms by (auto simp: engine_good_def edit_doc_def tracks_def rows_tracked_def)

lemma good_run_op:
  assumes "good E M log e" "op_ok E M log x e"
  shows "good E M log (run_op E x e)"
proof -
  have quiet: "good E M log e'" if "core e' = core e" for e'
    by (rule engine_good_coreI [OF assms(1) that])
  have rm: "room 1 e" "room 2 e" if "room 3 e"
    using that by (simp_all add: room_def)
  show ?thesis
  proof (cases x)
    case HCapture
    then show ?thesis
      using good_capture [OF assms(1), of "fst (capture_local_ops E e)" "snd (capture_local_ops E e)"]
        assms(2) rm by simp
  next
    case (HBytes b)
    then show ?thesis
      using assms(2) good_frame [OF assms(1)]
      by (auto simp: handle_server_bytes_def handle_server_frame_def intro!: quiet split: sum.splits)
  next
    case (HChain bs)
    with assms(2) obtain blobs T where ch: "chain_rows E (en_doc_id e) bs = Some blobs"
        "replays M (e_aead E) (en_dek e) (captured M e) blobs T" "can_snapshot E (en_dek e)" "room 2 e"
      by (auto simp: deliverable_def split: option.splits)
    have did: "en_doc_id e = did" using assms(1) by (simp add: engine_good_def)
    show ?thesis
    proof (cases "en_state e = Bootstrapping")
      case True
      have "good E M log (fold (handle_server_bytes E) bs e)"
        by (rule good_chain [where e = e and U = "captured M e" and blobs = blobs and T = T])
          (use assms(1) ch did True in \<open>auto simp: engine_good_def tracks_def room_def\<close>)
      with HChain show ?thesis by simp
    next
      case False
      from quiet_chain [OF False did ch(1) [unfolded did]] HChain show ?thesis
        by (auto intro: quiet)
    qed
  next
    case (HCrash peer)
    then have h: "room 1 e" "peer_ok E peer" using assms(2) rm by simp_all
    have did: "en_doc_id e = did" using assms(1) by (simp add: engine_good_def)
    obtain e1 s1 where e1: "boot_engine E (en_dek e) did peer (en_draws e) (en_storage e) = (Inr e1, s1)"
        "good E M log e1"
      using good_boot_engine [OF assms(1) h] by blast
    with HCrash did show ?thesis by simp
  qed (use assms rm good_fold [OF assms(1)] good_persist [OF assms(1)] good_edit [OF assms(1)]
      good_flush [OF assms(1)] good_notify [OF assms(1)] in \<open>auto intro!: quiet\<close>)
qed

lemma good_run_ops: "good E M log e \<Longrightarrow> ops_ok E M log xs e \<Longrightarrow> good E M log (run_ops E xs e)"
  by (induction xs arbitrary: e) (auto intro: good_run_op)

lemma good_new:
  assumes "sinv s" "view s = mem_new" "e_st E = St" "loro_ok (e_loro E) M"
    and "aead_ok (e_aead E) (e_rng E) k"
  shows "good E M log (engine_new E (doc_empty (e_loro E)) did k 0 s r)"
  using assms new_ops [OF assms(4)] oplog_vv_ops [OF assms(4)] causal_empty [OF assms(4)]
  by (simp add: engine_good_def engine_new_def tracks_def rows_tracked_def mem_new_def mem_inv_def
      log_tracked_def stored_push_def stored_vv_def doc_empty_def doc_empty_inner_def boot_blobs_def
      mem_boot_state_def wal_bytes_def List.map_filter_simps)

text \<open>
  From a fresh storage, through any calls and any number of crashes, a boot finds everything
  the engine had captured, and its cursors.
\<close>

lemma crash_recovery:
  assumes "loro_ok (e_loro E) M" "aead_ok (e_aead E) (e_rng E) k" "e_st E = St"
    and "sinv s" "view s = mem_new"
    and e: "e = run_ops E ops (engine_new E (doc_empty (e_loro E)) did k 0 s r)"
    and "ops_ok E M log ops (engine_new E (doc_empty (e_loro E)) did k 0 s r)"
    and "room 1 e" "peer_ok E peer"
  shows "\<exists>e' s'. boot_engine E (en_dek e) (en_doc_id e) peer r' (en_storage e) = (Inr e', s') \<and>
    present M e' = captured M e \<and>
    (\<not> has_uncaptured_ops (e_loro E) (en_doc e) \<longrightarrow> present M e' = present M e) \<and>
    en_server_known_vv e' = en_server_known_vv e \<and> en_in_flight e' = en_in_flight e \<and>
    en_last_contiguous_seq e' = en_last_durable_seq e"
proof -
  have g: "good E M log e"
    unfolding e by (rule good_run_ops [OF good_new [OF assms(4,5,3,1,2)] assms(7)])
  then have did: "en_doc_id e = did" by (simp add: engine_good_def)
  from good_boot_engine [OF g assms(8,9), of r'] captured_ops [OF assms(1), of "en_doc e"]
  show ?thesis unfolding did by auto
qed

end

end
