(* ===== verification/Engine_States.thy ===== *)
theory Engine_States
  imports Engine_Durability
begin

text \<open>
  The engine's frontiers and its push slot, for an arbitrary storage (its calls may fail at any
  time) and arbitrary frames: the ack sent to the server never passes the durable frontier, which
  never passes the contiguous one; none of them moves back; a push waits in its slot until the
  server acknowledges exactly that push; a dense batch moves the frontier to its last seq.
\<close>

section \<open>Frontiers\<close>

definition seqs where
  "seqs e = (en_last_sent_ack e, en_last_durable_seq e, en_last_contiguous_seq e)"

definition seq_inv :: "('d, 'v, 's) engine \<Rightarrow> bool" where
  "seq_inv e \<longleftrightarrow>
     en_last_sent_ack e \<le> en_last_durable_seq e \<and>
     en_last_durable_seq e \<le> en_last_contiguous_seq e \<and>
     en_last_contiguous_seq e \<noteq> - 1"

definition seqs_le :: "('d, 'v, 's) engine \<Rightarrow> ('d, 'v, 's) engine \<Rightarrow> bool" where
  "seqs_le e e' \<longleftrightarrow>
     en_last_sent_ack e \<le> en_last_sent_ack e' \<and>
     en_last_durable_seq e \<le> en_last_durable_seq e' \<and>
     en_last_contiguous_seq e \<le> en_last_contiguous_seq e'"

definition adv :: "('d, 'v, 's) engine \<Rightarrow> ('d, 'v, 's) engine \<Rightarrow> bool" where
  "adv e e' \<longleftrightarrow> (seq_inv e \<longrightarrow> seq_inv e' \<and> seqs_le e e')"

lemma adv_trans: "adv a b \<Longrightarrow> adv b c \<Longrightarrow> adv a c"
  by (auto simp: adv_def seqs_le_def)

lemma adv_same: "seqs e' = seqs e \<Longrightarrow> adv e e'"
  by (auto simp: adv_def seqs_def seq_inv_def seqs_le_def)

lemma adv_cong: "adv e e1 \<Longrightarrow> seqs e' = seqs e1 \<Longrightarrow> adv e e'"
  using adv_trans adv_same by blast

lemma adv_eq: "e' = e \<Longrightarrow> adv e e'"
  by (simp add: adv_same)

subsection \<open>Steps that leave the frontiers alone\<close>

lemma seqs_update [simp]:
  "seqs (e\<lparr>en_state := st\<rparr>) = seqs e" "seqs (e\<lparr>en_outbox := ob\<rparr>) = seqs e"
  "seqs (e\<lparr>en_events := evs\<rparr>) = seqs e" "seqs (e\<lparr>en_draws := n\<rparr>) = seqs e"
  "seqs (e\<lparr>en_assert_failed := af\<rparr>) = seqs e" "seqs (e\<lparr>en_doc := d\<rparr>) = seqs e"
  "seqs (e\<lparr>en_storage := s\<rparr>) = seqs e" "seqs (e\<lparr>en_server_known_vv := v\<rparr>) = seqs e"
  "seqs (e\<lparr>en_in_flight := fl\<rparr>) = seqs e" "seqs (e\<lparr>en_last_local_seq := l\<rparr>) = seqs e"
  "seqs (e\<lparr>en_wal_rows := w\<rparr>) = seqs e" "seqs (e\<lparr>en_wal_bytes := w\<rparr>) = seqs e"
  "seqs (e\<lparr>en_server_epoch := ep\<rparr>) = seqs e"
  "seqs (push_event ev e) = seqs e" "seqs (go_disconnected e) = seqs e" "seqs (edit_doc x e) = seqs e"
  by (simp_all add: seqs_def push_event_def go_disconnected_def edit_doc_def)

lemma seqs_encodeD: "encode_into_outbox E f e = (r, e') \<Longrightarrow> seqs e' = seqs e"
  by (auto simp: encode_into_outbox_def split: sum.splits)

lemma seqs_send [simp]:
  "seqs (send_or_disconnect E f mk e) = seqs e" "seqs (send_in_flight E fl e) = seqs e"
  by (auto simp: send_or_disconnect_def send_in_flight_def dest: seqs_encodeD
      split: prod.splits sum.splits)

lemma seqs_capture [simp]: "capture_local_ops E e = (r, e') \<Longrightarrow> seqs e' = seqs e"
  by (auto simp: capture_local_ops_def Let_def split: if_splits sum.splits option.splits prod.splits)

lemma seqs_write_local_snapshot [simp]: "write_local_snapshot E e = (r, e') \<Longrightarrow> seqs e' = seqs e"
  by (auto simp: write_local_snapshot_def Let_def split: sum.splits prod.splits)

lemma seqs_snapshot [simp]:
  "snapshot_if_wal_exceeds E rows bts e = (r, e') \<Longrightarrow> seqs e' = seqs e"
  "force_snapshot E e = (r, e') \<Longrightarrow> seqs e' = seqs e"
  by (auto simp: snapshot_if_wal_exceeds_def force_snapshot_def
      dest!: seqs_capture seqs_write_local_snapshot split: if_splits sum.splits prod.splits)

lemma seqs_push [simp]:
  "seqs (start_fresh_push E e) = seqs e" "seqs (try_start_push E e) = seqs e" "seqs (flush E e) = seqs e"
proof -
  show fresh: "seqs (start_fresh_push E e) = seqs e" for e
    by (auto simp: start_fresh_push_def Let_def dest!: seqs_capture
        split: sum.splits prod.splits option.splits)
  show push: "seqs (try_start_push E e) = seqs e" for e
    by (simp add: try_start_push_def fresh split: option.splits)
  show "seqs (flush E e) = seqs e"
    by (simp add: flush_def push split: conn_state.splits)
qed

lemma seqs_transport [simp]:
  "seqs (handle_connected E e) = seqs e" "seqs (handle_disconnected e) = seqs e"
  "seqs (handle_timeout e) = seqs e" "seqs (snd (pop_outbox e)) = seqs e"
  "seqs (snd (pop_event e)) = seqs e" "seqs (on_doc_opened E n e) = seqs e"
  "seqs (on_doc_rejected r e) = seqs e" "seqs (on_doc_closed r e) = seqs e"
  "seqs (on_snapshot_required E e) = seqs e" "seqs (frontier_event p e) = seqs e"
  by (auto simp: handle_connected_def handle_disconnected_def handle_timeout_def pop_outbox_def
      pop_event_def on_doc_opened_def on_doc_rejected_def on_doc_closed_def on_snapshot_required_def
      frontier_event_def split: list.splits)

lemma seqs_snapshot_request [simp]: "seqs (on_snapshot_request E fl base e) = seqs e"
  by (auto simp: on_snapshot_request_def Let_def dest: seqs_encodeD split: sum.splits prod.splits)

lemma seqs_append_remote [simp]: "seqs (append_remote E b u e) = seqs e"
  by (auto simp: append_remote_def split: sum.splits prod.splits)

lemma seqs_fold_append_remote [simp]: "seqs (fold (append_remote E b) us e) = seqs e"
  by (induction us arbitrary: e) simp_all

subsection \<open>Steps that move them\<close>

lemma adv_ingest: "n \<noteq> - 1 \<Longrightarrow> adv e (ingest_seq n e)"
  using less_imp_le [OF u64_less_inc, of "en_last_contiguous_seq e"]
  by (auto simp: adv_def seq_inv_def seqs_le_def ingest_seq_def intro: order_trans)

lemma adv_fold_ingest: "\<forall>n \<in> set ns. n \<noteq> - 1 \<Longrightarrow> adv e (fold ingest_seq ns e)"
proof (induction ns arbitrary: e)
  case (Cons n ns)
  then have "adv e (ingest_seq n e)" by (simp add: adv_ingest)
  from adv_trans [OF this Cons.IH] Cons.prems show ?case by simp
qed (simp add: adv_same)

lemma adv_queue_ack: "adv e (queue_ack_if_advanced E e)"
  by (auto simp: adv_def seq_inv_def seqs_le_def queue_ack_if_advanced_def encode_into_outbox_def
      split: sum.splits)

lemma adv_notify: "adv e (notify_oplog_durable E n e)"
proof (cases "min n (en_last_contiguous_seq e) > en_last_durable_seq e")
  case True
  let ?n = "min n (en_last_contiguous_seq e)"
  obtain r s' where s': "st_write_acked_seq (e_st E) (en_doc_id e) ?n (en_storage e) = (r, s')"
    by (cases "st_write_acked_seq (e_st E) (en_doc_id e) ?n (en_storage e)")
  define e3 where "e3 = (case r of Inl err \<Rightarrow> push_error (EeWriteAckedSeq err)
      (e\<lparr>en_last_durable_seq := ?n, en_storage := s'\<rparr>)
    | Inr _ \<Rightarrow> e\<lparr>en_last_durable_seq := ?n, en_storage := s'\<rparr>)"
  have "seqs e3 = seqs (e\<lparr>en_last_durable_seq := ?n\<rparr>)"
    by (simp add: e3_def seqs_def push_event_def split: sum.splits)
  moreover have "adv e (e\<lparr>en_last_durable_seq := ?n\<rparr>)"
    using True by (auto simp: adv_def seq_inv_def seqs_le_def intro: order_trans less_imp_le)
  ultimately have "adv e e3" by (rule adv_cong [rotated])
  moreover have "notify_oplog_durable E n e = queue_ack_if_advanced E e3"
    using True s' by (simp add: notify_oplog_durable_def Let_def e3_def)
  ultimately show ?thesis using adv_trans adv_queue_ack by metis
next
  case False
  then have "notify_oplog_durable E n e = e" by (auto simp: notify_oplog_durable_def Let_def)
  then show ?thesis by (simp add: adv_same)
qed

lemma adv_apply_remote_updates:
  assumes "\<forall>u \<in> set us. sb_seq u \<noteq> - 1"
  shows "adv e (apply_remote_updates E us e)"
proof -
  have ing: "adv e0 (fold ingest_seq (map sb_seq us) e0)" for e0 :: "('a, 'b, 'c) engine"
    by (rule adv_fold_ingest) (use assms in auto)
  obtain r d' where a: "apply_remote_batch (e_loro E) (e_aead E) (en_dek e) (map sb_blob us) (en_doc e) = (r, d')"
    by fastforce
  show ?thesis
  proof (cases r)
    case (Inl err)
    then show ?thesis by (simp add: apply_remote_updates_def a adv_same)
  next
    case (Inr v)
    let ?e2 = "fold (append_remote E (vv_encode (e_loro E) (vv_merge (e_loro E) (en_server_known_vv e) v))) us
      (e\<lparr>en_doc := d', en_server_known_vv := vv_merge (e_loro E) (en_server_known_vv e) v\<rparr>)"
    have "adv e ?e2" by (rule adv_same) simp
    from adv_trans [OF this ing] have "adv e (fold ingest_seq (map sb_seq us) ?e2)" .
    then have "adv e (frontier_event p (fold ingest_seq (map sb_seq us) ?e2))" for p
      by (rule adv_cong) simp
    with Inr show ?thesis by (simp add: apply_remote_updates_def a Let_def adv_same)
  qed
qed

lemma adv_complete_in_flight:
  assumes "n \<noteq> - 1"
  shows "adv e (complete_in_flight E fl n e)"
proof -
  let ?known = "vv_merge (e_loro E) (en_server_known_vv e) (fl_to_vv fl)"
  obtain r s' where s': "st_complete_push (e_st E) (en_doc_id e) (fl_push_id fl)
      (vv_encode (e_loro E) ?known) (en_storage e) = (r, s')"
    by fastforce
  define e3 where "e3 = (case r of Inl err \<Rightarrow> push_error (EeCompletePush err)
      (e\<lparr>en_server_known_vv := ?known, en_storage := s'\<rparr>)
    | Inr _ \<Rightarrow> e\<lparr>en_server_known_vv := ?known, en_storage := s'\<rparr>)"
  have "adv e e3" by (rule adv_same) (simp add: e3_def split: sum.splits)
  then have "adv e (ingest_seq n e3)" using adv_trans adv_ingest [OF assms] by blast
  moreover have "seqs (complete_in_flight E fl n e) = seqs (ingest_seq n e3)"
    using s' by (simp add: complete_in_flight_def Let_def e3_def)
  ultimately show ?thesis by (rule adv_cong)
qed

lemma adv_finish_bootstrap:
  assumes "n \<noteq> - 1"
  shows "adv e (finish_bootstrap E n e)"
proof -
  have "adv e e'" if "seqs e' = seqs (if n > en_last_contiguous_seq e then e\<lparr>en_last_contiguous_seq := n\<rparr> else e)"
    for e'
    using that assms by (auto simp: adv_def seqs_def seq_inv_def seqs_le_def split: if_splits)
  moreover have "seqs (finish_bootstrap E n e) = seqs e \<or> seqs (finish_bootstrap E n e) =
      seqs (if n > en_last_contiguous_seq e then e\<lparr>en_last_contiguous_seq := n\<rparr> else e)"
    by (auto simp: finish_bootstrap_def Let_def seqs_def [where ?e = "e\<lparr>en_last_contiguous_seq := n\<rparr>"]
      split: sum.splits prod.splits) (auto simp: seqs_def push_event_def)
  ultimately show ?thesis using adv_same by blast
qed

lemma adv_on_snapshot:
  assumes "n \<noteq> - 1"
  shows "adv e (on_snapshot E n b c e)"
proof -
  obtain r d' where a: "apply_remote_batch (e_loro E) (e_aead E) (en_dek e) [b] (en_doc e) = (r, d')"
    by fastforce
  have "adv e (finish_bootstrap E n (e\<lparr>en_doc := d', en_server_known_vv := v\<rparr>))" for v
    using adv_finish_bootstrap [OF assms] adv_same adv_trans seqs_update(6,8) by metis
  then show ?thesis
    by (cases r) (simp_all add: on_snapshot_def a Let_def adv_same)
qed

lemma adv_updates_batch:
  assumes "\<forall>u \<in> set us. sb_seq u \<noteq> - 1"
  shows "adv e (on_updates_batch E us c e)" "adv e (on_updates_broadcast E us e)"
proof -
  note a = adv_apply_remote_updates [OF assms, of e E]
  have "adv e (try_start_push E (push_event PulledInitial ((apply_remote_updates E us e)\<lparr>en_state := Idle\<rparr>)))"
    by (rule adv_cong [OF a]) simp
  with a show "adv e (on_updates_batch E us c e)" "adv e (on_updates_broadcast E us e)"
    by (simp_all add: on_updates_batch_def on_updates_broadcast_def Let_def adv_same)
qed

text \<open>The seqs a frame carries are below the last \<open>u64\<close>; the server's are \<open>i64\<close>s.\<close>

fun frame_seqs_ok :: "server_frame \<Rightarrow> bool" where
  "frame_seqs_ok (UpdatesBatch _ us _) \<longleftrightarrow> (\<forall>u \<in> set us. sb_seq u \<noteq> - 1)"
| "frame_seqs_ok (UpdatesBroadcast _ us) \<longleftrightarrow> (\<forall>u \<in> set us. sb_seq u \<noteq> - 1)"
| "frame_seqs_ok (UpdatesAck _ acks) \<longleftrightarrow> (\<forall>a \<in> set acks. pa_seq a \<noteq> - 1)"
| "frame_seqs_ok (Snapshot _ n _ _) \<longleftrightarrow> n \<noteq> - 1"
| "frame_seqs_ok _ \<longleftrightarrow> True"

lemma adv_updates_ack:
  assumes "\<forall>a \<in> set acks. pa_seq a \<noteq> - 1"
  shows "adv e (on_updates_ack E acks e)"
proof -
  have "adv e (complete_in_flight E fl n (e\<lparr>en_in_flight := None\<rparr>))" if "n \<noteq> - 1" for fl n
    using adv_complete_in_flight [OF that] adv_same adv_trans seqs_update(9) by metis
  with assms show ?thesis
    by (auto simp: on_updates_ack_def adv_same split: option.splits list.splits)
qed

lemma adv_frame: "frame_seqs_ok f \<Longrightarrow> adv e (on_frame E f e)"
  by (cases f) (auto simp: on_frame_def adv_same adv_updates_batch adv_updates_ack adv_on_snapshot)

definition bytes_seqs_ok :: "('d, 'v, 's) env \<Rightarrow> bytes \<Rightarrow> bool" where
  "bytes_seqs_ok E b \<longleftrightarrow> (case e_dec E b of Inl _ \<Rightarrow> True | Inr f \<Rightarrow> frame_seqs_ok f)"

lemma adv_bytes: "bytes_seqs_ok E b \<Longrightarrow> adv e (handle_server_bytes E b e)"
  by (auto simp: handle_server_bytes_def handle_server_frame_def bytes_seqs_ok_def adv_same adv_frame
      split: sum.splits)

lemma adv_fold_bytes: "list_all (bytes_seqs_ok E) bs \<Longrightarrow> adv e (fold (handle_server_bytes E) bs e)"
proof (induction bs arbitrary: e)
  case (Cons b bs)
  then have "adv e (handle_server_bytes E b e)" by (simp add: adv_bytes)
  from adv_trans [OF this Cons.IH] Cons.prems show ?case by simp
qed (simp add: adv_same)

text \<open>A restart starts the frontiers over from the stored cursor, so it is not among these calls.\<close>

fun op_seqs_ok :: "('d, 'v, 's) env \<Rightarrow> 'd host_op \<Rightarrow> bool" where
  "op_seqs_ok E (HBytes b) \<longleftrightarrow> bytes_seqs_ok E b"
| "op_seqs_ok E (HChain bs) \<longleftrightarrow> list_all (bytes_seqs_ok E) bs"
| "op_seqs_ok E (HCrash _) \<longleftrightarrow> False"
| "op_seqs_ok E _ \<longleftrightarrow> True"

lemma adv_persist: "adv e (snd (persist_engine_state E rows bts e))"
proof -
  obtain r e1 where e1: "capture_local_ops E e = (r, e1)" by fastforce
  obtain q e2 where e2: "snapshot_if_wal_exceeds E rows bts e1 = (q, e2)" by fastforce
  have "seqs e1 = seqs e" "seqs e2 = seqs e"
    using seqs_capture [OF e1] seqs_snapshot(1) [OF e2] by simp_all
  then have a: "adv e e1" "adv e e2" by (simp_all add: adv_same)
  have "adv e (notify_oplog_durable E n e2)" for n
    by (rule adv_trans [OF a(2) adv_notify])
  with a show ?thesis
    by (simp add: persist_engine_state_def e1 e2 split: sum.splits)
qed

lemma adv_run_op: "op_seqs_ok E x \<Longrightarrow> adv e (run_op E x e)"
proof (cases x)
  case HCapture
  then show ?thesis using seqs_capture [OF prod.collapse [symmetric], of E e] by (simp add: adv_same)
next
  case (HFold rows bts)
  then show ?thesis using seqs_snapshot(1) [OF prod.collapse [symmetric], of E rows bts e] by (simp add: adv_same)
next
  case HForce
  then show ?thesis using seqs_snapshot(2) [OF prod.collapse [symmetric], of E e] by (simp add: adv_same)
qed (simp_all add: adv_same adv_bytes adv_fold_bytes adv_notify adv_persist)

lemma adv_run_ops: "list_all (op_seqs_ok E) xs \<Longrightarrow> adv e (run_ops E xs e)"
proof (induction xs arbitrary: e)
  case (Cons x xs)
  then have "adv e (run_op E x e)" by (simp add: adv_run_op)
  from adv_trans [OF this Cons.IH] Cons.prems show ?case by simp
qed (simp add: adv_same)

section \<open>Dense batches\<close>

text \<open>
  The seqs the server sends after \<open>c\<close> are \<open>c + 1, c + 2, \<dots>\<close>: the frontier ends at the last one
  and the contiguity assertion does not fire.
\<close>

fun dense_from :: "u64 \<Rightarrow> u64 list \<Rightarrow> bool" where
  "dense_from c [] \<longleftrightarrow> True"
| "dense_from c (n # ns) \<longleftrightarrow> n = c + 1 \<and> dense_from n ns"

lemma fold_ingest_dense:
  "dense_from (en_last_contiguous_seq e) ns \<Longrightarrow>
     fold ingest_seq ns e = e\<lparr>en_last_contiguous_seq := last (en_last_contiguous_seq e # ns)\<rparr>"
proof (induction ns arbitrary: e)
  case (Cons n ns)
  have "ingest_seq n e = e\<lparr>en_last_contiguous_seq := n\<rparr>"
    using Cons.prems by (simp add: ingest_seq_def)
  with Cons.IH [of "e\<lparr>en_last_contiguous_seq := n\<rparr>"] Cons.prems show ?case by (cases ns) auto
qed simp

lemma ingest_old: "n \<le> en_last_contiguous_seq e \<Longrightarrow> n \<noteq> en_last_contiguous_seq e + 1 \<Longrightarrow> ingest_seq n e = e"
  by (simp add: ingest_seq_def)

lemma ingest_gap:
  "en_last_contiguous_seq e + 1 < n \<Longrightarrow> en_last_contiguous_seq e \<noteq> - 1 \<Longrightarrow>
     ingest_seq n e = e\<lparr>en_assert_failed := True\<rparr>"
  using u64_less_inc [of "en_last_contiguous_seq e"] by (auto simp: ingest_seq_def)

section \<open>The push slot\<close>

definition push_inv :: "('d, 'v, 's) engine \<Rightarrow> bool" where
  "push_inv e \<longleftrightarrow> (en_state e = Pushing \<or> en_state e = PushingDirty \<longrightarrow> en_in_flight e \<noteq> None)"

definition keeps_slot :: "('d, 'v, 's) engine \<Rightarrow> ('d, 'v, 's) engine \<Rightarrow> bool" where
  "keeps_slot e e' \<longleftrightarrow>
     (en_in_flight e \<noteq> None \<longrightarrow> en_in_flight e' = en_in_flight e) \<and> (push_inv e \<longrightarrow> push_inv e')"

lemma keeps_slot_trans: "keeps_slot a b \<Longrightarrow> keeps_slot b c \<Longrightarrow> keeps_slot a c"
  by (auto simp: keeps_slot_def)

lemma keeps_slot_refl: "keeps_slot e e"
  by (simp add: keeps_slot_def)

lemma keeps_slotI:
  "en_in_flight e' = en_in_flight e \<Longrightarrow>
   en_state e' = en_state e \<or> (en_state e' \<noteq> Pushing \<and> en_state e' \<noteq> PushingDirty) \<Longrightarrow> keeps_slot e e'"
  by (auto simp: keeps_slot_def push_inv_def)

subsection \<open>Steps that leave the slot and the state alone\<close>

definition slot where
  "slot e = (en_state e, en_in_flight e)"

lemma keeps_slot_same: "slot e' = slot e \<Longrightarrow> keeps_slot e e'"
  by (auto simp: slot_def intro: keeps_slotI)

lemma slot_update [simp]:
  "slot (e\<lparr>en_outbox := ob\<rparr>) = slot e" "slot (e\<lparr>en_events := evs\<rparr>) = slot e"
  "slot (e\<lparr>en_draws := n\<rparr>) = slot e" "slot (e\<lparr>en_assert_failed := af\<rparr>) = slot e"
  "slot (e\<lparr>en_doc := d\<rparr>) = slot e" "slot (e\<lparr>en_storage := s\<rparr>) = slot e"
  "slot (e\<lparr>en_server_known_vv := v\<rparr>) = slot e" "slot (e\<lparr>en_last_local_seq := l\<rparr>) = slot e"
  "slot (e\<lparr>en_wal_rows := w\<rparr>) = slot e" "slot (e\<lparr>en_wal_bytes := w\<rparr>) = slot e"
  "slot (e\<lparr>en_last_contiguous_seq := c\<rparr>) = slot e" "slot (e\<lparr>en_last_durable_seq := c\<rparr>) = slot e"
  "slot (e\<lparr>en_last_sent_ack := c\<rparr>) = slot e"
  "slot (push_event ev e) = slot e" "slot (edit_doc x e) = slot e"
  by (simp_all add: slot_def push_event_def edit_doc_def)

lemma slot_encodeD: "encode_into_outbox E f e = (r, e') \<Longrightarrow> slot e' = slot e"
  by (auto simp: encode_into_outbox_def split: sum.splits)

lemma slot_captureD: "capture_local_ops E e = (r, e') \<Longrightarrow> slot e' = slot e"
  by (auto simp: capture_local_ops_def Let_def split: if_splits sum.splits option.splits prod.splits)

lemma slot_write_local_snapshotD: "write_local_snapshot E e = (r, e') \<Longrightarrow> slot e' = slot e"
  by (auto simp: write_local_snapshot_def Let_def split: sum.splits prod.splits)

lemma slot_snapshotD:
  "snapshot_if_wal_exceeds E rows bts e = (r, e') \<Longrightarrow> slot e' = slot e"
  "force_snapshot E e = (r, e') \<Longrightarrow> slot e' = slot e"
  by (auto simp: snapshot_if_wal_exceeds_def force_snapshot_def
      dest!: slot_captureD slot_write_local_snapshotD split: if_splits sum.splits prod.splits)

lemma slot_quiet [simp]:
  "slot (queue_ack_if_advanced E e) = slot e" "slot (ingest_seq n e) = slot e"
  "slot (frontier_event p e) = slot e" "slot (append_remote E b u e) = slot e"
  "slot (handle_timeout e) = slot e" "slot (snd (pop_outbox e)) = slot e"
  "slot (snd (pop_event e)) = slot e" "slot (on_snapshot_request E fl base e) = slot e"
  by (auto simp: queue_ack_if_advanced_def ingest_seq_def frontier_event_def append_remote_def
      handle_timeout_def pop_outbox_def pop_event_def on_snapshot_request_def Let_def
      dest: slot_encodeD split: sum.splits prod.splits list.splits)

lemma slot_folds [simp]:
  "slot (fold ingest_seq ns e) = slot e" "slot (fold (append_remote E b) us e) = slot e"
  by (induction ns arbitrary: e, simp_all) (induction us arbitrary: e, simp_all)

lemma slot_notify [simp]: "slot (notify_oplog_durable E n e) = slot e"
  by (auto simp: notify_oplog_durable_def Let_def split: prod.splits sum.splits)

lemma slot_apply_remote_updates [simp]: "slot (apply_remote_updates E us e) = slot e"
  by (auto simp: apply_remote_updates_def Let_def split: prod.splits sum.splits)

lemma slot_persist: "slot (snd (persist_engine_state E rows bts e)) = slot e"
  by (auto simp: persist_engine_state_def dest!: slot_captureD slot_snapshotD
      split: prod.splits sum.splits)

subsection \<open>Steps that change the state\<close>

lemma keeps_slot_down: "slot e1 = slot e \<Longrightarrow> keeps_slot e (go_disconnected e1)"
  by (rule keeps_slotI) (auto simp: go_disconnected_def push_event_def slot_def)

lemma keeps_slot_send:
  assumes "en_in_flight e1 = en_in_flight e" "en_state e1 \<noteq> Pushing" "en_state e1 \<noteq> PushingDirty"
  shows "keeps_slot e (send_or_disconnect E f mk e1)"
  using assms
  by (auto simp: send_or_disconnect_def encode_into_outbox_def go_disconnected_def push_event_def
      intro!: keeps_slotI split: sum.splits)

lemma send_in_flight_slot:
  "slot (send_in_flight E fl e) = slot e \<or> slot (send_in_flight E fl e) = (Pushing, en_in_flight e)"
  by (auto simp: send_in_flight_def encode_into_outbox_def slot_def push_event_def split: sum.splits)

lemma keeps_slot_start_fresh:
  assumes "en_in_flight e = None"
  shows "push_inv e \<longrightarrow> push_inv (start_fresh_push E e)"
proof -
  obtain r e1 where e1: "capture_local_ops E e = (r, e1)" by fastforce
  note sl = slot_captureD [OF e1]
  have "push_inv (send_in_flight E fl (e1\<lparr>en_draws := n, en_storage := s', en_in_flight := Some fl\<rparr>))"
    for fl n s'
    using send_in_flight_slot [of E fl "e1\<lparr>en_draws := n, en_storage := s', en_in_flight := Some fl\<rparr>"]
    by (auto simp: push_inv_def slot_def)
  then show ?thesis
    using sl by (auto simp: start_fresh_push_def e1 Let_def push_inv_def slot_def push_event_def
        split: sum.splits prod.splits option.splits)
qed

lemma keeps_slot_try_start: "keeps_slot e (try_start_push E e)"
proof (cases "en_in_flight e")
  case None
  then show ?thesis
    using keeps_slot_start_fresh [OF None] by (auto simp: keeps_slot_def try_start_push_def)
next
  case (Some fl)
  then show ?thesis
    using send_in_flight_slot [of E fl e]
    by (auto simp: keeps_slot_def try_start_push_def push_inv_def slot_def)
qed

lemma keeps_slot_flush: "keeps_slot e (flush E e)"
proof (cases "en_state e = Pushing")
  case True
  then show ?thesis by (auto simp: flush_def keeps_slot_def push_inv_def)
next
  case False
  then show ?thesis
    by (cases "en_state e") (simp_all add: flush_def keeps_slot_refl keeps_slot_try_start)
qed

lemma keeps_slot_idle_push:
  assumes "en_in_flight e1 = en_in_flight e" "en_state e1 = Idle"
  shows "keeps_slot e (try_start_push E e1)"
  by (rule keeps_slot_trans [OF keeps_slotI keeps_slot_try_start]) (use assms in simp_all)

lemma keeps_slot_finish: "keeps_slot e (finish_bootstrap E n e)"
  by (auto simp: finish_bootstrap_def Let_def push_event_def
      intro!: keeps_slot_down keeps_slot_send split: prod.splits sum.splits)

lemma push_inv_idle: "en_state e = Idle \<Longrightarrow> push_inv (try_start_push E e)"
  using keeps_slot_try_start [of e E] by (auto simp: keeps_slot_def push_inv_def)

lemma keeps_slot_frame:
  assumes "\<And>d acks. f \<noteq> UpdatesAck d acks"
  shows "keeps_slot e (on_frame E f e)"
proof -
  have batch: "keeps_slot e (on_updates_batch E us c e)" for us c
  proof -
    let ?e1 = "apply_remote_updates E us e"
    have sl: "slot ?e1 = slot e" by simp
    then have "keeps_slot e (try_start_push E (push_event PulledInitial (?e1\<lparr>en_state := Idle\<rparr>)))"
      by (intro keeps_slot_idle_push) (simp_all add: push_event_def slot_def)
    with keeps_slot_same [OF sl] show ?thesis
      by (simp add: on_updates_batch_def Let_def keeps_slot_same)
  qed
  have snap: "keeps_slot e (on_snapshot E n b c e)" for n b c
  proof -
    have "keeps_slot e (finish_bootstrap E n (e\<lparr>en_doc := d', en_server_known_vv := v\<rparr>))" for d' v
      by (rule keeps_slot_trans [OF keeps_slot_same keeps_slot_finish]) simp
    then show ?thesis
      by (simp add: on_snapshot_def Let_def keeps_slot_same keeps_slot_down split: prod.splits sum.splits)
  qed
  show ?thesis
    using assms
    by (cases f) (auto simp: on_frame_def on_doc_opened_def on_doc_rejected_def on_doc_closed_def
        on_snapshot_required_def on_updates_broadcast_def batch snap
        keeps_slot_same keeps_slot_down keeps_slot_send)
qed

lemma push_inv_updates_ack:
  assumes "push_inv e"
  shows "push_inv (on_updates_ack E acks e)"
proof -
  have "push_inv (complete_in_flight E fl n e')" for fl n e'
    by (auto simp: complete_in_flight_def Let_def push_inv_idle split: prod.splits)
  with assms show ?thesis
    by (auto simp: on_updates_ack_def push_inv_def push_event_def split: option.splits list.splits)
qed

text \<open>An acknowledgement of exactly the push in the slot.\<close>

definition acks_push :: "uuid \<Rightarrow> server_frame \<Rightarrow> bool" where
  "acks_push pid f \<longleftrightarrow> (case f of UpdatesAck _ [a] \<Rightarrow> pa_push_id a = pid | _ \<Rightarrow> False)"

lemma in_flight_updates_ack:
  assumes "en_in_flight e = Some fl" "\<not> acks_push (fl_push_id fl) (UpdatesAck d acks)"
  shows "en_in_flight (on_updates_ack E acks e) = Some fl"
  using assms
  by (auto simp: on_updates_ack_def acks_push_def push_event_def split: list.splits)

fun op_acks :: "('d, 'v, 's) env \<Rightarrow> uuid \<Rightarrow> 'd host_op \<Rightarrow> bool" where
  "op_acks E pid (HBytes b) \<longleftrightarrow> (case e_dec E b of Inl _ \<Rightarrow> False | Inr f \<Rightarrow> acks_push pid f)"
| "op_acks E pid (HChain bs) \<longleftrightarrow>
     list_ex (\<lambda>b. case e_dec E b of Inl _ \<Rightarrow> False | Inr f \<Rightarrow> acks_push pid f) bs"
| "op_acks E pid _ \<longleftrightarrow> False"

fun op_no_crash :: "'d host_op \<Rightarrow> bool" where
  "op_no_crash (HCrash _) \<longleftrightarrow> False"
| "op_no_crash _ \<longleftrightarrow> True"

lemma slot_bytes:
  assumes "en_in_flight e = Some fl" "\<not> op_acks E (fl_push_id fl) (HBytes b)"
  shows "en_in_flight (handle_server_bytes E b e) = Some fl"
proof (cases "e_dec E b")
  case (Inl err)
  with assms show ?thesis
    by (simp add: handle_server_bytes_def handle_server_frame_def push_event_def)
next
  case (Inr f)
  have "en_in_flight (on_frame E f e) = Some fl"
  proof (cases "\<exists>d acks. f = UpdatesAck d acks")
    case True
    with assms Inr show ?thesis
      by (auto simp: on_frame_def push_event_def in_flight_updates_ack)
  next
    case False
    with keeps_slot_frame [of f e E] assms(1) show ?thesis by (auto simp: keeps_slot_def)
  qed
  with Inr assms(1) show ?thesis
    by (simp add: handle_server_bytes_def handle_server_frame_def push_event_def)
qed

lemma push_inv_bytes: "push_inv e \<Longrightarrow> push_inv (handle_server_bytes E b e)"
proof -
  assume i: "push_inv e"
  have fr: "push_inv (on_frame E f e)" for f
  proof (cases "\<exists>d acks. f = UpdatesAck d acks")
    case True
    with i push_inv_updates_ack show ?thesis
      by (auto simp: on_frame_def) (simp add: push_inv_def push_event_def)
  next
    case False
    with keeps_slot_frame [of f e E] i show ?thesis by (auto simp: keeps_slot_def)
  qed
  have ev: "push_inv (push_event v e)" for v using i by (simp add: push_inv_def push_event_def)
  show ?thesis
    by (simp add: handle_server_bytes_def handle_server_frame_def fr ev split: sum.splits)
qed

lemma slot_fold_bytes:
  "en_in_flight e = Some fl \<Longrightarrow> \<not> op_acks E (fl_push_id fl) (HChain bs) \<Longrightarrow>
     en_in_flight (fold (handle_server_bytes E) bs e) = Some fl"
proof (induction bs arbitrary: e)
  case (Cons b bs)
  then have "en_in_flight (handle_server_bytes E b e) = Some fl" by (intro slot_bytes) auto
  with Cons show ?case by simp
qed simp

lemma push_inv_fold_bytes: "push_inv e \<Longrightarrow> push_inv (fold (handle_server_bytes E) bs e)"
  by (induction bs arbitrary: e) (simp_all add: push_inv_bytes)

lemma keeps_slot_op:
  assumes "op_no_crash x" "\<And>b. x \<noteq> HBytes b" "\<And>bs. x \<noteq> HChain bs"
  shows "keeps_slot e (run_op E x e)"
proof (cases x)
  case HCapture
  then show ?thesis using slot_captureD [OF prod.collapse [symmetric], of E e] by (simp add: keeps_slot_same)
next
  case (HFold rows bts)
  then show ?thesis
    using slot_snapshotD(1) [OF prod.collapse [symmetric], of E rows bts e] by (simp add: keeps_slot_same)
next
  case HForce
  then show ?thesis using slot_snapshotD(2) [OF prod.collapse [symmetric], of E e] by (simp add: keeps_slot_same)
next
  case HConnected
  then show ?thesis
    by (simp add: handle_connected_def keeps_slot_same keeps_slot_send push_event_def [of "ConnStateChanged True"])
next
  case HDisconnected
  then show ?thesis by (simp add: handle_disconnected_def keeps_slot_refl keeps_slot_down)
qed (use assms in \<open>simp_all add: keeps_slot_same keeps_slot_flush slot_persist\<close>)

lemma push_inv_run_op: "op_no_crash x \<Longrightarrow> push_inv e \<Longrightarrow> push_inv (run_op E x e)"
  using keeps_slot_op [of x e E] push_inv_bytes [of e E] push_inv_fold_bytes [of e E]
  by (cases x) (auto simp: keeps_slot_def)

lemma slot_run_op:
  assumes "en_in_flight e = Some fl" "op_no_crash x" "\<not> op_acks E (fl_push_id fl) x"
  shows "en_in_flight (run_op E x e) = Some fl"
  using assms keeps_slot_op [of x e E] slot_bytes [OF assms(1), of E] slot_fold_bytes [OF assms(1), of E]
  by (cases x) (auto simp: keeps_slot_def)

lemma slot_run_ops:
  "en_in_flight e = Some fl \<Longrightarrow> list_all (\<lambda>x. op_no_crash x \<and> \<not> op_acks E (fl_push_id fl) x) xs \<Longrightarrow>
     en_in_flight (run_ops E xs e) = Some fl"
  by (induction xs arbitrary: e) (auto simp: slot_run_op)

lemma push_inv_run_ops: "push_inv e \<Longrightarrow> list_all op_no_crash xs \<Longrightarrow> push_inv (run_ops E xs e)"
  by (induction xs arbitrary: e) (auto simp: push_inv_run_op)

section \<open>A small instance\<close>

text \<open>An environment over the instances of the laws, with a codec for a few frames of doc 7.\<close>

definition demo_update :: encrypted_blob where
  "demo_update = \<lparr>nonce = replicate 24 9, ciphertext = [5]\<rparr>"

fun demo_enc :: "client_frame \<Rightarrow> string + bytes" where
  "demo_enc (OpenDoc _) = Inr [1]"
| "demo_enc (PullUpdates _ n) = Inr [2, ucast n]"
| "demo_enc (Ack _ n) = Inr [3, ucast n]"
| "demo_enc (PushUpdates _ _) = Inr [4]"
| "demo_enc (PushSnapshot _ _ _ _ _ _) = Inr [5]"
| "demo_enc (PullSnapshot _) = Inr [6]"

definition demo_dec :: "bytes \<Rightarrow> string + server_frame" where
  "demo_dec b =
     (if b = [1] then Inr (DocOpened 7 0)
      else if b = [2] then Inr (UpdatesBatch 7 [\<lparr>sb_seq = 1, sb_blob = demo_update\<rparr>] True)
      else if b = [3] then Inr (UpdatesBatch 7 [] True)
      else Inl ''unexpected'')"

definition demo_env :: "'s storage_api \<Rightarrow> (bytes, bytes, 's) env" where
  "demo_env St = \<lparr>e_loro = list_loro, e_aead = id_aead, e_rng = count_rng, e_st = St,
     e_enc = demo_enc, e_dec = demo_dec\<rparr>"

lemma demo_env_simps [simp]:
  "e_loro (demo_env St) = list_loro" "e_aead (demo_env St) = id_aead"
  "e_rng (demo_env St) = count_rng" "e_st (demo_env St) = St"
  "e_enc (demo_env St) = demo_enc" "e_dec (demo_env St) = demo_dec"
  by (simp_all add: demo_env_def)

abbreviation demo_mem_engine :: "(bytes, bytes, mem_inner) engine" where
  "demo_mem_engine \<equiv> engine_new (demo_env mem_api) (doc_empty list_loro) 7 [] 0 mem_new 0"

section \<open>Properties\<close>





text \<open>
  An engine is in a pushing state only while a push is in its slot, from a fresh engine and
  through any calls on any storage.
\<close>

theorem pushing_has_push:
  assumes "list_all op_no_crash ops"
    and "e = run_ops E ops (engine_new E d did k n s r)"
    and "en_state e = Pushing \<or> en_state e = PushingDirty"
  shows "\<exists>fl. en_in_flight e = Some fl"
proof -
  have "push_inv (engine_new E d did k n s r)" by (simp add: push_inv_def engine_new_def)
  from push_inv_run_ops [OF this assms(1), of E] assms(2,3) show ?thesis
    by (auto simp: push_inv_def)
qed

theorem pushing_has_push_witness:
  "\<exists>fl. en_in_flight (run_ops (demo_env mem_api) [HEdit [1], HConnected, HBytes [1], HBytes [3]]
      demo_mem_engine) = Some fl"
proof -
  have "en_state (run_ops (demo_env mem_api) [HEdit [1], HConnected, HBytes [1], HBytes [3]]
      demo_mem_engine) = Pushing"
    by code_simp
  then show ?thesis
    by (intro pushing_has_push [OF _ refl]) simp_all
qed

text \<open>
  A batch whose seqs continue the contiguous frontier, and whose blobs import, moves the
  frontier to its last seq; the contiguity assertion does not fire.
\<close>

theorem dense_batch_moves_frontier:
  assumes "us \<noteq> []" and "dense_from (en_last_contiguous_seq e) (map sb_seq us)"
    and "apply_remote_batch (e_loro E) (e_aead E) (en_dek e) (map sb_blob us) (en_doc e) = (Inr v, d')"
    and "e' = apply_remote_updates E us e"
  shows "en_last_contiguous_seq e' = sb_seq (last us) \<and> en_assert_failed e' = en_assert_failed e"
proof -
  have fields: "en_last_contiguous_seq (fold (append_remote E b) us x) = en_last_contiguous_seq x"
    "en_assert_failed (fold (append_remote E b) us x) = en_assert_failed x" for b us x
    by (induction us arbitrary: x; simp add: append_remote_def push_event_def split: prod.splits sum.splits)+
  let ?k = "vv_merge (e_loro E) (en_server_known_vv e) v"
  let ?e2 = "fold (append_remote E (vv_encode (e_loro E) ?k)) us (e\<lparr>en_doc := d', en_server_known_vv := ?k\<rparr>)"
  have "fold ingest_seq (map sb_seq us) ?e2 = ?e2\<lparr>en_last_contiguous_seq := sb_seq (last us)\<rparr>"
    using fold_ingest_dense [of ?e2 "map sb_seq us"] assms(1,2) by (simp add: fields last_map)
  with assms show ?thesis
    by (simp add: apply_remote_updates_def Let_def frontier_event_def push_event_def fields)
qed

theorem dense_batch_moves_frontier_witness:
  "en_last_contiguous_seq (apply_remote_updates (demo_env mem_api)
     [\<lparr>sb_seq = 1, sb_blob = demo_update\<rparr>, \<lparr>sb_seq = 2, sb_blob = demo_update\<rparr>] demo_mem_engine) = 2"
proof -
  let ?us = "[\<lparr>sb_seq = 1, sb_blob = demo_update\<rparr>, \<lparr>sb_seq = 2, sb_blob = demo_update\<rparr>]"
  have "apply_remote_batch list_loro id_aead [] (map sb_blob ?us) (doc_empty list_loro)
      = (Inr [5], \<lparr>inner = [5], last_persisted_vv = [5]\<rparr>)"
    by code_simp
  then show ?thesis
    using dense_batch_moves_frontier [of ?us demo_mem_engine "demo_env mem_api" "[5]"
        "\<lparr>inner = [5], last_persisted_vv = [5]\<rparr>" "apply_remote_updates (demo_env mem_api) ?us demo_mem_engine"]
    by (simp add: engine_new_def)
qed

end
