(* ===== verification/Engine_Snapshots.thy ===== *)
theory Engine_Snapshots
  imports Engine_States
begin

text \<open>
  What an engine uploads for a \<open>SnapshotRequest\<close>: exactly the operations the server already has
  (its server-known vector), so a snapshot never publishes local operations that were not pushed,
  and a full snapshot followed by a delta rebuilds that vector's operations.
\<close>

definition known_ok :: "('d, 'v, 's) env \<Rightarrow> ('d, 'v, 'o) loro_sem \<Rightarrow> ('d, 'v, 's) engine \<Rightarrow> bool" where
  "known_ok E M e \<longleftrightarrow>
     vv_ops M (en_server_known_vv e) \<subseteq> present M e \<and> causal M (vv_ops M (en_server_known_vv e))"

lemma open_seal_vv:
  assumes "loro_ok (e_loro E) M" "aead_ok (e_aead E) (e_rng E) k" "seal_vv E k r v = Inr b"
  shows "open_vv E k b = Inr v"
proof -
  obtain ct n where s: "dek_seal (e_aead E) (e_rng E) k r (vv_encode (e_loro E) v) = Inr (ct, n)"
    "b = \<lparr>nonce = n, ciphertext = ct\<rparr>"
    using assms(3) by (auto simp: seal_vv_def split: sum.splits)
  then have "dek_open (e_aead E) k ct n = Inr (vv_encode (e_loro E) v)"
    using assms(2) by (auto simp: dek_seal_def dek_open_def Let_def aead_ok_def split: option.splits)
  with s(2) show ?thesis by (simp add: open_vv_def vv_decode_encode [OF assms(1)])
qed

lemma full_snapshot_ops:
  assumes "loro_ok (e_loro E) M" "aead_ok (e_aead E) (e_rng E) (en_dek e)" "known_ok E M e"
    and "produce_snapshot E None e = Inr b"
  obtains pt where "plain (e_aead E) (en_dek e) b = Some pt" "blob_valid M pt" "blob_deps M pt = {}"
    "blob_ops M pt = vv_ops M (en_server_known_vv e)"
proof -
  let ?L = "e_loro E" and ?d = "inner (en_doc e)" and ?v = "en_server_known_vv e"
  obtain f pt where f: "loro_fork_at ?L ?d (loro_vv_to_frontiers ?L ?d ?v) = Inr f"
      "loro_export_snapshot ?L f = Inr pt"
      "seal_blob (e_aead E) (e_rng E) (en_dek e) (en_draws e) pt = Inr b"
    using assms(4) by (auto simp: produce_snapshot_def snapshot_blob_at_def split: sum.splits)
  have "doc_ops M f = vv_ops M ?v"
    using fork_at_ops [OF assms(1) f(1)] assms(3) by (simp add: known_ok_def)
  then show thesis
    using that plain_seal_blob [OF assms(2) f(3)] export_snapshot_ops [OF assms(1) f(2)] by simp
qed

lemma delta_snapshot_ops:
  assumes "loro_ok (e_loro E) M" "aead_ok (e_aead E) (e_rng E) (en_dek e)" "known_ok E M e"
    and "produce_snapshot E (Some sb) e = Inr b" "open_vv E (en_dek e) (base_vv sb) = Inr u"
  obtains pt where "plain (e_aead E) (en_dek e) b = Some pt" "blob_valid M pt"
    "blob_deps M pt \<subseteq> vv_ops M u" "vv_ops M u \<subseteq> vv_ops M (en_server_known_vv e)"
    "blob_ops M pt = vv_ops M (en_server_known_vv e) - vv_ops M u"
proof -
  let ?L = "e_loro E" and ?d = "inner (en_doc e)" and ?v = "en_server_known_vv e"
  obtain pt where p: "vv_includes ?L ?v u"
      "loro_export_range ?L ?d (vv_diff_forward ?L u ?v) = Inr pt"
      "seal_blob (e_aead E) (e_rng E) (en_dek e) (en_draws e) pt = Inr b"
    using assms(4,5)
    by (auto simp: produce_snapshot_def delta_blob_between_def split: sum.splits if_splits)
  have sub: "vv_ops M u \<subseteq> vv_ops M ?v" using p(1) vv_includes_ops [OF assms(1)] by simp
  show thesis
    using that plain_seal_blob [OF assms(2) p(3)] export_range_ops [OF assms(1) p(2) sub] sub assms(3)
    by (simp add: known_ok_def)
qed

text \<open>
  C15: the blob an engine uploads for a \<open>SnapshotRequest\<close> opens to a Loro export of exactly the
  operations of its server-known vector (less those of the base it was asked to extend); no
  operation the server does not have yet is in it.
\<close>

theorem snapshot_excludes_unsent_ops:
  assumes "loro_ok (e_loro E) M" and "aead_ok (e_aead E) (e_rng E) (en_dek e)" and "known_ok E M e"
    and "produce_snapshot E base e = Inr b"
  shows "\<exists>pt from. plain (e_aead E) (en_dek e) b = Some pt \<and> blob_valid M pt \<and>
    blob_ops M pt = vv_ops M (en_server_known_vv e) - from \<and>
    blob_deps M pt \<subseteq> from \<and> from \<subseteq> vv_ops M (en_server_known_vv e) \<and>
    (case base of None \<Rightarrow> from = {}
     | Some sb \<Rightarrow> (\<exists>u. open_vv E (en_dek e) (base_vv sb) = Inr u \<and> from = vv_ops M u))"
proof (cases base)
  case None
  obtain pt where "plain (e_aead E) (en_dek e) b = Some pt" "blob_valid M pt" "blob_deps M pt = {}"
    "blob_ops M pt = vv_ops M (en_server_known_vv e)"
    using full_snapshot_ops [OF assms(1-3) assms(4) [unfolded None]] .
  with None show ?thesis by (intro exI [of _ pt] exI [of _ "{}"]) simp
next
  case (Some sb)
  then obtain u where u: "open_vv E (en_dek e) (base_vv sb) = Inr u"
    using assms(4) by (auto simp: produce_snapshot_def split: sum.splits)
  obtain pt where "plain (e_aead E) (en_dek e) b = Some pt" "blob_valid M pt"
    "blob_deps M pt \<subseteq> vv_ops M u" "vv_ops M u \<subseteq> vv_ops M (en_server_known_vv e)"
    "blob_ops M pt = vv_ops M (en_server_known_vv e) - vv_ops M u"
    using delta_snapshot_ops [OF assms(1-3) assms(4) [unfolded Some] u] .
  with Some u show ?thesis by (intro exI [of _ pt] exI [of _ "vv_ops M u"]) simp
qed

abbreviation demo_doc_engine :: "bytes \<Rightarrow> bytes \<Rightarrow> (bytes, bytes, mem_inner) engine" where
  "demo_doc_engine ops known \<equiv>
     demo_mem_engine\<lparr>en_doc := \<lparr>inner = ops, last_persisted_vv = ops\<rparr>, en_server_known_vv := known\<rparr>"

lemma demo_known_ok: "set known \<subseteq> set ops \<Longrightarrow> known_ok (demo_env St) list_sem (demo_doc_engine ops known)"
  by (simp add: known_ok_def list_sem_def)

theorem snapshot_excludes_unsent_ops_witness:
  "\<exists>pt. plain id_aead [] \<lparr>nonce = replicate 24 0, ciphertext = [1, 2]\<rparr> = Some pt \<and> set pt = {1, 2}"
proof -
  let ?e = "demo_doc_engine [1, 2, 3] [1, 2]" and ?b = "\<lparr>nonce = replicate 24 0, ciphertext = [1, 2]\<rparr>"
  have "produce_snapshot (demo_env mem_api) None ?e = Inr ?b" by code_simp
  from snapshot_excludes_unsent_ops [of "demo_env mem_api" list_sem ?e, OF _ _ demo_known_ok this]
  show ?thesis
    by (auto simp: list_loro_ok id_aead_ok) (auto simp: list_sem_def engine_new_def)
qed

text \<open>
  C16: the base vector travels sealed, and a full snapshot of one engine followed by another
  engine's delta from that base rebuilds, from nothing, exactly the operations the second engine
  knows the server has.
\<close>

theorem snapshot_chain_rebuilds:
  assumes "loro_ok (e_loro E) M" and "aead_ok (e_aead E) (e_rng E) k"
    and "known_ok E M e1" and "known_ok E M e2" and "en_dek e1 = k" and "en_dek e2 = k"
    and "produce_snapshot E None e1 = Inr b1"
    and "seal_vv E k r (en_server_known_vv e1) = Inr up_to_vv"
    and "produce_snapshot E (Some \<lparr>base_seq = n, base_vv = up_to_vv\<rparr>) e2 = Inr b2"
  shows "replays M (e_aead E) k {} [b1, b2] (vv_ops M (en_server_known_vv e2))"
proof -
  have u: "open_vv E k up_to_vv = Inr (en_server_known_vv e1)"
    by (rule open_seal_vv [OF assms(1,2,8)])
  obtain p1 where p1: "plain (e_aead E) k b1 = Some p1" "blob_valid M p1" "blob_deps M p1 = {}"
    "blob_ops M p1 = vv_ops M (en_server_known_vv e1)"
    using full_snapshot_ops [OF assms(1) _ assms(3,7)] assms(2,5) by auto
  obtain p2 where p2: "plain (e_aead E) k b2 = Some p2" "blob_valid M p2"
    "blob_deps M p2 \<subseteq> vv_ops M (en_server_known_vv e1)"
    "vv_ops M (en_server_known_vv e1) \<subseteq> vv_ops M (en_server_known_vv e2)"
    "blob_ops M p2 = vv_ops M (en_server_known_vv e2) - vv_ops M (en_server_known_vv e1)"
    using delta_snapshot_ops [OF assms(1) _ assms(4,9)] assms(2,6) u by auto
  from p1 p2 show ?thesis by auto
qed

theorem snapshot_chain_rebuilds_witness:
  "replays list_sem id_aead [] {}
     [\<lparr>nonce = replicate 24 0, ciphertext = [1, 2]\<rparr>, \<lparr>nonce = replicate 24 0, ciphertext = [4]\<rparr>] {1, 2, 4}"
proof -
  let ?e1 = "demo_doc_engine [1, 2, 3] [1, 2]" and ?e2 = "demo_doc_engine [1, 2, 4, 6] [1, 2, 4]"
  let ?E = "demo_env mem_api" and ?u = "\<lparr>nonce = replicate 24 1, ciphertext = [0, 1, 2]\<rparr>"
  have "produce_snapshot ?E None ?e1 = Inr \<lparr>nonce = replicate 24 0, ciphertext = [1, 2]\<rparr>"
    "seal_vv ?E [] 1 (en_server_known_vv ?e1) = Inr ?u"
    "produce_snapshot ?E (Some \<lparr>base_seq = 2, base_vv = ?u\<rparr>) ?e2 =
      Inr \<lparr>nonce = replicate 24 0, ciphertext = [4]\<rparr>"
    by code_simp+
  from snapshot_chain_rebuilds [of ?E list_sem "[]" ?e1 ?e2, OF _ _ demo_known_ok demo_known_ok _ _ this]
  have "replays list_sem id_aead [] {}
      [\<lparr>nonce = replicate 24 0, ciphertext = [1, 2]\<rparr>, \<lparr>nonce = replicate 24 0, ciphertext = [4]\<rparr>]
      (vv_ops list_sem [1, 2, 4])"
    by (simp add: list_loro_ok id_aead_ok engine_new_def del: replays.simps)
  moreover have "vv_ops list_sem [1, 2, 4] = {1, 2, 4}" by (simp add: list_sem_def)
  ultimately show ?thesis by metis
qed

end
