(* ===== verification/Client_Recovery.thy ===== *)
theory Client_Recovery
  imports Sqlite_Storage Engine_Snapshots
begin

text \<open>
  The engine on the sqlite storage: crash recovery when no statement fails, and what a failed
  statement does to it.
\<close>

lemma sq_empty_fresh: "sq_inv did sq_empty" "no_faults sq_empty" "sq_view did sq_empty = mem_new"
  by (simp_all add: sq_inv_def no_faults_def sq_empty_def doc_wal_def sq_view_def
      max_local_seq_of_def sql_max_def mem_new_def)


definition demo_ops :: "bytes host_op list" where
  "demo_ops = [HEdit [1, 2], HConnected, HBytes [1], HBytes [2], HEdit [1, 2, 5, 3]]"

abbreviation demo_sql_engine :: "(bytes, bytes, sq_db) engine" where
  "demo_sql_engine \<equiv> engine_new (demo_env sq_api) (doc_empty list_loro) 7 [] 0 sq_empty 0"

lemma demo_deliverable: "deliverable (demo_env St) list_sem e [demo_update]"
  by (simp add: deliverable_def plain_def dek_open_def demo_update_def id_aead_def list_sem_def
      AEAD_NONCE_LEN_def)

lemma demo_ops_ok: "ops_ok (demo_env sq_api) list_sem (\<lambda>_. demo_update) demo_ops demo_sql_engine"
proof -
  let ?E = "demo_env sq_api"
  let ?e1 = "run_op ?E (HEdit [1, 2]) demo_sql_engine"
  let ?e2 = "run_op ?E HConnected ?e1"
  let ?e3 = "run_op ?E (HBytes [1]) ?e2"
  let ?e4 = "run_op ?E (HBytes [2]) ?e3"
  have r: "en_last_local_seq ?e1 = 0" "en_last_local_seq ?e2 = 0" "en_last_local_seq ?e3 = 0"
    by code_simp+
  have p: "inner (en_doc ?e4) = [1, 2, 5]" "inner (en_doc demo_sql_engine) = []"
    by code_simp+
  have s: "doc_ops list_sem = set" by (simp add: list_sem_def)
  show ?thesis
    using r p unfolding demo_ops_def
    by (simp add: demo_dec_def updates_ok_def demo_deliverable s room_def del: run_op.simps)
qed


section \<open>A failed WAL append\<close>


end
