(* ===== verification/Text.thy ===== *)
theory Text
  imports Prelude
begin

text \<open>
  Rust strings as the source uses them: a \<open>str\<close> is its list of Unicode scalar values, with its
  UTF-8 bytes, its UTF-16 length, \<open>trim\<close>, \<open>split_once\<close>, \<open>split\<close>, \<open>join\<close> and \<open>strip_prefix\<close>.
  Comparing two strings compares their bytes, which for UTF-8 is the order of the scalars.
\<close>

type_synonym scalar = nat
type_synonym str = "scalar list"

definition lit :: "string \<Rightarrow> str" where
  "lit = map of_char"

section \<open>Sizes\<close>

definition USIZE_MAX :: nat where
  "USIZE_MAX = 2 ^ 64 - 1"

definition checked_add :: "nat \<Rightarrow> nat \<Rightarrow> nat option" where
  "checked_add a b = (if a + b \<le> USIZE_MAX then Some (a + b) else None)"

section \<open>Encodings\<close>

definition utf8_char :: "scalar \<Rightarrow> nat list" where
  "utf8_char c =
     (if c < 0x80 then [c]
      else if c < 0x800 then [0xC0 + c div 64, 0x80 + c mod 64]
      else if c < 0x10000 then [0xE0 + c div 4096, 0x80 + c div 64 mod 64, 0x80 + c mod 64]
      else [0xF0 + c div 262144, 0x80 + c div 4096 mod 64, 0x80 + c div 64 mod 64, 0x80 + c mod 64])"

definition utf8 :: "str \<Rightarrow> nat list" where
  "utf8 s = concat (map utf8_char s)"

text \<open>The UTF-16 code units of a scalar: one, or a surrogate pair.\<close>

definition utf16_char :: "scalar \<Rightarrow> nat list" where
  "utf16_char c =
     (if c < 0x10000 then [c]
      else [0xD800 + (c - 0x10000) div 1024, 0xDC00 + (c - 0x10000) mod 1024])"

definition utf16 :: "str \<Rightarrow> nat list" where
  "utf16 s = concat (map utf16_char s)"

definition len_utf16 :: "scalar \<Rightarrow> nat" where
  "len_utf16 c = (if c < 0x10000 then 1 else 2)"

definition is_scalar :: "nat \<Rightarrow> bool" where
  "is_scalar c \<longleftrightarrow> c < 0xD800 \<or> (0xE000 \<le> c \<and> c < 0x110000)"

section \<open>Operations\<close>

text \<open>Characters with the Unicode property \<open>White_Space\<close>.\<close>

definition is_whitespace :: "scalar \<Rightarrow> bool" where
  "is_whitespace c \<longleftrightarrow>
     (0x9 \<le> c \<and> c \<le> 0xD) \<or> c = 0x20 \<or> c = 0x85 \<or> c = 0xA0 \<or> c = 0x1680 \<or>
     (0x2000 \<le> c \<and> c \<le> 0x200A) \<or> c = 0x2028 \<or> c = 0x2029 \<or> c = 0x202F \<or> c = 0x205F \<or> c = 0x3000"

definition trim :: "str \<Rightarrow> str" where
  "trim s = rev (dropWhile is_whitespace (rev (dropWhile is_whitespace s)))"

definition split_once :: "scalar \<Rightarrow> str \<Rightarrow> (str \<times> str) option" where
  "split_once sep s =
     (case dropWhile (\<lambda>c. c \<noteq> sep) s of
        [] \<Rightarrow> None
      | _ # rest \<Rightarrow> Some (takeWhile (\<lambda>c. c \<noteq> sep) s, rest))"

text \<open>\<open>split\<close> by a character: always at least one piece.\<close>

fun split_on :: "scalar \<Rightarrow> str \<Rightarrow> str list" where
  "split_on sep [] = [[]]"
| "split_on sep (c # s) =
     (if c = sep then [] # split_on sep s
      else case split_on sep s of [] \<Rightarrow> [[c]] | p # ps \<Rightarrow> (c # p) # ps)"

fun join :: "str \<Rightarrow> str list \<Rightarrow> str" where
  "join sep [] = []"
| "join sep [s] = s"
| "join sep (s # ss) = s @ sep @ join sep ss"

definition strip_prefix :: "str \<Rightarrow> str \<Rightarrow> str option" where
  "strip_prefix p s = (if take (length p) s = p then Some (drop (length p) s) else None)"

section \<open>Facts\<close>

lemma split_once_append [simp]:
  assumes "sep \<notin> set a"
  shows "split_once sep (a @ sep # b) = Some (a, b)"
proof -
  have "dropWhile (\<lambda>c. c \<noteq> sep) (a @ sep # b) = sep # b" "takeWhile (\<lambda>c. c \<noteq> sep) (a @ sep # b) = a"
    using assms by (induction a) auto
  then show ?thesis by (simp add: split_once_def)
qed

lemma split_once_None: "sep \<notin> set s \<Longrightarrow> split_once sep s = None"
  unfolding split_once_def by (metis (mono_tags, lifting) dropWhile_eq_Nil_conv list.case(1))

lemma split_once_Some:
  assumes "split_once sep s = Some (a, b)"
  shows "s = a @ sep # b \<and> sep \<notin> set a"
proof -
  from assms obtain x where d: "dropWhile (\<lambda>c. c \<noteq> sep) s = x # b" and a: "a = takeWhile (\<lambda>c. c \<noteq> sep) s"
    by (auto simp: split_once_def split: list.splits)
  have "x = sep" using hd_dropWhile [of "\<lambda>c. c \<noteq> sep" s] d by simp
  then have "s = a @ sep # b" using takeWhile_dropWhile_id [of "\<lambda>c. c \<noteq> sep" s] a d by simp
  moreover have "sep \<notin> set a" unfolding a by (auto dest: set_takeWhileD)
  ultimately show ?thesis by simp
qed

lemma split_on_free: "sep \<notin> set s \<Longrightarrow> split_on sep s = [s]"
  by (induction s) auto

lemma split_on_append:
  assumes "sep \<notin> set s"
  shows "split_on sep (s @ sep # t) = s # split_on sep t"
  using assms by (induction s) auto

lemma split_on_join:
  assumes "ss \<noteq> []" and "\<forall>s \<in> set ss. sep \<notin> set s"
  shows "split_on sep (join [sep] ss) = ss"
  using assms by (induction "[sep]" ss rule: join.induct) (simp_all add: split_on_free split_on_append)

lemma strip_prefix_append [simp]: "strip_prefix p (p @ s) = Some s"
  by (simp add: strip_prefix_def)

lemma dropWhile_prefix: "dropWhile p (rev (dropWhile p (rev (dropWhile p s)))) = rev (dropWhile p (rev (dropWhile p s)))"
proof -
  define t where "t = dropWhile p s"
  have "t = rev (dropWhile p (rev t)) @ rev (takeWhile p (rev t))"
    by (metis rev_append rev_rev_ident takeWhile_dropWhile_id)
  moreover have "t = [] \<or> \<not> p (hd t)" unfolding t_def by (metis hd_dropWhile)
  ultimately have "rev (dropWhile p (rev t)) = [] \<or> \<not> p (hd (rev (dropWhile p (rev t))))"
    by (metis append_is_Nil_conv hd_append2)
  moreover have "u = [] \<or> \<not> p (hd u) \<Longrightarrow> dropWhile p u = u" for u by (cases u) auto
  ultimately show ?thesis unfolding t_def [symmetric] by blast
qed

lemma trim_trim: "trim (trim s) = trim s"
  unfolding trim_def dropWhile_prefix by simp

lemma trim_id:
  assumes "s \<noteq> []" "\<not> is_whitespace (hd s)" "\<not> is_whitespace (last s)"
  shows "trim s = s"
proof -
  have "dropWhile is_whitespace s = s" "dropWhile is_whitespace (rev s) = rev s"
    using assms by (simp_all add: dropWhile_eq_self_iff hd_rev)
  then show ?thesis by (simp add: trim_def)
qed

lemma trim_last:
  assumes "trim s = s" "s \<noteq> []"
  shows "\<not> is_whitespace (last s)"
proof -
  let ?d = "dropWhile is_whitespace (rev (dropWhile is_whitespace s))"
  have s: "s = rev ?d" using assms(1) by (simp add: trim_def)
  then have "?d \<noteq> []" using assms(2) by (metis rev.simps(1))
  then have "\<not> is_whitespace (hd ?d)" by (rule hd_dropWhile)
  moreover have "last s = hd ?d" using s by (metis last_rev)
  ultimately show ?thesis by simp
qed

lemma length_utf16_char: "length (utf16_char c) = len_utf16 c"
  by (simp add: utf16_char_def len_utf16_def)

lemma length_utf16: "length (utf16 s) = sum_list (map len_utf16 s)"
  by (induction s) (simp_all add: utf16_def length_utf16_char)

lemma utf16_append [simp]: "utf16 (s @ t) = utf16 s @ utf16 t" "utf16 [] = []" "utf16 (c # s) = utf16_char c @ utf16 s"
  by (simp_all add: utf16_def)

end
