(* ===== verification/Server_Queries.thy ===== *)
theory Server_Queries
  imports Protocol Text
begin

text \<open>
  \<open>server/src/sync/queries.rs\<close>: the server's update stream, snapshot chain and device frontiers,
  with the tables of \<open>server/migrations/001_init.sql\<close> it reads and writes. Integer columns are
  \<open>int\<close>; the casts between \<open>u64\<close> and \<open>i64\<close> are \<open>as_i64\<close> and \<open>as_u64\<close>. A query returns its
  result and the tables it leaves, or the constraint it violates, in which case its transaction
  leaves the tables as they were. Every table of the schema is here, since the account and invite
  queries share them; the timestamps no query reads (\<open>created_at\<close> of docs, accounts, updates and
  snapshots) are left out.
\<close>

section \<open>Tables\<close>

record update_row =
  u_doc :: uuid
  u_seq :: int
  u_epoch :: int
  u_device :: uuid
  u_push :: uuid
  u_blob :: encrypted_blob

record snap_row =
  s_id :: int
  s_doc :: uuid
  s_up_to :: int
  s_floor :: int
  s_epoch :: int
  s_from :: "int option"
  s_vv :: encrypted_blob
  s_blob :: encrypted_blob

record account_row =
  a_id :: uuid
  a_email :: str
  a_password_hash :: bytes
  a_password_salt :: bytes
  a_kdf_m_kib :: int
  a_kdf_t :: int
  a_kdf_p :: int
  a_primary_doc_id :: uuid
  a_recovery_salt :: "bytes option"
  a_recovery_auth_hash :: "bytes option"

record member_row =
  m_doc :: uuid
  m_account :: uuid
  m_role :: string
  m_wrapped_dek :: bytes
  m_wrapped_dek_nonce :: bytes
  m_recovery_wrapped_dek :: "bytes option"
  m_recovery_wrapped_dek_nonce :: "bytes option"
  m_added_at :: int
  m_removed_at :: "int option"

record invite_row =
  i_id :: bytes
  i_doc :: uuid
  i_issued_by :: uuid
  i_wrapped_dek :: bytes
  i_wrapped_dek_nonce :: bytes
  i_created_at :: int
  i_expires_at :: int
  i_consumed_at :: "int option"
  i_consumed_by :: "uuid option"

record recovery_row =
  rs_token_hash :: bytes
  rs_account :: uuid
  rs_expires_at :: int
  rs_consumed_at :: "int option"

record device_row =
  d_id :: uuid
  d_account :: uuid
  d_name :: str
  d_kind :: str
  d_token_hash :: bytes
  d_last_seen_at :: int
  d_last_seen_ip :: "str option"
  d_created_at :: int

record server_db =
  db_docs :: "uuid list"
  db_accounts :: "account_row list"
  db_members :: "member_row list"
  db_invites :: "invite_row list"
  db_recovery :: "recovery_row list"
  db_devices :: "device_row list"
  db_frontiers :: "uuid \<times> uuid \<rightharpoonup> int" \<comment> \<open>device, doc\<close>
  db_sequences :: "uuid \<rightharpoonup> int \<times> int" \<comment> \<open>\<open>next_seq\<close>, \<open>epoch\<close>\<close>
  db_updates :: "update_row list"
  db_snapshots :: "snap_row list"
  db_snapshot_rowid :: int \<comment> \<open>the AUTOINCREMENT counter\<close>

text \<open>
  What a query fails with: a violated constraint, with the columns SQLite names for a uniqueness
  one, a single-row query without a row, an update of an unexpected number of rows, or a column
  that does not convert.
\<close>

datatype db_error =
    DbForeignKey
  | DbUnique string
  | DbCheck
  | DbNoRows
  | DbChangedRows nat
  | DbConversion

section \<open>The update stream\<close>

definition MAX_UPDATES_PER_BATCH :: nat where
  "MAX_UPDATES_PER_BATCH = 500"

definition MAX_BYTES_PER_BATCH :: nat where
  "MAX_BYTES_PER_BATCH = 256 * 1024"

record inserted_updates =
  iu_acks :: "push_ack list"
  iu_fresh :: "stored_blob list"

text \<open>\<open>INSERT INTO doc_sequences ... ON CONFLICT ... RETURNING next_seq - 1, epoch\<close>\<close>

definition reserve_seq :: "uuid \<Rightarrow> server_db \<Rightarrow> db_error + ((int \<times> int) \<times> server_db)" where
  "reserve_seq doc db =
     (if doc \<notin> set (db_docs db) then Inl DbForeignKey
      else
        let (next_seq, epoch) =
              (case db_sequences db doc of None \<Rightarrow> (2, 0) | Some (n, ep) \<Rightarrow> (n + 1, ep))
        in Inr ((next_seq - 1, epoch), db\<lparr>db_sequences := (db_sequences db)(doc \<mapsto> (next_seq, epoch))\<rparr>))"

definition insert_update_row :: "update_row \<Rightarrow> server_db \<Rightarrow> db_error + server_db" where
  "insert_update_row row db =
     (if u_doc row \<notin> set (db_docs db) then Inl DbForeignKey
      else if \<exists>r \<in> set (db_updates db). u_doc r = u_doc row \<and>
                (u_seq r = u_seq row \<or> (u_device r = u_device row \<and> u_push r = u_push row))
      then Inl (DbUnique ''updates'')
      else Inr (db\<lparr>db_updates := db_updates db @ [row]\<rparr>))"

definition find_push :: "uuid \<Rightarrow> uuid \<Rightarrow> uuid \<Rightarrow> server_db \<Rightarrow> update_row option" where
  "find_push doc device push db =
     find (\<lambda>r. u_doc r = doc \<and> u_device r = device \<and> u_push r = push) (db_updates db)"

fun insert_loop ::
  "uuid \<Rightarrow> uuid \<Rightarrow> push_blob list \<Rightarrow> inserted_updates \<Rightarrow> server_db
     \<Rightarrow> db_error + (inserted_updates \<times> server_db)" where
  "insert_loop doc device [] acc db = Inr (acc, db)"
| "insert_loop doc device (p # ps) acc db =
     (case find_push doc device (pb_push_id p) db of
        Some r \<Rightarrow>
          insert_loop doc device ps
            (acc\<lparr>iu_acks := iu_acks acc @ [\<lparr>pa_push_id = pb_push_id p, pa_seq = as_u64 (u_seq r)\<rparr>]\<rparr>) db
      | None \<Rightarrow>
          (case reserve_seq doc db of
             Inl err \<Rightarrow> Inl err
           | Inr ((seq, epoch), db1) \<Rightarrow>
               (case insert_update_row
                       \<lparr>u_doc = doc, u_seq = seq, u_epoch = epoch, u_device = device,
                        u_push = pb_push_id p, u_blob = pb_blob p\<rparr> db1 of
                  Inl err \<Rightarrow> Inl err
                | Inr db2 \<Rightarrow>
                    insert_loop doc device ps
                      \<lparr>iu_acks = iu_acks acc @ [\<lparr>pa_push_id = pb_push_id p, pa_seq = as_u64 seq\<rparr>],
                       iu_fresh = iu_fresh acc @ [\<lparr>sb_seq = as_u64 seq, sb_blob = pb_blob p\<rparr>]\<rparr>
                      db2)))"

definition insert_updates ::
  "uuid \<Rightarrow> uuid \<Rightarrow> push_blob list \<Rightarrow> server_db \<Rightarrow> db_error + (inserted_updates \<times> server_db)" where
  "insert_updates doc device blobs db =
     (if blobs = [] then Inr (\<lparr>iu_acks = [], iu_fresh = []\<rparr>, db)
      else insert_loop doc device blobs \<lparr>iu_acks = [], iu_fresh = []\<rparr> db)"

definition stored_of :: "update_row \<Rightarrow> stored_blob" where
  "stored_of r = \<lparr>sb_seq = as_u64 (u_seq r), sb_blob = u_blob r\<rparr>"

definition select_updates :: "uuid \<Rightarrow> u64 \<Rightarrow> server_db \<Rightarrow> update_row list" where
  "select_updates doc since_seq db =
     sort_key u_seq (filter (\<lambda>r. u_doc r = doc \<and> u_seq r > as_i64 since_seq) (db_updates db))"

definition row_bytes :: "update_row \<Rightarrow> nat" where
  "row_bytes r = length (ciphertext (u_blob r)) + length (nonce (u_blob r))"

record fetched_batch =
  fb_updates :: "stored_blob list"
  fb_has_more :: bool

fun batch_loop :: "stored_blob list \<Rightarrow> nat \<Rightarrow> update_row list \<Rightarrow> fetched_batch" where
  "batch_loop updates bts [] = \<lparr>fb_updates = updates, fb_has_more = False\<rparr>"
| "batch_loop updates bts (r # rs) =
     (if length updates \<ge> MAX_UPDATES_PER_BATCH then \<lparr>fb_updates = updates, fb_has_more = True\<rparr>
      else if updates \<noteq> [] \<and> bts + row_bytes r > MAX_BYTES_PER_BATCH
      then \<lparr>fb_updates = updates, fb_has_more = True\<rparr>
      else batch_loop (updates @ [stored_of r]) (bts + row_bytes r) rs)"

definition fetch_updates_batch :: "uuid \<Rightarrow> u64 \<Rightarrow> server_db \<Rightarrow> fetched_batch" where
  "fetch_updates_batch doc since_seq db =
     batch_loop [] 0 (take (MAX_UPDATES_PER_BATCH + 1) (select_updates doc since_seq db))"

definition latest_doc_seq :: "uuid \<Rightarrow> server_db \<Rightarrow> u64" where
  "latest_doc_seq doc db =
     (case rev (sort_key u_seq (filter (\<lambda>r. u_doc r = doc) (db_updates db))) of
        [] \<Rightarrow> as_u64 0
      | r # _ \<Rightarrow> as_u64 (u_seq r))"

section \<open>Frontiers\<close>

definition advance_last_acked_seq ::
  "uuid \<Rightarrow> uuid \<Rightarrow> u64 \<Rightarrow> server_db \<Rightarrow> db_error + server_db" where
  "advance_last_acked_seq device doc last_acked db =
     (if device \<notin> d_id ` set (db_devices db) \<or> doc \<notin> set (db_docs db) then Inl DbForeignKey
      else case db_frontiers db (device, doc) of
             None \<Rightarrow> Inr (db\<lparr>db_frontiers := (db_frontiers db)((device, doc) \<mapsto> as_i64 last_acked)\<rparr>)
           | Some old \<Rightarrow>
               Inr (if as_i64 last_acked > old
                    then db\<lparr>db_frontiers := (db_frontiers db)((device, doc) \<mapsto> as_i64 last_acked)\<rparr>
                    else db))"

definition get_last_acked_seq :: "uuid \<Rightarrow> uuid \<Rightarrow> server_db \<Rightarrow> u64" where
  "get_last_acked_seq device doc db =
     as_u64 (case db_frontiers db (device, doc) of None \<Rightarrow> 0 | Some n \<Rightarrow> n)"

definition is_member :: "uuid \<Rightarrow> uuid \<Rightarrow> server_db \<Rightarrow> bool" where
  "is_member doc account db \<longleftrightarrow>
     length (filter (\<lambda>m. m_doc m = doc \<and> m_account m = account \<and> m_removed_at m = None)
               (db_members db)) > 0"

definition horizon_values :: "uuid \<Rightarrow> uuid \<Rightarrow> u64 \<Rightarrow> server_db \<Rightarrow> int list" where
  "horizon_values doc override_device override_value db =
     concat (map (\<lambda>m. map (\<lambda>d. if d_id d = override_device then as_i64 override_value
                            else case db_frontiers db (d_id d, doc) of None \<Rightarrow> 0 | Some n \<Rightarrow> n)
                       (filter (\<lambda>d. d_account d = m_account m) (db_devices db)))
              (filter (\<lambda>m. m_doc m = doc \<and> m_removed_at m = None) (db_members db)))"

definition doc_horizon :: "uuid \<Rightarrow> uuid \<Rightarrow> u64 \<Rightarrow> server_db \<Rightarrow> u64" where
  "doc_horizon doc override_device override_value db =
     (case horizon_values doc override_device override_value db of
        [] \<Rightarrow> as_u64 0
      | v # vs \<Rightarrow> as_u64 (fold min vs v))"

section \<open>Snapshots\<close>

definition doc_epoch :: "uuid \<Rightarrow> server_db \<Rightarrow> u64" where
  "doc_epoch doc db = as_u64 (case db_sequences db doc of None \<Rightarrow> 0 | Some (_, ep) \<Rightarrow> ep)"

definition snapshots_of :: "uuid \<Rightarrow> server_db \<Rightarrow> snap_row list" where
  "snapshots_of doc db = sort_key s_id (filter (\<lambda>s. s_doc s = doc) (db_snapshots db))"

text \<open>\<open>ORDER BY id DESC LIMIT 1\<close>\<close>

definition latest_row :: "uuid \<Rightarrow> server_db \<Rightarrow> snap_row option" where
  "latest_row doc db = (case rev (snapshots_of doc db) of [] \<Rightarrow> None | s # _ \<Rightarrow> Some s)"

definition read_latest_up_to_seq :: "uuid \<Rightarrow> server_db \<Rightarrow> int option" where
  "read_latest_up_to_seq doc db = map_option s_up_to (latest_row doc db)"

datatype insert_snapshot_result = Inserted u64 | ChainMismatch "u64 option"

definition insert_snapshot ::
  "uuid \<Rightarrow> u64 \<Rightarrow> u64 \<Rightarrow> u64 option \<Rightarrow> encrypted_blob \<Rightarrow> encrypted_blob \<Rightarrow> server_db
     \<Rightarrow> db_error + (insert_snapshot_result \<times> server_db)" where
  "insert_snapshot doc up_to_seq compaction_floor_seq from_seq up_to_vv blob db =
     (let latest = read_latest_up_to_seq doc db
      in if (case from_seq of None \<Rightarrow> False
             | Some from \<Rightarrow> latest \<noteq> Some (as_i64 from) \<or> up_to_seq < from)
         then Inr (ChainMismatch (map_option as_u64 latest), db)
         else if doc \<notin> set (db_docs db) then Inl DbForeignKey
         else
           let rowid = db_snapshot_rowid db + 1;
               row = \<lparr>s_id = rowid, s_doc = doc, s_up_to = as_i64 up_to_seq,
                      s_floor = as_i64 compaction_floor_seq,
                      s_epoch = (case db_sequences db doc of None \<Rightarrow> 0 | Some (_, ep) \<Rightarrow> ep),
                      s_from = map_option as_i64 from_seq, s_vv = up_to_vv, s_blob = blob\<rparr>
           in Inr (Inserted (as_u64 rowid),
                   db\<lparr>db_snapshots := db_snapshots db @ [row], db_snapshot_rowid := rowid\<rparr>))"

record latest_snapshot_meta =
  lm_up_to_seq :: u64
  lm_compaction_floor_seq :: u64
  lm_epoch :: u64
  lm_from_seq :: "u64 option"
  lm_up_to_vv :: encrypted_blob

definition latest_snapshot_meta :: "uuid \<Rightarrow> server_db \<Rightarrow> latest_snapshot_meta option" where
  "latest_snapshot_meta doc db =
     map_option (\<lambda>s. \<lparr>lm_up_to_seq = as_u64 (s_up_to s), lm_compaction_floor_seq = as_u64 (s_floor s),
        lm_epoch = as_u64 (s_epoch s), lm_from_seq = map_option as_u64 (s_from s),
        lm_up_to_vv = s_vv s\<rparr>) (latest_row doc db)"

definition latest_snapshot :: "uuid \<Rightarrow> server_db \<Rightarrow> (latest_snapshot_meta \<times> encrypted_blob) option" where
  "latest_snapshot doc db =
     (case latest_row doc db of
        None \<Rightarrow> None
      | Some s \<Rightarrow> (case latest_snapshot_meta doc db of None \<Rightarrow> None | Some m \<Rightarrow> Some (m, s_blob s)))"

record chain =
  ch_up_to_seq :: u64
  ch_compaction_floor_seq :: u64
  ch_epoch :: u64
  ch_rows :: "(u64 \<times> encrypted_blob) list"

fun chain_loop :: "chain option \<Rightarrow> snap_row list \<Rightarrow> chain option" where
  "chain_loop c [] = c"
| "chain_loop c (s # ss) =
     (let up_to = as_u64 (s_up_to s)
      in case (c, map_option as_u64 (s_from s)) of
           (None, None) \<Rightarrow>
             chain_loop (Some \<lparr>ch_up_to_seq = up_to, ch_compaction_floor_seq = as_u64 (s_floor s),
                ch_epoch = as_u64 (s_epoch s), ch_rows = [(up_to, s_blob s)]\<rparr>) ss
         | (None, Some _) \<Rightarrow> None
         | (Some k, Some from) \<Rightarrow>
             (if from = ch_up_to_seq k
              then chain_loop (Some \<lparr>ch_up_to_seq = up_to, ch_compaction_floor_seq = as_u64 (s_floor s),
                     ch_epoch = as_u64 (s_epoch s), ch_rows = ch_rows k @ [(up_to, s_blob s)]\<rparr>) ss
              else Some k)
         | (Some k, None) \<Rightarrow> Some k)"

definition head_id :: "uuid \<Rightarrow> server_db \<Rightarrow> int" where
  "head_id doc db =
     (case map s_id (filter (\<lambda>s. s_doc s = doc \<and> s_from s = None) (db_snapshots db)) of
        [] \<Rightarrow> 0
      | i # is \<Rightarrow> fold max is i)"

definition snapshot_chain :: "uuid \<Rightarrow> server_db \<Rightarrow> chain option" where
  "snapshot_chain doc db =
     chain_loop None (filter (\<lambda>s. s_id s \<ge> head_id doc db) (snapshots_of doc db))"

section \<open>Compaction\<close>

definition compact_doc :: "uuid \<Rightarrow> server_db \<Rightarrow> nat \<times> server_db" where
  "compact_doc doc db =
     (case latest_row doc db of
        None \<Rightarrow> (0, db)
      | Some s \<Rightarrow>
          (length (filter (\<lambda>r. u_doc r = doc \<and> u_seq r \<le> s_floor s) (db_updates db)),
           db\<lparr>db_updates := filter (\<lambda>r. \<not> (u_doc r = doc \<and> u_seq r \<le> s_floor s)) (db_updates db)\<rparr>))"

end
