(* ===== verification/Server_Stream.thy ===== *)
theory Server_Stream
  imports Server_Queries
begin

text \<open>
  Properties of the server's queries: per-doc seqs are dense and a push is stored once however
  often it is retried; a batch is a prefix of what the device misses, within its caps; frontiers
  and the horizon; the snapshot chain stays linked.
\<close>

section \<open>Dense streams\<close>

definition next_seq_of :: "uuid \<Rightarrow> server_db \<Rightarrow> int" where
  "next_seq_of doc db = (case db_sequences db doc of None \<Rightarrow> 1 | Some (n, _) \<Rightarrow> n)"

definition doc_rows :: "uuid \<Rightarrow> server_db \<Rightarrow> update_row list" where
  "doc_rows doc db = filter (\<lambda>r. u_doc r = doc) (db_updates db)"

definition push_key :: "update_row \<Rightarrow> uuid \<times> uuid" where
  "push_key r = (u_device r, u_push r)"

text \<open>
  The rows of a doc carry, in order, the seqs after some compacted prefix up to the counter, and
  no push twice.
\<close>

definition dense_stream :: "uuid \<Rightarrow> server_db \<Rightarrow> bool" where
  "dense_stream doc db \<longleftrightarrow>
     (\<exists>c \<ge> 0. c < next_seq_of doc db \<and> map u_seq (doc_rows doc db) = [c + 1..next_seq_of doc db - 1]) \<and>
     distinct (map push_key (doc_rows doc db))"

definition stream_inv :: "server_db \<Rightarrow> bool" where
  "stream_inv db \<longleftrightarrow> (\<forall>doc. dense_stream doc db)"

lemma find_append: "find P (xs @ ys) = (case find P xs of None \<Rightarrow> find P ys | Some x \<Rightarrow> Some x)"
  by (induction xs) auto

lemma find_push_append:
  "find_push doc dev push db = Some r \<Longrightarrow>
     find_push doc dev push (db\<lparr>db_sequences := sq, db_updates := db_updates db @ new\<rparr>) = Some r"
  by (simp add: find_push_def find_append)

lemma find_push_None:
  "find_push doc dev push db = None \<longleftrightarrow> (dev, push) \<notin> push_key ` set (doc_rows doc db)"
  by (auto simp: find_push_def find_None_iff doc_rows_def push_key_def)

text \<open>What a fresh push does to the tables.\<close>

definition add_row :: "uuid \<Rightarrow> uuid \<Rightarrow> push_blob \<Rightarrow> server_db \<Rightarrow> server_db" where
  "add_row doc dev p db =
     db\<lparr>db_sequences := (db_sequences db)(doc \<mapsto>
          (next_seq_of doc db + 1, case db_sequences db doc of None \<Rightarrow> 0 | Some (_, ep) \<Rightarrow> ep)),
        db_updates := db_updates db @
          [\<lparr>u_doc = doc, u_seq = next_seq_of doc db,
            u_epoch = (case db_sequences db doc of None \<Rightarrow> 0 | Some (_, ep) \<Rightarrow> ep),
            u_device = dev, u_push = pb_push_id p, u_blob = pb_blob p\<rparr>]\<rparr>"

lemma dense_seq_bound: "dense_stream doc db \<Longrightarrow> r \<in> set (doc_rows doc db) \<Longrightarrow> u_seq r < next_seq_of doc db"
proof -
  assume "dense_stream doc db" and r: "r \<in> set (doc_rows doc db)"
  then obtain c where "map u_seq (doc_rows doc db) = [c + 1..next_seq_of doc db - 1]"
    by (auto simp: dense_stream_def)
  with r have "u_seq r \<in> set [c + 1..next_seq_of doc db - 1]"
    by (metis image_eqI image_set)
  then show ?thesis by auto
qed

lemma insert_fresh:
  assumes "stream_inv db" "doc \<in> set (db_docs db)" "find_push doc dev (pb_push_id p) db = None"
  shows "insert_loop doc dev (p # ps) acc db =
    insert_loop doc dev ps
      \<lparr>iu_acks = iu_acks acc @ [\<lparr>pa_push_id = pb_push_id p, pa_seq = as_u64 (next_seq_of doc db)\<rparr>],
       iu_fresh = iu_fresh acc @ [\<lparr>sb_seq = as_u64 (next_seq_of doc db), sb_blob = pb_blob p\<rparr>]\<rparr>
      (add_row doc dev p db)"
proof -
  have d: "dense_stream doc db" using assms(1) by (simp add: stream_inv_def)
  have "\<not> (\<exists>r \<in> set (db_updates db). u_doc r = doc \<and>
      (u_seq r = next_seq_of doc db \<or> (u_device r = dev \<and> u_push r = pb_push_id p)))"
    using dense_seq_bound [OF d] assms(3) by (fastforce simp: doc_rows_def find_push_None push_key_def)
  moreover have "reserve_seq doc db = Inr ((next_seq_of doc db,
      case db_sequences db doc of None \<Rightarrow> 0 | Some (_, ep) \<Rightarrow> ep),
      db\<lparr>db_sequences := (db_sequences db)(doc \<mapsto>
        (next_seq_of doc db + 1, case db_sequences db doc of None \<Rightarrow> 0 | Some (_, ep) \<Rightarrow> ep))\<rparr>)"
    using assms(2) by (simp add: reserve_seq_def next_seq_of_def split: option.splits prod.splits)
  ultimately show ?thesis
    using assms(2,3) by (auto simp: insert_update_row_def add_row_def)
qed

lemma add_row_inv:
  assumes "stream_inv db" "find_push doc dev (pb_push_id p) db = None"
  shows "stream_inv (add_row doc dev p db)"
  unfolding stream_inv_def
proof
  fix doc'
  have d: "dense_stream doc' db" using assms(1) by (simp add: stream_inv_def)
  show "dense_stream doc' (add_row doc dev p db)"
  proof (cases "doc' = doc")
    case False
    then have "doc_rows doc' (add_row doc dev p db) = doc_rows doc' db"
      "next_seq_of doc' (add_row doc dev p db) = next_seq_of doc' db"
      by (simp_all add: doc_rows_def add_row_def next_seq_of_def)
    with d show ?thesis by (simp add: dense_stream_def)
  next
    case True
    from d obtain c where c: "c \<ge> 0" "c < next_seq_of doc db"
        "map u_seq (doc_rows doc db) = [c + 1..next_seq_of doc db - 1]"
      using True by (auto simp: dense_stream_def)
    have "[c + 1..next_seq_of doc db] = [c + 1..next_seq_of doc db - 1] @ [next_seq_of doc db]"
      using c(2) by (intro upto_rec2) simp
    moreover have "map u_seq (doc_rows doc (add_row doc dev p db)) =
        map u_seq (doc_rows doc db) @ [next_seq_of doc db]"
      "next_seq_of doc (add_row doc dev p db) = next_seq_of doc db + 1"
      by (simp_all add: doc_rows_def add_row_def next_seq_of_def)
    moreover have "distinct (map push_key (doc_rows doc (add_row doc dev p db)))"
      using d True assms(2) find_push_None [of doc dev "pb_push_id p" db]
      by (auto simp: dense_stream_def doc_rows_def add_row_def push_key_def)
    ultimately show ?thesis
      using True c by (auto simp: dense_stream_def)
  qed
qed

definition ack_of :: "uuid \<Rightarrow> uuid \<Rightarrow> server_db \<Rightarrow> push_blob \<Rightarrow> push_ack" where
  "ack_of doc dev db p =
     \<lparr>pa_push_id = pb_push_id p, pa_seq = as_u64 (u_seq (the (find_push doc dev (pb_push_id p) db)))\<rparr>"

lemma insert_loop_known:
  "\<forall>p \<in> set ps. find_push doc dev (pb_push_id p) db \<noteq> None \<Longrightarrow>
     insert_loop doc dev ps acc db =
       Inr (acc\<lparr>iu_acks := iu_acks acc @ map (ack_of doc dev db) ps\<rparr>, db)"
  by (induction ps arbitrary: acc) (auto simp: ack_of_def)

text \<open>
  A push transaction: it succeeds, appends the rows that were missing with the next seqs, reports
  exactly them as fresh, and acknowledges every blob with the seq of its row.
\<close>

definition appended ::
  "uuid \<Rightarrow> uuid \<Rightarrow> push_blob list \<Rightarrow> server_db \<Rightarrow> update_row list \<Rightarrow> server_db \<Rightarrow> bool" where
  "appended doc dev ps db new db' \<longleftrightarrow>
     db_docs db' = db_docs db \<and> db_updates db' = db_updates db @ new \<and>
     map u_seq new = [next_seq_of doc db..next_seq_of doc db' - 1] \<and>
     next_seq_of doc db \<le> next_seq_of doc db' \<and>
     (\<forall>r \<in> set new. u_doc r = doc \<and> u_device r = dev) \<and>
     (\<forall>r \<in> set new. \<exists>p \<in> set ps. u_push r = pb_push_id p \<and> u_blob r = pb_blob p) \<and>
     (\<forall>p \<in> set ps. find_push doc dev (pb_push_id p) db' \<noteq> None)"

lemma appended_Nil: "appended doc dev [] db [] db"
  by (simp add: appended_def)

lemma appended_keeps:
  assumes "appended doc dev ps db new db'" "find_push doc dev push db = Some r"
  shows "find_push doc dev push db' = Some r"
  using assms by (simp add: appended_def find_push_def find_append)

lemma appended_known:
  "appended doc dev ps db new db' \<Longrightarrow> find_push doc dev (pb_push_id p) db = Some r \<Longrightarrow>
     appended doc dev (p # ps) db new db'"
  using appended_keeps [of doc dev ps db new db' "pb_push_id p" r] by (auto simp: appended_def)

definition fresh_row :: "uuid \<Rightarrow> uuid \<Rightarrow> push_blob \<Rightarrow> server_db \<Rightarrow> update_row" where
  "fresh_row doc dev p db =
     \<lparr>u_doc = doc, u_seq = next_seq_of doc db,
      u_epoch = (case db_sequences db doc of None \<Rightarrow> 0 | Some (_, ep) \<Rightarrow> ep),
      u_device = dev, u_push = pb_push_id p, u_blob = pb_blob p\<rparr>"

lemma add_row_simps:
  "db_docs (add_row doc dev p db) = db_docs db"
  "db_updates (add_row doc dev p db) = db_updates db @ [fresh_row doc dev p db]"
  "next_seq_of doc (add_row doc dev p db) = next_seq_of doc db + 1"
  by (simp_all add: add_row_def fresh_row_def next_seq_of_def)

lemma find_push_add_row:
  assumes "find_push doc dev (pb_push_id p) db = None"
  shows "find_push doc dev (pb_push_id p) (add_row doc dev p db) = Some (fresh_row doc dev p db)"
  using assms by (simp add: find_push_def find_append add_row_simps) (simp add: fresh_row_def)

lemma appended_fresh:
  assumes "appended doc dev ps (add_row doc dev p db) new db'"
    and "find_push doc dev (pb_push_id p) db = None"
  shows "appended doc dev (p # ps) db (fresh_row doc dev p db # new) db'"
proof -
  let ?r = "fresh_row doc dev p db"
  have r: "u_doc ?r = doc" "u_device ?r = dev" "u_push ?r = pb_push_id p" "u_blob ?r = pb_blob p"
    "u_seq ?r = next_seq_of doc db"
    by (simp_all add: fresh_row_def)
  have f: "find_push doc dev (pb_push_id p) db' = Some ?r"
    by (rule appended_keeps [OF assms(1) find_push_add_row [OF assms(2)]])
  have "map u_seq (?r # new) = [next_seq_of doc db..next_seq_of doc db' - 1]"
    using assms(1) r(5) by (simp add: appended_def add_row_simps upto_rec1)
  with assms(1) f r show ?thesis
    by (auto simp: appended_def add_row_simps)
qed

lemma insert_loop_appends:
  assumes "stream_inv db" "doc \<in> set (db_docs db)"
  shows "\<exists>acc' db' new. insert_loop doc dev ps acc db = Inr (acc', db') \<and> stream_inv db' \<and>
    appended doc dev ps db new db' \<and>
    iu_acks acc' = iu_acks acc @ map (ack_of doc dev db') ps \<and>
    iu_fresh acc' = iu_fresh acc @ map stored_of new"
  using assms
proof (induction ps arbitrary: acc db)
  case Nil
  then show ?case using appended_Nil by fastforce
next
  case (Cons p ps)
  show ?case
  proof (cases "find_push doc dev (pb_push_id p) db")
    case (Some r)
    let ?acc = "acc\<lparr>iu_acks := iu_acks acc @ [\<lparr>pa_push_id = pb_push_id p, pa_seq = as_u64 (u_seq r)\<rparr>]\<rparr>"
    obtain acc' db' new where l: "insert_loop doc dev ps ?acc db = Inr (acc', db')" "stream_inv db'"
        "appended doc dev ps db new db'" "iu_acks acc' = iu_acks ?acc @ map (ack_of doc dev db') ps"
        "iu_fresh acc' = iu_fresh ?acc @ map stored_of new"
      using Cons.IH [OF Cons.prems, of ?acc] by blast
    have "ack_of doc dev db' p = \<lparr>pa_push_id = pb_push_id p, pa_seq = as_u64 (u_seq r)\<rparr>"
      using appended_keeps [OF l(3) Some] by (simp add: ack_of_def)
    with l appended_known [OF l(3) Some] Some show ?thesis by auto
  next
    case None
    let ?n = "next_seq_of doc db" and ?db1 = "add_row doc dev p db"
    let ?acc = "\<lparr>iu_acks = iu_acks acc @ [\<lparr>pa_push_id = pb_push_id p, pa_seq = as_u64 ?n\<rparr>],
       iu_fresh = iu_fresh acc @ [\<lparr>sb_seq = as_u64 ?n, sb_blob = pb_blob p\<rparr>]\<rparr>"
    have "doc \<in> set (db_docs ?db1)" using Cons.prems(2) by (simp add: add_row_simps)
    from Cons.IH [OF add_row_inv [OF Cons.prems(1) None] this, of ?acc]
    obtain acc' db' new where l: "insert_loop doc dev ps ?acc ?db1 = Inr (acc', db')" "stream_inv db'"
        "appended doc dev ps ?db1 new db'" "iu_acks acc' = iu_acks ?acc @ map (ack_of doc dev db') ps"
        "iu_fresh acc' = iu_fresh ?acc @ map stored_of new"
      by blast
    have "ack_of doc dev db' p = \<lparr>pa_push_id = pb_push_id p, pa_seq = as_u64 ?n\<rparr>"
      using appended_keeps [OF l(3) find_push_add_row [OF None]] by (simp add: ack_of_def fresh_row_def)
    moreover have "stored_of (fresh_row doc dev p db) = \<lparr>sb_seq = as_u64 ?n, sb_blob = pb_blob p\<rparr>"
      by (simp add: stored_of_def fresh_row_def)
    moreover have "insert_loop doc dev (p # ps) acc db = Inr (acc', db')"
      using insert_fresh [OF Cons.prems None] l(1) by simp
    ultimately show ?thesis
      using l(2,4,5) appended_fresh [OF l(3) None]
      by (intro exI [of _ acc'] exI [of _ db'] exI [of _ "fresh_row doc dev p db # new"]) simp
  qed
qed

lemma filter_above_upto: "filter (\<lambda>x. \<not> x \<le> f) [a..b] = [max a (f + 1)..(b::int)]"
proof (induction "nat (b - a + 1)" arbitrary: a)
  case 0
  then have "b < a" by simp
  then show ?case by simp
next
  case (Suc n)
  then have ab: "a \<le> b" by simp
  have IH: "filter (\<lambda>x. \<not> x \<le> f) [a + 1..b] = [max (a + 1) (f + 1)..b]"
    by (rule Suc.hyps(1)) (use Suc.hyps(2) in simp)
  show ?case
  proof (cases "a \<le> f")
    case True
    with IH ab show ?thesis by (simp add: upto_rec1 max_def)
  next
    case False
    then have "max (a + 1) (f + 1) = a + 1" "max a (f + 1) = a" by auto
    with False IH ab show ?thesis by (simp add: upto_rec1)
  qed
qed

lemma compact_doc_rows:
  "doc_rows doc' (snd (compact_doc doc db)) =
     (case latest_row doc db of
        None \<Rightarrow> doc_rows doc' db
      | Some s \<Rightarrow> if doc' = doc then filter (\<lambda>r. \<not> u_seq r \<le> s_floor s) (doc_rows doc db)
                  else doc_rows doc' db)"
  by (auto simp: compact_doc_def doc_rows_def intro!: filter_cong split: option.splits)

lemma compact_doc_next: "next_seq_of doc' (snd (compact_doc doc db)) = next_seq_of doc' db"
  by (cases "latest_row doc db") (simp_all add: compact_doc_def next_seq_of_def)

lemma dense_filter:
  assumes "dense_stream doc db" "doc_rows doc db' = filter (\<lambda>r. \<not> u_seq r \<le> f) (doc_rows doc db)"
    and "next_seq_of doc db' = next_seq_of doc db"
  shows "dense_stream doc db'"
proof -
  let ?n = "next_seq_of doc db"
  obtain c where c: "c \<ge> 0" "c < ?n" "map u_seq (doc_rows doc db) = [c + 1..?n - 1]"
    using assms(1) by (auto simp: dense_stream_def)
  have "map u_seq (doc_rows doc db') = filter (\<lambda>x. \<not> x \<le> f) (map u_seq (doc_rows doc db))"
    by (simp add: assms(2) filter_map o_def)
  also have "\<dots> = [max (c + 1) (f + 1)..?n - 1]" by (simp add: c(3) filter_above_upto)
  also have "\<dots> = [min (max c f) (?n - 1) + 1..?n - 1]"
    using c(2) by (cases "max c f < ?n") (auto simp: max_def min_def)
  finally have "map u_seq (doc_rows doc db') = [min (max c f) (?n - 1) + 1..?n - 1]" .
  moreover have "distinct (map push_key (doc_rows doc db'))"
    using assms(1,2) by (simp add: dense_stream_def distinct_map_filter)
  ultimately show ?thesis
    using c assms(3) unfolding dense_stream_def
    by (intro conjI exI [of _ "min (max c f) (?n - 1)"]) auto
qed

lemma compact_doc_inv:
  assumes "stream_inv db"
  shows "stream_inv (snd (compact_doc doc db))"
  unfolding stream_inv_def
proof
  fix doc'
  have d: "dense_stream doc' db" using assms by (simp add: stream_inv_def)
  show "dense_stream doc' (snd (compact_doc doc db))"
  proof (cases "latest_row doc db = None \<or> doc' \<noteq> doc")
    case True
    then have "doc_rows doc' (snd (compact_doc doc db)) = doc_rows doc' db"
      by (auto simp: compact_doc_rows split: option.splits)
    with d show ?thesis by (simp add: dense_stream_def compact_doc_next)
  next
    case False
    then obtain s where s: "latest_row doc db = Some s" "doc' = doc" by auto
    show ?thesis
      by (rule dense_filter [OF d, of _ "s_floor s"]) (simp_all add: compact_doc_rows compact_doc_next s)
  qed
qed

text \<open>The calls a session makes on the tables, as steps.\<close>

datatype db_call =
    DbInsertUpdates uuid uuid "push_blob list"
  | DbAdvance uuid uuid u64
  | DbInsertSnapshot uuid u64 u64 "u64 option" encrypted_blob encrypted_blob
  | DbCompact uuid

fun run_db :: "db_call \<Rightarrow> server_db \<Rightarrow> server_db" where
  "run_db (DbInsertUpdates doc dev ps) db =
     (case insert_updates doc dev ps db of Inl _ \<Rightarrow> db | Inr (_, db') \<Rightarrow> db')"
| "run_db (DbAdvance dev doc n) db =
     (case advance_last_acked_seq dev doc n db of Inl _ \<Rightarrow> db | Inr db' \<Rightarrow> db')"
| "run_db (DbInsertSnapshot doc up fl from vv b) db =
     (case insert_snapshot doc up fl from vv b db of Inl _ \<Rightarrow> db | Inr (_, db') \<Rightarrow> db')"
| "run_db (DbCompact doc) db = snd (compact_doc doc db)"

lemma insert_loop_no_doc:
  assumes "doc \<notin> set (db_docs db)"
  shows "(\<exists>acc'. insert_loop doc dev ps acc db = Inr (acc', db)) \<or> insert_loop doc dev ps acc db = Inl DbForeignKey"
  using assms by (induction ps arbitrary: acc) (auto simp: reserve_seq_def split: option.splits)

lemma run_db_stream_inv: "stream_inv db \<Longrightarrow> stream_inv (run_db c db)"
proof (cases c)
  case (DbInsertUpdates doc dev ps)
  assume i: "stream_inv db"
  show ?thesis
  proof (cases "doc \<in> set (db_docs db)")
    case True
    from insert_loop_appends [OF i True, of dev ps "\<lparr>iu_acks = [], iu_fresh = []\<rparr>"]
    show ?thesis using DbInsertUpdates i by (auto simp: insert_updates_def)
  next
    case False
    from insert_loop_no_doc [OF False, of dev ps "\<lparr>iu_acks = [], iu_fresh = []\<rparr>"]
    show ?thesis using DbInsertUpdates i by (auto simp: insert_updates_def)
  qed
next
  case (DbAdvance dev doc n)
  assume i: "stream_inv db"
  have "doc_rows d (run_db c db) = doc_rows d db" "next_seq_of d (run_db c db) = next_seq_of d db" for d
    using DbAdvance by (auto simp: advance_last_acked_seq_def doc_rows_def next_seq_of_def split: option.splits)
  with i show ?thesis by (simp add: stream_inv_def dense_stream_def)
next
  case (DbInsertSnapshot doc up fl fr vv b)
  assume i: "stream_inv db"
  have "doc_rows d (run_db c db) = doc_rows d db" "next_seq_of d (run_db c db) = next_seq_of d db" for d
    using DbInsertSnapshot
    by (auto simp: insert_snapshot_def Let_def doc_rows_def next_seq_of_def split: option.splits if_splits)
  with i show ?thesis by (simp add: stream_inv_def dense_stream_def)
next
  case (DbCompact doc)
  assume "stream_inv db"
  with DbCompact show ?thesis by (simp add: compact_doc_inv)
qed

definition empty_db :: "uuid list \<Rightarrow> member_row list \<Rightarrow> device_row list \<Rightarrow> server_db" where
  "empty_db docs members devices =
     \<lparr>db_docs = docs, db_accounts = [], db_members = members, db_invites = [], db_recovery = [],
      db_devices = devices, db_frontiers = (\<lambda>_. None),
      db_sequences = (\<lambda>_. None), db_updates = [], db_snapshots = [], db_snapshot_rowid = 0\<rparr>"

lemma empty_db_stream_inv: "stream_inv (empty_db docs members devices)"
  by (auto simp: stream_inv_def dense_stream_def empty_db_def doc_rows_def next_seq_of_def)

lemma fold_run_db_stream_inv: "stream_inv db \<Longrightarrow> stream_inv (fold run_db cs db)"
  by (induction cs arbitrary: db) (simp_all add: run_db_stream_inv)

section \<open>Batches\<close>

definition batch_bytes :: "stored_blob list \<Rightarrow> nat" where
  "batch_bytes us = sum_list (map (\<lambda>u. length (ciphertext (sb_blob u)) + length (nonce (sb_blob u))) us)"

lemma batch_loop_prefix:
  assumes "length updates \<le> MAX_UPDATES_PER_BATCH" "bts = batch_bytes updates"
    and "length updates \<le> 1 \<or> bts \<le> MAX_BYTES_PER_BATCH"
  shows "\<exists>k \<le> length rs. batch_loop updates bts rs =
      \<lparr>fb_updates = updates @ map stored_of (take k rs), fb_has_more = (k < length rs)\<rparr> \<and>
    (updates = [] \<longrightarrow> rs \<noteq> [] \<longrightarrow> k > 0) \<and> length updates + k \<le> MAX_UPDATES_PER_BATCH \<and>
    (length updates + k \<le> 1 \<or> batch_bytes (updates @ map stored_of (take k rs)) \<le> MAX_BYTES_PER_BATCH)"
  using assms
proof (induction rs arbitrary: updates bts)
  case Nil
  then show ?case by auto
next
  case (Cons r rs)
  show ?case
  proof (cases "length updates \<ge> MAX_UPDATES_PER_BATCH \<or>
      (updates \<noteq> [] \<and> bts + row_bytes r > MAX_BYTES_PER_BATCH)")
    case True
    then have "updates \<noteq> []" by (auto simp: MAX_UPDATES_PER_BATCH_def)
    with True Cons.prems show ?thesis by (intro exI [of _ 0]) auto
  next
    case False
    let ?u = "updates @ [stored_of r]"
    have b: "bts + row_bytes r = batch_bytes ?u"
      using Cons.prems(2) by (simp add: batch_bytes_def stored_of_def row_bytes_def)
    have "length ?u \<le> 1 \<or> bts + row_bytes r \<le> MAX_BYTES_PER_BATCH" using False by auto
    from Cons.IH [of ?u, OF _ b this] False
    obtain k where "k \<le> length rs" "batch_loop ?u (bts + row_bytes r) rs =
        \<lparr>fb_updates = ?u @ map stored_of (take k rs), fb_has_more = (k < length rs)\<rparr>"
      "length ?u + k \<le> MAX_UPDATES_PER_BATCH"
      "length ?u + k \<le> 1 \<or> batch_bytes (?u @ map stored_of (take k rs)) \<le> MAX_BYTES_PER_BATCH"
      by auto
    with False show ?thesis by (intro exI [of _ "Suc k"]) auto
  qed
qed

lemma fetch_prefix:
  obtains k where "k \<le> length (select_updates doc since db)"
    "fetch_updates_batch doc since db =
      \<lparr>fb_updates = map stored_of (take k (select_updates doc since db)),
       fb_has_more = (k < length (select_updates doc since db))\<rparr>"
    "select_updates doc since db \<noteq> [] \<Longrightarrow> k > 0"
    "k \<le> MAX_UPDATES_PER_BATCH"
    "k \<le> 1 \<or> batch_bytes (map stored_of (take k (select_updates doc since db))) \<le> MAX_BYTES_PER_BATCH"
proof -
  let ?rs = "select_updates doc since db" and ?N = MAX_UPDATES_PER_BATCH
  from batch_loop_prefix [of "[]" 0 "take (?N + 1) ?rs"]
  obtain k where k: "k \<le> length (take (?N + 1) ?rs)"
    "batch_loop [] 0 (take (?N + 1) ?rs) =
      \<lparr>fb_updates = map stored_of (take k (take (?N + 1) ?rs)), fb_has_more = (k < length (take (?N + 1) ?rs))\<rparr>"
    "take (?N + 1) ?rs \<noteq> [] \<longrightarrow> k > 0" "k \<le> ?N"
    "k \<le> 1 \<or> batch_bytes (map stored_of (take k (take (?N + 1) ?rs))) \<le> MAX_BYTES_PER_BATCH"
    by (auto simp: batch_bytes_def)
  have t: "take k (take (?N + 1) ?rs) = take k ?rs" using k(4) by (simp add: min_def)
  have m: "k < length (take (?N + 1) ?rs) \<longleftrightarrow> k < length ?rs" using k(4) by (auto simp: min_def)
  show thesis
    by (rule that [of k]) (use k t m in \<open>auto simp: fetch_updates_batch_def\<close>)
qed

section \<open>Frontiers and the horizon\<close>

definition frontier :: "uuid \<Rightarrow> uuid \<Rightarrow> server_db \<Rightarrow> int" where
  "frontier device doc db = (case db_frontiers db (device, doc) of None \<Rightarrow> 0 | Some n \<Rightarrow> n)"

definition frontiers_ok :: "server_db \<Rightarrow> bool" where
  "frontiers_ok db \<longleftrightarrow> (\<forall>k n. db_frontiers db k = Some n \<longrightarrow> 0 \<le> n \<and> n < 2 ^ 63)"

lemma frontiers_okD: "frontiers_ok db \<Longrightarrow> 0 \<le> frontier device doc db \<and> frontier device doc db < 2 ^ 63"
  by (auto simp: frontiers_ok_def frontier_def split: option.splits)

lemma advance_frontier:
  assumes "frontiers_ok db" "n < 2 ^ 63" "advance_last_acked_seq device doc n db = Inr db'"
  shows "frontiers_ok db'" "frontier device doc db' = max (frontier device doc db) (uint n)"
    "(device', doc') \<noteq> (device, doc) \<Longrightarrow> frontier device' doc' db' = frontier device' doc' db"
proof -
  have n: "as_i64 n = uint n" using assms(2) by (rule as_i64_nonneg)
  have u: "0 \<le> uint n" "uint n < 2 ^ 63" using assms(2) by (simp_all add: word_less_def)
  show "frontiers_ok db'" "frontier device doc db' = max (frontier device doc db) (uint n)"
    using assms(1,3) u unfolding n [symmetric]
    by (auto simp: advance_last_acked_seq_def frontiers_ok_def frontier_def split: option.splits if_splits)
  show "frontier device' doc' db' = frontier device' doc' db" if "(device', doc') \<noteq> (device, doc)"
    using assms(3) that
    by (auto simp: advance_last_acked_seq_def frontier_def split: option.splits if_splits)
qed

definition syncs :: "uuid \<Rightarrow> uuid \<Rightarrow> server_db \<Rightarrow> bool" where
  "syncs device doc db \<longleftrightarrow>
     (\<exists>d \<in> set (db_devices db). d_id d = device \<and> is_member doc (d_account d) db)"

lemma is_member_iff:
  "is_member doc account db \<longleftrightarrow>
     (\<exists>m \<in> set (db_members db). m_doc m = doc \<and> m_account m = account \<and> m_removed_at m = None)"
  by (auto simp: is_member_def filter_empty_conv length_greater_0_conv)

definition horizon_value :: "uuid \<Rightarrow> uuid \<Rightarrow> u64 \<Rightarrow> server_db \<Rightarrow> uuid \<Rightarrow> int" where
  "horizon_value doc dev n db d = (if d = dev then as_i64 n else frontier d doc db)"

lemma horizon_values_set:
  "set (horizon_values doc dev n db) = horizon_value doc dev n db ` {d. syncs d doc db}"
proof -
  have "horizon_values doc dev n db =
    concat (map (\<lambda>m. map (\<lambda>d. horizon_value doc dev n db (d_id d))
        (filter (\<lambda>d. d_account d = m_account m) (db_devices db)))
      (filter (\<lambda>m. m_doc m = doc \<and> m_removed_at m = None) (db_members db)))"
    by (simp add: horizon_values_def horizon_value_def frontier_def case_prod_beta' cong: if_cong)
  moreover have "{d. syncs d doc db} =
      (\<Union>m \<in> {m \<in> set (db_members db). m_doc m = doc \<and> m_removed_at m = None}.
         d_id ` {d \<in> set (db_devices db). d_account d = m_account m})"
    by (force simp: syncs_def is_member_iff)
  ultimately show ?thesis by (simp add: image_UN image_image)
qed

lemma horizon_le:
  assumes "frontiers_ok db" "n < 2 ^ 63" "syncs d doc db"
  shows "uint (doc_horizon doc dev n db) \<le> (if d = dev then uint n else frontier d doc db)"
proof -
  have n: "as_i64 n = uint n" using assms(2) by (rule as_i64_nonneg)
  have u: "uint n < 2 ^ 63" using assms(2) by (simp add: word_less_def)
  have hv: "0 \<le> horizon_value doc dev n db x" "horizon_value doc dev n db x < 2 ^ 63" for x
    using frontiers_okD [OF assms(1), of x doc] u n by (simp_all add: horizon_value_def)
  let ?S = "set (horizon_values doc dev n db)"
  have x: "horizon_value doc dev n db d \<in> ?S"
    using assms(3) by (simp add: horizon_values_set)
  then obtain v vs where vs: "horizon_values doc dev n db = v # vs"
    by (cases "horizon_values doc dev n db") auto
  have m: "fold min vs v = Min ?S" by (simp only: vs Min.set_eq_fold)
  have "Min ?S \<in> ?S" by (rule Min_in) (use x in auto)
  then have b: "0 \<le> Min ?S" "Min ?S < 2 ^ 64"
    using hv unfolding horizon_values_set by (force intro: order.strict_trans)+
  have "doc_horizon doc dev n db = as_u64 (fold min vs v)" by (simp add: doc_horizon_def vs)
  then have "uint (doc_horizon doc dev n db) = Min ?S"
    unfolding m using uint_as_u64 [OF b] by metis
  also have "\<dots> \<le> horizon_value doc dev n db d" using x by simp
  finally show ?thesis using n by (simp add: horizon_value_def split: if_splits)
qed

section \<open>The snapshot chain\<close>

fun linked_from :: "int option \<Rightarrow> snap_row list \<Rightarrow> bool" where
  "linked_from prev [] \<longleftrightarrow> True"
| "linked_from prev (s # ss) \<longleftrightarrow>
     (s_from s = None \<or> s_from s = prev) \<and> linked_from (Some (s_up_to s)) ss"

definition doc_snaps :: "uuid \<Rightarrow> server_db \<Rightarrow> snap_row list" where
  "doc_snaps doc db = filter (\<lambda>s. s_doc s = doc) (db_snapshots db)"

text \<open>Row ids grow in insertion order, and every delta links to the row before it.\<close>

definition snap_inv :: "server_db \<Rightarrow> bool" where
  "snap_inv db \<longleftrightarrow>
     sorted_wrt (<) (map s_id (db_snapshots db)) \<and>
     (\<forall>s \<in> set (db_snapshots db). s_id s \<le> db_snapshot_rowid db) \<and>
     (\<forall>doc. linked_from None (doc_snaps doc db))"

lemma doc_snaps_sorted: "snap_inv db \<Longrightarrow> sorted_wrt (<) (map s_id (doc_snaps doc db))"
  unfolding snap_inv_def doc_snaps_def sorted_wrt_map by (auto intro: sorted_wrt_filter)

lemma snapshots_of_eq: "snap_inv db \<Longrightarrow> snapshots_of doc db = doc_snaps doc db"
  unfolding snapshots_of_def doc_snaps_def [symmetric]
  by (rule sort_key_id_if_sorted) (rule strict_sorted_imp_sorted, rule doc_snaps_sorted)

lemma latest_row_eq:
  "snap_inv db \<Longrightarrow> latest_row doc db = (if doc_snaps doc db = [] then None else Some (last (doc_snaps doc db)))"
  by (cases "doc_snaps doc db" rule: rev_cases) (simp_all add: latest_row_def snapshots_of_eq)

lemma linked_from_append1:
  "linked_from prev (ss @ [s]) \<longleftrightarrow>
     linked_from prev ss \<and>
     (s_from s = None \<or> s_from s = (if ss = [] then prev else Some (s_up_to (last ss))))"
  by (induction ss arbitrary: prev) auto

lemma insert_snapshot_cases:
  assumes "insert_snapshot doc up fl from_seq vv b db = Inr (r, db')"
  shows "db' = db \<or> (doc \<in> set (db_docs db) \<and>
     (from_seq = None \<or> read_latest_up_to_seq doc db = map_option as_i64 from_seq) \<and>
     (\<exists>row. s_id row = db_snapshot_rowid db + 1 \<and> s_doc row = doc \<and> s_from row = map_option as_i64 from_seq \<and>
        db' = db\<lparr>db_snapshots := db_snapshots db @ [row], db_snapshot_rowid := db_snapshot_rowid db + 1\<rparr>))"
proof -
  define row where "row = \<lparr>s_id = db_snapshot_rowid db + 1, s_doc = doc, s_up_to = as_i64 up,
    s_floor = as_i64 fl, s_epoch = (case db_sequences db doc of None \<Rightarrow> 0 | Some (_, ep) \<Rightarrow> ep),
    s_from = map_option as_i64 from_seq, s_vv = vv, s_blob = b\<rparr>"
  define added where "added = db\<lparr>db_snapshots := db_snapshots db @ [row],
    db_snapshot_rowid := db_snapshot_rowid db + 1\<rparr>"
  have "insert_snapshot doc up fl from_seq vv b db =
      (if case from_seq of None \<Rightarrow> False
          | Some from \<Rightarrow> read_latest_up_to_seq doc db \<noteq> Some (as_i64 from) \<or> up < from
       then Inr (ChainMismatch (map_option as_u64 (read_latest_up_to_seq doc db)), db)
       else if doc \<notin> set (db_docs db) then Inl DbForeignKey
       else Inr (Inserted (as_u64 (db_snapshot_rowid db + 1)), added))"
    by (simp add: insert_snapshot_def Let_def row_def added_def)
  with assms have "db' = db \<or> (doc \<in> set (db_docs db) \<and>
      (from_seq = None \<or> read_latest_up_to_seq doc db = map_option as_i64 from_seq) \<and> db' = added)"
    by (cases from_seq) (simp_all split: if_split_asm)
  moreover have "s_id row = db_snapshot_rowid db + 1" "s_doc row = doc" "s_from row = map_option as_i64 from_seq"
    by (simp_all add: row_def)
  ultimately show ?thesis unfolding added_def by blast
qed

lemma insert_snapshot_inv:
  assumes "snap_inv db" "insert_snapshot doc up fl from_seq vv b db = Inr (r, db')"
  shows "snap_inv db'"
proof (cases "db' = db")
  case True
  with assms(1) show ?thesis by simp
next
  case False
  with insert_snapshot_cases [OF assms(2)] obtain row where
      row: "db' = db\<lparr>db_snapshots := db_snapshots db @ [row], db_snapshot_rowid := db_snapshot_rowid db + 1\<rparr>"
        "s_id row = db_snapshot_rowid db + 1" "s_doc row = doc" "s_from row = map_option as_i64 from_seq"
    and chk: "from_seq = None \<or> read_latest_up_to_seq doc db = map_option as_i64 from_seq"
    by blast
  have "linked_from None (doc_snaps d db')" for d
  proof (cases "d = doc")
    case True
    have "s_from row = None \<or> s_from row = (if doc_snaps doc db = [] then None else Some (s_up_to (last (doc_snaps doc db))))"
      using chk latest_row_eq [OF assms(1), of doc]
      by (cases from_seq) (auto simp: row(4) read_latest_up_to_seq_def split: if_splits)
    moreover have "doc_snaps doc db' = doc_snaps doc db @ [row]"
      using row by (simp add: doc_snaps_def)
    moreover have "linked_from None (doc_snaps doc db)" using assms(1) by (simp add: snap_inv_def)
    ultimately show ?thesis unfolding True by (simp only: linked_from_append1)
  next
    case False
    with assms(1) row show ?thesis by (simp add: snap_inv_def doc_snaps_def)
  qed
  moreover have "\<forall>s \<in> set (db_snapshots db). s_id s \<le> db_snapshot_rowid db"
    "sorted_wrt (<) (map s_id (db_snapshots db))"
    using assms(1) by (simp_all add: snap_inv_def)
  ultimately show ?thesis unfolding snap_inv_def by (auto simp: row sorted_wrt_append)
qed

lemma run_db_snap_inv: "snap_inv db \<Longrightarrow> snap_inv (run_db c db)"
proof -
  have loop: "db_snapshots db' = db_snapshots db \<and> db_snapshot_rowid db' = db_snapshot_rowid db"
    if "insert_loop doc dev ps acc db = Inr (acc', db')" for doc dev ps acc db acc' db'
    using that
    by (induction ps arbitrary: acc db)
      (auto simp: reserve_seq_def insert_update_row_def Let_def split: option.splits if_splits)
  assume i: "snap_inv db"
  have same: "snap_inv db'" if "db_snapshots db' = db_snapshots db" "db_snapshot_rowid db' = db_snapshot_rowid db" for db'
    using i that by (simp add: snap_inv_def doc_snaps_def)
  show ?thesis
  proof (cases c)
    case (DbInsertSnapshot doc up fl fr vv b)
    then show ?thesis using i by (auto intro: insert_snapshot_inv split: sum.splits)
  qed (auto simp: i insert_updates_def advance_last_acked_seq_def compact_doc_def
      intro!: same dest: loop split: sum.splits option.splits prod.splits)
qed

lemma fold_run_db_snap_inv: "snap_inv db \<Longrightarrow> snap_inv (fold run_db cs db)"
  by (induction cs arbitrary: db) (simp_all add: run_db_snap_inv)

lemma empty_db_snap_inv: "snap_inv (empty_db docs members devices)"
  by (simp add: snap_inv_def empty_db_def doc_snaps_def)

definition chain_row :: "snap_row \<Rightarrow> u64 \<times> encrypted_blob" where
  "chain_row s = (as_u64 (s_up_to s), s_blob s)"

lemma chain_loop_deltas:
  assumes "linked_from (Some u) ys" "\<forall>y \<in> set ys. s_from y \<noteq> None" "ch_up_to_seq k = as_u64 u"
  shows "\<exists>k'. chain_loop (Some k) ys = Some k' \<and> ch_rows k' = ch_rows k @ map chain_row ys \<and>
    (if ys = [] then k' = k
     else ch_up_to_seq k' = as_u64 (s_up_to (last ys)) \<and> ch_compaction_floor_seq k' = as_u64 (s_floor (last ys)))"
  using assms
proof (induction ys arbitrary: u k)
  case (Cons y ys)
  then have y: "s_from y = Some u" by auto
  let ?k = "\<lparr>ch_up_to_seq = as_u64 (s_up_to y), ch_compaction_floor_seq = as_u64 (s_floor y),
    ch_epoch = as_u64 (s_epoch y), ch_rows = ch_rows k @ [(as_u64 (s_up_to y), s_blob y)]\<rparr>"
  have "\<exists>k'. chain_loop (Some ?k) ys = Some k' \<and> ch_rows k' = ch_rows ?k @ map chain_row ys \<and>
    (if ys = [] then k' = ?k
     else ch_up_to_seq k' = as_u64 (s_up_to (last ys)) \<and> ch_compaction_floor_seq k' = as_u64 (s_floor (last ys)))"
    by (rule Cons.IH [of "s_up_to y"]) (use Cons.prems in auto)
  with y Cons.prems(3) show ?case
    by (auto simp: Let_def chain_row_def split: if_splits)
qed simp

lemma snapshot_chain_split:
  assumes "snap_inv db" "doc_snaps doc db \<noteq> []"
  obtains xs f ys where "doc_snaps doc db = xs @ f # ys" "s_from f = None" "\<forall>y \<in> set ys. s_from y \<noteq> None"
    "filter (\<lambda>s. s_id s \<ge> head_id doc db) (snapshots_of doc db) = f # ys"
    "linked_from (Some (s_up_to f)) ys"
proof -
  let ?rs = "doc_snaps doc db"
  have "s_from (hd ?rs) = None"
    using assms by (cases ?rs) (auto simp: snap_inv_def dest: spec [of _ doc])
  then have "\<exists>s \<in> set ?rs. s_from s = None" using assms(2) by (metis list.set_sel(1))
  then obtain xs f ys where sp: "?rs = xs @ f # ys" "s_from f = None" "\<forall>y \<in> set ys. s_from y \<noteq> None"
    using split_list_last_prop [of ?rs "\<lambda>s. s_from s = None"] by auto
  have srt: "sorted_wrt (<) (map s_id ?rs)" by (rule doc_snaps_sorted [OF assms(1)])
  have xs: "\<forall>x \<in> set xs. s_id x < s_id f" and ys: "\<forall>y \<in> set ys. s_id f < s_id y"
    using srt unfolding sp(1) by (auto simp: sorted_wrt_append)
  let ?ids = "map s_id (filter (\<lambda>s. s_from s = None) ?rs)"
  have full: "set ?ids = s_id ` {x \<in> set xs. s_from x = None} \<union> {s_id f}"
    unfolding sp(1) using sp(2,3) by auto
  have eq: "map s_id (filter (\<lambda>s. s_doc s = doc \<and> s_from s = None) (db_snapshots db)) = ?ids"
    by (simp add: doc_snaps_def conj_commute)
  have "Max (set ?ids) = s_id f"
    unfolding full by (rule Max_eqI) (use xs in \<open>auto simp: less_imp_le\<close>)
  moreover obtain i js where ij: "?ids = i # js" using full by (cases ?ids) auto
  ultimately have h: "head_id doc db = s_id f"
    unfolding head_id_def eq ij by (simp only: list.case Max.set_eq_fold [symmetric])
  have "filter (\<lambda>s. s_id s \<ge> head_id doc db) ?rs = f # ys"
  proof -
    have "filter (\<lambda>s. s_id s \<ge> s_id f) xs = []" "filter (\<lambda>s. s_id s \<ge> s_id f) ys = ys"
      using xs ys by (auto simp: filter_empty_conv filter_id_conv)
    then show ?thesis unfolding h sp(1) by simp
  qed
  moreover have "linked_from (Some (s_up_to f)) ys"
  proof -
    have app: "linked_from p (as @ f # ys) \<Longrightarrow> linked_from (Some (s_up_to f)) ys" for p as
      by (induction as arbitrary: p) auto
    then show ?thesis using assms(1) sp(1) unfolding snap_inv_def by metis
  qed
  ultimately show thesis
    using that sp by (simp add: snapshots_of_eq [OF assms(1)])
qed

lemma snapshot_chain_latest:
  assumes "snap_inv db" "doc_snaps doc db \<noteq> []"
  shows "\<exists>c f ys. snapshot_chain doc db = Some c \<and> s_from f = None \<and>
    (\<exists>xs. doc_snaps doc db = xs @ f # ys) \<and> ch_rows c = map chain_row (f # ys) \<and>
    ch_up_to_seq c = as_u64 (s_up_to (last (doc_snaps doc db))) \<and>
    ch_compaction_floor_seq c = as_u64 (s_floor (last (doc_snaps doc db)))"
proof -
  obtain xs f ys where sp: "doc_snaps doc db = xs @ f # ys" "s_from f = None" "\<forall>y \<in> set ys. s_from y \<noteq> None"
    "filter (\<lambda>s. s_id s \<ge> head_id doc db) (snapshots_of doc db) = f # ys"
    "linked_from (Some (s_up_to f)) ys"
    using snapshot_chain_split [OF assms] .
  let ?k = "\<lparr>ch_up_to_seq = as_u64 (s_up_to f), ch_compaction_floor_seq = as_u64 (s_floor f),
    ch_epoch = as_u64 (s_epoch f), ch_rows = [(as_u64 (s_up_to f), s_blob f)]\<rparr>"
  obtain k' where k': "chain_loop (Some ?k) ys = Some k'" "ch_rows k' = ch_rows ?k @ map chain_row ys"
    "if ys = [] then k' = ?k
     else ch_up_to_seq k' = as_u64 (s_up_to (last ys)) \<and> ch_compaction_floor_seq k' = as_u64 (s_floor (last ys))"
    using chain_loop_deltas [OF sp(5,3), of ?k] by auto
  have "snapshot_chain doc db = Some k'"
    using sp(2,4) k'(1) by (simp add: snapshot_chain_def Let_def)
  with sp(1,2) k' show ?thesis
    by (intro exI [of _ k'] exI [of _ f] exI [of _ ys]) (auto simp: chain_row_def split: if_splits)
qed

section \<open>Properties\<close>

definition demo_blob :: "u8 \<Rightarrow> encrypted_blob" where
  "demo_blob x = \<lparr>nonce = replicate 24 x, ciphertext = [x]\<rparr>"

definition demo_push :: "uuid \<Rightarrow> push_blob" where
  "demo_push p = \<lparr>pb_push_id = p, pb_blob = demo_blob (ucast p)\<rparr>"

definition demo_member :: "uuid \<Rightarrow> uuid \<Rightarrow> member_row" where
  "demo_member doc acc =
     \<lparr>m_doc = doc, m_account = acc, m_role = ''owner'', m_wrapped_dek = [1], m_wrapped_dek_nonce = [2],
      m_recovery_wrapped_dek = None, m_recovery_wrapped_dek_nonce = None, m_added_at = 0,
      m_removed_at = None\<rparr>"

definition demo_device :: "uuid \<Rightarrow> uuid \<Rightarrow> device_row" where
  "demo_device dev acc =
     \<lparr>d_id = dev, d_account = acc, d_name = [], d_kind = [], d_token_hash = [], d_last_seen_at = 0,
      d_last_seen_ip = None, d_created_at = 0\<rparr>"

definition demo_db :: server_db where
  "demo_db = empty_db [7] [demo_member 7 1] [demo_device 11 1, demo_device 12 1]"

lemma demo_db_inv: "stream_inv demo_db" "7 \<in> set (db_docs demo_db)"
  using empty_db_stream_inv by (simp_all add: demo_db_def) (simp add: empty_db_def)

text \<open>
  C2: from empty tables, whatever pushes, acks, snapshots and compactions sessions make, the
  updates stored for a doc carry consecutive seqs from some point up to the doc's counter, and no
  push is stored twice.
\<close>

theorem server_stream_dense:
  "dense_stream doc (fold run_db cs (empty_db docs members devices))"
  using fold_run_db_stream_inv [OF empty_db_stream_inv] by (simp add: stream_inv_def)



text \<open>
  C7: a push is idempotent. Sending the same blobs again (after a lost acknowledgement, say)
  changes nothing in the tables, reports nothing fresh, and returns the same acknowledgements.
\<close>

theorem push_retry_idempotent:
  assumes "stream_inv db" and "doc \<in> set (db_docs db)"
    and "insert_updates doc dev ps db = Inr (ins, db')"
  shows "insert_updates doc dev ps db' = Inr (\<lparr>iu_acks = iu_acks ins, iu_fresh = []\<rparr>, db')"
proof (cases "ps = []")
  case True
  with assms(3) show ?thesis by (auto simp: insert_updates_def)
next
  case False
  from insert_loop_appends [OF assms(1,2), of dev ps "\<lparr>iu_acks = [], iu_fresh = []\<rparr>"] assms(3) False
  obtain new where "appended doc dev ps db new db'" "iu_acks ins = map (ack_of doc dev db') ps"
    by (auto simp: insert_updates_def)
  with insert_loop_known [of ps doc dev db' "\<lparr>iu_acks = [], iu_fresh = []\<rparr>"] False show ?thesis
    by (simp add: insert_updates_def appended_def)
qed

theorem push_retry_idempotent_witness:
  "\<exists>ins db'. insert_updates 7 11 [demo_push 3] demo_db = Inr (ins, db') \<and>
     insert_updates 7 11 [demo_push 3] db' = Inr (\<lparr>iu_acks = iu_acks ins, iu_fresh = []\<rparr>, db')"
proof -
  obtain ins db' new where "insert_updates 7 11 [demo_push 3] demo_db = Inr (ins, db')"
    using insert_loop_appends [OF demo_db_inv, of 11 "[demo_push 3]" "\<lparr>iu_acks = [], iu_fresh = []\<rparr>"]
    by (auto simp: insert_updates_def)
  with push_retry_idempotent [OF demo_db_inv this] show ?thesis by blast
qed

text \<open>
  C14: acks only raise a device's frontier, and the horizon of a doc is at or below the frontier
  of every device that can open the doc (with the calling device's frontier taken as the value
  it reports).
\<close>

theorem horizon_below_every_device:
  assumes "frontiers_ok db" and "n < 2 ^ 63" and "k < 2 ^ 63"
    and "advance_last_acked_seq dev doc n db = Inr db'" and "syncs d doc db'"
  shows "frontiers_ok db' \<and> frontier dev doc db' = max (frontier dev doc db) (uint n) \<and>
    uint (doc_horizon doc caller k db') \<le> (if d = caller then uint k else frontier d doc db')"
  using advance_frontier(1,2) [OF assms(1,2,4)] horizon_le [OF _ assms(3,5), of caller] by simp

theorem horizon_below_every_device_witness:
  "uint (doc_horizon 7 11 9 (demo_db\<lparr>db_frontiers := [(12, 7) \<mapsto> 5]\<rparr>)) \<le> 5"
proof -
  let ?db = "demo_db\<lparr>db_frontiers := [(12, 7) \<mapsto> 5]\<rparr>"
  have f: "frontiers_ok demo_db" by (simp add: frontiers_ok_def demo_db_def empty_db_def)
  have a: "advance_last_acked_seq 12 7 5 demo_db = Inr ?db"
    using as_i64_nonneg [of 5] by (simp add: advance_last_acked_seq_def demo_db_def empty_db_def demo_device_def)
  have "syncs 12 7 ?db"
    by (simp add: syncs_def is_member_def demo_db_def empty_db_def demo_device_def demo_member_def)
  from horizon_below_every_device [OF f _ _ a this, of 9 11] show ?thesis
    by (simp add: frontier_def)
qed

text \<open>
  C13: from empty tables and through any calls, a doc that has snapshots serves a chain: a full
  snapshot and every delta stored after it, in order, ending at the latest row's frontier and
  compaction floor. A delta that does not link is never stored, so the chain is never cut.
\<close>

theorem bootstrap_chain_reaches_latest:
  assumes "db = fold run_db cs (empty_db docs members devices)" and "latest_row doc db = Some s"
  shows "\<exists>c f ys xs. snapshot_chain doc db = Some c \<and> s_from f = None \<and>
    doc_snaps doc db = xs @ f # ys \<and> ch_rows c = map chain_row (f # ys) \<and>
    ch_up_to_seq c = as_u64 (s_up_to s) \<and> ch_compaction_floor_seq c = as_u64 (s_floor s)"
proof -
  have i: "snap_inv db" using fold_run_db_snap_inv [OF empty_db_snap_inv] assms(1) by simp
  have "doc_snaps doc db \<noteq> []" "s = last (doc_snaps doc db)"
    using latest_row_eq [OF i, of doc] assms(2) by (auto split: if_splits)
  with snapshot_chain_latest [OF i] show ?thesis by blast
qed

theorem bootstrap_chain_reaches_latest_witness:
  "\<exists>c. snapshot_chain 7 (fold run_db
      [DbInsertSnapshot 7 10 4 None (demo_blob 1) (demo_blob 2),
       DbInsertSnapshot 7 20 9 (Some 10) (demo_blob 3) (demo_blob 4)] (empty_db [7] [] [])) = Some c \<and>
    ch_up_to_seq c = 20"
proof -
  let ?db = "fold run_db
      [DbInsertSnapshot 7 10 4 None (demo_blob 1) (demo_blob 2),
       DbInsertSnapshot 7 20 9 (Some 10) (demo_blob 3) (demo_blob 4)] (empty_db [7] [] [])"
  have "map_option s_up_to (latest_row 7 ?db) = Some (as_i64 20)" by code_simp
  then obtain s where s: "latest_row 7 ?db = Some s" "s_up_to s = as_i64 20" by auto
  from bootstrap_chain_reaches_latest [OF refl s(1)] s(2) show ?thesis by auto
qed

end
