(* ===== verification/Snapshot_Coordinator.thy ===== *)
theory Snapshot_Coordinator
  imports Protocol
begin

text \<open>
  \<open>server/src/sync/snapshot.rs\<close>: the coordinator that asks a caught-up device for a snapshot and
  holds one lease per doc while it waits. Instants and durations are natural numbers; the mutex
  makes each call one step.
\<close>

section \<open>State and operations\<close>

record active_lease =
  al_lease_id :: u64
  al_expires_at :: nat

datatype lease_state = LsIdle | LsActive active_lease

record coordinator =
  co_timeout :: nat
  co_threshold_blobs :: u64
  co_leases :: "uuid \<rightharpoonup> lease_state"
  co_next_lease_id :: u64

record prev_snapshot =
  ps_up_to_seq :: u64
  ps_compaction_floor_seq :: u64
  ps_up_to_vv :: encrypted_blob

datatype decision =
    Issue u64 u64 u64 "snapshot_base option" \<comment> \<open>lease, \<open>up_to_seq\<close>, \<open>compaction_floor_seq\<close>, base\<close>
  | Skip

datatype release_result = Accepted | Stale

definition coordinator_with_config :: "u64 \<Rightarrow> nat \<Rightarrow> coordinator" where
  "coordinator_with_config threshold timeout =
     \<lparr>co_timeout = timeout, co_threshold_blobs = threshold, co_leases = (\<lambda>_. None),
      co_next_lease_id = 1\<rparr>"

definition SNAPSHOT_THRESHOLD_BLOBS :: u64 where
  "SNAPSHOT_THRESHOLD_BLOBS = 500"

definition SNAPSHOT_TIMEOUT :: nat where
  "SNAPSHOT_TIMEOUT = 5 * 60"

definition coordinator_new :: coordinator where
  "coordinator_new = coordinator_with_config SNAPSHOT_THRESHOLD_BLOBS SNAPSHOT_TIMEOUT"

definition lease_blocks :: "lease_state option \<Rightarrow> nat \<Rightarrow> bool" where
  "lease_blocks ls now \<longleftrightarrow> (case ls of Some (LsActive l) \<Rightarrow> now < al_expires_at l | _ \<Rightarrow> False)"

definition evaluate ::
  "uuid \<Rightarrow> prev_snapshot option \<Rightarrow> u64 \<Rightarrow> u64 \<Rightarrow> u64 \<Rightarrow> nat \<Rightarrow> coordinator \<Rightarrow> decision \<times> coordinator" where
  "evaluate doc prev server_last_seq horizon_seq device_last_acked_seq now c =
     (let prev_up_to = (case prev of None \<Rightarrow> 0 | Some p \<Rightarrow> ps_up_to_seq p);
          prev_floor = (case prev of None \<Rightarrow> 0 | Some p \<Rightarrow> ps_compaction_floor_seq p)
      in if saturating_sub server_last_seq prev_up_to < co_threshold_blobs c then (Skip, c)
         else if device_last_acked_seq \<noteq> server_last_seq then (Skip, c)
         else if lease_blocks (co_leases c doc) now then (Skip, c)
         else
           let lease_id = co_next_lease_id c;
               c' = c\<lparr>co_next_lease_id := lease_id + 1,
                      co_leases := (co_leases c)(doc \<mapsto>
                        LsActive \<lparr>al_lease_id = lease_id, al_expires_at = now + co_timeout c\<rparr>)\<rparr>
           in (Issue lease_id device_last_acked_seq (max horizon_seq prev_floor)
                 (map_option (\<lambda>p. \<lparr>base_seq = ps_up_to_seq p, base_vv = ps_up_to_vv p\<rparr>) prev), c'))"

definition release :: "uuid \<Rightarrow> u64 \<Rightarrow> coordinator \<Rightarrow> release_result \<times> coordinator" where
  "release doc incoming_lease_id c =
     (case co_leases c doc of
        Some (LsActive l) \<Rightarrow>
          (if al_lease_id l = incoming_lease_id
           then (Accepted, c\<lparr>co_leases := (co_leases c)(doc \<mapsto> LsIdle)\<rparr>)
           else (Stale, c))
      | _ \<Rightarrow> (Stale, c))"

section \<open>Runs\<close>

datatype co_call =
    CoEvaluate uuid "prev_snapshot option" u64 u64 u64 nat
  | CoRelease uuid u64

datatype co_result = RDecision uuid decision | RRelease uuid u64 release_result

fun co_step :: "co_call \<Rightarrow> coordinator \<Rightarrow> co_result \<times> coordinator" where
  "co_step (CoEvaluate doc prev lst hz acked now) c =
     (case evaluate doc prev lst hz acked now c of (d, c') \<Rightarrow> (RDecision doc d, c'))"
| "co_step (CoRelease doc lease) c =
     (case release doc lease c of (r, c') \<Rightarrow> (RRelease doc lease r, c'))"

fun co_run :: "co_call list \<Rightarrow> coordinator \<Rightarrow> co_result list \<times> coordinator" where
  "co_run [] c = ([], c)"
| "co_run (x # xs) c =
     (case co_step x c of (r, c1) \<Rightarrow> (case co_run xs c1 of (rs, c2) \<Rightarrow> (r # rs, c2)))"

section \<open>One lease per doc\<close>

text \<open>Calls that leave the lease \<open>l\<close> of \<open>doc\<close> in place: evaluations of the doc before it
  expires, releases of other leases, anything about other docs.\<close>

fun keeps_lease :: "uuid \<Rightarrow> active_lease \<Rightarrow> co_call \<Rightarrow> bool" where
  "keeps_lease doc l (CoEvaluate d _ _ _ _ now) \<longleftrightarrow> (d = doc \<longrightarrow> now < al_expires_at l)"
| "keeps_lease doc l (CoRelease d lease) \<longleftrightarrow> (d = doc \<longrightarrow> lease \<noteq> al_lease_id l)"

lemma evaluate_other: "doc \<noteq> d \<Longrightarrow> co_leases (snd (evaluate d prev ls hz a now c)) doc = co_leases c doc"
  by (simp add: evaluate_def Let_def)

lemma release_other: "doc \<noteq> d \<Longrightarrow> co_leases (snd (release d lease c)) doc = co_leases c doc"
  by (simp add: release_def split: option.splits lease_state.splits)

lemma co_step_keeps:
  assumes "co_leases c doc = Some (LsActive l)" "keeps_lease doc l x" "co_step x c = (r, c')"
  shows "co_leases c' doc = Some (LsActive l) \<and> (\<forall>d. r = RDecision doc d \<longrightarrow> d = Skip) \<and>
    (\<forall>lease q. r = RRelease doc lease q \<longrightarrow> q = Stale)"
proof (cases x)
  case (CoEvaluate d prev ls hz a now)
  show ?thesis
  proof (cases "d = doc")
    case True
    then have "evaluate d prev ls hz a now c = (Skip, c)"
      using assms(1,2) CoEvaluate by (simp add: evaluate_def Let_def lease_blocks_def)
    then show ?thesis using assms(1,3) CoEvaluate by auto
  next
    case False
    then show ?thesis
      using assms(1,3) CoEvaluate evaluate_other [of doc d prev ls hz a now c]
      by (auto split: prod.splits)
  qed
next
  case (CoRelease d lease)
  show ?thesis
  proof (cases "d = doc")
    case True
    then have "release d lease c = (Stale, c)"
      using assms(1,2) CoRelease by (auto simp: release_def)
    then show ?thesis using assms(1,3) CoRelease by auto
  next
    case False
    then show ?thesis
      using assms(1,3) CoRelease release_other [of doc d lease c]
      by (auto split: prod.splits)
  qed
qed

lemma co_run_keeps:
  assumes "co_leases c doc = Some (LsActive l)" "list_all (keeps_lease doc l) xs" "co_run xs c = (rs, c')"
  shows "co_leases c' doc = Some (LsActive l) \<and> (\<forall>d. RDecision doc d \<in> set rs \<longrightarrow> d = Skip) \<and>
    (\<forall>lease q. RRelease doc lease q \<in> set rs \<longrightarrow> q = Stale)"
  using assms
proof (induction xs arbitrary: c rs)
  case (Cons x xs)
  obtain r c1 where c1: "co_step x c = (r, c1)" by fastforce
  obtain rs1 where c2: "co_run xs c1 = (rs1, c')" and s: "rs = r # rs1"
    using Cons.prems(3) c1 by (auto split: prod.splits)
  note h = co_step_keeps [OF Cons.prems(1) _ c1]
  from h Cons.prems(2) Cons.IH [OF _ _ c2] s show ?case by auto
qed auto

text \<open>
  C17: while a lease the coordinator issued for a doc has not expired and has not been released,
  no other snapshot is asked for on that doc and no other lease is accepted for it, whatever
  happens on other docs; the lease itself is then accepted, and only once.
\<close>

theorem lease_is_exclusive:
  assumes "evaluate doc prev lst hz acked now c = (Issue lease up_to fl base, c1)"
    and "l = \<lparr>al_lease_id = lease, al_expires_at = now + co_timeout c\<rparr>"
    and "list_all (keeps_lease doc l) calls" and "co_run calls c1 = (rs, c2)"
  shows "(\<forall>d. RDecision doc d \<in> set rs \<longrightarrow> d = Skip) \<and>
    (\<forall>i q. RRelease doc i q \<in> set rs \<longrightarrow> q = Stale) \<and>
    fst (release doc lease c2) = Accepted \<and>
    fst (release doc lease (snd (release doc lease c2))) = Stale"
proof -
  have "co_leases c1 doc = Some (LsActive l)"
    using assms(1,2) by (auto simp: evaluate_def Let_def split: if_splits)
  note h = co_run_keeps [OF this assms(3,4)]
  moreover have "release doc lease c2 = (Accepted, c2\<lparr>co_leases := (co_leases c2)(doc \<mapsto> LsIdle)\<rparr>)"
    using h assms(2) by (simp add: release_def)
  ultimately show ?thesis by (simp add: release_def)
qed

theorem lease_is_exclusive_witness:
  "fst (release 7 1 (snd (co_run [CoEvaluate 7 None 600 3 600 9, CoRelease 7 5]
      (snd (evaluate 7 None 500 2 500 4 coordinator_new))))) = Accepted"
proof -
  let ?c1 = "snd (evaluate 7 None 500 2 500 4 coordinator_new)"
  have e: "evaluate 7 None 500 2 500 4 coordinator_new = (Issue 1 500 2 None, ?c1)"
    by (simp add: evaluate_def Let_def coordinator_new_def coordinator_with_config_def
        saturating_sub_def SNAPSHOT_THRESHOLD_BLOBS_def lease_blocks_def)
  show ?thesis
    using lease_is_exclusive [OF e refl, of "[CoEvaluate 7 None 600 3 600 9, CoRelease 7 5]"]
    by (simp add: coordinator_new_def coordinator_with_config_def SNAPSHOT_TIMEOUT_def split_beta)
qed

section \<open>When a snapshot is asked for\<close>

lemma issue_iff:
  "fst (evaluate doc prev lst hz acked now c) = Issue lease up_to fl base \<longleftrightarrow>
     (let pu = (case prev of None \<Rightarrow> 0 | Some p \<Rightarrow> ps_up_to_seq p);
          pf = (case prev of None \<Rightarrow> 0 | Some p \<Rightarrow> ps_compaction_floor_seq p)
      in co_threshold_blobs c \<le> saturating_sub lst pu \<and> acked = lst \<and>
         \<not> lease_blocks (co_leases c doc) now \<and>
         lease = co_next_lease_id c \<and> up_to = acked \<and> fl = max hz pf \<and>
         base = map_option (\<lambda>p. \<lparr>base_seq = ps_up_to_seq p, base_vv = ps_up_to_vv p\<rparr>) prev)"
  by (auto simp: evaluate_def Let_def not_less)

text \<open>
  The comment on \<open>evaluate\<close> and \<open>spec/sync-protocol.md\<close> ask for strictly more new updates than
  the threshold; the code asks for a snapshot as soon as the threshold is met.
\<close>

lemma threshold_met_exactly_issues:
  assumes "saturating_sub lst (ps_up_to_seq p) = co_threshold_blobs c"
    and "\<not> lease_blocks (co_leases c doc) now"
  shows "fst (evaluate doc (Some p) lst hz lst now c) =
    Issue (co_next_lease_id c) lst (max hz (ps_compaction_floor_seq p))
      (Some \<lparr>base_seq = ps_up_to_seq p, base_vv = ps_up_to_vv p\<rparr>)"
  using assms by (simp add: issue_iff)

end
