(* ===== verification/Sessions.thy ===== *)
theory Sessions
  imports Protocol
begin

text \<open>
  \<open>server/src/sync/sessions.rs\<close>: the in-memory registry of connections that have a doc open, the
  broadcast of updates to them, and presence. A tokio \<open>mpsc\<close> channel is a bounded queue with a
  flag for its receiver; its sender lives in the registry, so the receiver sees the end of the
  stream once its subscriber is gone and its queue is drained. The registry's mutex makes every
  operation one step. \<open>enc\<close> is the MessagePack encoder of server frames, which may fail.
\<close>

section \<open>State\<close>

definition CHANNEL_CAPACITY :: nat where
  "CHANNEL_CAPACITY = 256"

datatype outbound = ObFrame bytes | ObClose bytes | ObUnbind

record subscriber =
  sub_id :: u64
  sub_device :: uuid
  sub_account :: uuid
  sub_email :: string

record channel =
  ch_queue :: "outbound list"
  ch_rx_open :: bool

record sessions =
  se_docs :: "uuid \<rightharpoonup> subscriber list"
  se_chans :: "u64 \<Rightarrow> channel"
  se_next_sub_id :: u64

definition closed_channel :: channel where
  "closed_channel = \<lparr>ch_queue = [], ch_rx_open = False\<rparr>"

definition sessions_new :: sessions where
  "sessions_new = \<lparr>se_docs = (\<lambda>_. None), se_chans = (\<lambda>_. closed_channel), se_next_sub_id = 1\<rparr>"

definition subs_of :: "uuid \<Rightarrow> sessions \<Rightarrow> subscriber list" where
  "subs_of doc S = (case se_docs S doc of None \<Rightarrow> [] | Some subs \<Rightarrow> subs)"

section \<open>Channels\<close>

definition can_send :: "u64 \<Rightarrow> sessions \<Rightarrow> bool" where
  "can_send i S \<longleftrightarrow> ch_rx_open (se_chans S i) \<and> length (ch_queue (se_chans S i)) < CHANNEL_CAPACITY"

text \<open>\<open>Sender::try_send\<close>: whether it succeeded, and the channels after it.\<close>

definition try_send :: "u64 \<Rightarrow> outbound \<Rightarrow> sessions \<Rightarrow> bool \<times> sessions" where
  "try_send i m S =
     (if can_send i S
      then (True, S\<lparr>se_chans := (se_chans S)(i := (se_chans S i)\<lparr>ch_queue := ch_queue (se_chans S i) @ [m]\<rparr>)\<rparr>)
      else (False, S))"

datatype recv_result = RecvMsg outbound | RecvClosed | RecvPending

definition registered :: "u64 \<Rightarrow> uuid \<Rightarrow> sessions \<Rightarrow> bool" where
  "registered i doc S \<longleftrightarrow> i \<in> sub_id ` set (subs_of doc S)"

text \<open>\<open>Receiver::poll_recv\<close> of the subscription \<open>i\<close> on \<open>doc\<close>.\<close>

definition poll_recv :: "uuid \<Rightarrow> u64 \<Rightarrow> sessions \<Rightarrow> recv_result \<times> sessions" where
  "poll_recv doc i S =
     (case ch_queue (se_chans S i) of
        m # ms \<Rightarrow> (RecvMsg m, S\<lparr>se_chans := (se_chans S)(i := (se_chans S i)\<lparr>ch_queue := ms\<rparr>)\<rparr>)
      | [] \<Rightarrow> (if registered i doc S then RecvPending else RecvClosed, S))"

section \<open>Presence\<close>

definition present_accounts :: "subscriber list \<Rightarrow> present_account list" where
  "present_accounts subs =
     fold (\<lambda>s out. if list_ex (\<lambda>p. pr_account_id p = sub_account s) out then out
                   else out @ [\<lparr>pr_account_id = sub_account s, pr_email = sub_email s\<rparr>]) subs []"

definition account_set :: "subscriber list \<Rightarrow> uuid set" where
  "account_set subs = sub_account ` set subs"

definition send_presence ::
  "(server_frame \<Rightarrow> bytes option) \<Rightarrow> uuid \<Rightarrow> subscriber list \<Rightarrow> u64 option \<Rightarrow> sessions \<Rightarrow> sessions" where
  "send_presence enc doc subs only S =
     (case enc (Presence doc (present_accounts subs)) of
        None \<Rightarrow> S
      | Some b \<Rightarrow>
          fold (\<lambda>s S. if (case only of None \<Rightarrow> False | Some i \<Rightarrow> i \<noteq> sub_id s) then S
                      else snd (try_send (sub_id s) (ObFrame b) S)) subs S)"

section \<open>Registry operations\<close>

definition subscribe ::
  "(server_frame \<Rightarrow> bytes option) \<Rightarrow> uuid \<Rightarrow> uuid \<Rightarrow> uuid \<Rightarrow> string \<Rightarrow> sessions \<Rightarrow> u64 \<times> sessions" where
  "subscribe enc doc device account email S =
     (let i = se_next_sub_id S;
          before = account_set (subs_of doc S);
          subs = subs_of doc S @
            [\<lparr>sub_id = i, sub_device = device, sub_account = account, sub_email = email\<rparr>];
          S1 = S\<lparr>se_next_sub_id := i + 1,
                 se_chans := (se_chans S)(i := \<lparr>ch_queue = [], ch_rx_open = True\<rparr>),
                 se_docs := (se_docs S)(doc \<mapsto> subs)\<rparr>;
          after = account_set subs
      in (i, if card after > 1
             then send_presence enc doc subs (if after \<noteq> before then None else Some i) S1
             else S1))"

definition unsubscribe ::
  "(server_frame \<Rightarrow> bytes option) \<Rightarrow> uuid \<Rightarrow> u64 \<Rightarrow> sessions \<Rightarrow> sessions" where
  "unsubscribe enc doc i S =
     (case se_docs S doc of
        None \<Rightarrow> S
      | Some subs \<Rightarrow>
          (let subs' = filter (\<lambda>s. sub_id s \<noteq> i) subs
           in if subs' = [] then S\<lparr>se_docs := (se_docs S)(doc := None)\<rparr>
              else
                let S1 = S\<lparr>se_docs := (se_docs S)(doc \<mapsto> subs')\<rparr>
                in if account_set subs' \<noteq> account_set subs
                   then send_presence enc doc subs' None S1 else S1))"

text \<open>Dropping a \<open>Subscription\<close>: deregister, then drop the receiver.\<close>

definition drop_subscription ::
  "(server_frame \<Rightarrow> bytes option) \<Rightarrow> uuid \<Rightarrow> u64 \<Rightarrow> sessions \<Rightarrow> sessions" where
  "drop_subscription enc doc i S =
     (let S1 = unsubscribe enc doc i S
      in S1\<lparr>se_chans := (se_chans S1)(i := closed_channel)\<rparr>)"

text \<open>One pass of \<open>Vec::retain\<close> with a send in its predicate: the survivors and a count.\<close>

fun retain_send ::
  "(subscriber \<Rightarrow> sessions \<Rightarrow> bool \<times> bool \<times> sessions) \<Rightarrow> subscriber list \<Rightarrow> sessions
     \<Rightarrow> subscriber list \<times> nat \<times> sessions" where
  "retain_send f [] S = ([], 0, S)"
| "retain_send f (s # ss) S =
     (let (keep, told, S1) = f s S;
          (kept, n, S2) = retain_send f ss S1
      in ((if keep then [s] else []) @ kept, (if told then Suc n else n), S2))"

definition broadcast ::
  "(server_frame \<Rightarrow> bytes option) \<Rightarrow> uuid \<Rightarrow> u64 \<Rightarrow> stored_blob list \<Rightarrow> sessions \<Rightarrow> nat \<times> sessions" where
  "broadcast enc doc exclude_sub updates S =
     (if updates = [] then (0, S)
      else case enc (UpdatesBroadcast doc updates) of
             None \<Rightarrow> (0, S)
           | Some b \<Rightarrow>
               (case se_docs S doc of
                  None \<Rightarrow> (0, S)
                | Some subs \<Rightarrow>
                    (let (kept, n, S1) =
                           retain_send (\<lambda>s S.
                             if sub_id s = exclude_sub then (True, False, S)
                             else let (ok, S') = try_send (sub_id s) (ObFrame b) S
                                  in (ok, ok, S')) subs S
                     in (n, S1\<lparr>se_docs := (se_docs S1)(doc \<mapsto> kept)\<rparr>))))"

definition close_for_account ::
  "(server_frame \<Rightarrow> bytes option) \<Rightarrow> uuid \<Rightarrow> uuid \<Rightarrow> string \<Rightarrow> sessions \<Rightarrow> nat \<times> sessions" where
  "close_for_account enc doc account reason S =
     (case enc (DocClosed doc reason) of
        None \<Rightarrow> (0, S)
      | Some b \<Rightarrow>
          (case se_docs S doc of
             None \<Rightarrow> (0, S)
           | Some subs \<Rightarrow>
               (let (kept, n, S1) =
                      retain_send (\<lambda>s S.
                        if sub_account s \<noteq> account then (True, False, S)
                        else let (ok, S') = try_send (sub_id s) (ObClose b) S
                             in (False, ok, S')) subs S
                in (n,
                    if kept = [] then S1\<lparr>se_docs := (se_docs S1)(doc := None)\<rparr>
                    else
                      let S2 = S1\<lparr>se_docs := (se_docs S1)(doc \<mapsto> kept)\<rparr>
                      in if account_set kept \<noteq> account_set subs
                         then send_presence enc doc kept None S2 else S2))))"

definition close_doc ::
  "(server_frame \<Rightarrow> bytes option) \<Rightarrow> uuid \<Rightarrow> uuid option \<Rightarrow> string \<Rightarrow> sessions \<Rightarrow> nat \<times> sessions" where
  "close_doc enc doc except_device reason S =
     (case enc (DocClosed doc reason) of
        None \<Rightarrow> (0, S)
      | Some b \<Rightarrow>
          (case se_docs S doc of
             None \<Rightarrow> (0, S)
           | Some subs \<Rightarrow>
               (let (_, n, S1) =
                      retain_send (\<lambda>s S.
                        if Some (sub_device s) = except_device
                        then (False, False, snd (try_send (sub_id s) ObUnbind S))
                        else let (ok, S') = try_send (sub_id s) (ObClose b) S
                             in (False, ok, S')) subs
                        (S\<lparr>se_docs := (se_docs S)(doc := None)\<rparr>)
                in (n, S1))))"

section \<open>Observers\<close>

definition subscriber_ids :: "uuid \<Rightarrow> sessions \<Rightarrow> u64 list" where
  "subscriber_ids doc S = map sub_id (subs_of doc S)"

definition subscriber_count :: "uuid \<Rightarrow> sessions \<Rightarrow> nat" where
  "subscriber_count doc S = length (subs_of doc S)"

definition present_on :: "uuid \<Rightarrow> sessions \<Rightarrow> present_account list" where
  "present_on doc S = present_accounts (subs_of doc S)"

definition connected_subscribers :: "uuid \<Rightarrow> sessions \<Rightarrow> (u64 \<times> uuid) list" where
  "connected_subscribers doc S = map (\<lambda>s. (sub_id s, sub_device s)) (subs_of doc S)"

section \<open>The registry invariant\<close>

text \<open>
  Subscriber ids are unique across the registry and below the counter, and every registered
  subscriber's receiver is alive. (The counter is a process-wide \<open>u64\<close>; it does not wrap.)
\<close>

definition all_subs :: "sessions \<Rightarrow> subscriber set" where
  "all_subs S = (\<Union>doc. set (subs_of doc S))"

definition sess_inv :: "sessions \<Rightarrow> bool" where
  "sess_inv S \<longleftrightarrow>
     (\<forall>doc. distinct (map sub_id (subs_of doc S))) \<and>
     (\<forall>d d'. d \<noteq> d' \<longrightarrow> sub_id ` set (subs_of d S) \<inter> sub_id ` set (subs_of d' S) = {}) \<and>
     (\<forall>s \<in> all_subs S. sub_id s < se_next_sub_id S)"

lemma try_send_docs [simp]:
  "se_docs (snd (try_send i m S)) = se_docs S" "se_next_sub_id (snd (try_send i m S)) = se_next_sub_id S"
  by (simp_all add: try_send_def)

lemma try_send_other: "j \<noteq> i \<Longrightarrow> se_chans (snd (try_send i m S)) j = se_chans S j"
  by (simp add: try_send_def)

lemma fold_keeps: "(\<And>s S. P (f s S) = P S) \<Longrightarrow> P (fold f ss S) = (P S)"
  by (induction ss arbitrary: S) simp_all

lemma send_presence_docs [simp]:
  "se_docs (send_presence enc doc subs only S) = se_docs S"
  "se_next_sub_id (send_presence enc doc subs only S) = se_next_sub_id S"
  unfolding send_presence_def
  by (auto split: option.split intro!: fold_keeps)

text \<open>A pass that keeps and sends as its subscriber's own channel decides.\<close>

lemma retain_send_docs:
  assumes "\<And>s S. se_docs (snd (snd (f s S))) = se_docs S"
    and "\<And>s S. se_next_sub_id (snd (snd (f s S))) = se_next_sub_id S"
  shows "se_docs (snd (snd (retain_send f ss S))) = se_docs S"
    "se_next_sub_id (snd (snd (retain_send f ss S))) = se_next_sub_id S"
proof -
  have "se_docs (snd (snd (retain_send f ss S))) = se_docs S \<and>
    se_next_sub_id (snd (snd (retain_send f ss S))) = se_next_sub_id S"
  proof (induction ss arbitrary: S)
    case (Cons s ss)
    obtain k t S1 where f: "f s S = (k, t, S1)" by (metis prod_cases3)
    show ?case using Cons.IH [of S1] assms [of s S] f by (simp add: Let_def split_beta)
  qed simp
  then show "se_docs (snd (snd (retain_send f ss S))) = se_docs S"
    "se_next_sub_id (snd (snd (retain_send f ss S))) = se_next_sub_id S" by simp_all
qed

lemma retain_send_local:
  assumes "distinct (map sub_id ss)"
    and chan: "\<And>s S j. j \<noteq> sub_id s \<Longrightarrow> se_chans (snd (snd (f s S))) j = se_chans S j"
    and locl: "\<And>s S S'. se_chans S (sub_id s) = se_chans S' (sub_id s) \<Longrightarrow>
      fst (f s S) = fst (f s S') \<and> fst (snd (f s S)) = fst (snd (f s S')) \<and>
      se_chans (snd (snd (f s S))) (sub_id s) = se_chans (snd (snd (f s S'))) (sub_id s)"
  shows "fst (retain_send f ss S) = filter (\<lambda>s. fst (f s S)) ss \<and>
    fst (snd (retain_send f ss S)) = length (filter (\<lambda>s. fst (snd (f s S))) ss) \<and>
    (\<forall>s \<in> set ss. se_chans (snd (snd (retain_send f ss S))) (sub_id s) = se_chans (snd (snd (f s S))) (sub_id s)) \<and>
    (\<forall>j. j \<notin> sub_id ` set ss \<longrightarrow> se_chans (snd (snd (retain_send f ss S))) j = se_chans S j)"
  using assms(1)
proof (induction ss arbitrary: S)
  case Nil
  then show ?case by simp
next
  case (Cons s ss)
  obtain k t S1 where f: "f s S = (k, t, S1)" by (metis prod_cases3)
  have same: "se_chans S1 (sub_id x) = se_chans S (sub_id x)" if "x \<in> set ss" for x
    using chan [of "sub_id x" s S] f that Cons.prems by (auto simp: image_iff)
  note l = locl [OF same]
  have fl: "filter (\<lambda>x. fst (f x S1)) ss = filter (\<lambda>x. fst (f x S)) ss"
    "filter (\<lambda>x. fst (snd (f x S1))) ss = filter (\<lambda>x. fst (snd (f x S))) ss"
    using l by (auto intro!: filter_cong)
  have IH: "fst (retain_send f ss S1) = filter (\<lambda>x. fst (f x S)) ss"
    "fst (snd (retain_send f ss S1)) = length (filter (\<lambda>x. fst (snd (f x S))) ss)"
    "\<forall>x \<in> set ss. se_chans (snd (snd (retain_send f ss S1))) (sub_id x) = se_chans (snd (snd (f x S))) (sub_id x)"
    "\<forall>j. j \<notin> sub_id ` set ss \<longrightarrow> se_chans (snd (snd (retain_send f ss S1))) j = se_chans S1 j"
    using Cons.IH [of S1] Cons.prems fl l by simp_all
  have st: "snd (snd (retain_send f (s # ss) S)) = snd (snd (retain_send f ss S1))"
    using f by (simp add: Let_def split_beta)
  have "fst (retain_send f (s # ss) S) = filter (\<lambda>x. fst (f x S)) (s # ss)"
    "fst (snd (retain_send f (s # ss) S)) = length (filter (\<lambda>x. fst (snd (f x S))) (s # ss))"
    using f IH(1,2) by (simp_all add: Let_def split_beta)
  moreover have "\<forall>x \<in> set (s # ss). se_chans (snd (snd (retain_send f (s # ss) S))) (sub_id x) =
      se_chans (snd (snd (f x S))) (sub_id x)"
    unfolding st using IH(3,4) f Cons.prems by auto
  moreover have "\<forall>j. j \<notin> sub_id ` set (s # ss) \<longrightarrow> se_chans (snd (snd (retain_send f (s # ss) S))) j = se_chans S j"
    unfolding st using IH(4) chan [of _ s S] f by auto
  ultimately show ?case by blast
qed

lemma subs_of_update [simp]:
  "subs_of d (S\<lparr>se_docs := (se_docs S)(doc := x)\<rparr>) =
     (if d = doc then (case x of None \<Rightarrow> [] | Some subs \<Rightarrow> subs) else subs_of d S)"
  by (simp add: subs_of_def)

lemma subs_of_cong: "se_docs S' = se_docs S \<Longrightarrow> subs_of d S' = subs_of d S"
  by (simp add: subs_of_def)

lemma sess_inv_filter:
  assumes "sess_inv S" "se_next_sub_id S' = se_next_sub_id S"
    and "\<And>d. \<exists>P. subs_of d S' = filter P (subs_of d S)"
  shows "sess_inv S'"
proof -
  have sub: "set (subs_of d S') \<subseteq> set (subs_of d S)" for d
    using assms(3) [of d] by auto
  have "distinct (map sub_id (subs_of d S'))" for d
    using assms(1) assms(3) [of d] by (auto simp: sess_inv_def distinct_map_filter)
  moreover have "sub_id ` set (subs_of d S') \<inter> sub_id ` set (subs_of d' S') = {}" if "d \<noteq> d'" for d d'
    using assms(1) that sub [of d] sub [of d'] unfolding sess_inv_def by blast
  moreover have "all_subs S' \<subseteq> all_subs S" using sub by (auto simp: all_subs_def)
  ultimately show ?thesis
    using assms(1,2) by (auto simp: sess_inv_def)
qed

section \<open>Broadcast\<close>

abbreviation broadcast_to :: "u64 \<Rightarrow> bytes \<Rightarrow> subscriber \<Rightarrow> sessions \<Rightarrow> bool \<times> bool \<times> sessions" where
  "broadcast_to ex b s S \<equiv>
     (if sub_id s = ex then (True, False, S)
      else let (ok, S') = try_send (sub_id s) (ObFrame b) S in (ok, ok, S'))"

lemma broadcast_pass:
  assumes "distinct (map sub_id ss)"
  shows "fst (retain_send (broadcast_to ex b) ss S) = filter (\<lambda>s. sub_id s = ex \<or> can_send (sub_id s) S) ss"
    "fst (snd (retain_send (broadcast_to ex b) ss S)) =
       length (filter (\<lambda>s. sub_id s \<noteq> ex \<and> can_send (sub_id s) S) ss)"
    "s \<in> set ss \<Longrightarrow> se_chans (snd (snd (retain_send (broadcast_to ex b) ss S))) (sub_id s) =
       (if sub_id s \<noteq> ex \<and> can_send (sub_id s) S
        then (se_chans S (sub_id s))\<lparr>ch_queue := ch_queue (se_chans S (sub_id s)) @ [ObFrame b]\<rparr>
        else se_chans S (sub_id s))"
    "j \<notin> sub_id ` set ss \<Longrightarrow> se_chans (snd (snd (retain_send (broadcast_to ex b) ss S))) j = se_chans S j"
proof -
  have c: "se_chans (snd (snd (broadcast_to ex b s S))) j = se_chans S j" if "j \<noteq> sub_id s" for s S j
    using try_send_other [OF that] by (simp add: split_beta)
  have l: "fst (broadcast_to ex b s S) = fst (broadcast_to ex b s S') \<and>
      fst (snd (broadcast_to ex b s S)) = fst (snd (broadcast_to ex b s S')) \<and>
      se_chans (snd (snd (broadcast_to ex b s S))) (sub_id s) = se_chans (snd (snd (broadcast_to ex b s S'))) (sub_id s)"
    if "se_chans S (sub_id s) = se_chans S' (sub_id s)" for s S S'
    using that by (auto simp: try_send_def can_send_def)
  note r = retain_send_local [of ss "broadcast_to ex b", OF assms c l, of S]
  have k: "fst (broadcast_to ex b s S) \<longleftrightarrow> sub_id s = ex \<or> can_send (sub_id s) S"
    "fst (snd (broadcast_to ex b s S)) \<longleftrightarrow> sub_id s \<noteq> ex \<and> can_send (sub_id s) S" for s
    by (simp_all add: try_send_def)
  show "fst (retain_send (broadcast_to ex b) ss S) = filter (\<lambda>s. sub_id s = ex \<or> can_send (sub_id s) S) ss"
    "fst (snd (retain_send (broadcast_to ex b) ss S)) =
       length (filter (\<lambda>s. sub_id s \<noteq> ex \<and> can_send (sub_id s) S) ss)"
    using r unfolding k by blast+
  show "se_chans (snd (snd (retain_send (broadcast_to ex b) ss S))) (sub_id s) =
       (if sub_id s \<noteq> ex \<and> can_send (sub_id s) S
        then (se_chans S (sub_id s))\<lparr>ch_queue := ch_queue (se_chans S (sub_id s)) @ [ObFrame b]\<rparr>
        else se_chans S (sub_id s))" if "s \<in> set ss"
  proof -
    have "se_chans (snd (snd (retain_send (broadcast_to ex b) ss S))) (sub_id s) =
        se_chans (snd (snd (broadcast_to ex b s S))) (sub_id s)"
      using r that by blast
    then show ?thesis by (simp add: try_send_def)
  qed
  show "se_chans (snd (snd (retain_send (broadcast_to ex b) ss S))) j = se_chans S j" if "j \<notin> sub_id ` set ss"
    using r that by blast
qed

lemma broadcast_spec:
  assumes "sess_inv S" "ups \<noteq> []" "enc (UpdatesBroadcast doc ups) = Some b" "se_docs S doc = Some subs"
    and "broadcast enc doc ex ups S = (n, S')"
  shows "subs_of doc S' = filter (\<lambda>s. sub_id s = ex \<or> can_send (sub_id s) S) subs"
    and "d \<noteq> doc \<Longrightarrow> subs_of d S' = subs_of d S"
    and "se_next_sub_id S' = se_next_sub_id S"
    and "n = length (filter (\<lambda>s. sub_id s \<noteq> ex \<and> can_send (sub_id s) S) subs)"
    and "s \<in> set subs \<Longrightarrow> se_chans S' (sub_id s) =
       (if sub_id s \<noteq> ex \<and> can_send (sub_id s) S
        then (se_chans S (sub_id s))\<lparr>ch_queue := ch_queue (se_chans S (sub_id s)) @ [ObFrame b]\<rparr>
        else se_chans S (sub_id s))"
    and "j \<notin> sub_id ` set subs \<Longrightarrow> se_chans S' j = se_chans S j"
proof -
  let ?R = "retain_send (broadcast_to ex b) subs S"
  have ds: "distinct (map sub_id subs)"
    using assms(1,4) unfolding sess_inv_def subs_of_def by (metis option.simps(5))
  have b: "n = fst (snd ?R)" "S' = (snd (snd ?R))\<lparr>se_docs := (se_docs (snd (snd ?R)))(doc \<mapsto> fst ?R)\<rparr>"
    using assms(2-5) by (simp_all add: broadcast_def split_beta Let_def)
  have docs: "se_docs (snd (snd ?R)) = se_docs S" "se_next_sub_id (snd (snd ?R)) = se_next_sub_id S"
    by (rule retain_send_docs; simp add: split_beta)+
  note p = broadcast_pass [OF ds, where ex = ex and b = b and S = S]
  show "subs_of doc S' = filter (\<lambda>s. sub_id s = ex \<or> can_send (sub_id s) S) subs"
    unfolding b(2) by (simp add: p(1))
  show "d \<noteq> doc \<Longrightarrow> subs_of d S' = subs_of d S"
    unfolding b(2) by (simp add: subs_of_cong [OF docs(1)])
  show "se_next_sub_id S' = se_next_sub_id S" unfolding b(2) by (simp add: docs(2))
  show "n = length (filter (\<lambda>s. sub_id s \<noteq> ex \<and> can_send (sub_id s) S) subs)"
    unfolding b(1) by (rule p(2))
  show "s \<in> set subs \<Longrightarrow> se_chans S' (sub_id s) =
       (if sub_id s \<noteq> ex \<and> can_send (sub_id s) S
        then (se_chans S (sub_id s))\<lparr>ch_queue := ch_queue (se_chans S (sub_id s)) @ [ObFrame b]\<rparr>
        else se_chans S (sub_id s))"
    unfolding b(2) using p(3) by simp
  show "j \<notin> sub_id ` set subs \<Longrightarrow> se_chans S' j = se_chans S j"
    unfolding b(2) using p(4) by simp
qed

section \<open>Presence frames\<close>

lemma present_accounts_append1:
  "present_accounts (subs @ [s]) =
     (if sub_account s \<in> pr_account_id ` set (present_accounts subs) then present_accounts subs
      else present_accounts subs @ [\<lparr>pr_account_id = sub_account s, pr_email = sub_email s\<rparr>])"
  by (force simp: present_accounts_def list_ex_iff)

lemma present_accounts_exact:
  "distinct (map pr_account_id (present_accounts subs)) \<and>
   pr_account_id ` set (present_accounts subs) = account_set subs"
proof (induction subs rule: rev_induct)
  case Nil
  then show ?case by (simp add: present_accounts_def account_set_def)
next
  case (snoc s subs)
  then show ?case
    by (auto simp: present_accounts_append1 account_set_def)
qed

lemma send_presence_chans:
  assumes "distinct (map sub_id subs)" "enc (Presence doc (present_accounts subs)) = Some b"
  shows "se_chans (send_presence enc doc subs None S) j =
    (if j \<in> sub_id ` set subs \<and> can_send j S
     then (se_chans S j)\<lparr>ch_queue := ch_queue (se_chans S j) @ [ObFrame b]\<rparr> else se_chans S j)"
proof -
  have "se_chans (fold (\<lambda>s S. snd (try_send (sub_id s) (ObFrame b) S)) ss S) j =
    (if j \<in> sub_id ` set ss \<and> can_send j S
     then (se_chans S j)\<lparr>ch_queue := ch_queue (se_chans S j) @ [ObFrame b]\<rparr> else se_chans S j)"
    if "distinct (map sub_id ss)" for ss
    using that
  proof (induction ss arbitrary: S)
    case (Cons s ss)
    let ?S = "snd (try_send (sub_id s) (ObFrame b) S)"
    show ?case
    proof (cases "j = sub_id s")
      case True
      then have "j \<notin> sub_id ` set ss" using Cons.prems by auto
      with True Cons.IH [of ?S] Cons.prems show ?thesis by (simp add: try_send_def)
    next
      case False
      then have "se_chans ?S j = se_chans S j" by (rule try_send_other)
      with False Cons.IH [of ?S] Cons.prems show ?thesis by (auto simp: can_send_def)
    qed
  qed simp
  from this [OF assms(1)] show ?thesis by (simp add: send_presence_def assms(2))
qed

section \<open>Every operation keeps the invariant\<close>

datatype se_call =
    SeSubscribe uuid uuid uuid string
  | SeDrop uuid u64
  | SeBroadcast uuid u64 "stored_blob list"
  | SeCloseAccount uuid uuid string
  | SeCloseDoc uuid "uuid option" string
  | SeRecv uuid u64

fun run_se :: "(server_frame \<Rightarrow> bytes option) \<Rightarrow> se_call \<Rightarrow> sessions \<Rightarrow> sessions" where
  "run_se enc (SeSubscribe doc dev acc email) S = snd (subscribe enc doc dev acc email S)"
| "run_se enc (SeDrop doc i) S = drop_subscription enc doc i S"
| "run_se enc (SeBroadcast doc ex ups) S = snd (broadcast enc doc ex ups S)"
| "run_se enc (SeCloseAccount doc acc reason) S = snd (close_for_account enc doc acc reason S)"
| "run_se enc (SeCloseDoc doc dev reason) S = snd (close_doc enc doc dev reason S)"
| "run_se enc (SeRecv doc i) S = snd (poll_recv doc i S)"

lemma sess_inv_same: "sess_inv S \<Longrightarrow> se_docs S' = se_docs S \<Longrightarrow> se_next_sub_id S' = se_next_sub_id S \<Longrightarrow> sess_inv S'"
  by (simp add: sess_inv_def all_subs_def subs_of_def)

lemma sess_inv_subscribe:
  assumes "sess_inv S" "se_next_sub_id S \<noteq> - 1"
  shows "sess_inv (snd (subscribe enc doc dev acc email S))"
proof -
  let ?i = "se_next_sub_id S"
  let ?s = "\<lparr>sub_id = ?i, sub_device = dev, sub_account = acc, sub_email = email\<rparr>"
  let ?S = "S\<lparr>se_next_sub_id := ?i + 1, se_chans := (se_chans S)(?i := \<lparr>ch_queue = [], ch_rx_open = True\<rparr>),
    se_docs := (se_docs S)(doc \<mapsto> subs_of doc S @ [?s])\<rparr>"
  have subs: "subs_of d ?S = (if d = doc then subs_of doc S @ [?s] else subs_of d S)" for d
    by (simp add: subs_of_def)
  have lt: "sub_id s < ?i" if "s \<in> set (subs_of d S)" for s d
    using assms(1) that by (auto simp: sess_inv_def all_subs_def)
  have fresh: "?i \<notin> sub_id ` set (subs_of d S)" for d using lt [of _ d] by fastforce
  have "distinct (map sub_id (subs_of d ?S))" for d
    using assms(1) fresh [of doc] by (simp add: subs sess_inv_def)
  moreover have "sub_id ` set (subs_of d ?S) \<inter> sub_id ` set (subs_of d' ?S) = {}" if "d \<noteq> d'" for d d'
    using assms(1) that fresh [of d] fresh [of d'] unfolding subs sess_inv_def by auto
  moreover have "sub_id s < ?i + 1" if "s \<in> all_subs ?S" for s
  proof -
    have "sub_id s \<le> ?i" using that lt by (auto simp: all_subs_def subs less_imp_le split: if_splits)
    then show ?thesis using u64_less_inc [OF assms(2)] by simp
  qed
  ultimately have "sess_inv ?S" by (simp add: sess_inv_def)
  then show ?thesis
    by (auto simp: subscribe_def Let_def intro: sess_inv_same)
qed

lemma retain_send_keep:
  "(\<And>s S. fst (f s S) = P s) \<Longrightarrow> fst (retain_send f ss S) = filter P ss"
  by (induction ss arbitrary: S) (simp_all add: Let_def split_beta)

lemma sess_inv_filter_doc:
  assumes "sess_inv S" "se_docs S doc = Some subs" "se_next_sub_id S' = se_next_sub_id S"
    and "subs_of doc S' = filter P subs" "\<And>d. d \<noteq> doc \<Longrightarrow> subs_of d S' = subs_of d S"
  shows "sess_inv S'"
proof (rule sess_inv_filter [OF assms(1,3)])
  fix d
  show "\<exists>P. subs_of d S' = filter P (subs_of d S)"
  proof (cases "d = doc")
    case True
    with assms(2,4) show ?thesis by (auto simp: subs_of_def)
  next
    case False
    with assms(5) have "subs_of d S' = filter (\<lambda>_. True) (subs_of d S)" by simp
    then show ?thesis by blast
  qed
qed

lemma subs_of_clear: "se_docs S doc = Some subs \<Longrightarrow> subs_of doc S = subs"
  by (simp add: subs_of_def)

lemma sess_inv_unsubscribe:
  assumes "sess_inv S"
  shows "sess_inv (unsubscribe enc doc i S)"
proof (cases "se_docs S doc")
  case None
  with assms show ?thesis by (simp add: unsubscribe_def)
next
  case (Some subs)
  let ?P = "\<lambda>s. sub_id s \<noteq> i"
  have "se_docs (unsubscribe enc doc i S) =
      (se_docs S)(doc := (if filter ?P subs = [] then None else Some (filter ?P subs)))"
    "se_next_sub_id (unsubscribe enc doc i S) = se_next_sub_id S"
    using Some by (simp_all add: unsubscribe_def Let_def)
  then show ?thesis
    by (intro sess_inv_filter_doc [OF assms Some, of _ ?P]) (simp_all add: subs_of_def)
qed

lemma close_account_docs:
  assumes "se_docs S doc = Some subs" "enc (DocClosed doc reason) = Some b"
  shows "se_docs (snd (close_for_account enc doc acc reason S)) =
      (se_docs S)(doc := (let kept = filter (\<lambda>s. sub_account s \<noteq> acc) subs in if kept = [] then None else Some kept))"
    "se_next_sub_id (snd (close_for_account enc doc acc reason S)) = se_next_sub_id S"
proof -
  let ?f = "\<lambda>s S. if sub_account s \<noteq> acc then (True, False, S)
    else let (ok, S') = try_send (sub_id s) (ObClose b) S in (False, ok, S')"
  have k: "fst (retain_send ?f subs S) = filter (\<lambda>s. sub_account s \<noteq> acc) subs"
    by (rule retain_send_keep) (simp add: split_beta)
  have d: "se_docs (snd (snd (retain_send ?f subs S))) = se_docs S"
    "se_next_sub_id (snd (snd (retain_send ?f subs S))) = se_next_sub_id S"
    by (rule retain_send_docs; simp add: split_beta)+
  show "se_docs (snd (close_for_account enc doc acc reason S)) =
      (se_docs S)(doc := (let kept = filter (\<lambda>s. sub_account s \<noteq> acc) subs in if kept = [] then None else Some kept))"
    "se_next_sub_id (snd (close_for_account enc doc acc reason S)) = se_next_sub_id S"
    using assms k d by (simp_all add: close_for_account_def Let_def split_beta)
qed

lemma close_doc_docs:
  assumes "se_docs S doc = Some subs" "enc (DocClosed doc reason) = Some b"
  shows "se_docs (snd (close_doc enc doc dev reason S)) = (se_docs S)(doc := None)"
    "se_next_sub_id (snd (close_doc enc doc dev reason S)) = se_next_sub_id S"
proof -
  let ?f = "\<lambda>s S. if Some (sub_device s) = dev then (False, False, snd (try_send (sub_id s) ObUnbind S))
    else let (ok, S') = try_send (sub_id s) (ObClose b) S in (False, ok, S')"
  have d: "se_docs (snd (snd (retain_send ?f subs S0))) = se_docs S0"
    "se_next_sub_id (snd (snd (retain_send ?f subs S0))) = se_next_sub_id S0" for S0
    by (rule retain_send_docs; simp add: split_beta)+
  show "se_docs (snd (close_doc enc doc dev reason S)) = (se_docs S)(doc := None)"
    "se_next_sub_id (snd (close_doc enc doc dev reason S)) = se_next_sub_id S"
    using assms d by (simp_all add: close_doc_def Let_def split_beta)
qed

lemma sess_inv_close_account:
  assumes "sess_inv S"
  shows "sess_inv (snd (close_for_account enc doc acc reason S))"
proof (cases "(\<exists>b. enc (DocClosed doc reason) = Some b) \<and> (\<exists>subs. se_docs S doc = Some subs)")
  case True
  then obtain b subs where b: "enc (DocClosed doc reason) = Some b" "se_docs S doc = Some subs" by blast
  show ?thesis
    by (rule sess_inv_filter_doc [OF assms b(2), of _ "\<lambda>s. sub_account s \<noteq> acc"])
      (simp_all add: close_account_docs [where enc = enc, OF b(2,1)] subs_of_def Let_def)
next
  case False
  then have "snd (close_for_account enc doc acc reason S) = S"
    by (auto simp: close_for_account_def split: option.splits)
  with assms show ?thesis by simp
qed

lemma sess_inv_close_doc:
  assumes "sess_inv S"
  shows "sess_inv (snd (close_doc enc doc dev reason S))"
proof (cases "(\<exists>b. enc (DocClosed doc reason) = Some b) \<and> (\<exists>subs. se_docs S doc = Some subs)")
  case True
  then obtain b subs where b: "enc (DocClosed doc reason) = Some b" "se_docs S doc = Some subs" by blast
  show ?thesis
    by (rule sess_inv_filter_doc [OF assms b(2), of _ "\<lambda>_. False"])
      (simp_all add: close_doc_docs [where enc = enc, OF b(2,1)] subs_of_def)
next
  case False
  then have "snd (close_doc enc doc dev reason S) = S"
    by (auto simp: close_doc_def split: option.splits)
  with assms show ?thesis by simp
qed

lemma sess_inv_run:
  assumes "sess_inv S" "se_next_sub_id S \<noteq> - 1"
  shows "sess_inv (run_se enc c S)"
proof (cases c)
  case (SeSubscribe doc dev acc email)
  with sess_inv_subscribe [OF assms] show ?thesis by simp
next
  case (SeDrop doc i)
  have "sess_inv (drop_subscription enc doc i S)"
    by (rule sess_inv_same [OF sess_inv_unsubscribe [OF assms(1)]]) (simp_all add: drop_subscription_def Let_def)
  with SeDrop show ?thesis by simp
next
  case (SeBroadcast doc ex ups)
  show ?thesis
  proof (cases "ups \<noteq> [] \<and> (\<exists>b. enc (UpdatesBroadcast doc ups) = Some b) \<and> (\<exists>subs. se_docs S doc = Some subs)")
    case True
    then obtain b subs where b: "ups \<noteq> []" "enc (UpdatesBroadcast doc ups) = Some b" "se_docs S doc = Some subs"
      by blast
    obtain n S' where S': "broadcast enc doc ex ups S = (n, S')" by fastforce
    note sp = broadcast_spec [OF assms(1) b S']
    have "sess_inv S'"
      by (rule sess_inv_filter_doc [OF assms(1) b(3) sp(3,1)]) (rule sp(2))
    with SeBroadcast S' show ?thesis by simp
  next
    case False
    then have "snd (broadcast enc doc ex ups S) = S"
      by (auto simp: broadcast_def split: option.splits)
    with SeBroadcast assms(1) show ?thesis by simp
  qed
next
  case (SeCloseAccount doc acc reason)
  with sess_inv_close_account [OF assms(1)] show ?thesis by simp
next
  case (SeCloseDoc doc dev reason)
  with sess_inv_close_doc [OF assms(1)] show ?thesis by simp
next
  case (SeRecv doc i)
  have "sess_inv (snd (poll_recv doc i S))"
    by (rule sess_inv_same [OF assms(1)]) (simp_all add: poll_recv_def split: list.splits)
  with SeRecv show ?thesis by simp
qed

section \<open>Properties\<close>

definition demo_senc :: "server_frame \<Rightarrow> bytes option" where
  "demo_senc f =
     (case f of
        UpdatesBroadcast _ us \<Rightarrow> Some (2 # map (\<lambda>u. ucast (sb_seq u)) us)
      | DocClosed _ _ \<Rightarrow> Some [3]
      | Presence _ ps \<Rightarrow> Some (4 # map (\<lambda>p. ucast (pr_account_id p)) ps)
      | _ \<Rightarrow> None)"

abbreviation full_queue :: "outbound list" where
  "full_queue \<equiv> replicate CHANNEL_CAPACITY ObUnbind"

text \<open>Two accounts on doc 7: subscriptions 1 and 2 of account 1, and 3 of account 2.\<close>

definition demo_sessions :: "outbound list \<Rightarrow> sessions" where
  "demo_sessions q =
     \<lparr>se_docs = [7 \<mapsto> [\<lparr>sub_id = 1, sub_device = 11, sub_account = 1, sub_email = ''a''\<rparr>,
                       \<lparr>sub_id = 2, sub_device = 12, sub_account = 1, sub_email = ''a''\<rparr>,
                       \<lparr>sub_id = 3, sub_device = 13, sub_account = 2, sub_email = ''b''\<rparr>]],
      se_chans = (\<lambda>i. if i = 3 then \<lparr>ch_queue = q, ch_rx_open = True\<rparr>
                      else \<lparr>ch_queue = [], ch_rx_open = True\<rparr>),
      se_next_sub_id = 4\<rparr>"

lemma demo_sessions_inv: "sess_inv (demo_sessions q)"
  by (auto simp: sess_inv_def demo_sessions_def subs_of_def all_subs_def split: if_splits)

lemma registered_subs: "registered i doc S \<longleftrightarrow> (\<exists>s \<in> set (subs_of doc S). sub_id s = i)"
  by (auto simp: registered_def)

text \<open>
  C18: a broadcast queues the frame, last, on the channel of every other connection of the doc
  that can take it, and drops from the registry exactly the connections that cannot; the
  originating connection and every channel outside the doc are untouched; the result is the number
  of connections reached.
\<close>

theorem broadcast_reaches_peers:
  assumes "sess_inv S" and "ups \<noteq> []" and "enc (UpdatesBroadcast doc ups) = Some b"
    and "se_docs S doc = Some subs" and "broadcast enc doc ex ups S = (n, S')"
  shows "n = length (filter (\<lambda>s. sub_id s \<noteq> ex \<and> can_send (sub_id s) S) subs) \<and>
    (\<forall>s \<in> set subs.
       if sub_id s = ex then registered ex doc S' \<and> se_chans S' ex = se_chans S ex
       else if can_send (sub_id s) S
       then registered (sub_id s) doc S' \<and>
            ch_queue (se_chans S' (sub_id s)) = ch_queue (se_chans S (sub_id s)) @ [ObFrame b]
       else \<not> registered (sub_id s) doc S' \<and> se_chans S' (sub_id s) = se_chans S (sub_id s)) \<and>
    (\<forall>j. j \<notin> sub_id ` set subs \<longrightarrow> se_chans S' j = se_chans S j) \<and>
    (\<forall>d. d \<noteq> doc \<longrightarrow> subs_of d S' = subs_of d S)"
proof -
  note sp = broadcast_spec [OF assms]
  have reg: "registered i doc S' \<longleftrightarrow> (\<exists>s \<in> set subs. sub_id s = i \<and> (i = ex \<or> can_send i S))" for i
    by (auto simp: registered_subs sp(1))
  show ?thesis
    using sp(2,4,5,6) by (auto simp: reg)
qed

theorem broadcast_reaches_peers_witness:
  "ch_queue (se_chans (snd (broadcast demo_senc 7 1 [\<lparr>sb_seq = 9, sb_blob = \<lparr>nonce = [], ciphertext = []\<rparr>\<rparr>]
      (demo_sessions []))) 2) = [ObFrame [2, 9]] \<and>
   fst (broadcast demo_senc 7 1 [\<lparr>sb_seq = 9, sb_blob = \<lparr>nonce = [], ciphertext = []\<rparr>\<rparr>] (demo_sessions [])) = 2"
proof -
  let ?u = "[\<lparr>sb_seq = 9, sb_blob = \<lparr>nonce = [], ciphertext = []\<rparr>\<rparr>]" and ?S = "demo_sessions []"
  obtain subs where subs: "se_docs ?S 7 = Some subs" "map sub_id subs = [1, 2, 3]"
    by (simp add: demo_sessions_def)
  have e: "demo_senc (UpdatesBroadcast 7 ?u) = Some [2, 9]" by (simp add: demo_senc_def)
  have c: "can_send i ?S" "ch_queue (se_chans ?S i) = []" for i
    by (simp_all add: can_send_def demo_sessions_def CHANNEL_CAPACITY_def)
  obtain n S' where b: "broadcast demo_senc 7 1 ?u ?S = (n, S')" by fastforce
  note h = broadcast_reaches_peers [where enc = demo_senc, OF demo_sessions_inv _ e subs(1) b]
  have "2 \<in> sub_id ` set subs" using arg_cong [OF subs(2), of set] by simp
  then obtain s where "s \<in> set subs" "sub_id s = 2" by force
  moreover have "length (filter (\<lambda>s. sub_id s \<noteq> 1) subs) = 2" using subs(2) by (auto simp: map_eq_Cons_conv)
  ultimately show ?thesis unfolding b using h c by (auto split: if_splits)
qed

text \<open>
  When a connection that was its account's last one on the doc goes away, every remaining
  connection with room is sent a presence frame that lists each account still there exactly once
  and no other.
\<close>

theorem leave_is_announced:
  assumes "sess_inv S" and "se_docs S doc = Some subs"
    and "rest = filter (\<lambda>s. sub_id s \<noteq> i) subs" and "rest \<noteq> []"
    and "account_set rest \<noteq> account_set subs"
    and "enc (Presence doc (present_accounts rest)) = Some b"
    and "S' = drop_subscription enc doc i S"
  shows "subs_of doc S' = rest \<and>
    distinct (map pr_account_id (present_accounts rest)) \<and>
    pr_account_id ` set (present_accounts rest) = account_set rest \<and>
    (\<forall>s \<in> set rest. can_send (sub_id s) S \<longrightarrow>
       ch_queue (se_chans S' (sub_id s)) = ch_queue (se_chans S (sub_id s)) @ [ObFrame b])"
proof -
  let ?S1 = "S\<lparr>se_docs := (se_docs S)(doc \<mapsto> rest)\<rparr>"
  have u: "unsubscribe enc doc i S = send_presence enc doc rest None ?S1"
    using assms(2-5) by (simp add: unsubscribe_def Let_def)
  have ds: "distinct (map sub_id rest)"
    using assms(1-3) by (auto simp: sess_inv_def subs_of_def distinct_map_filter dest!: spec [of _ doc])
  have ne: "sub_id s \<noteq> i" if "s \<in> set rest" for s using that assms(3) by simp
  have "subs_of doc S' = rest" using assms(7) u by (simp add: drop_subscription_def Let_def subs_of_def)
  moreover have "ch_queue (se_chans S' (sub_id s)) = ch_queue (se_chans S (sub_id s)) @ [ObFrame b]"
    if "s \<in> set rest" "can_send (sub_id s) S" for s
    using that ne [OF that(1)] send_presence_chans [where enc = enc, OF ds assms(6), of ?S1 "sub_id s"]
    by (simp add: assms(7) u drop_subscription_def Let_def can_send_def)
  ultimately show ?thesis using present_accounts_exact by blast
qed

theorem leave_is_announced_witness:
  "ch_queue (se_chans (drop_subscription demo_senc 7 3 (demo_sessions [])) 1) = [ObFrame [4, 1]]"
proof -
  let ?S = "demo_sessions []"
  obtain subs where subs: "se_docs ?S 7 = Some subs" "map sub_id subs = [1, 2, 3]"
      "map sub_account subs = [1, 1, 2]"
    by (simp add: demo_sessions_def)
  let ?rest = "filter (\<lambda>s. sub_id s \<noteq> 3) subs"
  have r: "map sub_account ?rest = [1, 1]" "map sub_id ?rest = [1, 2]"
    using subs(2,3) by (auto simp: map_eq_Cons_conv)
  have st: "account_set xs = set (map sub_account xs)" for xs by (simp add: account_set_def)
  have as: "account_set ?rest = {1}" "account_set subs = {1, 2}"
    unfolding st r(1) subs(3) by simp_all
  have "map pr_account_id (present_accounts ?rest) = [1]"
    using r(1) by (auto simp: map_eq_Cons_conv present_accounts_def)
  then have e: "demo_senc (Presence 7 (present_accounts ?rest)) = Some [4, 1]"
    by (auto simp: demo_senc_def map_eq_Cons_conv)
  have c: "can_send i ?S" "ch_queue (se_chans ?S i) = []" for i
    by (simp_all add: can_send_def demo_sessions_def CHANNEL_CAPACITY_def)
  have ne: "?rest \<noteq> []" "account_set ?rest \<noteq> account_set subs" using r(1) as by auto
  have "1 \<in> sub_id ` set ?rest" using arg_cong [OF r(2), of set] by simp
  then obtain s where "s \<in> set ?rest" "sub_id s = 1" by force
  with leave_is_announced [where enc = demo_senc, OF demo_sessions_inv subs(1) refl ne e refl] c show ?thesis by fastforce
qed

text \<open>
  A live revocation takes every connection of the account off the doc, whatever the state of
  its channel, and leaves the other accounts' connections in place; a later broadcast on the doc
  does not touch the revoked connections' channels.
\<close>

theorem revoked_account_hears_nothing_more:
  assumes "sess_inv S" and "enc (DocClosed doc reason) = Some c" and "se_docs S doc = Some subs"
    and "close_for_account enc doc acc reason S = (told, S1)"
    and "broadcast enc doc ex ups S1 = (n, S2)"
  shows "subs_of doc S1 = filter (\<lambda>s. sub_account s \<noteq> acc) subs \<and>
    (\<forall>s \<in> set subs. sub_account s = acc \<longrightarrow>
       \<not> registered (sub_id s) doc S1 \<and> se_chans S2 (sub_id s) = se_chans S1 (sub_id s))"
proof -
  let ?kept = "filter (\<lambda>s. sub_account s \<noteq> acc) subs"
  have d: "se_docs S1 = (se_docs S)(doc := (if ?kept = [] then None else Some ?kept))"
    "se_next_sub_id S1 = se_next_sub_id S"
    using close_account_docs [where enc = enc, OF assms(3,2), of acc] assms(4) by (simp_all add: Let_def)
  have subs1: "subs_of doc S1 = ?kept" "d' \<noteq> doc \<Longrightarrow> subs_of d' S1 = subs_of d' S" for d'
    by (simp_all add: subs_of_def d)
  have i1: "sess_inv S1" by (rule sess_inv_filter_doc [OF assms(1,3) d(2) subs1])
  have ds: "distinct (map sub_id subs)"
    using assms(1,3) by (auto simp: sess_inv_def subs_of_def dest!: spec [of _ doc])
  have gone: "sub_id s \<notin> sub_id ` set ?kept" if "s \<in> set subs" "sub_account s = acc" for s
    using ds that by (auto simp: distinct_map inj_on_def)
  have same: "se_chans S2 (sub_id s) = se_chans S1 (sub_id s)" if s: "s \<in> set subs" "sub_account s = acc" for s
  proof (cases "ups \<noteq> [] \<and> (\<exists>b. enc (UpdatesBroadcast doc ups) = Some b) \<and> ?kept \<noteq> []")
    case True
    then obtain b where b: "ups \<noteq> []" "enc (UpdatesBroadcast doc ups) = Some b" "se_docs S1 doc = Some ?kept"
      by (auto simp: d)
    show ?thesis
      by (rule broadcast_spec(6) [where enc = enc, OF i1 b assms(5)]) (rule gone [OF s])
  next
    case False
    then have "S2 = S1" using assms(5) by (auto simp: broadcast_def d split: option.splits if_splits)
    then show ?thesis by simp
  qed
  show ?thesis
    using subs1(1) gone same by (simp add: registered_def)
qed

theorem revoked_account_hears_nothing_more_witness:
  "subs_of 7 (snd (close_for_account demo_senc 7 2 ''removed'' (demo_sessions full_queue))) =
     filter (\<lambda>s. sub_account s \<noteq> 2) (subs_of 7 (demo_sessions full_queue))"
proof -
  let ?S = "demo_sessions full_queue"
  obtain told S1 where c: "close_for_account demo_senc 7 2 ''removed'' ?S = (told, S1)" by fastforce
  obtain n S2 where b: "broadcast demo_senc 7 0 [] S1 = (n, S2)" by fastforce
  obtain subs where s: "se_docs ?S 7 = Some subs" by (simp add: demo_sessions_def)
  have "demo_senc (DocClosed 7 ''removed'') = Some [3]" by (simp add: demo_senc_def)
  from revoked_account_hears_nothing_more [where enc = demo_senc, OF demo_sessions_inv this s c b] c s
  show ?thesis by (simp add: subs_of_def)
qed

text \<open>
  C19: a connection that a broadcast drops because its channel is full leaves without a presence
  frame. The broadcast sends the others only the updates, and when the dropped connection's
  session ends, its deregistration finds it gone already and sends nothing, so the accounts that
  remain keep listing an account that has left. (The comment on \<open>send_presence\<close> says that the
  eventual \<open>unsubscribe\<close> announces the change.)
\<close>

theorem lagging_account_leaves_unannounced:
  assumes "sess_inv S" and "ups \<noteq> []" and "enc (UpdatesBroadcast doc ups) = Some b"
    and "se_docs S doc = Some subs" and "s \<in> set subs" and "sub_id s \<noteq> ex" and "\<not> can_send (sub_id s) S"
    and "t \<in> set subs" and "sub_id t = ex \<or> can_send (sub_id t) S"
    and "broadcast enc doc ex ups S = (n, S1)" and "S2 = drop_subscription enc doc (sub_id s) S1"
  shows "\<not> registered (sub_id s) doc S1 \<and> registered (sub_id t) doc S2 \<and>
    ch_queue (se_chans S2 (sub_id t)) =
      ch_queue (se_chans S (sub_id t)) @ (if sub_id t = ex then [] else [ObFrame b])"
proof -
  note sp = broadcast_spec [where enc = enc, OF assms(1-4,10)]
  have ts: "sub_id t \<noteq> sub_id s" using assms(6,7,9) by auto
  have gone: "sub_id x \<noteq> sub_id s" if "x \<in> set (subs_of doc S1)" for x
    using that assms(6,7) by (auto simp: sp(1))
  obtain subs1 where s1: "se_docs S1 doc = Some subs1" "subs1 = subs_of doc S1" "t \<in> set subs1"
  proof -
    have "t \<in> set (subs_of doc S1)" using assms(8,9) by (auto simp: sp(1))
    then show thesis using that by (cases "se_docs S1 doc") (auto simp: subs_of_def)
  qed
  have f: "filter (\<lambda>x. sub_id x \<noteq> sub_id s) subs1 = subs1" using gone s1(2) by (simp add: filter_id_conv)
  have "(se_docs S1)(doc \<mapsto> subs1) = se_docs S1" using s1(1) by auto
  then have "unsubscribe enc doc (sub_id s) S1 = S1"
    using s1(1,3) f by (auto simp: unsubscribe_def Let_def)
  then have S2: "S2 = S1\<lparr>se_chans := (se_chans S1)(sub_id s := closed_channel)\<rparr>"
    by (simp add: assms(11) drop_subscription_def)
  have subs2: "subs_of doc S2 = subs_of doc S1" by (rule subs_of_cong) (simp add: S2)
  have "registered (sub_id t) doc S2" using s1(2,3) by (simp add: registered_def subs2)
  moreover have "\<not> registered (sub_id s) doc S1" using gone by (auto simp: registered_def image_iff dest: sym)
  ultimately show ?thesis
    using ts sp(5) [OF assms(8)] assms(9) by (auto simp: S2)
qed

theorem lagging_account_leaves_unannounced_witness:
  "ch_queue (se_chans (drop_subscription demo_senc 7 3 (snd (broadcast demo_senc 7 1
      [\<lparr>sb_seq = 9, sb_blob = \<lparr>nonce = [], ciphertext = []\<rparr>\<rparr>] (demo_sessions full_queue)))) 2) = [ObFrame [2, 9]]"
proof -
  let ?u = "[\<lparr>sb_seq = 9, sb_blob = \<lparr>nonce = [], ciphertext = []\<rparr>\<rparr>]" and ?S = "demo_sessions full_queue"
  obtain subs where subs: "se_docs ?S 7 = Some subs" "map sub_id subs = [1, 2, 3]"
    by (simp add: demo_sessions_def)
  have e: "demo_senc (UpdatesBroadcast 7 ?u) = Some [2, 9]" by (simp add: demo_senc_def)
  have p: "0 < CHANNEL_CAPACITY" by (simp add: CHANNEL_CAPACITY_def)
  have c: "\<not> can_send 3 ?S" "can_send 2 ?S" "ch_queue (se_chans ?S 2) = []"
    using p by (simp_all add: can_send_def demo_sessions_def)
  have m: "3 \<in> sub_id ` set subs" "2 \<in> sub_id ` set subs" using arg_cong [OF subs(2), of set] by simp_all
  obtain s where s: "s \<in> set subs" "sub_id s = 3" using m(1) by force
  obtain t where t: "t \<in> set subs" "sub_id t = 2" using m(2) by force
  obtain n S1 where b: "broadcast demo_senc 7 1 ?u ?S = (n, S1)" by fastforce
  from lagging_account_leaves_unannounced [where enc = demo_senc, OF demo_sessions_inv _ e subs(1) s(1) _ _ t(1) _ b refl]
  show ?thesis using s(2) t(2) c b by simp
qed

end
