(* ===== verification/Ws.thy ===== *)
theory Ws
  imports Server_Stream Snapshot_Coordinator Sessions
begin

text \<open>
  \<open>server/src/sync/ws.rs\<close>: a WebSocket session, from the version handshake to the end of the
  connection. \<open>conn\<close> is everything a session task reads and writes: the state it shares with the
  other sessions (tables, registry, coordinator, spawned compactions), its own \<open>WSSession\<close> and its
  socket. A handler runs to its end before another step; the select loop is \<open>run_loop\<close>, over
  the sequence of things it wakes up for. The encoder \<open>enc\<close> is MessagePack; a send fails once the
  socket's peer is gone (\<open>so_sends_left\<close>). \<open>HashMap\<close>s a session iterates are association lists.
  The token lookup before the upgrade is \<open>device_auth\<close> of \<open>Http_Routes\<close>.
\<close>

section \<open>State\<close>

record open_doc_state =
  od_sub :: u64
  od_lease :: "u64 option"

record ws_session =
  ws_device :: uuid
  ws_account :: uuid
  ws_email :: string
  ws_open :: "(uuid \<times> open_doc_state) list"

record app_state =
  as_db :: server_db
  as_sessions :: sessions
  as_coordinator :: coordinator
  as_compactions :: "uuid list" \<comment> \<open>spawned, not run yet\<close>

record socket =
  so_out :: "bytes list"
  so_sends_left :: "nat option"

record conn =
  cn_app :: app_state
  cn_ws :: ws_session
  cn_socket :: socket

datatype session_error =
    WsClosed
  | WsTransport
  | WsUnexpectedTextFrame
  | WsDecode
  | WsEncode
  | WsSql db_error
  | WsHandshake
  | WsOpenRefused uuid string
  | WsDocNotOpen uuid "uuid list"
  | WsBroadcastLagged uuid
  | WsPullDiverges \<comment> \<open>stands for a pull that never ends; shown not to occur\<close>

type_synonym 'a wop = "conn \<Rightarrow> (session_error + 'a) \<times> conn"

definition wreturn :: "'a \<Rightarrow> 'a wop" where
  "wreturn x c = (Inr x, c)"

definition wfail :: "session_error \<Rightarrow> 'a wop" where
  "wfail e c = (Inl e, c)"

text \<open>Sequencing with \<open>?\<close>.\<close>

definition wbind :: "'a wop \<Rightarrow> ('a \<Rightarrow> 'b wop) \<Rightarrow> 'b wop" where
  "wbind m f c = (case m c of (Inl e, c') \<Rightarrow> (Inl e, c') | (Inr x, c') \<Rightarrow> f x c')"

abbreviation wthen :: "'a wop \<Rightarrow> 'b wop \<Rightarrow> 'b wop" where
  "wthen m k \<equiv> wbind m (\<lambda>_. k)"

definition wget :: "(conn \<Rightarrow> 'a) \<Rightarrow> 'a wop" where
  "wget f c = (Inr (f c), c)"

definition wapp :: "(app_state \<Rightarrow> 'a \<times> app_state) \<Rightarrow> 'a wop" where
  "wapp f c = (let (x, a) = f (cn_app c) in (Inr x, c\<lparr>cn_app := a\<rparr>))"

definition wws :: "(ws_session \<Rightarrow> ws_session) \<Rightarrow> unit wop" where
  "wws f c = (Inr (), c\<lparr>cn_ws := f (cn_ws c)\<rparr>)"

definition wdb :: "(server_db \<Rightarrow> db_error + ('a \<times> server_db)) \<Rightarrow> 'a wop" where
  "wdb f c =
     (case f (as_db (cn_app c)) of
        Inl e \<Rightarrow> (Inl (WsSql e), c)
      | Inr (x, db) \<Rightarrow> (Inr x, c\<lparr>cn_app := (cn_app c)\<lparr>as_db := db\<rparr>\<rparr>))"

definition wsend_bytes :: "bytes \<Rightarrow> unit wop" where
  "wsend_bytes b c =
     (case so_sends_left (cn_socket c) of
        Some 0 \<Rightarrow> (Inl WsTransport, c)
      | left \<Rightarrow>
          (Inr (), c\<lparr>cn_socket := \<lparr>so_out = so_out (cn_socket c) @ [b],
                                   so_sends_left = map_option (\<lambda>n. n - 1) left\<rparr>\<rparr>))"

definition send_msgpack :: "(server_frame \<Rightarrow> bytes option) \<Rightarrow> server_frame \<Rightarrow> unit wop" where
  "send_msgpack enc f = (case enc f of None \<Rightarrow> wfail WsEncode | Some b \<Rightarrow> wsend_bytes b)"

section \<open>Handshake\<close>

datatype handshake_reply = HelloAckReply hello_ack | HelloRejectedReply hello_rejected

definition send_hello :: "(handshake_reply \<Rightarrow> bytes option) \<Rightarrow> handshake_reply \<Rightarrow> unit wop" where
  "send_hello henc f = (case henc f of None \<Rightarrow> wfail WsEncode | Some b \<Rightarrow> wsend_bytes b)"

text \<open>The first block of \<open>run_session\<close>, on the \<open>Hello\<close> it received.\<close>

definition handshake :: "(handshake_reply \<Rightarrow> bytes option) \<Rightarrow> string \<Rightarrow> hello \<Rightarrow> unit wop" where
  "handshake henc server_ver h c =
     (if PROTOCOL_VERSION \<notin> set (supported_protocol_versions h)
      then let (_, c1) = send_hello henc (HelloRejectedReply
                   \<lparr>rejected_reason = ''no shared protocol version (server speaks 1)''\<rparr>) c
           in (Inl WsHandshake, c1)
      else send_hello henc (HelloAckReply
             \<lparr>server_version = server_ver, protocol_version = PROTOCOL_VERSION\<rparr>) c)"

section \<open>Handlers\<close>

definition open_docs :: "ws_session \<Rightarrow> uuid list" where
  "open_docs w = map fst (ws_open w)"

definition get_open_doc :: "uuid \<Rightarrow> open_doc_state wop" where
  "get_open_doc doc c =
     (case map_of (ws_open (cn_ws c)) doc of
        Some od \<Rightarrow> (Inr od, c)
      | None \<Rightarrow> (Inl (WsDocNotOpen doc (open_docs (cn_ws c))), c))"

definition set_lease :: "uuid \<Rightarrow> u64 option \<Rightarrow> ws_session \<Rightarrow> ws_session" where
  "set_lease doc lease w =
     w\<lparr>ws_open := map (\<lambda>(d, od). if d = doc then (d, od\<lparr>od_lease := lease\<rparr>) else (d, od)) (ws_open w)\<rparr>"

definition can_open :: "uuid \<Rightarrow> conn \<Rightarrow> bool" where
  "can_open doc c = is_member doc (ws_account (cn_ws c)) (as_db (cn_app c))"

definition wsubscribe :: "(server_frame \<Rightarrow> bytes option) \<Rightarrow> uuid \<Rightarrow> u64 wop" where
  "wsubscribe enc doc c =
     (let (i, S) = subscribe enc doc (ws_device (cn_ws c)) (ws_account (cn_ws c)) (ws_email (cn_ws c))
                     (as_sessions (cn_app c))
      in (Inr i, c\<lparr>cn_app := (cn_app c)\<lparr>as_sessions := S\<rparr>\<rparr>))"

definition open_doc :: "(server_frame \<Rightarrow> bytes option) \<Rightarrow> uuid \<Rightarrow> unit wop" where
  "open_doc enc doc c =
     (if \<not> can_open doc c then
        (let reason = ''not a member of this doc'';
             (_, c1) = send_msgpack enc (DocRejected doc reason) c
         in (Inl (WsOpenRefused doc reason), c1))
      else
        (let epoch = doc_epoch doc (as_db (cn_app c))
         in wthen
              (if doc \<in> set (open_docs (cn_ws c)) then wreturn ()
               else wbind (wsubscribe enc doc)
                      (\<lambda>i. wws (\<lambda>w. w\<lparr>ws_open := ws_open w @ [(doc, \<lparr>od_sub = i, od_lease = None\<rparr>)]\<rparr>)))
              (send_msgpack enc (DocOpened doc epoch)) c))"

definition evaluate_snapshot_decision :: "nat \<Rightarrow> uuid \<Rightarrow> u64 \<Rightarrow> decision wop" where
  "evaluate_snapshot_decision now doc device_last_acked_seq c =
     (let db = as_db (cn_app c);
          prev = map_option (\<lambda>m. \<lparr>ps_up_to_seq = lm_up_to_seq m,
                   ps_compaction_floor_seq = lm_compaction_floor_seq m, ps_up_to_vv = lm_up_to_vv m\<rparr>)
                   (latest_snapshot_meta doc db);
          server_last_seq = latest_doc_seq doc db;
          horizon = doc_horizon doc (ws_device (cn_ws c)) device_last_acked_seq db;
          (d, co) = evaluate doc prev server_last_seq horizon device_last_acked_seq now
                      (as_coordinator (cn_app c))
      in (Inr d, c\<lparr>cn_app := (cn_app c)\<lparr>as_coordinator := co\<rparr>\<rparr>))"

definition issue_snapshot_request :: "(server_frame \<Rightarrow> bytes option) \<Rightarrow> uuid \<Rightarrow> decision \<Rightarrow> unit wop" where
  "issue_snapshot_request enc doc d =
     (case d of
        Skip \<Rightarrow> wreturn ()
      | Issue lease up_to_seq compaction_floor_seq base \<Rightarrow>
          wthen (get_open_doc doc)
            (wthen (wws (set_lease doc (Some lease)))
               (send_msgpack enc (SnapshotRequest doc up_to_seq compaction_floor_seq base))))"

definition evaluate_snapshot :: "(server_frame \<Rightarrow> bytes option) \<Rightarrow> nat \<Rightarrow> uuid \<Rightarrow> u64 \<Rightarrow> unit wop" where
  "evaluate_snapshot enc now doc device_last_acked_seq =
     wbind (evaluate_snapshot_decision now doc device_last_acked_seq) (issue_snapshot_request enc doc)"

definition wbroadcast ::
  "(server_frame \<Rightarrow> bytes option) \<Rightarrow> uuid \<Rightarrow> u64 \<Rightarrow> stored_blob list \<Rightarrow> unit wop" where
  "wbroadcast enc doc sub fresh =
     wapp (\<lambda>a. ((), a\<lparr>as_sessions := snd (broadcast enc doc sub fresh (as_sessions a))\<rparr>))"

definition push_updates ::
  "(server_frame \<Rightarrow> bytes option) \<Rightarrow> nat \<Rightarrow> uuid \<Rightarrow> push_blob list \<Rightarrow> unit wop" where
  "push_updates enc now doc updates =
     wbind (get_open_doc doc) (\<lambda>od.
       if updates = [] then send_msgpack enc (UpdatesAck doc [])
       else
         wbind (wget (\<lambda>c. ws_device (cn_ws c))) (\<lambda>device.
         wbind (wdb (insert_updates doc device updates)) (\<lambda>inserted.
         wthen (if iu_fresh inserted \<noteq> [] then wbroadcast enc doc (od_sub od) (iu_fresh inserted)
                else wreturn ())
        (wbind (if iu_acks inserted = [] then wreturn None
                else wbind (evaluate_snapshot_decision now doc (pa_seq (last (iu_acks inserted))))
                       (\<lambda>d. wreturn (Some d))) (\<lambda>snapshot_decision.
         wthen (send_msgpack enc (UpdatesAck doc (iu_acks inserted)))
           (case snapshot_decision of
              None \<Rightarrow> wreturn ()
            | Some d \<Rightarrow> issue_snapshot_request enc doc d))))))"

text \<open>
  The loop of \<open>pull_updates\<close>, one iteration per batch. It has no bound of its own: \<open>None\<close> stands
  for a loop that never ends.
\<close>

partial_function (option) pull_loop ::
  "(server_frame \<Rightarrow> bytes option) \<Rightarrow> uuid \<Rightarrow> u64 \<Rightarrow> conn \<Rightarrow> ((session_error + unit) \<times> conn) option" where
  "pull_loop enc doc cursor c =
     (let batch = fetch_updates_batch doc cursor (as_db (cn_app c));
          next_cursor = (if fb_updates batch = [] then cursor else sb_seq (last (fb_updates batch)));
          complete = (\<not> fb_has_more batch);
          r = send_msgpack enc (UpdatesBatch doc (fb_updates batch) complete) c
      in if isl (fst r) \<or> complete then Some r
         else pull_loop enc doc next_cursor (snd r))"

declare pull_loop.simps [code]

fun send_all :: "(server_frame \<Rightarrow> bytes option) \<Rightarrow> server_frame list \<Rightarrow> unit wop" where
  "send_all enc [] = wreturn ()"
| "send_all enc (f # fs) = wthen (send_msgpack enc f) (send_all enc fs)"

definition pull_updates :: "(server_frame \<Rightarrow> bytes option) \<Rightarrow> uuid \<Rightarrow> u64 \<Rightarrow> unit wop" where
  "pull_updates enc doc since_seq c =
     (let pull = (case pull_loop enc doc since_seq c of None \<Rightarrow> (Inl WsPullDiverges, c) | Some r \<Rightarrow> r)
      in case latest_snapshot_meta doc (as_db (cn_app c)) of
           Some meta \<Rightarrow>
             (if since_seq < lm_compaction_floor_seq meta
              then send_msgpack enc (SnapshotRequired doc (lm_up_to_seq meta)) c
              else pull)
         | None \<Rightarrow> pull)"

definition push_snapshot ::
  "uuid \<Rightarrow> u64 \<Rightarrow> u64 \<Rightarrow> u64 option \<Rightarrow> encrypted_blob \<Rightarrow> encrypted_blob \<Rightarrow> unit wop" where
  "push_snapshot doc up_to_seq compaction_floor_seq from_seq up_to_vv blob =
     wbind (get_open_doc doc) (\<lambda>od.
       case od_lease od of
         None \<Rightarrow> wreturn ()
       | Some lease \<Rightarrow>
           wbind (wapp (\<lambda>a. let (r, co) = release doc lease (as_coordinator a)
                            in (r, a\<lparr>as_coordinator := co\<rparr>)))
             (\<lambda>r. if r = Stale then wreturn ()
                  else wthen (wws (set_lease doc None))
                    (wbind (wdb (insert_snapshot doc up_to_seq compaction_floor_seq from_seq up_to_vv blob))
                       (\<lambda>ins. case ins of
                          ChainMismatch _ \<Rightarrow> wreturn ()
                        | Inserted _ \<Rightarrow>
                            wapp (\<lambda>a. ((), a\<lparr>as_compactions := as_compactions a @ [doc]\<rparr>))))))"

definition pull_snapshot :: "(server_frame \<Rightarrow> bytes option) \<Rightarrow> uuid \<Rightarrow> unit wop" where
  "pull_snapshot enc doc c =
     (case snapshot_chain doc (as_db (cn_app c)) of
        None \<Rightarrow> (Inr (), c)
      | Some ch \<Rightarrow>
          send_all enc
            (map (\<lambda>(i, (up_to, blob)). Snapshot doc up_to blob (i = length (ch_rows ch) - 1))
               (enumerate 0 (ch_rows ch))) c)"

definition handle_frame ::
  "(server_frame \<Rightarrow> bytes option) \<Rightarrow> nat \<Rightarrow> client_frame \<Rightarrow> unit wop" where
  "handle_frame enc now f =
     (case f of
        OpenDoc doc \<Rightarrow> open_doc enc doc
      | PushUpdates doc updates \<Rightarrow> push_updates enc now doc updates
      | PullUpdates doc since_seq \<Rightarrow> wthen (get_open_doc doc) (pull_updates enc doc since_seq)
      | Ack doc last_acked_seq \<Rightarrow>
          wthen (get_open_doc doc)
            (wbind (wget (\<lambda>c. ws_device (cn_ws c))) (\<lambda>device.
               wthen (wdb (\<lambda>db. case advance_last_acked_seq device doc last_acked_seq db of
                                  Inl e \<Rightarrow> Inl e | Inr db' \<Rightarrow> Inr ((), db')))
                 (evaluate_snapshot enc now doc last_acked_seq)))
      | PullSnapshot doc \<Rightarrow> wthen (get_open_doc doc) (pull_snapshot enc doc)
      | PushSnapshot doc up_to flr from_seq up_to_vv blob \<Rightarrow>
          push_snapshot doc up_to flr from_seq up_to_vv blob)"

section \<open>The session loop\<close>

definition wrelease :: "uuid \<Rightarrow> u64 option \<Rightarrow> app_state \<Rightarrow> app_state" where
  "wrelease doc lease a =
     (case lease of
        None \<Rightarrow> a
      | Some i \<Rightarrow> a\<lparr>as_coordinator := snd (release doc i (as_coordinator a))\<rparr>)"

definition wdrop_sub :: "(server_frame \<Rightarrow> bytes option) \<Rightarrow> uuid \<Rightarrow> u64 \<Rightarrow> app_state \<Rightarrow> app_state" where
  "wdrop_sub enc doc i a = a\<lparr>as_sessions := drop_subscription enc doc i (as_sessions a)\<rparr>"

text \<open>\<open>remove\<close> moves the entry out; its subscription drops before the lease goes back.\<close>

definition unbind_doc :: "(server_frame \<Rightarrow> bytes option) \<Rightarrow> uuid \<Rightarrow> conn \<Rightarrow> conn" where
  "unbind_doc enc doc c =
     (case map_of (ws_open (cn_ws c)) doc of
        None \<Rightarrow> c
      | Some od \<Rightarrow>
          c\<lparr>cn_ws := (cn_ws c)\<lparr>ws_open := filter (\<lambda>(d, _). d \<noteq> doc) (ws_open (cn_ws c))\<rparr>,
            cn_app := wrelease doc (od_lease od) (wdrop_sub enc doc (od_sub od) (cn_app c))\<rparr>)"

text \<open>What \<open>select!\<close> wakes up for: a client message, or one open doc's channel.\<close>

datatype wake =
    WakeFrame client_frame
  | WakeClosed
  | WakeBad session_error \<comment> \<open>text frame, undecodable bytes, transport error\<close>
  | WakeChannel uuid

datatype loop_result =
    Continue
  | Break "session_error option" \<comment> \<open>leaves the loop, then the code after it runs\<close>
  | Return session_error \<comment> \<open>\<open>?\<close> inside the loop: leaves the function\<close>

definition after_handler :: "(session_error + unit) \<times> conn \<Rightarrow> loop_result \<times> conn" where
  "after_handler r = (case r of (Inl e, c) \<Rightarrow> (Return e, c) | (Inr _, c) \<Rightarrow> (Continue, c))"

definition poll_channel :: "uuid \<Rightarrow> recv_result wop" where
  "poll_channel doc c =
     (case map_of (ws_open (cn_ws c)) doc of
        None \<Rightarrow> (Inr RecvPending, c)
      | Some od \<Rightarrow>
          (let (r, S) = poll_recv doc (od_sub od) (as_sessions (cn_app c))
           in (Inr r, c\<lparr>cn_app := (cn_app c)\<lparr>as_sessions := S\<rparr>\<rparr>)))"

definition loop_body ::
  "(server_frame \<Rightarrow> bytes option) \<Rightarrow> nat \<Rightarrow> wake \<Rightarrow> conn \<Rightarrow> loop_result \<times> conn" where
  "loop_body enc now w c =
     (case w of
        WakeFrame f \<Rightarrow> after_handler (handle_frame enc now f c)
      | WakeClosed \<Rightarrow> (Break None, c)
      | WakeBad e \<Rightarrow> (Break (Some e), c)
      | WakeChannel doc \<Rightarrow>
          (case poll_channel doc c of
             (Inr RecvPending, c1) \<Rightarrow> (Continue, c1)
           | (Inr RecvClosed, c1) \<Rightarrow> (Return (WsBroadcastLagged doc), c1)
           | (Inr (RecvMsg (ObFrame b)), c1) \<Rightarrow> after_handler (wsend_bytes b c1)
           | (Inr (RecvMsg (ObClose b)), c1) \<Rightarrow> after_handler (wsend_bytes b (unbind_doc enc doc c1))
           | (Inr (RecvMsg ObUnbind), c1) \<Rightarrow> (Continue, unbind_doc enc doc c1)
           | (Inl e, c1) \<Rightarrow> (Return e, c1)))"

text \<open>The drain after the loop, and the drop of the session's map on every way out.\<close>

fun drain :: "(server_frame \<Rightarrow> bytes option) \<Rightarrow> (uuid \<times> open_doc_state) list \<Rightarrow> app_state \<Rightarrow> app_state" where
  "drain enc [] a = a"
| "drain enc ((doc, od) # ods) a =
     drain enc ods (wdrop_sub enc doc (od_sub od) (wrelease doc (od_lease od) a))"

fun drop_all :: "(server_frame \<Rightarrow> bytes option) \<Rightarrow> (uuid \<times> open_doc_state) list \<Rightarrow> app_state \<Rightarrow> app_state" where
  "drop_all enc [] a = a"
| "drop_all enc ((doc, od) # ods) a = drop_all enc ods (wdrop_sub enc doc (od_sub od) a)"

definition end_session :: "(server_frame \<Rightarrow> bytes option) \<Rightarrow> loop_result \<Rightarrow> conn \<Rightarrow> conn" where
  "end_session enc r c =
     (let ods = ws_open (cn_ws c);
          c' = c\<lparr>cn_ws := (cn_ws c)\<lparr>ws_open := []\<rparr>\<rparr>
      in case r of
           Continue \<Rightarrow> c
         | Break _ \<Rightarrow> c'\<lparr>cn_app := drain enc ods (cn_app c)\<rparr>
         | Return _ \<Rightarrow> c'\<lparr>cn_app := drop_all enc ods (cn_app c)\<rparr>)"

fun run_loop ::
  "(server_frame \<Rightarrow> bytes option) \<Rightarrow> (nat \<times> wake) list \<Rightarrow> conn \<Rightarrow> loop_result \<times> conn" where
  "run_loop enc [] c = (Continue, c)"
| "run_loop enc ((now, w) # ws) c =
     (case loop_body enc now w c of
        (Continue, c') \<Rightarrow> run_loop enc ws c'
      | (r, c') \<Rightarrow> (r, end_session enc r c'))"

text \<open>A spawned compaction.\<close>

definition run_compaction :: "app_state \<Rightarrow> app_state" where
  "run_compaction a =
     (case as_compactions a of
        [] \<Rightarrow> a
      | doc # docs \<Rightarrow> a\<lparr>as_db := snd (compact_doc doc (as_db a)), as_compactions := docs\<rparr>)"

end
