(* ===== verification/Ws_Pull.thy ===== *)
theory Ws_Pull
  imports Ws
begin

text \<open>
  What a pull delivers: the loop of \<open>pull_updates\<close> ends on every stream, and the batches it sends
  are, put together, exactly the updates the device misses.
\<close>

section \<open>Sending\<close>

lemma wsend_bytes_app [simp]: "cn_app (snd (wsend_bytes b c)) = cn_app c"
  by (simp add: wsend_bytes_def split: option.split nat.split)

lemma wsend_bytes_ws [simp]: "cn_ws (snd (wsend_bytes b c)) = cn_ws c"
  by (simp add: wsend_bytes_def split: option.split nat.split)

lemma send_msgpack_app [simp]: "cn_app (snd (send_msgpack enc f c)) = cn_app c"
  by (simp add: send_msgpack_def wfail_def split: option.split)

lemma send_msgpack_ws [simp]: "cn_ws (snd (send_msgpack enc f c)) = cn_ws c"
  by (simp add: send_msgpack_def wfail_def split: option.split)

lemma send_all_app [simp]: "cn_app (snd (send_all enc fs c)) = cn_app c"
  by (induction fs arbitrary: c) (auto simp: wreturn_def wbind_def split: prod.split sum.split dest: arg_cong [of _ _ "cn_app \<circ> snd"])

section \<open>The missing updates\<close>

definition seqs_fit :: "uuid \<Rightarrow> server_db \<Rightarrow> bool" where
  "seqs_fit doc db \<longleftrightarrow> dense_stream doc db \<and> next_seq_of doc db \<le> 2 ^ 63"

lemma doc_rows_increasing:
  assumes "dense_stream doc db"
  shows "sorted_wrt (<) (map u_seq (doc_rows doc db))"
  using assms unfolding dense_stream_def by (metis sorted_wrt_upto)

lemma select_updates_eq:
  assumes "dense_stream doc db"
  shows "select_updates doc since db = filter (\<lambda>r. u_seq r > as_i64 since) (doc_rows doc db)"
proof -
  have "sorted (map u_seq (filter (\<lambda>r. u_seq r > as_i64 since) (doc_rows doc db)))"
    using doc_rows_increasing [OF assms]
    by (intro sorted_filter) (simp add: strict_sorted_imp_sorted)
  then show ?thesis
    by (simp add: select_updates_def doc_rows_def filter_filter conj_commute sorted_sort_id sort_key_id_if_sorted)
qed

lemma select_updates_increasing:
  assumes "dense_stream doc db"
  shows "sorted_wrt (\<lambda>r r'. u_seq r < u_seq r') (select_updates doc since db)"
  using doc_rows_increasing [OF assms] unfolding select_updates_eq [OF assms] sorted_wrt_map
  by (rule sorted_wrt_filter)

lemma filter_beyond_kth:
  assumes "sorted_wrt (\<lambda>r r'. f r < (f r' :: int)) xs" and "0 < k" and "k \<le> length xs"
  shows "filter (\<lambda>r. f (last (take k xs)) < f r) xs = drop k xs"
proof -
  let ?y = "last (take k xs)"
  have y: "?y = xs ! (k - 1)" using assms(2,3) by (subst last_conv_nth) (auto simp: min_def)
  have "\<not> f ?y < f r" if "r \<in> set (take k xs)" for r
  proof -
    from that obtain i where i: "i < k" "r = xs ! i" using assms(3) by (auto simp: in_set_conv_nth)
    show ?thesis
    proof (cases "i = k - 1")
      case False
      with i(1) have "i < k - 1" by simp
      with sorted_wrt_nth_less [OF assms(1), of i "k - 1"] assms(2,3) have "f (xs ! i) < f (xs ! (k - 1))" by simp
      with i(2) y show ?thesis by simp
    qed (simp add: i(2) y)
  qed
  moreover have "f ?y < f r" if "r \<in> set (drop k xs)" for r
  proof -
    from that obtain i where "i < length xs - k" "r = xs ! (k + i)" by (auto simp: in_set_conv_nth)
    with sorted_wrt_nth_less [OF assms(1), of "k - 1" "k + i"] assms(2,3) y show ?thesis by simp
  qed
  ultimately have "filter (\<lambda>r. f ?y < f r) (take k xs @ drop k xs) = drop k xs"
    unfolding filter_append by (simp add: filter_id_conv filter_empty_conv)
  then show ?thesis by simp
qed

lemma select_after_prefix:
  assumes fit: "seqs_fit doc db" and rows: "rows = select_updates doc since db"
    and k: "0 < k" "k \<le> length rows"
  shows "select_updates doc (as_u64 (u_seq (last (take k rows)))) db = drop k rows"
proof -
  let ?y = "last (take k rows)"
  have d: "dense_stream doc db" using fit by (simp add: seqs_fit_def)
  have "take k rows \<noteq> []" using k by auto
  then have "?y \<in> set rows" by (rule in_set_takeD [OF last_in_set])
  then have y: "?y \<in> set (doc_rows doc db)" "as_i64 since < u_seq ?y"
    unfolding rows select_updates_eq [OF d] by auto
  have "u_seq ?y < 2 ^ 63" using dense_seq_bound [OF d y(1)] fit by (simp add: seqs_fit_def)
  moreover have "- (2 ^ 63) \<le> u_seq ?y"
    using y(2) sint_greater_eq [of since] by (simp add: as_i64_def)
  ultimately have c: "as_i64 (as_u64 (u_seq ?y)) = u_seq ?y" by (simp add: as_i64_as_u64)
  have "select_updates doc (as_u64 (u_seq ?y)) db = filter (\<lambda>r. u_seq ?y < u_seq r) (doc_rows doc db)"
    by (simp add: select_updates_eq [OF d] c)
  also have "\<dots> = filter (\<lambda>r. u_seq ?y < u_seq r) rows"
    using y(2) by (auto simp: rows select_updates_eq [OF d] intro!: filter_cong)
  also have "\<dots> = drop k rows"
    using select_updates_increasing [OF d] k unfolding rows by (intro filter_beyond_kth) auto
  finally show ?thesis .
qed

section \<open>The pull loop\<close>

fun pull_frames :: "uuid \<Rightarrow> stored_blob list list \<Rightarrow> server_frame list" where
  "pull_frames doc [] = []"
| "pull_frames doc [us] = [UpdatesBatch doc us True]"
| "pull_frames doc (us # uss) = UpdatesBatch doc us False # pull_frames doc uss"

definition batch_fits :: "stored_blob list \<Rightarrow> bool" where
  "batch_fits us \<longleftrightarrow> length us \<le> MAX_UPDATES_PER_BATCH \<and>
     (length us \<le> 1 \<or> batch_bytes us \<le> MAX_BYTES_PER_BATCH)"

lemma pull_loop_sends:
  assumes "seqs_fit doc (as_db (cn_app c))"
  shows "\<exists>bs. bs \<noteq> [] \<and> list_all batch_fits bs \<and>
    concat bs = map stored_of (select_updates doc cursor (as_db (cn_app c))) \<and>
    pull_loop enc doc cursor c = Some (send_all enc (pull_frames doc bs) c)"
  using assms
proof (induction "length (select_updates doc cursor (as_db (cn_app c)))" arbitrary: cursor c rule: less_induct)
  case less
  let ?db = "as_db (cn_app c)"
  let ?rows = "select_updates doc cursor ?db"
  obtain k where k: "k \<le> length ?rows"
    "fetch_updates_batch doc cursor ?db =
      \<lparr>fb_updates = map stored_of (take k ?rows), fb_has_more = (k < length ?rows)\<rparr>"
    "?rows \<noteq> [] \<Longrightarrow> k > 0" "k \<le> MAX_UPDATES_PER_BATCH"
    "k \<le> 1 \<or> batch_bytes (map stored_of (take k ?rows)) \<le> MAX_BYTES_PER_BATCH"
    by (rule fetch_prefix [of doc cursor ?db]) blast
  let ?us = "map stored_of (take k ?rows)"
  have fits: "batch_fits ?us" using k(1,4,5) by (simp add: batch_fits_def)
  show ?case
  proof (cases "k < length ?rows")
    case False
    then show ?thesis
      using k(1,2) fits
      by (intro exI [of _ "[?us]"])
        (subst pull_loop.simps, simp add: wbind_def wreturn_def split: prod.split sum.split)
  next
    case True
    let ?c = "snd (send_msgpack enc (UpdatesBatch doc ?us False) c)"
    let ?cur = "sb_seq (last ?us)"
    from True have "?rows \<noteq> []" by auto
    then have k0: "k > 0" by (rule k(3))
    with k(1) have ne: "take k ?rows \<noteq> []" by auto
    have cur: "?cur = as_u64 (u_seq (last (take k ?rows)))" using ne by (simp add: last_map stored_of_def)
    have sel: "select_updates doc ?cur (as_db (cn_app ?c)) = drop k ?rows"
      unfolding cur using select_after_prefix [OF less.prems refl k0 k(1)] by simp
    have shorter: "length (drop k ?rows) < length ?rows" using k0 True by simp
    obtain bs where bs: "bs \<noteq> []" "list_all batch_fits bs" "concat bs = map stored_of (drop k ?rows)"
      "pull_loop enc doc ?cur ?c = Some (send_all enc (pull_frames doc bs) ?c)"
      using less.hyps [of ?cur ?c, unfolded sel] less.prems shorter by auto
    have "pull_loop enc doc cursor c = Some (send_all enc (pull_frames doc (?us # bs)) c)"
    proof (cases "send_msgpack enc (UpdatesBatch doc ?us False) c")
      case (Pair r c')
      then show ?thesis
        using k(2) True ne bs(1,4)
        by (subst pull_loop.simps) (cases r; cases bs; simp add: wbind_def Let_def)
    qed
    moreover have "concat (?us # bs) = map stored_of ?rows"
      using bs(3) by (simp flip: map_append)
    ultimately show ?thesis using fits bs(2) by (intro exI [of _ "?us # bs"]) simp
  qed
qed

section \<open>Properties\<close>

definition demo_wenc :: "server_frame \<Rightarrow> bytes option" where
  "demo_wenc f =
     (case f of
        DocOpened _ ep \<Rightarrow> Some [1, ucast ep]
      | UpdatesBatch _ us fin \<Rightarrow> Some (5 # (if fin then 1 else 0) # map (\<lambda>u. ucast (sb_seq u)) us)
      | SnapshotRequired _ n \<Rightarrow> Some [6, ucast n]
      | UpdatesAck _ as \<Rightarrow> Some (7 # map (\<lambda>a. ucast (pa_seq a)) as)
      | SnapshotRequest _ n fl _ \<Rightarrow> Some [8, ucast n, ucast fl]
      | DocRejected _ _ \<Rightarrow> Some [9]
      | f \<Rightarrow> demo_senc f)"

definition demo_conn :: "server_db \<Rightarrow> conn" where
  "demo_conn db =
     \<lparr>cn_app = \<lparr>as_db = db, as_sessions = sessions_new, as_coordinator = coordinator_new, as_compactions = []\<rparr>,
      cn_ws = \<lparr>ws_device = 11, ws_account = 1, ws_email = ''a'', ws_open = []\<rparr>,
      cn_socket = \<lparr>so_out = [], so_sends_left = None\<rparr>\<rparr>"

definition demo_pushed :: server_db where
  "demo_pushed = run_db (DbInsertUpdates 7 12 [demo_push 3, demo_push 4]) demo_db"

lemma demo_pushed_fit: "seqs_fit 7 demo_pushed"
proof -
  have "stream_inv demo_pushed" unfolding demo_pushed_def by (rule run_db_stream_inv [OF demo_db_inv(1)])
  moreover have "next_seq_of 7 demo_pushed \<le> 2 ^ 63" by code_simp
  ultimately show ?thesis by (simp add: seqs_fit_def stream_inv_def)
qed

text \<open>
  C21: a pull from a cursor at or above the compaction floor always ends. The frames it sends are
  batches of at most 500 updates (and at most 256 KiB unless a single update is larger), only the
  last one marked complete, and put together they are exactly the stored updates after the cursor
  in seq order; a send that fails ends the pull there. No table changes.
\<close>

theorem pull_delivers_what_is_missing:
  assumes "seqs_fit doc (as_db (cn_app c))"
    and "\<forall>meta. latest_snapshot_meta doc (as_db (cn_app c)) = Some meta \<longrightarrow> lm_compaction_floor_seq meta \<le> since"
  shows "\<exists>bs. bs \<noteq> [] \<and> list_all batch_fits bs \<and>
    concat bs = map stored_of (select_updates doc since (as_db (cn_app c))) \<and>
    pull_updates enc doc since c = send_all enc (pull_frames doc bs) c \<and>
    cn_app (snd (pull_updates enc doc since c)) = cn_app c"
proof -
  from pull_loop_sends [OF assms(1), of since enc] obtain bs
    where bs: "bs \<noteq> []" "list_all batch_fits bs"
      "concat bs = map stored_of (select_updates doc since (as_db (cn_app c)))"
      "pull_loop enc doc since c = Some (send_all enc (pull_frames doc bs) c)" by blast
  have "pull_updates enc doc since c = send_all enc (pull_frames doc bs) c"
    using assms(2) bs(4) by (auto simp: pull_updates_def Let_def not_less split: option.split)
  with bs(1-3) show ?thesis by (intro exI [of _ bs]) simp
qed

theorem pull_delivers_what_is_missing_witness:
  "\<exists>bs. map sb_seq (concat bs) = [1, 2] \<and>
     pull_updates demo_wenc 7 0 (demo_conn demo_pushed) =
       send_all demo_wenc (pull_frames 7 bs) (demo_conn demo_pushed)"
proof -
  have "seqs_fit 7 (as_db (cn_app (demo_conn demo_pushed)))"
    using demo_pushed_fit by (simp add: demo_conn_def)
  moreover have "latest_snapshot_meta 7 (as_db (cn_app (demo_conn demo_pushed))) = None" by code_simp
  ultimately obtain bs where
    "concat bs = map stored_of (select_updates 7 0 (as_db (cn_app (demo_conn demo_pushed))))"
    "pull_updates demo_wenc 7 0 (demo_conn demo_pushed) =
       send_all demo_wenc (pull_frames 7 bs) (demo_conn demo_pushed)"
    using pull_delivers_what_is_missing [of 7 "demo_conn demo_pushed" 0 demo_wenc] by auto
  moreover have "map (sb_seq \<circ> stored_of) (select_updates 7 0 (as_db (cn_app (demo_conn demo_pushed)))) = [1, 2]"
    by code_simp
  ultimately show ?thesis by (intro exI [of _ bs]) simp
qed

end
