(* ===== verification/Ws_Access.thy ===== *)
theory Ws_Access
  imports Ws_Pull
begin

text \<open>
  What a session may touch: a frame about a doc that is not open changes nothing and ends the
  session, every write a handler makes is one of the queries of \<open>Server_Queries\<close> on the frame's
  own doc, and a doc gets open only for a member.
\<close>

section \<open>Handlers act on one doc\<close>

fun call_doc :: "db_call \<Rightarrow> uuid" where
  "call_doc (DbInsertUpdates doc _ _) = doc"
| "call_doc (DbAdvance _ doc _) = doc"
| "call_doc (DbInsertSnapshot doc _ _ _ _ _) = doc"
| "call_doc (DbCompact doc) = doc"

definition db_reach :: "uuid \<Rightarrow> server_db \<Rightarrow> server_db \<Rightarrow> bool" where
  "db_reach doc db db' \<longleftrightarrow> (\<exists>cs. list_all (\<lambda>x. call_doc x = doc) cs \<and> db' = fold run_db cs db)"

lemma db_reach_refl [intro, simp]: "db_reach doc db db"
  unfolding db_reach_def by (intro exI [of _ "[]"]) simp

lemma db_reach_trans: "db_reach doc a b \<Longrightarrow> db_reach doc b c \<Longrightarrow> db_reach doc a c"
  unfolding db_reach_def by (metis fold_append comp_apply list_all_append)

lemma db_reach_step: "call_doc x = doc \<Longrightarrow> db_reach doc db (run_db x db)"
  unfolding db_reach_def by (intro exI [of _ "[x]"]) simp

text \<open>An operation of the session that writes only about \<open>doc\<close> and opens or closes no doc.\<close>

definition acts_on :: "uuid \<Rightarrow> 'a wop \<Rightarrow> bool" where
  "acts_on doc m \<longleftrightarrow> (\<forall>c. let c' = snd (m c) in
     db_reach doc (as_db (cn_app c)) (as_db (cn_app c')) \<and> open_docs (cn_ws c') = open_docs (cn_ws c) \<and>
     ws_account (cn_ws c') = ws_account (cn_ws c) \<and> ws_device (cn_ws c') = ws_device (cn_ws c))"

named_theorems acts_intros "operations that act on one doc"

lemma acts_onI:
  assumes "\<And>c. db_reach doc (as_db (cn_app c)) (as_db (cn_app (snd (m c))))"
    and "\<And>c. open_docs (cn_ws (snd (m c))) = open_docs (cn_ws c)"
    and "\<And>c. ws_account (cn_ws (snd (m c))) = ws_account (cn_ws c)"
    and "\<And>c. ws_device (cn_ws (snd (m c))) = ws_device (cn_ws c)"
  shows "acts_on doc m"
  using assms by (simp add: acts_on_def Let_def)

lemma acts_wbind [acts_intros]:
  assumes "acts_on doc m" and "\<And>x. acts_on doc (f x)"
  shows "acts_on doc (wbind m f)"
proof -
  have "snd (wbind m f c) = (case fst (m c) of Inl e \<Rightarrow> snd (m c) | Inr x \<Rightarrow> snd (f x (snd (m c))))" for c
    by (cases "m c") (auto simp: wbind_def split: sum.split)
  then show ?thesis
    using assms by (auto simp: acts_on_def Let_def split: sum.split intro: db_reach_trans)
qed

lemma acts_basic [acts_intros]:
  "acts_on doc (wreturn x)" "acts_on doc (wfail e)" "acts_on doc (wget g)" "acts_on doc (wsend_bytes b)"
  "acts_on doc (send_msgpack enc f)" "acts_on doc (get_open_doc d)"
  by (auto intro!: acts_onI simp: wreturn_def wfail_def wget_def get_open_doc_def split: option.split)

lemma acts_wapp [acts_intros]: "(\<And>a. as_db (snd (f a)) = as_db a) \<Longrightarrow> acts_on doc (wapp f)"
  by (rule acts_onI) (simp_all add: wapp_def split_beta)

lemma acts_wdb [acts_intros]:
  assumes "\<And>db x db'. f db = Inr (x, db') \<Longrightarrow> db_reach doc db db'"
  shows "acts_on doc (wdb f)"
  using assms by (auto intro!: acts_onI simp: wdb_def split: sum.split)

lemma acts_set_lease [acts_intros]: "acts_on doc (wws (set_lease d l))"
  by (rule acts_onI) (simp_all add: wws_def set_lease_def open_docs_def o_def split_beta if_distrib cong: if_cong)

lemma acts_decision [acts_intros]: "acts_on doc (evaluate_snapshot_decision now d n)"
  by (rule acts_onI) (simp_all add: evaluate_snapshot_decision_def Let_def split_beta)

lemma acts_issue [acts_intros]: "acts_on doc (issue_snapshot_request enc d dec)"
  unfolding issue_snapshot_request_def by (cases dec) (auto intro!: acts_intros)

lemma acts_if [acts_intros]: "acts_on doc m \<Longrightarrow> acts_on doc m' \<Longrightarrow> acts_on doc (if b then m else m')"
  by simp

lemma acts_option [acts_intros]:
  "acts_on doc m \<Longrightarrow> (\<And>x. acts_on doc (f x)) \<Longrightarrow> acts_on doc (case y of None \<Rightarrow> m | Some x \<Rightarrow> f x)"
  by (simp split: option.split)

lemma acts_push: "acts_on doc (push_updates enc now doc ups)"
proof -
  have "db_reach doc db db'" if "insert_updates doc dev us db = Inr (x, db')" for dev us db x db'
    using db_reach_step [of "DbInsertUpdates doc dev us" doc db] that by simp
  then show ?thesis
    unfolding push_updates_def wbroadcast_def evaluate_snapshot_def by (intro acts_intros) simp_all
qed

lemma acts_send_all [acts_intros]: "acts_on doc (send_all enc fs)"
  by (induction fs) (auto intro!: acts_intros)

lemma pull_loop_keeps:
  "pull_loop enc doc cur c = Some r \<Longrightarrow> cn_app (snd r) = cn_app c \<and> cn_ws (snd r) = cn_ws c"
proof (induction rule: pull_loop.raw_induct [rotated 1, consumes 1, case_names step])
  case (step loop enc doc cur c r)
  then show ?case
    by (auto simp: Let_def split: if_splits)
qed

lemma acts_pull [acts_intros]: "acts_on doc (pull_updates enc d since)"
proof (rule acts_onI)
  fix c
  have k: "cn_app (snd (pull_updates enc d since c)) = cn_app c \<and> cn_ws (snd (pull_updates enc d since c)) = cn_ws c"
    by (auto simp: pull_updates_def Let_def pull_loop_keeps split: option.split)
  show "db_reach doc (as_db (cn_app c)) (as_db (cn_app (snd (pull_updates enc d since c))))"
    "open_docs (cn_ws (snd (pull_updates enc d since c))) = open_docs (cn_ws c)"
    "ws_account (cn_ws (snd (pull_updates enc d since c))) = ws_account (cn_ws c)"
    "ws_device (cn_ws (snd (pull_updates enc d since c))) = ws_device (cn_ws c)"
    using k by simp_all
qed

lemma acts_pull_snapshot [acts_intros]: "acts_on doc (pull_snapshot enc d)"
proof -
  have "pull_snapshot enc d c = (case snapshot_chain d (as_db (cn_app c)) of None \<Rightarrow> wreturn () c
      | Some ch \<Rightarrow> send_all enc (map (\<lambda>(i, (up_to, blob)). Snapshot d up_to blob (i = length (ch_rows ch) - 1))
               (enumerate 0 (ch_rows ch))) c)" for c
    by (simp add: pull_snapshot_def wreturn_def split: option.split)
  moreover have "acts_on doc (wreturn ())" "acts_on doc (send_all enc fs)" for fs by (intro acts_intros)+
  ultimately show ?thesis by (auto simp: acts_on_def Let_def split: option.split)
qed

lemma acts_push_snapshot: "acts_on doc (push_snapshot doc up_to fl from_seq vv blob)"
proof -
  have "db_reach doc db db'" if "insert_snapshot doc up_to fl from_seq vv blob db = Inr (x, db')" for db x db'
    using db_reach_step [of "DbInsertSnapshot doc up_to fl from_seq vv blob" doc db] that by simp
  then show ?thesis
    unfolding push_snapshot_def
    by (intro acts_intros) (auto simp: Let_def split_beta split: insert_snapshot_result.split intro!: acts_intros)
qed

lemma acts_ack: "acts_on doc (handle_frame enc now (Ack doc n))"
proof -
  have "db_reach doc db db'" if "advance_last_acked_seq dev doc n db = Inr db'" for dev db db'
    using db_reach_step [of "DbAdvance dev doc n" doc db] that by simp
  then show ?thesis
    unfolding handle_frame_def evaluate_snapshot_def client_frame.case
    by (intro acts_intros) (auto split: sum.splits)
qed

lemma payload_acts:
  assumes "\<And>d. f \<noteq> OpenDoc d"
  shows "acts_on (client_frame_doc_id f) (handle_frame enc now f)"
proof (cases f)
  case (Ack doc n)
  then show ?thesis using acts_ack by simp
qed (use assms acts_push acts_push_snapshot in \<open>auto simp: handle_frame_def intro!: acts_intros\<close>)

lemma payload_not_open:
  assumes "\<And>d. f \<noteq> OpenDoc d" and "client_frame_doc_id f \<notin> set (open_docs (cn_ws c))"
  shows "handle_frame enc now f c =
    (Inl (WsDocNotOpen (client_frame_doc_id f) (open_docs (cn_ws c))), c)"
proof -
  have "map_of (ws_open (cn_ws c)) (client_frame_doc_id f) = None"
    using assms(2) by (simp add: open_docs_def map_of_eq_None_iff)
  then show ?thesis
    using assms(1)
    by (cases f) (auto simp: handle_frame_def push_updates_def push_snapshot_def wbind_def get_open_doc_def)
qed

section \<open>Opening a doc\<close>

lemma open_doc_db: "as_db (cn_app (snd (open_doc enc doc c))) = as_db (cn_app c)"
  by (auto simp: open_doc_def Let_def wbind_def wsubscribe_def wws_def wreturn_def split_beta split: sum.split)

lemma open_doc_opens:
  "open_docs (cn_ws (snd (open_doc enc doc c))) =
    (if can_open doc c \<and> doc \<notin> set (open_docs (cn_ws c)) then open_docs (cn_ws c) @ [doc]
     else open_docs (cn_ws c))"
  by (auto simp: open_doc_def Let_def wbind_def wsubscribe_def wws_def wreturn_def open_docs_def split_beta
      split: sum.split)

section \<open>Properties\<close>

text \<open>
  A payload frame that names a doc this connection has not opened ends the session with
  \<open>DocNotOpen\<close> and changes nothing at all: no table, no lease, no subscription, no byte sent.
\<close>

theorem payload_needs_open_doc:
  assumes "\<And>d. f \<noteq> OpenDoc d" and "client_frame_doc_id f \<notin> set (open_docs (cn_ws c))"
  shows "handle_frame enc now f c =
    (Inl (WsDocNotOpen (client_frame_doc_id f) (open_docs (cn_ws c))), c)"
  using assms by (rule payload_not_open)

theorem payload_needs_open_doc_witness:
  "handle_frame demo_wenc 0 (PushUpdates 7 [demo_push 5]) (demo_conn demo_db) =
     (Inl (WsDocNotOpen 7 []), demo_conn demo_db)"
  using payload_needs_open_doc [of "PushUpdates 7 [demo_push 5]" "demo_conn demo_db" demo_wenc 0]
  by (simp add: demo_conn_def open_docs_def)



end
