(* ===== verification/Ws_Lifecycle.thy ===== *)
theory Ws_Lifecycle
  imports Ws_Access
begin

text \<open>
  The end of a session: its subscriptions leave the registry on every way out, its snapshot
  leases only when the loop breaks, not when a handler's error returns from the function.
\<close>

section \<open>Dropping subscriptions\<close>

lemma drop_subscription_registered:
  "registered i d (drop_subscription enc doc j S) \<longleftrightarrow> registered i d S \<and> \<not> (d = doc \<and> i = j)"
proof (cases "se_docs S doc")
  case None
  then show ?thesis
    by (auto simp: registered_def drop_subscription_def unsubscribe_def subs_of_def split: option.splits)
next
  case (Some subs)
  have "subs_of d (drop_subscription enc doc j S) =
      (if d = doc then filter (\<lambda>s. sub_id s \<noteq> j) subs else subs_of d S)"
    using Some
    by (auto simp: drop_subscription_def unsubscribe_def Let_def subs_of_def split: option.splits)
  with Some show ?thesis by (auto simp: registered_def subs_of_def)
qed

lemma wrelease_simps [simp]:
  "as_sessions (wrelease doc l a) = as_sessions a" "as_db (wrelease doc l a) = as_db a"
  "as_compactions (wrelease doc l a) = as_compactions a"
  by (simp_all add: wrelease_def split: option.split)

lemma wdrop_sub_simps [simp]:
  "as_coordinator (wdrop_sub enc doc i a) = as_coordinator a" "as_db (wdrop_sub enc doc i a) = as_db a"
  "as_compactions (wdrop_sub enc doc i a) = as_compactions a"
  "as_sessions (wdrop_sub enc doc i a) = drop_subscription enc doc i (as_sessions a)"
  by (simp_all add: wdrop_sub_def)

lemma drop_all_keeps [simp]:
  "as_coordinator (drop_all enc ods a) = as_coordinator a" "as_db (drop_all enc ods a) = as_db a"
  by (induction enc ods a rule: drop_all.induct) simp_all

lemma drain_keeps [simp]: "as_db (drain enc ods a) = as_db a"
  by (induction enc ods a rule: drain.induct) simp_all

definition held :: "(uuid \<times> open_doc_state) list \<Rightarrow> u64 \<Rightarrow> uuid \<Rightarrow> bool" where
  "held ods i d \<longleftrightarrow> (\<exists>od. (d, od) \<in> set ods \<and> od_sub od = i)"

lemma drop_all_registered:
  "registered i d (as_sessions (drop_all enc ods a)) \<longleftrightarrow> registered i d (as_sessions a) \<and> \<not> held ods i d"
  by (induction enc ods a rule: drop_all.induct) (auto simp: drop_subscription_registered held_def)

lemma drain_registered:
  "registered i d (as_sessions (drain enc ods a)) \<longleftrightarrow> registered i d (as_sessions a) \<and> \<not> held ods i d"
  by (induction enc ods a rule: drain.induct) (auto simp: drop_subscription_registered held_def)

section \<open>Giving leases back\<close>

definition lease_gone :: "uuid \<Rightarrow> u64 \<Rightarrow> coordinator \<Rightarrow> bool" where
  "lease_gone doc i co \<longleftrightarrow> (\<forall>l. co_leases co doc = Some (LsActive l) \<longrightarrow> al_lease_id l \<noteq> i)"

lemma release_gone: "lease_gone doc i (snd (release doc i co))"
  by (auto simp: lease_gone_def release_def split: option.splits lease_state.splits if_splits)

lemma release_keeps_gone: "lease_gone doc i co \<Longrightarrow> lease_gone doc i (snd (release d j co))"
  by (auto simp: lease_gone_def release_def split: option.splits lease_state.splits if_splits)

lemma drain_keeps_gone:
  "lease_gone doc i (as_coordinator a) \<Longrightarrow> lease_gone doc i (as_coordinator (drain enc ods a))"
  by (induction enc ods a rule: drain.induct) (auto simp: wrelease_def release_keeps_gone split: option.split)

lemma drain_gone:
  "(doc, od) \<in> set ods \<Longrightarrow> od_lease od = Some i \<Longrightarrow> lease_gone doc i (as_coordinator (drain enc ods a))"
proof (induction enc ods a rule: drain.induct)
  case (2 enc d od' ods a)
  show ?case
  proof (cases "(doc, od) = (d, od')")
    case True
    with 2(3) show ?thesis
      by (auto simp: wrelease_def release_gone intro!: drain_keeps_gone split: option.split)
  next
    case False
    with 2 show ?thesis by auto
  qed
qed simp

lemma lease_blocks_skip:
  assumes "co_leases co doc = Some (LsActive l)" "t < al_expires_at l"
  shows "evaluate doc prev lst hz acked t co = (Skip, co)"
  using assms by (simp add: evaluate_def lease_blocks_def)

section \<open>Properties\<close>

text \<open>A connection of device 11 on a server that asks for a snapshot after every update.\<close>

definition eager_conn :: conn where
  "eager_conn = (let c = demo_conn demo_db in
     c\<lparr>cn_app := (cn_app c)\<lparr>as_coordinator := coordinator_with_config 1 300\<rparr>\<rparr>)"

definition leased_conn :: conn where
  "leased_conn = snd (run_loop demo_wenc
     [(0, WakeFrame (OpenDoc 7)), (1, WakeFrame (PushUpdates 7 [demo_push 5]))] eager_conn)"



text \<open>
  C24: a session that ends by an error inside a handler (a frame for a doc that is not open, a
  refused open, a failed query or send) drops its subscriptions but does not give its snapshot
  lease back: until the lease expires no other device is asked for a snapshot of that doc. (The
  comment after the loop says that any unfinished lease goes back to the coordinator.)
\<close>

theorem failed_session_keeps_lease:
  assumes "loop_body enc now w c = (Return e, c1)" and "run_loop enc ((now, w) # ws) c = (r, c2)"
    and "co_leases (as_coordinator (cn_app c1)) doc = Some (LsActive l)" and "t < al_expires_at l"
  shows "(\<forall>i d. registered i d (as_sessions (cn_app c2)) \<longleftrightarrow>
       registered i d (as_sessions (cn_app c1)) \<and> \<not> held (ws_open (cn_ws c1)) i d) \<and>
    evaluate doc prev lst hz acked t (as_coordinator (cn_app c2)) = (Skip, as_coordinator (cn_app c2))"
proof -
  have c2: "c2 = end_session enc (Return e) c1" using assms(1,2) by auto
  show ?thesis unfolding c2
    using lease_blocks_skip [OF assms(3,4)] by (simp add: end_session_def Let_def drop_all_registered)
qed

theorem failed_session_keeps_lease_witness:
  "let c2 = snd (run_loop demo_wenc [(2, WakeFrame (PullUpdates 8 0))] leased_conn)
   in \<not> registered 1 7 (as_sessions (cn_app c2)) \<and>
      fst (evaluate 7 None 5 5 5 300 (as_coordinator (cn_app c2))) = Skip"
proof -
  let ?w = "WakeFrame (PullUpdates 8 0)"
  have o: "map (\<lambda>(d, od). (d, od_sub od)) (ws_open (cn_ws leased_conn)) = [(7, 1)]" by code_simp
  then have h: "held (ws_open (cn_ws leased_conn)) 1 7" "open_docs (cn_ws leased_conn) = [7]"
    by (auto simp: held_def open_docs_def)
  have "handle_frame demo_wenc 2 (PullUpdates 8 0) leased_conn = (Inl (WsDocNotOpen 8 [7]), leased_conn)"
    using payload_not_open [of "PullUpdates 8 0" leased_conn demo_wenc 2] h(2) by simp
  then have b: "loop_body demo_wenc 2 ?w leased_conn = (Return (WsDocNotOpen 8 [7]), leased_conn)"
    by (simp add: loop_body_def after_handler_def)
  obtain r c2 where r: "run_loop demo_wenc [(2, ?w)] leased_conn = (r, c2)" by fastforce
  have l: "co_leases (as_coordinator (cn_app leased_conn)) 7 =
      Some (LsActive \<lparr>al_lease_id = 1, al_expires_at = 301\<rparr>)" by code_simp
  from failed_session_keeps_lease [OF b r l, of 300 None 5 5 5] h(1) show ?thesis
    unfolding r snd_conv Let_def by simp
qed

end
