(* ===== verification/Sync_Composition.thy ===== *)
theory Sync_Composition
  imports Client_Recovery Ws_Lifecycle
begin

text \<open>
  Client and server together: what compaction may delete, and a schedule of two devices in which
  a snapshot lands below its own compaction floor.
\<close>

section \<open>Compaction\<close>

lemma compact_select:
  assumes "latest_row doc db = Some s" and "s_floor s \<le> as_i64 since"
  shows "select_updates doc since (snd (compact_doc doc db)) = select_updates doc since db"
  unfolding select_updates_def
  using assms by (intro arg_cong [where f = "sort_key u_seq"]) (auto simp: compact_doc_def intro!: filter_cong)

lemma compact_other: "doc' \<noteq> doc \<Longrightarrow> select_updates doc' since (snd (compact_doc doc db)) = select_updates doc' since db"
  by (auto simp: compact_doc_def select_updates_def split: option.split intro!: arg_cong [where f = "sort_key u_seq"] filter_cong)

lemma decision_floor:
  assumes "evaluate_snapshot_decision now doc n c = (Inr (Issue lease up fl base), c')"
  shows "fl = max (doc_horizon doc (ws_device (cn_ws c)) n (as_db (cn_app c)))
    (case latest_snapshot_meta doc (as_db (cn_app c)) of None \<Rightarrow> 0 | Some m \<Rightarrow> lm_compaction_floor_seq m)"
    "up = n"
  using assms
  by (auto simp: evaluate_snapshot_decision_def evaluate_def Let_def split: prod.splits if_splits option.splits)

lemma latest_row_inserted:
  assumes "snap_inv db" and "insert_snapshot doc up fl from_seq vv blob db = Inr (Inserted i, db1)"
  obtains s where "latest_row doc db1 = Some s" "s_floor s = as_i64 fl" "db_updates db1 = db_updates db"
proof -
  from insert_snapshot_inv [OF assms] have inv: "snap_inv db1" .
  from assms(2) obtain row where row: "db_snapshots db1 = db_snapshots db @ [row]" "s_floor row = as_i64 fl"
    "s_doc row = doc" "db_updates db1 = db_updates db"
    by (auto simp: insert_snapshot_def Let_def split: if_splits)
  have "latest_row doc db1 = Some row"
    unfolding latest_row_eq [OF inv] by (simp add: doc_snaps_def row)
  with row show thesis by (intro that)
qed

text \<open>A snapshot below its own floor: what every device that bootstraps from it keeps doing.\<close>

definition trap_enc :: "client_frame \<Rightarrow> string + bytes" where
  "trap_enc f = (case f of PushSnapshot _ up fl _ _ _ \<Rightarrow> Inr [5, ucast up, ucast fl] | _ \<Rightarrow> demo_enc f)"

definition trap_env :: "(bytes, bytes, mem_inner) env" where
  "trap_env = (demo_env mem_api)\<lparr>e_enc := trap_enc\<rparr>"

lemma trap_env_simps [simp]:
  "e_loro trap_env = list_loro" "e_aead trap_env = id_aead" "e_rng trap_env = count_rng"
  "e_st trap_env = mem_api" "e_enc trap_env = trap_enc" "e_dec trap_env = demo_dec"
  by (simp_all add: trap_env_def)

definition bootstrap_round ::
  "u64 \<Rightarrow> encrypted_blob \<Rightarrow> (bytes, bytes, mem_inner) engine \<Rightarrow> (bytes, bytes, mem_inner) engine" where
  "bootstrap_round up blob e =
     on_frame trap_env (Snapshot 7 up blob True) (on_frame trap_env (SnapshotRequired 7 up) e)"

definition asks_from :: "u64 \<Rightarrow> (bytes, bytes, mem_inner) engine \<Rightarrow> bool" where
  "asks_from n e \<longleftrightarrow> en_doc_id e = 7 \<and> en_state e = Pulling \<and> en_last_contiguous_seq e = n \<and>
     en_outbox e \<noteq> [] \<and> Inr (last (en_outbox e)) = trap_enc (PullUpdates 7 n)"

lemma bootstrap_round_stays:
  assumes "asks_from n e" and "up \<le> n" and "length (nonce blob) = AEAD_NONCE_LEN"
  shows "asks_from n (bootstrap_round up blob e)"
  using assms
  by (auto simp: bootstrap_round_def asks_from_def on_frame_def on_snapshot_required_def on_snapshot_def
      send_or_disconnect_def encode_into_outbox_def trap_enc_def finish_bootstrap_def Let_def
      apply_remote_batch_def dek_open_def import_remote_blob_def list_loro_def id_aead_def
      mem_api_def mem_write_server_known_vv_def mem_write_snapshot_def snapshot_blob_def
      export_snapshot_bytes_def seal_blob_def dek_seal_def push_event_def mark_persisted_def
      split: sum.split)

lemma bootstrap_rounds_stay:
  assumes "asks_from n e" and "up \<le> n" and "length (nonce blob) = AEAD_NONCE_LEN"
  shows "asks_from n ((bootstrap_round up blob ^^ k) e)"
  using assms by (induction k) (auto intro: bootstrap_round_stays)

section \<open>A schedule of two devices\<close>

text \<open>
  Devices 11 and 12 have doc 7 open on a server that asks for a snapshot every two updates.
  Device 12 pushes and acknowledges seq 1; the broadcast to device 11 waits in its channel while
  the server handles device 11's own push, which gets seq 2. \<open>race_engine\<close> is device 11's engine
  with its push on the wire.
\<close>

definition race_engine :: "(bytes, bytes, mem_inner) engine" where
  "race_engine = run_ops trap_env [HEdit [9], HConnected, HBytes [1], HBytes [3]] demo_mem_engine"

definition race_push :: "push_blob list" where
  "race_push = (case en_in_flight race_engine of None \<Rightarrow> []
     | Some fl \<Rightarrow> [\<lparr>pb_push_id = fl_push_id fl, pb_blob = fl_payload fl\<rparr>])"

definition conn_of :: "uuid \<Rightarrow> app_state \<Rightarrow> conn" where
  "conn_of dev a =
     \<lparr>cn_app = a, cn_ws = \<lparr>ws_device = dev, ws_account = 1, ws_email = ''a'', ws_open = []\<rparr>,
      cn_socket = \<lparr>so_out = [], so_sends_left = None\<rparr>\<rparr>"

definition race_open :: conn where
  "race_open = snd (handle_frame demo_wenc 0 (OpenDoc 7)
     (conn_of 11 \<lparr>as_db = demo_db, as_sessions = sessions_new,
        as_coordinator = coordinator_with_config 2 300, as_compactions = []\<rparr>))"

definition race_peer :: conn where
  "race_peer = snd (run_loop demo_wenc
     [(0, WakeFrame (OpenDoc 7)), (0, WakeFrame (PushUpdates 7 [demo_push 3])), (0, WakeFrame (Ack 7 1))]
     (conn_of 12 (cn_app race_open)))"

definition race_pushed :: conn where
  "race_pushed = snd (handle_frame demo_wenc 1 (PushUpdates 7 race_push)
     (race_open\<lparr>cn_app := cn_app race_peer\<rparr>))"

text \<open>Device 11's engine after the two frames it is sent, and the blob it uploads.\<close>

definition race_acked :: "(bytes, bytes, mem_inner) engine" where
  "race_acked = on_frame trap_env (UpdatesAck 7 (map (\<lambda>p. \<lparr>pa_push_id = pb_push_id p, pa_seq = 2\<rparr>) race_push)) race_engine"

definition race_blob :: encrypted_blob where
  "race_blob = (case produce_snapshot trap_env None race_acked of Inr b \<Rightarrow> b | Inl _ \<Rightarrow> demo_blob 0)"

definition race_stored :: conn where
  "race_stored = (let c = snd (handle_frame demo_wenc 2 (PushSnapshot 7 0 1 None (demo_blob 1) race_blob) race_pushed)
     in c\<lparr>cn_app := run_compaction (cn_app c)\<rparr>)"

lemma race_server_sends:
  "so_out (cn_socket race_pushed) = [[1, 0], [7, 2], [8, 2, 1]]"
  "ch_queue (se_chans (as_sessions (cn_app race_pushed)) 1) = [ObFrame [2, 1]]"
  by code_simp+

lemma race_client:
  "en_last_contiguous_seq race_acked = 0" "en_assert_failed race_acked = True"
  "last (en_outbox (on_frame trap_env (SnapshotRequest 7 2 1 None) race_acked)) = [5, 0, 1]"
  by code_simp+

section \<open>Properties\<close>

text \<open>
  C25: compaction is safe for the devices that are behind. The floor the coordinator asks for is
  at most what every other device that can open the doc has acknowledged (as long as the previous
  floor was), and compacting with it deletes no update above that device's frontier.
\<close>

theorem compaction_spares_unacked:
  assumes "snap_inv (as_db (cn_app c))" and "frontiers_ok (as_db (cn_app c))" and "n < 2 ^ 63"
    and "evaluate_snapshot_decision now doc n c = (Inr (Issue lease up fl base), c')"
    and "insert_snapshot doc up' fl from_seq vv blob (as_db (cn_app c)) = Inr (Inserted i, db1)"
    and "syncs d doc (as_db (cn_app c))" and "d \<noteq> ws_device (cn_ws c)"
    and "\<forall>m. latest_snapshot_meta doc (as_db (cn_app c)) = Some m \<longrightarrow>
      uint (lm_compaction_floor_seq m) \<le> frontier d doc (as_db (cn_app c))"
    and "r \<in> set (db_updates (as_db (cn_app c)))" and "frontier d doc (as_db (cn_app c)) < u_seq r"
  shows "uint fl \<le> frontier d doc (as_db (cn_app c)) \<and> r \<in> set (db_updates (snd (compact_doc doc db1)))"
proof -
  let ?f = "frontier d doc (as_db (cn_app c))"
  have "uint (doc_horizon doc (ws_device (cn_ws c)) n (as_db (cn_app c))) \<le> ?f"
    using horizon_le [OF assms(2,3,6), of "ws_device (cn_ws c)"] assms(7) by simp
  then have fl: "uint fl \<le> ?f"
    using assms(8) frontiers_okD [OF assms(2), of d doc]
    by (auto simp: decision_floor(1) [OF assms(4)] max_def split: option.split)
  then have "fl < 2 ^ 63" using frontiers_okD [OF assms(2), of d doc] by (simp add: word_less_def)
  then have cast: "as_i64 fl = uint fl" by (rule as_i64_nonneg)
  from latest_row_inserted [OF assms(1,5)] obtain s
    where "latest_row doc db1 = Some s" "s_floor s = as_i64 fl" "db_updates db1 = db_updates (as_db (cn_app c))" .
  with assms(9,10) fl cast show ?thesis by (auto simp: compact_doc_def)
qed

theorem compaction_spares_unacked_witness:
  "\<exists>r db1. insert_snapshot 7 2 1 None (demo_blob 1) (demo_blob 2)
       (demo_pushed\<lparr>db_frontiers := [(12, 7) \<mapsto> 1]\<rparr>) = Inr (Inserted 1, db1) \<and>
     u_seq r = 2 \<and> r \<in> set (db_updates (snd (compact_doc 7 db1)))"
proof -
  let ?db = "demo_pushed\<lparr>db_frontiers := [(12, 7) \<mapsto> 1]\<rparr>"
  let ?c = "conn_of 11 \<lparr>as_db = ?db, as_sessions = sessions_new,
    as_coordinator = coordinator_with_config 2 300, as_compactions = []\<rparr>"
  have db: "as_db (cn_app ?c) = ?db" "ws_device (cn_ws ?c) = 11" by (simp_all add: conn_of_def)
  have e: "fst (evaluate_snapshot_decision 5 7 2 ?c) = Inr (Issue 1 2 1 None)" by code_simp
  obtain c' where d: "evaluate_snapshot_decision 5 7 2 ?c = (Inr (Issue 1 2 1 None), c')"
    using e by (cases "evaluate_snapshot_decision 5 7 2 ?c") simp
  have ins: "map_sum id fst (insert_snapshot 7 2 1 None (demo_blob 1) (demo_blob 2) ?db) = Inr (Inserted 1)"
    by code_simp
  obtain db1 where i: "insert_snapshot 7 2 1 None (demo_blob 1) (demo_blob 2) ?db = Inr (Inserted 1, db1)"
    using ins by (cases "insert_snapshot 7 2 1 None (demo_blob 1) (demo_blob 2) ?db") auto
  have "db_snapshots ?db = []" by code_simp
  then have sn: "snap_inv ?db" by (simp add: snap_inv_def doc_snaps_def)
  have m: "latest_snapshot_meta 7 ?db = None" by code_simp
  have f: "frontiers_ok ?db" "frontier 12 7 ?db = 1" by (simp_all add: frontiers_ok_def frontier_def)
  have "list_ex (\<lambda>r. u_seq r = 2) (db_updates ?db)" by code_simp
  then obtain r where r: "r \<in> set (db_updates ?db)" "u_seq r = 2" by (auto simp: list_ex_iff)
  have dv: "list_ex (\<lambda>d. d_id d = 12 \<and> is_member 7 (d_account d) ?db) (db_devices ?db)" by code_simp
  then have sy: "syncs 12 7 ?db" by (auto simp: syncs_def list_ex_iff)
  show ?thesis
    using compaction_spares_unacked [of ?c 2 5 7 1 2 1 None c' 2 None "demo_blob 1" "demo_blob 2" 1 db1 12 r,
        unfolded db, OF sn f(1) _ d i sy] f(2) m r i
    by auto
qed


end
