(* ===== verification/Item_Values.thy ===== *)
theory Item_Values
  imports Text
begin

text \<open>
  The value types of \<open>core/src/doc.rs\<close> that are stored as scalars: the workflow register, the
  board's lane set and saved view, an item's location, order entries and focus references. Each has an encoder and a parser, as in the source.
\<close>

unbundle bit_operations_syntax

section \<open>Workflow states\<close>

datatype workflow_state = Backlog | Todo | InProgress | Review | Done | Cancelled

fun ws_code :: "workflow_state \<Rightarrow> int" where
  "ws_code Backlog = 0"
| "ws_code Todo = 1"
| "ws_code InProgress = 2"
| "ws_code Review = 3"
| "ws_code Done = 4"
| "ws_code Cancelled = 5"

definition from_code :: "int \<Rightarrow> workflow_state option" where
  "from_code code =
     (if code = 0 then Some Backlog
      else if code = 1 then Some Todo
      else if code = 2 then Some InProgress
      else if code = 3 then Some Review
      else if code = 4 then Some Done
      else if code = 5 then Some Cancelled
      else None)"

fun ws_name :: "workflow_state \<Rightarrow> str" where
  "ws_name Backlog = lit ''backlog''"
| "ws_name Todo = lit ''todo''"
| "ws_name InProgress = lit ''in_progress''"
| "ws_name Review = lit ''review''"
| "ws_name Done = lit ''done''"
| "ws_name Cancelled = lit ''cancelled''"

definition parse_name :: "str \<Rightarrow> workflow_state option" where
  "parse_name s =
     (if s = lit ''backlog'' then Some Backlog
      else if s = lit ''todo'' then Some Todo
      else if s = lit ''in_progress'' then Some InProgress
      else if s = lit ''review'' then Some Review
      else if s = lit ''done'' then Some Done
      else if s = lit ''cancelled'' then Some Cancelled
      else None)"

definition ws_is_open :: "workflow_state \<Rightarrow> bool" where
  "ws_is_open s \<longleftrightarrow> ws_code s \<le> ws_code Review"

definition ws_is_closed :: "workflow_state \<Rightarrow> bool" where
  "ws_is_closed s \<longleftrightarrow> \<not> ws_is_open s"

datatype item_lifecycle =
    IlBacklog | IlTodo | IlInProgress | IlReview | IlDone | IlCancelled | IlBinned

fun lifecycle_from :: "workflow_state \<Rightarrow> item_lifecycle" where
  "lifecycle_from Backlog = IlBacklog"
| "lifecycle_from Todo = IlTodo"
| "lifecycle_from InProgress = IlInProgress"
| "lifecycle_from Review = IlReview"
| "lifecycle_from Done = IlDone"
| "lifecycle_from Cancelled = IlCancelled"

fun lifecycle_workflow_state :: "item_lifecycle \<Rightarrow> workflow_state option" where
  "lifecycle_workflow_state IlBacklog = Some Backlog"
| "lifecycle_workflow_state IlTodo = Some Todo"
| "lifecycle_workflow_state IlInProgress = Some InProgress"
| "lifecycle_workflow_state IlReview = Some Review"
| "lifecycle_workflow_state IlDone = Some Done"
| "lifecycle_workflow_state IlCancelled = Some Cancelled"
| "lifecycle_workflow_state IlBinned = None"

definition lifecycle_name :: "item_lifecycle \<Rightarrow> str" where
  "lifecycle_name l =
     (case lifecycle_workflow_state l of Some s \<Rightarrow> ws_name s | None \<Rightarrow> lit ''binned'')"

section \<open>Lanes and the saved view\<close>

definition ALL_LANES :: "workflow_state list" where
  "ALL_LANES = [Backlog, Todo, InProgress, Review, Done]"

type_synonym lane_set = u8

definition lanes_ALL :: lane_set where
  "lanes_ALL = 31"

definition lanes_NONE :: lane_set where
  "lanes_NONE = 0"

definition lane_bit :: "workflow_state \<Rightarrow> u8" where
  "lane_bit s = push_bit (nat (ws_code s)) 1"

definition lanes_contains :: "workflow_state \<Rightarrow> lane_set \<Rightarrow> bool" where
  "lanes_contains s ls \<longleftrightarrow> ls AND lane_bit s \<noteq> 0"

definition lanes_with :: "workflow_state \<Rightarrow> bool \<Rightarrow> lane_set \<Rightarrow> lane_set" where
  "lanes_with s visible ls = (if visible then ls OR lane_bit s else ls AND NOT (lane_bit s))"

definition lanes_is_empty :: "lane_set \<Rightarrow> bool" where
  "lanes_is_empty ls \<longleftrightarrow> ls = 0"

definition lanes_iter :: "lane_set \<Rightarrow> workflow_state list" where
  "lanes_iter ls = filter (\<lambda>s. lanes_contains s ls) ALL_LANES"

definition lanes_from_iter :: "workflow_state list \<Rightarrow> lane_set" where
  "lanes_from_iter ss = fold (\<lambda>s set. lanes_with s True set) ss lanes_NONE"

record default_view =
  dv_board :: bool
  dv_lanes :: lane_set

definition view_LIST :: default_view where
  "view_LIST = \<lparr>dv_board = False, dv_lanes = lanes_ALL\<rparr>"

definition view_BOARD :: default_view where
  "view_BOARD = \<lparr>dv_board = True, dv_lanes = lanes_ALL\<rparr>"

definition view_encode :: "default_view \<Rightarrow> str" where
  "view_encode v =
     (if \<not> dv_board v then lit ''list''
      else if dv_lanes v = lanes_ALL \<or> lanes_is_empty (dv_lanes v) then lit ''board''
      else lit ''board:'' @ join (lit '','') (map ws_name (lanes_iter (dv_lanes v))))"

fun collect_options :: "'a option list \<Rightarrow> 'a list option" where
  "collect_options [] = Some []"
| "collect_options (None # _) = None"
| "collect_options (Some x # xs) = map_option ((#) x) (collect_options xs)"

definition view_parse :: "str \<Rightarrow> default_view option" where
  "view_parse s =
     (if s = lit ''list'' then Some view_LIST
      else if s = lit ''board'' then Some view_BOARD
      else case strip_prefix (lit ''board:'') s of
             None \<Rightarrow> None
           | Some lanes \<Rightarrow>
               (if lanes = [] then None
                else case collect_options (map parse_name (split_on (of_char (CHR '','')) lanes)) of
                       None \<Rightarrow> None
                     | Some ss \<Rightarrow> Some \<lparr>dv_board = True, dv_lanes = lanes_from_iter ss\<rparr>))"

section \<open>Placement\<close>

definition COLON :: scalar where
  "COLON = of_char (CHR '':'')"

definition LIST_INBOX :: str where
  "LIST_INBOX = lit ''inbox''"

definition LIST_EVENTS :: str where
  "LIST_EVENTS = lit ''events''"

record location =
  loc_list_id :: str
  loc_placement_id :: str

definition location_encode :: "location \<Rightarrow> str" where
  "location_encode l = loc_list_id l @ [COLON] @ loc_placement_id l"

definition location_parse :: "str \<Rightarrow> location option" where
  "location_parse s =
     (case split_once COLON s of
        None \<Rightarrow> None
      | Some (list_id, placement_id) \<Rightarrow>
          (if list_id = [] then None
           else Some \<lparr>loc_list_id = list_id, loc_placement_id = placement_id\<rparr>))"

record order_entry =
  oe_item_id :: str
  oe_placement_id :: str

definition entry_encode :: "order_entry \<Rightarrow> str" where
  "entry_encode e = oe_item_id e @ [COLON] @ oe_placement_id e"

definition entry_parse :: "str \<Rightarrow> order_entry option" where
  "entry_parse s =
     (case split_once COLON s of
        None \<Rightarrow> None
      | Some (item_id, placement_id) \<Rightarrow>
          (if item_id = [] then None
           else Some \<lparr>oe_item_id = item_id, oe_placement_id = placement_id\<rparr>))"

record focus_ref =
  fr_doc_id :: "str option"
  fr_item_id :: str

definition focus_encode :: "focus_ref \<Rightarrow> str" where
  "focus_encode r =
     (case fr_doc_id r of Some d \<Rightarrow> d @ [COLON] @ fr_item_id r | None \<Rightarrow> fr_item_id r)"

definition focus_parse :: "str \<Rightarrow> focus_ref option" where
  "focus_parse s =
     (if s = [] then None
      else case split_once COLON s of
             Some (doc_id, item_id) \<Rightarrow>
               (if doc_id = [] \<or> item_id = [] then None
                else Some \<lparr>fr_doc_id = Some doc_id, fr_item_id = item_id\<rparr>)
           | None \<Rightarrow> Some \<lparr>fr_doc_id = None, fr_item_id = s\<rparr>)"

definition focus_is_local :: "focus_ref \<Rightarrow> bool" where
  "focus_is_local r \<longleftrightarrow> fr_doc_id r = None"

section \<open>Round trips\<close>

lemma from_code_code [simp]: "from_code (ws_code s) = Some s"
  by (cases s) (simp_all add: from_code_def)

lemma ws_code_from_code: "from_code n = Some s \<Longrightarrow> ws_code s = n"
  by (auto simp: from_code_def split: if_splits)

lemma parse_name_name [simp]: "parse_name (ws_name s) = Some s"
  by (cases s) (simp_all add: parse_name_def lit_def)

lemma lifecycle_from_state [simp]: "lifecycle_workflow_state (lifecycle_from s) = Some s"
  by (cases s) simp_all

lemma lifecycle_state_from: "lifecycle_workflow_state l = Some s \<longleftrightarrow> l = lifecycle_from s"
  by (cases l; cases s) simp_all

lemma ws_name_no_comma: "of_char (CHR '','') \<notin> set (ws_name s)"
  by (cases s) (simp_all add: lit_def)

lemma ws_name_not_Nil [simp]: "ws_name s \<noteq> []"
  by (cases s) (simp_all add: lit_def)

text \<open>A lane set within the five lanes; it is what its visible lanes say.\<close>

definition lanes_ok :: "lane_set \<Rightarrow> bool" where
  "lanes_ok ls \<longleftrightarrow> ls \<le> lanes_ALL"

lemma lanes_ok_cases:
  assumes "lanes_ok ls" and "list_all P (map word_of_nat [0..<32])"
  shows "P ls"
proof -
  have "unat ls < 32" using assms(1) by (simp add: lanes_ok_def lanes_ALL_def word_le_nat_alt)
  then have "unat ls \<in> set [0..<32]" by simp
  with assms(2) have "P (word_of_nat (unat ls))" unfolding list_all_iff set_map by blast
  then show ?thesis by simp
qed

lemma lanes_iter_from_iter: "lanes_ok ls \<Longrightarrow> lanes_from_iter (lanes_iter ls) = ls"
  by (erule lanes_ok_cases) code_simp

lemma lanes_iter_not_Nil: "lanes_ok ls \<Longrightarrow> ls \<noteq> 0 \<longrightarrow> lanes_iter ls \<noteq> []"
  by (erule lanes_ok_cases) code_simp

lemma view_parse_board:
  assumes "ss \<noteq> []"
  shows "view_parse (lit ''board:'' @ join (lit '','') (map ws_name ss)) =
    Some \<lparr>dv_board = True, dv_lanes = lanes_from_iter ss\<rparr>"
proof -
  let ?j = "join (lit '','') (map ws_name ss)"
  have "split_on (of_char (CHR '','')) ?j = map ws_name ss"
    using split_on_join [of "map ws_name ss" "of_char (CHR '','')"] assms ws_name_no_comma
    by (auto simp: lit_def)
  moreover have "?j \<noteq> []" using assms by (cases ss; cases "tl ss") auto
  moreover have "collect_options (map (parse_name \<circ> ws_name) ss) = Some ss" by (induction ss) simp_all
  moreover have "lit ''board:'' @ ?j \<noteq> lit ''list''" "lit ''board:'' @ ?j \<noteq> lit ''board''"
    by (simp_all add: lit_def)
  ultimately show ?thesis by (simp add: view_parse_def)
qed

lemma lit_board_list: "lit ''list'' \<noteq> lit ''board''" "lit ''board'' \<noteq> lit ''list''"
  by (simp_all add: lit_def)

section \<open>Properties\<close>

text \<open>
  A saved view is read back as it was written: any set of the five lanes for the board
  (an empty set as all of them), and the list view as the list view.
\<close>

theorem saved_view_roundtrip:
  assumes "lanes_ok (dv_lanes v)"
  shows "view_parse (view_encode v) =
    Some (if \<not> dv_board v then view_LIST else if dv_lanes v = 0 then view_BOARD else v)"
proof (cases "\<not> dv_board v \<or> dv_lanes v = lanes_ALL \<or> dv_lanes v = 0")
  case True
  then show ?thesis
    by (auto simp: view_encode_def view_parse_def lanes_is_empty_def lit_board_list view_BOARD_def lanes_ALL_def)
next
  case False
  with lanes_iter_not_Nil [OF assms] have "lanes_iter (dv_lanes v) \<noteq> []" by simp
  from view_parse_board [OF this] False lanes_iter_from_iter [OF assms] show ?thesis
    by (simp add: view_encode_def lanes_is_empty_def)
qed

theorem saved_view_roundtrip_witness:
  "view_parse (view_encode \<lparr>dv_board = True, dv_lanes = 6\<rparr>) = Some \<lparr>dv_board = True, dv_lanes = 6\<rparr>"
  using saved_view_roundtrip [of "\<lparr>dv_board = True, dv_lanes = 6\<rparr>"] by (simp add: lanes_ok_def lanes_ALL_def)

text \<open>
  \<open>cancelled\<close> is not a lane, yet \<open>board:cancelled\<close> is not refused: it parses to a view that
  shows no lane at all, and whose encoding no longer parses. (The grammar on \<open>DefaultView\<close> lists
  five lane names and says that any other parses to \<open>None\<close>.)
\<close>

theorem cancelled_lane_is_accepted:
  "case view_parse (lit ''board:cancelled'') of
     None \<Rightarrow> False
   | Some v \<Rightarrow> lanes_iter (dv_lanes v) = [] \<and> view_parse (view_encode v) = None"
  by code_simp

text \<open>
  C33: the scalars that place an item are unambiguous. A location or order entry with a
  non-empty, colon-free first part, and a focus reference with colon-free parts, is read back as
  it was written; and whatever parses is the encoding of what it parses to.
\<close>

theorem placement_scalars_roundtrip:
  "(loc_list_id l \<noteq> [] \<and> COLON \<notin> set (loc_list_id l) \<longrightarrow> location_parse (location_encode l) = Some l) \<and>
   (oe_item_id e \<noteq> [] \<and> COLON \<notin> set (oe_item_id e) \<longrightarrow> entry_parse (entry_encode e) = Some e) \<and>
   (fr_item_id r \<noteq> [] \<and> COLON \<notin> set (fr_item_id r) \<and>
      (\<forall>d. fr_doc_id r = Some d \<longrightarrow> d \<noteq> [] \<and> COLON \<notin> set d) \<longrightarrow> focus_parse (focus_encode r) = Some r) \<and>
   (location_parse s = Some l \<longrightarrow> location_encode l = s) \<and>
   (entry_parse s = Some e \<longrightarrow> entry_encode e = s) \<and>
   (focus_parse s = Some r \<longrightarrow> focus_encode r = s)"
proof (intro conjI impI)
  assume "loc_list_id l \<noteq> [] \<and> COLON \<notin> set (loc_list_id l)"
  then show "location_parse (location_encode l) = Some l"
    by (simp add: location_parse_def location_encode_def)
next
  assume "oe_item_id e \<noteq> [] \<and> COLON \<notin> set (oe_item_id e)"
  then show "entry_parse (entry_encode e) = Some e"
    by (simp add: entry_parse_def entry_encode_def)
next
  assume "fr_item_id r \<noteq> [] \<and> COLON \<notin> set (fr_item_id r) \<and>
      (\<forall>d. fr_doc_id r = Some d \<longrightarrow> d \<noteq> [] \<and> COLON \<notin> set d)"
  then show "focus_parse (focus_encode r) = Some r"
    by (cases "fr_doc_id r") (auto simp: focus_parse_def focus_encode_def split_once_None)
next
  assume "location_parse s = Some l"
  then show "location_encode l = s"
    by (auto simp: location_parse_def location_encode_def dest!: split_once_Some split: option.splits if_splits)
next
  assume "entry_parse s = Some e"
  then show "entry_encode e = s"
    by (auto simp: entry_parse_def entry_encode_def dest!: split_once_Some split: option.splits if_splits)
next
  assume "focus_parse s = Some r"
  then show "focus_encode r = s"
    by (auto simp: focus_parse_def focus_encode_def dest!: split_once_Some split: option.splits if_splits)
qed

theorem placement_scalars_roundtrip_witness:
  "focus_parse (focus_encode \<lparr>fr_doc_id = Some (lit ''d1''), fr_item_id = lit ''i2''\<rparr>) =
     Some \<lparr>fr_doc_id = Some (lit ''d1''), fr_item_id = lit ''i2''\<rparr>"
  using placement_scalars_roundtrip [of "\<lparr>loc_list_id = [], loc_placement_id = []\<rparr>"
      "\<lparr>oe_item_id = [], oe_placement_id = []\<rparr>" "\<lparr>fr_doc_id = Some (lit ''d1''), fr_item_id = lit ''i2''\<rparr>" "[]"]
  by (simp add: lit_def COLON_def)

end
