(* ===== verification/Item_Dates.thy ===== *)
theory Item_Dates
  imports Text Doc_Stream "HOL-Library.List_Lexorder"
begin

text \<open>
  The floating dates of \<open>core/src/doc.rs\<close>: \<open>parse_deadline\<close> and \<open>parse_when\<close>, on the bytes of
  the trimmed input as the source has them, against calendar days and minutes; and that the order
  of the stored strings is the order of the days and minutes they name.
\<close>

section \<open>Parsing\<close>

definition is_ascii_digit :: "nat \<Rightarrow> bool" where
  "is_ascii_digit b \<longleftrightarrow> 48 \<le> b \<and> b \<le> 57"

text \<open>\<open>s[from..to]\<close> parsed as a \<open>u32\<close> when all of it is ASCII digits.\<close>

definition digits :: "nat list \<Rightarrow> nat \<Rightarrow> nat \<Rightarrow> nat option" where
  "digits bytes lo hi =
     (let part = take (hi - lo) (drop lo bytes)
      in if list_all is_ascii_digit part then Some (fold (\<lambda>b n. 10 * n + (b - 48)) part 0) else None)"

definition leap :: "nat \<Rightarrow> bool" where
  "leap year \<longleftrightarrow> year mod 4 = 0 \<and> (year mod 100 \<noteq> 0 \<or> year mod 400 = 0)"

definition days_in_month :: "nat \<Rightarrow> nat \<Rightarrow> nat" where
  "days_in_month year month =
     (if month \<in> {1, 3, 5, 7, 8, 10, 12} then 31
      else if month \<in> {4, 6, 9, 11} then 30
      else if leap year then 29 else 28)"

definition deadline_error :: doc_error where
  "deadline_error = DeInvalid ''deadline must be YYYY-MM-DD''"

definition parse_deadline :: "str \<Rightarrow> doc_error + str" where
  "parse_deadline raw =
     (let s = trim raw; bytes = utf8 s
      in if length bytes \<noteq> 10 \<or> bytes ! 4 \<noteq> 45 \<or> bytes ! 7 \<noteq> 45 then Inl deadline_error
         else case (digits bytes 0 4, digits bytes 5 7, digits bytes 8 10) of
                (Some year, Some month, Some day) \<Rightarrow>
                  (if \<not> (1 \<le> month \<and> month \<le> 12) \<or> day < 1 then Inl deadline_error
                   else if day > days_in_month year month then Inl deadline_error
                   else Inr s)
              | _ \<Rightarrow> Inl deadline_error)"

definition when_error :: doc_error where
  "when_error = DeInvalid ''when must be YYYY-MM-DD or YYYY-MM-DDTHH:MM''"

definition when_is_timed :: "str \<Rightarrow> bool" where
  "when_is_timed normalized \<longleftrightarrow> length (utf8 normalized) = 16"

text \<open>\<open>s[..n]\<close>, where a scalar ends at byte \<open>n\<close>.\<close>

fun byte_prefix :: "nat \<Rightarrow> str \<Rightarrow> str" where
  "byte_prefix n [] = []"
| "byte_prefix n (c # s) =
     (if length (utf8_char c) \<le> n then c # byte_prefix (n - length (utf8_char c)) s else [])"

definition parse_when :: "str \<Rightarrow> doc_error + str" where
  "parse_when raw =
     (let s = trim raw; bytes = utf8 s
      in if length bytes = 10 then
           (case parse_deadline s of Inl _ \<Rightarrow> Inl when_error | Inr d \<Rightarrow> Inr d)
         else if length bytes = 16 then
           (if bytes ! 10 \<noteq> 84 \<or> bytes ! 13 \<noteq> 58 then Inl when_error
            else case parse_deadline (byte_prefix 10 s) of
                   Inl _ \<Rightarrow> Inl when_error
                 | Inr _ \<Rightarrow>
                     (case (digits bytes 11 13, digits bytes 14 16) of
                        (Some h, Some m) \<Rightarrow> if h \<le> 23 \<and> m \<le> 59 then Inr s else Inl when_error
                      | _ \<Rightarrow> Inl when_error))
         else Inl when_error)"

section \<open>ASCII\<close>

definition ascii :: "nat list \<Rightarrow> bool" where
  "ascii s \<longleftrightarrow> list_all (\<lambda>b. b < 128) s"

lemma utf8_char_ascii: "list_all (\<lambda>b. b < 128) (utf8_char c) \<longleftrightarrow> c < 128"
  by (auto simp: utf8_char_def)

lemma utf8_ascii: "ascii (utf8 s) \<longleftrightarrow> ascii s"
  by (induction s) (auto simp: ascii_def utf8_def utf8_char_ascii)

lemma utf8_of_ascii: "ascii s \<Longrightarrow> utf8 s = s"
  by (induction s) (auto simp: ascii_def utf8_def utf8_char_def)

lemma byte_prefix_ascii: "ascii s \<Longrightarrow> byte_prefix n s = take n s"
  by (induction n s rule: byte_prefix.induct) (auto simp: ascii_def utf8_char_def take_Cons')

section \<open>Decimal fields\<close>

definition dec :: "nat list \<Rightarrow> nat" where
  "dec bs = fold (\<lambda>b n. 10 * n + (b - 48)) bs 0"

lemma fold_dec: "fold (\<lambda>b n. 10 * n + (b - 48)) bs n = n * 10 ^ length bs + dec bs"
proof (induction bs arbitrary: n)
  case (Cons b bs)
  from Cons [of "10 * n + (b - 48)"] Cons [of "b - 48"] show ?case
    by (simp add: dec_def algebra_simps)
qed (simp add: dec_def)

lemma dec_Cons: "dec (b # bs) = (b - 48) * 10 ^ length bs + dec bs"
  unfolding dec_def by (simp add: fold_dec [of _ "b - 48"] dec_def)

lemma dec_bound: "list_all is_ascii_digit bs \<Longrightarrow> dec bs < 10 ^ length bs"
proof (induction bs)
  case (Cons b bs)
  then have "b - 48 \<le> 9" "dec bs < 10 ^ length bs" by (auto simp: is_ascii_digit_def)
  then have "(b - 48) * 10 ^ length bs \<le> 9 * 10 ^ length bs" by simp
  with \<open>dec bs < 10 ^ length bs\<close> have "(b - 48) * 10 ^ length bs + dec bs < 9 * 10 ^ length bs + 10 ^ length bs"
    by (rule add_le_less_mono [rotated])
  then show ?case unfolding dec_Cons by simp
qed (simp add: dec_def)

text \<open>On decimal fields of one width, the order of the strings is the order of the numbers.\<close>

lemma dec_less:
  assumes "length bs = length cs" "list_all is_ascii_digit bs" "list_all is_ascii_digit cs"
  shows "(bs < cs \<longleftrightarrow> dec bs < dec cs) \<and> (bs = cs \<longleftrightarrow> dec bs = dec cs)"
  using assms
proof (induction bs cs rule: list_induct2)
  case (Cons b bs c cs)
  let ?w = "10 ^ length bs :: nat"
  have dig: "list_all is_ascii_digit bs" "list_all is_ascii_digit cs" "48 \<le> b" "48 \<le> c"
    using Cons.prems by (auto simp: is_ascii_digit_def [of b] is_ascii_digit_def [of c])
  then have d: "48 \<le> b" "48 \<le> c" "dec bs < ?w" "dec cs < ?w"
    using dec_bound [of bs] dec_bound [of cs] Cons.hyps by auto
  have lt: "x * ?w + dec bs < y * ?w + dec cs" if "x < y" for x y
  proof -
    from that have "Suc x * ?w \<le> y * ?w" by (intro mult_right_mono) auto
    with d show ?thesis by simp
  qed
  have gt: "y * ?w + dec cs < x * ?w + dec bs" if "y < x" for x y
  proof -
    from that have "Suc y * ?w \<le> x * ?w" by (intro mult_right_mono) auto
    with d show ?thesis by simp
  qed
  have IH: "(bs < cs \<longleftrightarrow> dec bs < dec cs) \<and> (bs = cs \<longleftrightarrow> dec bs = dec cs)"
    using Cons by simp
  consider "b < c" | "b = c" | "c < b" by linarith
  then show ?case
  proof cases
    case 1
    with d have "b - 48 < c - 48" by linarith
    from lt [OF this] 1 Cons.hyps show ?thesis by (simp add: dec_Cons)
  next
    case 2
    with IH Cons.hyps show ?thesis by (simp add: dec_Cons)
  next
    case 3
    with d have "c - 48 < b - 48" by linarith
    from gt [OF this] 3 Cons.hyps show ?thesis by (simp add: dec_Cons)
  qed
qed simp

lemma append_less_append:
  "length xs = length ys \<Longrightarrow> xs @ us < ys @ vs \<longleftrightarrow> xs < ys \<or> xs = ys \<and> us < (vs :: nat list)"
  by (induction xs ys rule: list_induct2) auto

section \<open>Calendar days\<close>

definition valid_date :: "nat \<Rightarrow> nat \<Rightarrow> nat \<Rightarrow> bool" where
  "valid_date y m d \<longleftrightarrow> 1 \<le> m \<and> m \<le> 12 \<and> 1 \<le> d \<and> d \<le> days_in_month y m"

definition field :: "nat \<Rightarrow> nat \<Rightarrow> str \<Rightarrow> bool" where
  "field w n s \<longleftrightarrow> length s = w \<and> list_all is_ascii_digit s \<and> dec s = n"

text \<open>\<open>s\<close> names the day \<open>y\<close>-\<open>m\<close>-\<open>d\<close>.\<close>

definition names_day :: "str \<Rightarrow> nat \<Rightarrow> nat \<Rightarrow> nat \<Rightarrow> bool" where
  "names_day s y m d \<longleftrightarrow>
     (\<exists>ys ms ds. s = ys @ 45 # ms @ 45 # ds \<and> field 4 y ys \<and> field 2 m ms \<and> field 2 d ds) \<and> valid_date y m d"

lemma digits_eq: "digits bs lo hi = Some n \<longleftrightarrow>
    list_all is_ascii_digit (take (hi - lo) (drop lo bs)) \<and> n = dec (take (hi - lo) (drop lo bs))"
  by (auto simp: digits_def Let_def dec_def)

lemma ten_parts:
  assumes "length b = 10" "b ! 4 = 45" "b ! 7 = 45"
  shows "b = take 4 b @ 45 # take 2 (drop 5 b) @ 45 # take 2 (drop 8 b)"
proof -
  have "b = take 4 b @ b ! 4 # drop 5 b" using assms(1) by (subst id_take_nth_drop [of 4]) auto
  moreover have "drop 5 b = take 2 (drop 5 b) @ drop 5 b ! 2 # drop 3 (drop 5 b)"
    using assms(1) by (subst id_take_nth_drop [of 2]) auto
  moreover have "take 2 (drop 8 b) = drop 8 b" using assms(1) by simp
  ultimately show ?thesis using assms by (simp add: add.commute)
qed

lemma digit_ascii: "list_all is_ascii_digit s \<Longrightarrow> ascii s"
  by (auto simp: ascii_def list_all_iff is_ascii_digit_def)

lemma names_day_ascii: "names_day s y m d \<Longrightarrow> ascii s \<and> length s = 10"
  by (auto simp: names_day_def field_def dest!: digit_ascii) (auto simp: ascii_def)

lemma parse_deadline_iff:
  "parse_deadline raw = Inr s \<longleftrightarrow> s = trim raw \<and> (\<exists>y m d. names_day s y m d)"
proof
  assume p: "parse_deadline raw = Inr s"
  let ?b = "utf8 (trim raw)"
  from p have b: "length ?b = 10" "?b ! 4 = 45" "?b ! 7 = 45" and s: "s = trim raw"
    by (auto simp: parse_deadline_def Let_def split: if_splits option.splits)
  from p obtain y m d where v: "digits ?b 0 4 = Some y" "digits ?b 5 7 = Some m" "digits ?b 8 10 = Some d"
    "valid_date y m d"
    by (auto simp: parse_deadline_def valid_date_def Let_def not_less split: if_splits option.splits)
  have eq: "?b = take 4 ?b @ 45 # take 2 (drop 5 ?b) @ 45 # take 2 (drop 8 ?b)"
    by (rule ten_parts [OF b])
  have "ascii ?b"
    by (subst eq) (use v in \<open>auto simp: digits_eq ascii_def dest!: digit_ascii\<close>)
  then have u: "?b = s" unfolding s utf8_ascii by (rule utf8_of_ascii)
  have "field 4 y (take 4 ?b)" "field 2 m (take 2 (drop 5 ?b))" "field 2 d (take 2 (drop 8 ?b))"
    using v b by (auto simp: digits_eq field_def)
  with eq v(4) have "names_day ?b y m d" unfolding names_day_def by blast
  with s u show "s = trim raw \<and> (\<exists>y m d. names_day s y m d)" by auto
next
  assume "s = trim raw \<and> (\<exists>y m d. names_day s y m d)"
  then obtain y m d where s: "s = trim raw" and n: "names_day s y m d" by auto
  from names_day_ascii [OF n] have u: "utf8 s = s" by (simp add: utf8_of_ascii)
  from n obtain ys ms ds where f: "s = ys @ 45 # ms @ 45 # ds" "field 4 y ys" "field 2 m ms" "field 2 d ds"
    "valid_date y m d" by (auto simp: names_day_def)
  have l: "length ys = 4" "length ms = 2" "length ds = 2" using f by (auto simp: field_def)
  have "digits s 0 4 = Some y" "digits s 5 7 = Some m" "digits s 8 10 = Some d" "s ! 4 = 45" "s ! 7 = 45" "length s = 10"
    using f l by (auto simp: digits_eq field_def nth_append)
  then show "parse_deadline raw = Inr s"
    using f(5) u by (simp add: parse_deadline_def Let_def s [symmetric] valid_date_def not_less)
qed

section \<open>Days and minutes\<close>

lemma length_trim: "length (trim s) \<le> length s"
  unfolding trim_def by (metis length_dropWhile_le length_rev order_trans)

lemma dropWhile_full: "length (dropWhile P s) = length s \<Longrightarrow> dropWhile P s = s"
  by (metis append_Nil length_0_conv length_append takeWhile_dropWhile_id add_cancel_left_left)

lemma trim_full: "length (trim s) = length s \<Longrightarrow> trim s = s"
proof -
  let ?a = "dropWhile is_whitespace s"
  assume l: "length (trim s) = length s"
  have "length (trim s) \<le> length ?a" unfolding trim_def by (metis length_dropWhile_le length_rev)
  with l have "length ?a = length s" using length_dropWhile_le [of is_whitespace s] by simp
  then have a: "?a = s" by (rule dropWhile_full)
  then have "length (dropWhile is_whitespace (rev s)) = length (rev s)" using l by (simp add: trim_def)
  from dropWhile_full [OF this] a show ?thesis by (simp add: trim_def)
qed

lemma utf8_char_pos: "1 \<le> length (utf8_char c)"
  by (simp add: utf8_char_def)

lemma length_utf8: "length s \<le> length (utf8 s)"
proof (induction s)
  case (Cons c s)
  then show ?case using utf8_char_pos [of c] by (simp add: utf8_def)
qed (simp add: utf8_def)

lemma length_byte_prefix: "length (byte_prefix n s) \<le> n"
proof (induction n s rule: byte_prefix.induct)
  case (2 n c s)
  then show ?case using utf8_char_pos [of c] by auto
qed simp

lemma digit_not_whitespace: "is_ascii_digit b \<Longrightarrow> \<not> is_whitespace b"
  by (auto simp: is_ascii_digit_def is_whitespace_def)

lemma field_ends: "field w n s \<Longrightarrow> 0 < w \<Longrightarrow> s \<noteq> [] \<and> is_ascii_digit (hd s) \<and> is_ascii_digit (last s)"
  by (cases s) (auto simp: field_def list_all_iff)

lemma names_day_trim: "names_day s y m d \<Longrightarrow> trim s = s"
  by (rule trim_id) (auto simp: names_day_def dest!: field_ends digit_not_whitespace split: if_splits)

lemma parse_deadline_fixed:
  assumes "length s \<le> 10"
  shows "parse_deadline s = Inr d \<longleftrightarrow> d = s \<and> (\<exists>y m dd. names_day s y m dd)"
proof
  assume "parse_deadline s = Inr d"
  then obtain y m dd where d: "d = trim s" "names_day d y m dd" unfolding parse_deadline_iff by auto
  from names_day_ascii [OF d(2)] assms length_trim [of s] have "length (trim s) = length s" by (simp add: d(1))
  then have "trim s = s" by (rule trim_full)
  with d show "d = s \<and> (\<exists>y m dd. names_day s y m dd)" by auto
next
  assume "d = s \<and> (\<exists>y m dd. names_day s y m dd)"
  then show "parse_deadline s = Inr d" unfolding parse_deadline_iff using names_day_trim by metis
qed

text \<open>\<open>s\<close> names the day \<open>y\<close>-\<open>m\<close>-\<open>d\<close>, all of it or a minute of it.\<close>

definition names_moment :: "str \<Rightarrow> nat \<Rightarrow> nat \<Rightarrow> nat \<Rightarrow> (nat \<times> nat) option \<Rightarrow> bool" where
  "names_moment s y m d t \<longleftrightarrow>
     (case t of
        None \<Rightarrow> names_day s y m d
      | Some (h, mi) \<Rightarrow>
          (\<exists>day hs ms. s = day @ 84 # hs @ 58 # ms \<and> names_day day y m d \<and>
             field 2 h hs \<and> field 2 mi ms) \<and> h \<le> 23 \<and> mi \<le> 59)"

lemma sixteen_parts:
  assumes "length b = 16" "b ! 10 = 84" "b ! 13 = 58"
  shows "b = take 10 b @ 84 # take 2 (drop 11 b) @ 58 # take 2 (drop 14 b)"
proof -
  have "b = take 10 b @ b ! 10 # drop 11 b" using assms(1) by (subst id_take_nth_drop [of 10]) auto
  moreover have "drop 11 b = take 2 (drop 11 b) @ drop 11 b ! 2 # drop 3 (drop 11 b)"
    using assms(1) by (subst id_take_nth_drop [of 2]) auto
  moreover have "take 2 (drop 14 b) = drop 14 b" using assms(1) by simp
  ultimately show ?thesis using assms by (simp add: add.commute)
qed

lemma utf8_append: "utf8 (s @ t) = utf8 s @ utf8 t"
  by (simp add: utf8_def)

lemma utf8_byte_prefix:
  assumes "ascii (byte_prefix n s)" "length (byte_prefix n s) = n"
  shows "take n (utf8 s) = byte_prefix n s"
proof -
  have "\<exists>t. s = byte_prefix n s @ t"
    by (induction n s rule: byte_prefix.induct) auto
  then obtain t where "s = byte_prefix n s @ t" by auto
  then have "utf8 s = utf8 (byte_prefix n s) @ utf8 t" by (metis utf8_append)
  with assms show ?thesis by (simp add: utf8_of_ascii)
qed

lemma parse_when_timed:
  assumes "length (utf8 (trim raw)) = 16" and "parse_when raw = Inr s"
  shows "\<exists>y m d h mi. names_moment (trim raw) y m d (Some (h, mi)) \<and> s = trim raw"
proof -
  let ?s = "trim raw" and ?b = "utf8 (trim raw)"
  from assms have b: "?b ! 10 = 84" "?b ! 13 = 58" and s: "s = ?s"
    by (auto simp: parse_when_def Let_def split: if_splits option.splits sum.splits)
  from assms obtain h mi d' where v: "digits ?b 11 13 = Some h" "digits ?b 14 16 = Some mi" "h \<le> 23" "mi \<le> 59"
    "parse_deadline (byte_prefix 10 ?s) = Inr d'"
    by (auto simp: parse_when_def Let_def split: if_splits option.splits sum.splits)
  from v(5) length_byte_prefix [of 10 ?s] obtain y m d where n: "names_day (byte_prefix 10 ?s) y m d"
    by (auto simp: parse_deadline_fixed)
  from names_day_ascii [OF n] have pre: "take 10 ?b = byte_prefix 10 ?s" by (intro utf8_byte_prefix) auto
  have eq: "?b = take 10 ?b @ 84 # take 2 (drop 11 ?b) @ 58 # take 2 (drop 14 ?b)"
    by (rule sixteen_parts [OF assms(1) b])
  have f: "field 2 h (take 2 (drop 11 ?b))" "field 2 mi (take 2 (drop 14 ?b))"
    using v(1,2) assms(1) by (auto simp: digits_eq field_def)
  then have "ascii ?b"
    by (subst eq) (use names_day_ascii [OF n] pre in \<open>auto simp: ascii_def field_def dest!: digit_ascii\<close>)
  then have "?b = ?s" unfolding utf8_ascii by (rule utf8_of_ascii)
  moreover have "names_moment ?b y m d (Some (h, mi))"
    unfolding names_moment_def option.case prod.case using eq f v(3,4) n pre by metis
  ultimately show ?thesis using s by metis
qed

lemma names_moment_ascii:
  assumes "names_moment s y m d t"
  shows "ascii s" "length s = (case t of None \<Rightarrow> 10 | Some _ \<Rightarrow> 16)"
  using assms names_day_ascii
  by (fastforce simp: names_moment_def field_def ascii_def split: option.splits dest!: digit_ascii)+

lemma parse_when_iff:
  "parse_when raw = Inr s \<longleftrightarrow> s = trim raw \<and> (\<exists>y m d t. names_moment s y m d t)"
proof
  assume p: "parse_when raw = Inr s"
  let ?b = "utf8 (trim raw)"
  from p consider "length ?b = 10" | "length ?b = 16"
    by (auto simp: parse_when_def Let_def split: if_splits)
  then show "s = trim raw \<and> (\<exists>y m d t. names_moment s y m d t)"
  proof cases
    case 1
    then have "length (trim raw) \<le> 10" using length_utf8 [of "trim raw"] by simp
    moreover have "parse_deadline (trim raw) = Inr s"
      using p 1 by (auto simp: parse_when_def Let_def split: sum.splits)
    ultimately obtain y m d where "s = trim raw" "names_day s y m d" by (auto simp: parse_deadline_fixed)
    then have "s = trim raw \<and> names_moment s y m d None" by (simp add: names_moment_def)
    then show ?thesis by blast
  next
    case 2
    from parse_when_timed [OF 2 p] show ?thesis by blast
  qed
next
  assume "s = trim raw \<and> (\<exists>y m d t. names_moment s y m d t)"
  then obtain y m d t where s: "s = trim raw" and n: "names_moment s y m d t" by auto
  have a: "ascii s" and u: "utf8 s = s" using names_moment_ascii(1) [OF n] by (auto simp: utf8_of_ascii)
  show "parse_when raw = Inr s"
  proof (cases t)
    case None
    with n have d: "names_day s y m d" by (simp add: names_moment_def)
    then have "parse_deadline s = Inr s" "length s = 10"
      using names_day_ascii [OF d] parse_deadline_fixed [of s s] by auto
    then show ?thesis by (simp add: parse_when_def Let_def s [symmetric] u)
  next
    case (Some hm)
    obtain h mi where t: "t = Some (h, mi)" using Some by (cases hm) auto
    from n obtain day hs ms where f: "s = day @ 84 # hs @ 58 # ms" "names_day day y m d"
      "field 2 h hs" "field 2 mi ms" "h \<le> 23" "mi \<le> 59" by (auto simp: names_moment_def t)
    have l: "length day = 10" "length hs = 2" "length ms = 2" using f names_day_ascii [OF f(2)] by (auto simp: field_def)
    have "parse_deadline day = Inr day" using f(2) l parse_deadline_fixed [of day day] by auto
    moreover have "byte_prefix 10 s = day" using byte_prefix_ascii [OF a] f(1) l by simp
    moreover have "digits s 11 13 = Some h" "digits s 14 16 = Some mi" "s ! 10 = 84" "s ! 13 = 58" "length s = 16"
      using f l by (auto simp: digits_eq field_def nth_append)
    ultimately show ?thesis using f(5,6) by (simp add: parse_when_def Let_def s [symmetric] u)
  qed
qed

section \<open>Order\<close>

lemma field_less:
  assumes "field w n s" "field w n' s'"
  shows "s < s' \<longleftrightarrow> n < n'" "s = s' \<longleftrightarrow> n = n'"
  using dec_less [of s s'] assms by (auto simp: field_def)

definition day_before :: "nat \<times> nat \<times> nat \<Rightarrow> nat \<times> nat \<times> nat \<Rightarrow> bool" where
  "day_before a b \<longleftrightarrow>
     (case (a, b) of ((y, m, d), (y', m', d')) \<Rightarrow>
        y < y' \<or> y = y' \<and> (m < m' \<or> m = m' \<and> d < d'))"

lemma names_day_less:
  assumes "names_day s y m d" "names_day s' y' m' d'"
  shows "s < s' \<longleftrightarrow> day_before (y, m, d) (y', m', d')" "s = s' \<longleftrightarrow> (y, m, d) = (y', m', d')"
proof -
  obtain ys ms ds where f: "s = ys @ 45 # ms @ 45 # ds" "field 4 y ys" "field 2 m ms" "field 2 d ds"
    using assms(1) by (auto simp: names_day_def)
  obtain ys' ms' ds' where f': "s' = ys' @ 45 # ms' @ 45 # ds'" "field 4 y' ys'" "field 2 m' ms'" "field 2 d' ds'"
    using assms(2) by (auto simp: names_day_def)
  have l: "length ys = length ys'" "length ms = length ms'" using f f' by (auto simp: field_def)
  show "s < s' \<longleftrightarrow> day_before (y, m, d) (y', m', d')"
    using f f' l field_less [OF f(2) f'(2)] field_less [OF f(3) f'(3)] field_less [OF f(4) f'(4)]
    by (simp add: append_less_append day_before_def)
  show "s = s' \<longleftrightarrow> (y, m, d) = (y', m', d')"
    using f f' l field_less(2) [OF f(2) f'(2)] field_less(2) [OF f(3) f'(3)] field_less(2) [OF f(4) f'(4)]
    by simp
qed

text \<open>An all-day moment comes before every minute of its day.\<close>

definition time_before :: "(nat \<times> nat) option \<Rightarrow> (nat \<times> nat) option \<Rightarrow> bool" where
  "time_before t t' \<longleftrightarrow>
     (case (t, t') of
        (None, Some _) \<Rightarrow> True
      | (Some (h, mi), Some (h', mi')) \<Rightarrow> h < h' \<or> h = h' \<and> mi < mi'
      | _ \<Rightarrow> False)"

lemma names_moment_parts:
  assumes "names_moment s y m d t"
  obtains day rest where "s = day @ rest" "names_day day y m d" "length day = 10"
    "case t of None \<Rightarrow> rest = []
     | Some (h, mi) \<Rightarrow> \<exists>hs ms. rest = 84 # hs @ 58 # ms \<and> field 2 h hs \<and> field 2 mi ms"
proof (cases t)
  case None
  with assms that [of s "[]"] names_day_ascii show thesis by (auto simp: names_moment_def)
next
  case (Some hm)
  with assms obtain h mi day hs ms where "t = Some (h, mi)" "s = day @ 84 # hs @ 58 # ms" "names_day day y m d"
    "field 2 h hs" "field 2 mi ms" by (cases hm) (auto simp: names_moment_def)
  with that [of day "84 # hs @ 58 # ms"] names_day_ascii show thesis by auto
qed

lemma names_moment_less:
  assumes "names_moment s y m d t" "names_moment s' y' m' d' t'"
  shows "s < s' \<longleftrightarrow> day_before (y, m, d) (y', m', d') \<or> (y, m, d) = (y', m', d') \<and> time_before t t'"
proof -
  obtain day r where p: "s = day @ r" "names_day day y m d" "length day = 10"
    "case t of None \<Rightarrow> r = [] | Some (h, mi) \<Rightarrow> \<exists>hs ms. r = 84 # hs @ 58 # ms \<and> field 2 h hs \<and> field 2 mi ms"
    by (rule names_moment_parts [OF assms(1)])
  obtain day' r' where p': "s' = day' @ r'" "names_day day' y' m' d'" "length day' = 10"
    "case t' of None \<Rightarrow> r' = [] | Some (h, mi) \<Rightarrow> \<exists>hs ms. r' = 84 # hs @ 58 # ms \<and> field 2 h hs \<and> field 2 mi ms"
    by (rule names_moment_parts [OF assms(2)])
  have "r < r' \<longleftrightarrow> time_before t t'"
  proof (cases "t = None \<or> t' = None")
    case True
    with p(4) p'(4) show ?thesis by (cases t; cases t') (auto simp: time_before_def)
  next
    case False
    then obtain h mi h' mi' hs ms hs' ms' where
      "t = Some (h, mi)" "r = 84 # hs @ 58 # ms" "field 2 h hs" "field 2 mi ms"
      "t' = Some (h', mi')" "r' = 84 # hs' @ 58 # ms'" "field 2 h' hs'" "field 2 mi' ms'"
      using p(4) p'(4) by auto
    then show ?thesis
      using field_less [of 2 h hs h' hs'] field_less [of 2 mi ms mi' ms']
      by (simp add: time_before_def append_less_append field_def)
  qed
  with p p' names_day_less [OF p(2) p'(2)] show ?thesis by (simp add: append_less_append)
qed

section \<open>Properties\<close>

lemmas date_eval = parse_when_def parse_deadline_def Let_def trim_def lit_def is_whitespace_def utf8_def
  utf8_char_def digits_def is_ascii_digit_def days_in_month_def leap_def

text \<open>
  C34: \<open>parse_deadline\<close> accepts a string exactly when, trimmed, it names a real calendar day as
  \<open>YYYY-MM-DD\<close>, and \<open>parse_when\<close> exactly when it names a day or a minute of one as
  \<open>YYYY-MM-DDTHH:MM\<close>; the result is the trimmed string, and both accept their own result again.
\<close>

theorem dates_accepted_exactly:
  "(parse_deadline raw = Inr s \<longleftrightarrow> s = trim raw \<and> (\<exists>y m d. names_day s y m d)) \<and>
   (parse_when raw = Inr s \<longleftrightarrow> s = trim raw \<and> (\<exists>y m d t. names_moment s y m d t)) \<and>
   (parse_deadline raw = Inr s \<longrightarrow> parse_deadline s = Inr s)"
proof (intro conjI impI)
  assume "parse_deadline raw = Inr s"
  then obtain y m d where "names_day s y m d" by (auto simp: parse_deadline_iff)
  with names_day_trim show "parse_deadline s = Inr s" unfolding parse_deadline_iff by metis
qed (rule parse_deadline_iff parse_when_iff)+

theorem dates_accepted_exactly_witness:
  "\<exists>y m d. names_day (lit ''2024-02-29'') y m d \<and> parse_deadline (lit ''2024-02-29'') = Inr (lit ''2024-02-29'')"
proof -
  have "parse_deadline (lit '' 2024-02-29 '') = Inr (lit ''2024-02-29'')" by (simp add: date_eval)
  with dates_accepted_exactly [of "lit '' 2024-02-29 ''" "lit ''2024-02-29''"] show ?thesis by blast
qed

text \<open>
  Stored planned dates sort by plain string comparison: of two values \<open>parse_when\<close> accepts,
  the smaller string names the earlier day, an all-day value before the minutes of its day, and
  the earlier minute within a day.
\<close>

theorem when_sorts_as_text:
  assumes "parse_when a = Inr s" and "parse_when b = Inr s'"
  shows "\<exists>y m d t y' m' d' t'. names_moment s y m d t \<and> names_moment s' y' m' d' t' \<and>
    (s < s' \<longleftrightarrow> day_before (y, m, d) (y', m', d') \<or> (y, m, d) = (y', m', d') \<and> time_before t t')"
proof -
  from assms obtain y m d t y' m' d' t' where "names_moment s y m d t" "names_moment s' y' m' d' t'"
    unfolding parse_when_iff by auto
  with names_moment_less show ?thesis by blast
qed

theorem when_sorts_as_text_witness:
  "\<exists>y m d t y' m' d' t'. names_moment (lit ''2026-03-01'') y m d t \<and>
     names_moment (lit ''2026-03-01T09:30'') y' m' d' t' \<and>
     (day_before (y, m, d) (y', m', d') \<or> (y, m, d) = (y', m', d') \<and> time_before t t')"
proof -
  have p: "parse_when (lit ''2026-03-01'') = Inr (lit ''2026-03-01'')"
    "parse_when (lit ''2026-03-01T09:30'') = Inr (lit ''2026-03-01T09:30'')" by (simp_all add: date_eval)
  have "lit ''2026-03-01'' < lit ''2026-03-01T09:30''" by (simp add: lit_def)
  with when_sorts_as_text [OF p] show ?thesis by blast
qed

end
