(* ===== verification/Notes_Delta.thy ===== *)
theory Notes_Delta
  imports Text Doc_Stream
begin

text \<open>
  The plain-text deltas of an item's notes in \<open>core/src/doc.rs\<close>, counted in UTF-16 code units:
  validation against the current text, conversion from Loro's scalar deltas, composition, and
  what \<open>emit_notes_delta\<close> sends to a subscribed editor. Loro's text diffs are an argument.
\<close>

section \<open>Deltas\<close>

datatype notes_op = NRetain nat | NInsert str | NDelete nat

datatype text_delta = TRetain nat | TInsert str | TDelete nat

section \<open>Validation\<close>

fun scalar_offsets :: "nat \<Rightarrow> str \<Rightarrow> nat list" where
  "scalar_offsets tot [] = [tot]"
| "scalar_offsets tot (c # s) = tot # scalar_offsets (tot + len_utf16 c) s"

definition delta_error :: "string \<Rightarrow> doc_error" where
  "delta_error what = DeInvalid (''notes delta: '' @ what)"

fun validate_loop :: "nat set \<Rightarrow> nat \<Rightarrow> nat \<Rightarrow> notes_op list \<Rightarrow> doc_error + unit" where
  "validate_loop boundaries tot pos [] = Inr ()"
| "validate_loop boundaries tot pos (NRetain n # ops) =
     (case checked_add pos n of
        None \<Rightarrow> Inl (delta_error ''overflow'')
      | Some pos' \<Rightarrow>
          if pos' > tot then Inl (delta_error ''retain past end'')
          else validate_loop boundaries tot pos' ops)"
| "validate_loop boundaries tot pos (NDelete n # ops) =
     (case checked_add pos n of
        None \<Rightarrow> Inl (delta_error ''overflow'')
      | Some hi \<Rightarrow>
          if hi > tot then Inl (delta_error ''delete past end'')
          else if pos \<notin> boundaries \<or> hi \<notin> boundaries
          then Inl (delta_error ''delete splits a surrogate pair'')
          else
            let removed = hi - pos
            in validate_loop
                 ((\<lambda>b. if b \<ge> hi then b - removed else b) ` Set.filter (\<lambda>b. b < pos \<or> b \<ge> hi) boundaries)
                 (tot - removed) pos ops)"
| "validate_loop boundaries tot pos (NInsert s # ops) =
     (if pos \<notin> boundaries then Inl (delta_error ''insert splits a surrogate pair'')
      else
        let len = length (utf16 s)
        in validate_loop
             ((\<lambda>b. if b \<ge> pos then b + len else b) ` boundaries \<union> set (butlast (scalar_offsets pos s)))
             (tot + len) (pos + len) ops)"

definition validate_utf16_delta :: "str \<Rightarrow> notes_op list \<Rightarrow> doc_error + unit" where
  "validate_utf16_delta current delta =
     validate_loop (set (scalar_offsets 0 current)) (sum_list (map len_utf16 current)) 0 delta"

section \<open>From scalar units\<close>

fun from_scalar_loop ::
  "str \<Rightarrow> nat \<Rightarrow> notes_op list \<Rightarrow> str \<Rightarrow> text_delta list \<Rightarrow> (notes_op list \<times> str) option" where
  "from_scalar_loop chars cursor out post [] =
     (if cursor \<le> length chars then Some (out, post @ drop cursor chars) else None)"
| "from_scalar_loop chars cursor out post (TRetain n # ops) =
     (case checked_add cursor n of
        None \<Rightarrow> None
      | Some hi \<Rightarrow>
          if hi > length chars then None
          else
            let slice = take (hi - cursor) (drop cursor chars)
            in from_scalar_loop chars hi (out @ [NRetain (sum_list (map len_utf16 slice))]) (post @ slice) ops)"
| "from_scalar_loop chars cursor out post (TDelete n # ops) =
     (case checked_add cursor n of
        None \<Rightarrow> None
      | Some hi \<Rightarrow>
          if hi > length chars then None
          else
            let slice = take (hi - cursor) (drop cursor chars)
            in from_scalar_loop chars hi (out @ [NDelete (sum_list (map len_utf16 slice))]) post ops)"
| "from_scalar_loop chars cursor out post (TInsert s # ops) =
     from_scalar_loop chars cursor (out @ [NInsert s]) (post @ s) ops"

definition utf16_delta_from_scalar :: "str \<Rightarrow> text_delta list \<Rightarrow> (notes_op list \<times> str) option" where
  "utf16_delta_from_scalar pre delta = from_scalar_loop pre 0 [] [] delta"

definition replace_delta :: "str \<Rightarrow> str \<Rightarrow> notes_op list" where
  "replace_delta pre post =
     (if pre = post then []
      else
        let len = length (utf16 pre)
        in (if len > 0 then [NDelete len] else []) @ (if post \<noteq> [] then [NInsert post] else []))"

section \<open>Composition\<close>

datatype cur = CRetain nat | CInsert "nat list" | CDelete nat

fun to_cur :: "notes_op \<Rightarrow> cur" where
  "to_cur (NRetain n) = CRetain n"
| "to_cur (NInsert s) = CInsert (utf16 s)"
| "to_cur (NDelete n) = CDelete n"

text \<open>\<open>String::from_utf16_lossy\<close>: surrogate pairs are joined, a lone surrogate is U+FFFD.\<close>

fun from_utf16_lossy :: "nat list \<Rightarrow> str" where
  "from_utf16_lossy [] = []"
| "from_utf16_lossy [u] = [if 0xD800 \<le> u \<and> u < 0xE000 then 0xFFFD else u]"
| "from_utf16_lossy (u # v # us) =
     (if u < 0xD800 \<or> 0xE000 \<le> u then u # from_utf16_lossy (v # us)
      else if u < 0xDC00 \<and> 0xDC00 \<le> v \<and> v < 0xE000
      then (0x10000 + (u - 0xD800) * 1024 + (v - 0xDC00)) # from_utf16_lossy us
      else 0xFFFD # from_utf16_lossy (v # us))"

fun from_cur :: "cur \<Rightarrow> notes_op" where
  "from_cur (CRetain n) = NRetain n"
| "from_cur (CDelete n) = NDelete n"
| "from_cur (CInsert u) = NInsert (from_utf16_lossy u)"

definition push_cur :: "cur list \<Rightarrow> cur \<Rightarrow> cur list" where
  "push_cur out c =
     (if out = [] then [c]
      else case (last out, c) of
             (CRetain x, CRetain y) \<Rightarrow> butlast out @ [CRetain (x + y)]
           | (CDelete x, CDelete y) \<Rightarrow> butlast out @ [CDelete (x + y)]
           | (CInsert x, CInsert y) \<Rightarrow> butlast out @ [CInsert (x @ y)]
           | _ \<Rightarrow> out @ [c])"

fun cur_size :: "cur \<Rightarrow> nat" where
  "cur_size (CRetain n) = Suc n"
| "cur_size (CInsert u) = Suc (length u)"
| "cur_size (CDelete n) = Suc n"

lemma cur_size_pos [simp]: "0 < cur_size c"
  by (cases c) simp_all

text \<open>\<open>a_cur\<close> and \<open>b_cur\<close> are the heads of the two lists.\<close>

function compose_loop :: "cur list \<Rightarrow> cur list \<Rightarrow> cur list \<Rightarrow> cur list" where
  "compose_loop [] [] out = out"
| "compose_loop (x # as) [] out = compose_loop as [] (push_cur out x)"
| "compose_loop [] (y # bs) out = compose_loop [] bs (push_cur out y)"
| "compose_loop (CDelete n # as) (y # bs) out = compose_loop as (y # bs) (push_cur out (CDelete n))"
| "compose_loop (CRetain n # as) (CInsert s # bs) out = compose_loop (CRetain n # as) bs (push_cur out (CInsert s))"
| "compose_loop (CInsert u # as) (CInsert s # bs) out = compose_loop (CInsert u # as) bs (push_cur out (CInsert s))"
| "compose_loop (CRetain n # as) (CRetain m # bs) out =
     (let k = min n m
      in compose_loop (if n > k then CRetain (n - k) # as else as)
           (if m > k then CRetain (m - k) # bs else bs) (push_cur out (CRetain k)))"
| "compose_loop (CRetain n # as) (CDelete m # bs) out =
     (let k = min n m
      in compose_loop (if n > k then CRetain (n - k) # as else as)
           (if m > k then CDelete (m - k) # bs else bs) (push_cur out (CDelete k)))"
| "compose_loop (CInsert s # as) (CRetain m # bs) out =
     (let k = min (length s) m
      in compose_loop (if length s > k then CInsert (drop k s) # as else as)
           (if m > k then CRetain (m - k) # bs else bs) (push_cur out (CInsert (take k s))))"
| "compose_loop (CInsert s # as) (CDelete m # bs) out =
     (let k = min (length s) m
      in compose_loop (if length s > k then CInsert (drop k s) # as else as)
           (if m > k then CDelete (m - k) # bs else bs) out)"
  by pat_completeness auto

termination
  by (relation "measure (\<lambda>(as, bs, _). sum_list (map cur_size as) + sum_list (map cur_size bs))")
    (auto simp: min_def)

definition is_retain :: "notes_op \<Rightarrow> bool" where
  "is_retain op = (case op of NRetain _ \<Rightarrow> True | _ \<Rightarrow> False)"

definition trim_delta :: "notes_op list \<Rightarrow> notes_op list" where
  "trim_delta ops = rev (dropWhile is_retain (rev ops))"

definition compose_utf16_deltas :: "notes_op list \<Rightarrow> notes_op list \<Rightarrow> notes_op list" where
  "compose_utf16_deltas a b =
     (if a = [] then trim_delta b
      else if b = [] then trim_delta a
      else trim_delta (map from_cur (compose_loop (map to_cur a) (map to_cur b) [])))"

section \<open>What a subscribed editor is sent\<close>

fun translate_deltas ::
  "str \<Rightarrow> notes_op list \<Rightarrow> text_delta list list \<Rightarrow> (notes_op list \<times> str) option" where
  "translate_deltas cur out [] = Some (out, cur)"
| "translate_deltas cur out (d # ds) =
     (case utf16_delta_from_scalar cur d of
        None \<Rightarrow> None
      | Some (ops, nxt) \<Rightarrow> translate_deltas nxt (compose_utf16_deltas out ops) ds)"

definition frame_delta :: "str \<Rightarrow> text_delta list list \<Rightarrow> str \<Rightarrow> notes_op list" where
  "frame_delta shadow deltas post =
     (if deltas = [] then replace_delta shadow post
      else case translate_deltas shadow [] deltas of
             None \<Rightarrow> replace_delta shadow post
           | Some (out, cur) \<Rightarrow> if cur = post then out else replace_delta shadow post)"

text \<open>The part of a \<open>Doc\<close> these functions touch: the notes of every item that exists, the shadow
  of every subscribed item, and the notes events pushed so far.\<close>

datatype notes_event =
    ItemNotesDelta str "notes_op list"
  | ItemNotesChanged str str

record notes_state =
  ns_notes :: "str \<rightharpoonup> str"
  ns_shadows :: "str \<rightharpoonup> str"
  ns_events :: "notes_event list"

definition push_notes_event :: "notes_event \<Rightarrow> notes_state \<Rightarrow> notes_state" where
  "push_notes_event ev st = st\<lparr>ns_events := ns_events st @ [ev]\<rparr>"

definition subscribe_notes :: "str \<Rightarrow> notes_state \<Rightarrow> (doc_error + str) \<times> notes_state" where
  "subscribe_notes item_id st =
     (case ns_notes st item_id of
        None \<Rightarrow> (Inl (DeItemNotFound item_id), st)
      | Some notes \<Rightarrow> (Inr notes, st\<lparr>ns_shadows := (ns_shadows st)(item_id \<mapsto> notes)\<rparr>))"

definition emit_notes_delta :: "str \<Rightarrow> text_delta list list \<Rightarrow> str \<Rightarrow> notes_state \<Rightarrow> notes_state" where
  "emit_notes_delta item_id deltas post st =
     (case ns_shadows st item_id of
        None \<Rightarrow> st
      | Some shadow \<Rightarrow>
          let out = frame_delta shadow deltas post;
              st' = st\<lparr>ns_shadows := (ns_shadows st)(item_id \<mapsto> post)\<rparr>
          in if out = [] then st' else push_notes_event (ItemNotesDelta item_id out) st')"

definition unsubscribe_notes :: "str \<Rightarrow> notes_state \<Rightarrow> notes_state" where
  "unsubscribe_notes item_id st = st\<lparr>ns_shadows := (ns_shadows st)(item_id := None)\<rparr>"

definition refresh_notes_shadow :: "str \<Rightarrow> str \<Rightarrow> notes_state \<Rightarrow> notes_state" where
  "refresh_notes_shadow item_id notes st =
     (case ns_shadows st item_id of
        None \<Rightarrow> st
      | Some _ \<Rightarrow> st\<lparr>ns_shadows := (ns_shadows st)(item_id \<mapsto> notes)\<rparr>)"

section \<open>What a delta does\<close>

definition wf_str :: "str \<Rightarrow> bool" where
  "wf_str s \<longleftrightarrow> list_all is_scalar s"

lemma wf_str_append [simp]: "wf_str (s @ t) \<longleftrightarrow> wf_str s \<and> wf_str t" "wf_str []"
  by (simp_all add: wf_str_def)

text \<open>
  \<open>does ops cs out\<close>: the units of \<open>ops\<close> fall on scalar boundaries of the text \<open>cs\<close>, and applying
  \<open>ops\<close> to it gives \<open>out\<close>. A text left over is kept.
\<close>

inductive does :: "cur list \<Rightarrow> str \<Rightarrow> str \<Rightarrow> bool" where
  does_Nil: "does [] cs cs"
| does_Retain: "n = length (utf16 a) \<Longrightarrow> does ops cs out \<Longrightarrow> does (CRetain n # ops) (a @ cs) (a @ out)"
| does_Insert: "u = utf16 s \<Longrightarrow> wf_str s \<Longrightarrow> does ops cs out \<Longrightarrow> does (CInsert u # ops) cs (s @ out)"
| does_Delete: "n = length (utf16 a) \<Longrightarrow> does ops cs out \<Longrightarrow> does (CDelete n # ops) (a @ cs) out"

inductive_cases does_NilE [elim!]: "does [] cs out"
inductive_cases does_RetainE [elim!]: "does (CRetain n # ops) cs out"
inductive_cases does_InsertE [elim!]: "does (CInsert u # ops) cs out"
inductive_cases does_DeleteE [elim!]: "does (CDelete n # ops) cs out"

lemma utf16_char_not_Nil [simp]: "utf16_char c \<noteq> []"
  by (simp add: utf16_char_def)

text \<open>Two prefixes of one text: the one with fewer units is a prefix of the other.\<close>

lemma utf16_prefix_cases:
  assumes "a @ x = b @ y"
  obtains (le) z where "b = a @ z" "x = z @ y" "length (utf16 a) \<le> length (utf16 b)"
      "length (utf16 b) - length (utf16 a) = length (utf16 z)"
    | (ge) z where "a = b @ z" "y = z @ x" "z \<noteq> []" "length (utf16 b) < length (utf16 a)"
      "length (utf16 a) - length (utf16 b) = length (utf16 z)"
proof -
  from assms consider z where "b = a @ z" "x = z @ y" | z where "a = b @ z" "y = z @ x"
    by (auto simp: append_eq_append_conv2)
  then show thesis
  proof cases
    case 1
    then show thesis using le by simp
  next
    case 2
    show thesis
    proof (cases z)
      case Nil
      with 2 show thesis using le [of "[]"] by simp
    next
      case (Cons c cs)
      with 2 show thesis using ge [of z] by simp
    qed
  qed
qed

lemma utf16_Nil_iff [simp]: "utf16 s = [] \<longleftrightarrow> s = []"
  by (cases s) simp_all

lemma does_retain_rest:
  assumes "does ops cs out" "n = length (utf16 z)"
  shows "does (if n > 0 then CRetain n # ops else ops) (z @ cs) (z @ out)"
  using assms does_Retain [of n z ops cs out] by (cases "z = []") auto

lemma does_delete_rest:
  assumes "does ops cs out" "n = length (utf16 z)"
  shows "does (if n > 0 then CDelete n # ops else ops) (z @ cs) out"
  using assms does_Delete [of n z ops cs out] by (cases "z = []") auto

lemma does_insert_rest:
  assumes "does ops cs out" "u = utf16 z" "wf_str z"
  shows "does (if u \<noteq> [] then CInsert u # ops else ops) cs (z @ out)"
  using assms does_Insert [of u z ops cs out] by (cases "z = []") auto

section \<open>Composition is sequencing\<close>

text \<open>The output so far has turned \<open>c\<close> into \<open>o'\<close>, whatever follows.\<close>

definition so_far :: "cur list \<Rightarrow> str \<Rightarrow> str \<Rightarrow> bool" where
  "so_far out c o' \<longleftrightarrow> (\<forall>R cs fin. does R cs fin \<longrightarrow> does (out @ R) (c @ cs) (o' @ fin))"

lemma merge_retain: "does (xs @ CRetain x # CRetain y # R) cs out \<Longrightarrow> does (xs @ CRetain (x + y) # R) cs out"
proof (induction xs arbitrary: cs out)
  case Nil
  then obtain a b c d where "cs = a @ b @ c" "out = a @ b @ d" "x = length (utf16 a)" "y = length (utf16 b)" "does R c d"
    by auto
  with does_Retain [of "x + y" "a @ b" R c d] show ?case by simp
next
  case (Cons z xs)
  then show ?case by (cases z) (auto intro: does.intros)
qed

lemma merge_delete: "does (xs @ CDelete x # CDelete y # R) cs out \<Longrightarrow> does (xs @ CDelete (x + y) # R) cs out"
proof (induction xs arbitrary: cs out)
  case Nil
  then obtain a b c where "cs = a @ b @ c" "x = length (utf16 a)" "y = length (utf16 b)" "does R c out"
    by auto
  with does_Delete [of "x + y" "a @ b" R c out] show ?case by simp
next
  case (Cons z xs)
  then show ?case by (cases z) (auto intro: does.intros)
qed

lemma merge_insert: "does (xs @ CInsert x # CInsert y # R) cs out \<Longrightarrow> does (xs @ CInsert (x @ y) # R) cs out"
proof (induction xs arbitrary: cs out)
  case Nil
  then obtain s t d where "out = s @ t @ d" "x = utf16 s" "y = utf16 t" "wf_str s" "wf_str t" "does R cs d" by auto
  with does_Insert [of "x @ y" "s @ t" R cs d] show ?case by simp
next
  case (Cons z xs)
  then show ?case by (cases z) (auto intro: does.intros)
qed

lemma push_cur_does:
  assumes "does (out @ c # R) cs fin"
  shows "does (push_cur out c @ R) cs fin"
proof (cases out rule: rev_cases)
  case Nil
  with assms show ?thesis by (simp add: push_cur_def)
next
  case (snoc ys y)
  with assms merge_retain [of ys _ _ R cs fin] merge_delete [of ys _ _ R cs fin] merge_insert [of ys _ _ R cs fin]
  show ?thesis by (cases y; cases c) (simp_all add: push_cur_def)
qed

lemma so_far_snoc:
  assumes "so_far out c o'"
  shows "so_far (out @ [CRetain (length (utf16 a))]) (c @ a) (o' @ a)"
    "wf_str a \<Longrightarrow> so_far (out @ [CInsert (utf16 a)]) c (o' @ a)"
    "so_far (out @ [CDelete (length (utf16 a))]) (c @ a) o'"
proof -
  have *: "does (out @ R) (c @ cs) (o' @ fin)" if "does R cs fin" for R cs fin
    using assms that by (simp add: so_far_def)
  show "so_far (out @ [CRetain (length (utf16 a))]) (c @ a) (o' @ a)"
    using * [OF does_Retain [OF refl]] by (auto simp: so_far_def)
  show "so_far (out @ [CInsert (utf16 a)]) c (o' @ a)" if "wf_str a"
    using * [OF does_Insert [OF refl that]] by (auto simp: so_far_def)
  show "so_far (out @ [CDelete (length (utf16 a))]) (c @ a) o'"
    using * [OF does_Delete [OF refl]] by (auto simp: so_far_def)
qed

lemma so_far_push_cur: "so_far (out @ [x]) c o' \<Longrightarrow> so_far (push_cur out x) c o'"
  by (auto simp: so_far_def intro!: push_cur_does)

lemmas so_far_push = so_far_snoc [THEN so_far_push_cur]

text \<open>
  What two heads do together. In each case \<open>as'\<close> and \<open>bs'\<close> are what the loop goes on with.
\<close>

lemma retain_retain_step:
  assumes "does (CRetain n # as) cs mid" "does (CRetain m # bs) mid post"
  obtains x cs' mid' post' where "cs = x @ cs'" "post = x @ post'" "min n m = length (utf16 x)"
    "does (if n > min n m then CRetain (n - min n m) # as else as) cs' mid'"
    "does (if m > min n m then CRetain (m - min n m) # bs else bs) mid' post'"
proof -
  from assms(1) obtain a cs' mid' where a: "cs = a @ cs'" "mid = a @ mid'" "n = length (utf16 a)" "does as cs' mid'" by auto
  from assms(2) obtain b m2 post' where b: "mid = b @ m2" "post = b @ post'" "m = length (utf16 b)" "does bs m2 post'" by auto
  from a(2) b(1) have "a @ mid' = b @ m2" by simp
  then show thesis
  proof (cases rule: utf16_prefix_cases)
    case (le z)
    then show thesis using that [of a cs' "z @ post'" mid'] does_retain_rest [OF b(4), of "m - n" z] a b
      by (simp add: min_def split: if_splits)
  next
    case (ge z)
    then show thesis using that [of b "z @ cs'" post' "z @ mid'"] does_retain_rest [OF a(4), of "n - m" z] a b
      by (simp add: min_def)
  qed
qed

lemma retain_delete_step:
  assumes "does (CRetain n # as) cs mid" "does (CDelete m # bs) mid post"
  obtains x cs' mid' where "cs = x @ cs'" "min n m = length (utf16 x)"
    "does (if n > min n m then CRetain (n - min n m) # as else as) cs' mid'"
    "does (if m > min n m then CDelete (m - min n m) # bs else bs) mid' post"
proof -
  from assms(1) obtain a cs' mid' where a: "cs = a @ cs'" "mid = a @ mid'" "n = length (utf16 a)" "does as cs' mid'" by auto
  from assms(2) obtain b m2 where b: "mid = b @ m2" "m = length (utf16 b)" "does bs m2 post" by auto
  from a(2) b(1) have "a @ mid' = b @ m2" by simp
  then show thesis
  proof (cases rule: utf16_prefix_cases)
    case (le z)
    then show thesis using that [of a cs' mid'] does_delete_rest [OF b(3), of "m - n" z] a b
      by (simp add: min_def split: if_splits)
  next
    case (ge z)
    then show thesis using that [of b "z @ cs'" "z @ mid'"] does_retain_rest [OF a(4), of "n - m" z] a b
      by (simp add: min_def)
  qed
qed

lemma insert_retain_step:
  assumes "does (CInsert s # as) cs mid" "does (CRetain m # bs) mid post"
  obtains x mid' post' where "post = x @ post'" "take (min (length s) m) s = utf16 x" "wf_str x"
    "does (if length s > min (length s) m then CInsert (drop (min (length s) m) s) # as else as) cs mid'"
    "does (if m > min (length s) m then CRetain (m - min (length s) m) # bs else bs) mid' post'"
proof -
  from assms(1) obtain a mid' where a: "mid = a @ mid'" "s = utf16 a" "does as cs mid'" "wf_str a" by auto
  from assms(2) obtain b m2 post' where b: "mid = b @ m2" "post = b @ post'" "m = length (utf16 b)" "does bs m2 post'" by auto
  from a(1) b(1) have "a @ mid' = b @ m2" by simp
  then show thesis
  proof (cases rule: utf16_prefix_cases)
    case (le z)
    then show thesis using that [of a "z @ post'" mid'] does_retain_rest [OF b(4), of "m - length s" z] a b
      by (simp add: min_def split: if_splits)
  next
    case (ge z)
    then show thesis using that [of b post' "z @ mid'"] does_insert_rest [OF a(3), of "utf16 z" z] a b
      by (simp add: min_def)
  qed
qed

lemma insert_delete_step:
  assumes "does (CInsert s # as) cs mid" "does (CDelete m # bs) mid post"
  obtains mid' where
    "does (if length s > min (length s) m then CInsert (drop (min (length s) m) s) # as else as) cs mid'"
    "does (if m > min (length s) m then CDelete (m - min (length s) m) # bs else bs) mid' post"
proof -
  from assms(1) obtain a mid' where a: "mid = a @ mid'" "s = utf16 a" "does as cs mid'" "wf_str a" by auto
  from assms(2) obtain b m2 where b: "mid = b @ m2" "m = length (utf16 b)" "does bs m2 post" by auto
  from a(1) b(1) have "a @ mid' = b @ m2" by simp
  then show thesis
  proof (cases rule: utf16_prefix_cases)
    case (le z)
    then show thesis using that [of mid'] does_delete_rest [OF b(3), of "m - length s" z] a b
      by (simp add: min_def split: if_splits)
  next
    case (ge z)
    then show thesis using that [of "z @ mid'"] does_insert_rest [OF a(3), of "utf16 z" z] a b
      by (simp add: min_def)
  qed
qed

lemma does_head:
  assumes "does (x # ops) cs out" "so_far done c o'"
  obtains c1 o1 cs' out' where "so_far (push_cur done x) (c @ c1) (o' @ o1)" "cs = c1 @ cs'" "out = o1 @ out'"
    "does ops cs' out'"
proof (cases x)
  case (CRetain n)
  with assms(1) obtain a cs' out' where "n = length (utf16 a)" "cs = a @ cs'" "out = a @ out'" "does ops cs' out'" by auto
  with that [of a a cs' out'] so_far_push(1) [OF assms(2), of a] CRetain show thesis by simp
next
  case (CInsert u)
  with assms(1) obtain s out' where "u = utf16 s" "out = s @ out'" "does ops cs out'" "wf_str s" by auto
  with that [of "[]" s cs out'] so_far_push(2) [OF assms(2), of s] CInsert show thesis by simp
next
  case (CDelete n)
  with assms(1) obtain a cs' where "n = length (utf16 a)" "cs = a @ cs'" "does ops cs' out" by auto
  with that [of a "[]" cs' out] so_far_push(3) [OF assms(2), of a] CDelete show thesis by simp
qed

lemma compose_loop_does:
  assumes "so_far out c o'" "does as cs mid" "does bs mid post"
  shows "does (compose_loop as bs out) (c @ cs) (o' @ post)"
  using assms
proof (induction as bs out arbitrary: c o' cs mid post rule: compose_loop.induct)
  case (1 out)
  then have "cs = post" by auto
  with 1(1) [unfolded so_far_def, rule_format, OF does_Nil] show ?case by simp
next
  case (2 x as out)
  then have m: "mid = post" by auto
  obtain c1 o1 cs' out' where h: "so_far (push_cur out x) (c @ c1) (o' @ o1)" "cs = c1 @ cs'" "mid = o1 @ out'"
    "does as cs' out'" by (rule does_head [OF 2(3,2)])
  from 2(1) [OF h(1,4) does_Nil] h(2,3) m show ?case by simp
next
  case (3 y bs out)
  then have m: "cs = mid" by auto
  obtain c1 o1 cs' out' where h: "so_far (push_cur out y) (c @ c1) (o' @ o1)" "mid = c1 @ cs'" "post = o1 @ out'"
    "does bs cs' out'" by (rule does_head [OF 3(4,2)])
  from 3(1) [OF h(1) does_Nil h(4)] h(2,3) m show ?case by simp
next
  case (4 n as y bs out)
  then obtain a cs' where a: "cs = a @ cs'" "n = length (utf16 a)" "does as cs' mid" by auto
  from 4(1) [OF so_far_push(3) [OF 4(2), of a, folded a(2)] a(3) 4(4)] a(1) show ?case by simp
next
  case (5 n as s bs out)
  then obtain t post' where t: "s = utf16 t" "post = t @ post'" "does bs mid post'" "wf_str t" by auto
  from 5(1) [OF so_far_push(2) [OF 5(2) t(4), folded t(1)] 5(3) t(3)] t(2) show ?case by simp
next
  case (6 u as s bs out)
  then obtain t post' where t: "s = utf16 t" "post = t @ post'" "does bs mid post'" "wf_str t" by auto
  from 6(1) [OF so_far_push(2) [OF 6(2) t(4), folded t(1)] 6(3) t(3)] t(2) show ?case by simp
next
  case (7 n as m bs out)
  obtain x cs' mid' post' where x: "cs = x @ cs'" "post = x @ post'" "min n m = length (utf16 x)"
    "does (if n > min n m then CRetain (n - min n m) # as else as) cs' mid'"
    "does (if m > min n m then CRetain (m - min n m) # bs else bs) mid' post'"
    by (rule retain_retain_step [OF 7(3,4)])
  show ?case unfolding compose_loop.simps Let_def x(1,2) append_assoc [symmetric]
    by (rule 7(1) [OF refl so_far_push(1) [OF 7(2), of x, folded x(3)] x(4,5)])
next
  case (8 n as m bs out)
  obtain x cs' mid' where x: "cs = x @ cs'" "min n m = length (utf16 x)"
    "does (if n > min n m then CRetain (n - min n m) # as else as) cs' mid'"
    "does (if m > min n m then CDelete (m - min n m) # bs else bs) mid' post"
    by (rule retain_delete_step [OF 8(3,4)])
  show ?case unfolding compose_loop.simps Let_def x(1) append_assoc [symmetric]
    by (rule 8(1) [OF refl so_far_push(3) [OF 8(2), of x, folded x(2)] x(3,4)])
next
  case (9 s as m bs out)
  obtain x mid' post' where x: "post = x @ post'" "take (min (length s) m) s = utf16 x" "wf_str x"
    "does (if length s > min (length s) m then CInsert (drop (min (length s) m) s) # as else as) cs mid'"
    "does (if m > min (length s) m then CRetain (m - min (length s) m) # bs else bs) mid' post'"
    by (rule insert_retain_step [OF 9(3,4)])
  show ?case unfolding compose_loop.simps Let_def x(1) append_assoc [symmetric]
    by (rule 9(1) [OF refl so_far_push(2) [OF 9(2) x(3), folded x(2)] x(4,5)])
next
  case (10 s as m bs out)
  obtain mid' where
    "does (if length s > min (length s) m then CInsert (drop (min (length s) m) s) # as else as) cs mid'"
    "does (if m > min (length s) m then CDelete (m - min (length s) m) # bs else bs) mid' post"
    by (rule insert_delete_step [OF 10(3,4)])
  from 10(1) [OF refl 10(2) this] show ?case unfolding compose_loop.simps Let_def .
qed

section \<open>Deltas on code units\<close>

text \<open>Applying a delta to UTF-16 code units, as an editor does.\<close>

fun apply_units :: "notes_op list \<Rightarrow> nat list \<Rightarrow> nat list option" where
  "apply_units [] us = Some us"
| "apply_units (NRetain n # ops) us =
     (if n \<le> length us then map_option ((@) (take n us)) (apply_units ops (drop n us)) else None)"
| "apply_units (NInsert s # ops) us = map_option ((@) (utf16 s)) (apply_units ops us)"
| "apply_units (NDelete n # ops) us = (if n \<le> length us then apply_units ops (drop n us) else None)"

lemma does_apply_units:
  "does (map to_cur ops) cs out \<Longrightarrow> apply_units ops (utf16 cs) = Some (utf16 out)"
proof (induction ops arbitrary: cs out)
  case (Cons x ops)
  then show ?case by (cases x) auto
qed auto

lemma lossy_utf16: "wf_str s \<Longrightarrow> from_utf16_lossy (utf16 s) = s"
proof (induction s)
  case (Cons c s)
  then have IH: "from_utf16_lossy (utf16 s) = s" and c: "is_scalar c" by (simp_all add: wf_str_def)
  show ?case
  proof (cases "c < 0x10000")
    case True
    with c IH show ?thesis
      by (cases "utf16 s") (auto simp: utf16_char_def is_scalar_def)
  next
    case False
    define n where "n = c - 0x10000"
    have n: "n < 1024 * 1024" "c = 0x10000 + n" using False c by (auto simp: is_scalar_def n_def)
    then have "n div 1024 < 1024" by (simp add: less_mult_imp_div_less)
    moreover have "n div 1024 * 1024 + n mod 1024 = n" by simp
    moreover have "n mod 1024 < 1024" by simp
    ultimately show ?thesis using IH n(2) by (simp add: utf16_char_def)
  qed
qed simp

lemma does_to_from:
  "does ops cs out \<Longrightarrow> map to_cur (map from_cur ops) = ops"
  by (induction rule: does.induct) (simp_all add: lossy_utf16)

lemma does_drop_retain: "does (xs @ [CRetain n]) cs out \<Longrightarrow> does xs cs out"
proof (induction xs arbitrary: cs out)
  case Nil
  then show ?case by (auto intro: does_Nil)
next
  case (Cons x xs)
  then show ?case by (cases x) (auto intro: does.intros)
qed

lemma does_trim:
  assumes "does (map to_cur ops) cs out"
  shows "does (map to_cur (trim_delta ops)) cs out"
  using assms
proof (induction ops rule: rev_induct)
  case (snoc x ops)
  show ?case
  proof (cases "is_retain x")
    case True
    then obtain n where "x = NRetain n" by (cases x) (auto simp: is_retain_def)
    with snoc True does_drop_retain [of "map to_cur ops"] show ?thesis by (simp add: trim_delta_def)
  next
    case False
    with snoc.prems show ?thesis by (simp add: trim_delta_def)
  qed
qed (simp add: trim_delta_def)

lemma does_compose:
  assumes "does (map to_cur a) cs mid" "does (map to_cur b) mid post"
  shows "does (map to_cur (compose_utf16_deltas a b)) cs post"
proof (cases "a = [] \<or> b = []")
  case True
  then show ?thesis
  proof
    assume "a = []"
    with assms does_trim [of b cs post] show ?thesis
      by (auto simp: compose_utf16_deltas_def trim_delta_def intro: does_Nil)
  next
    assume "b = []"
    with assms does_trim [of a cs post] show ?thesis
      by (auto simp: compose_utf16_deltas_def trim_delta_def intro: does_Nil)
  qed
next
  case False
  have "so_far [] [] []" by (simp add: so_far_def)
  from compose_loop_does [OF this assms] have d: "does (compose_loop (map to_cur a) (map to_cur b) []) cs post" by simp
  have "does (map to_cur (map from_cur (compose_loop (map to_cur a) (map to_cur b) []))) cs post"
    unfolding does_to_from [OF d] by (rule d)
  from does_trim [OF this] False show ?thesis by (simp add: compose_utf16_deltas_def)
qed

section \<open>Conversion from scalar units\<close>

fun wf_text_delta :: "text_delta \<Rightarrow> bool" where
  "wf_text_delta (TInsert s) \<longleftrightarrow> wf_str s"
| "wf_text_delta _ \<longleftrightarrow> True"

lemma from_scalar_loop_does:
  assumes "from_scalar_loop chars cursor out post ds = Some (ops, fin)" "list_all wf_text_delta ds"
    and "cursor \<le> length chars" "so_far (map to_cur out) (take cursor chars) post"
  shows "does (map to_cur ops) chars fin"
  using assms
proof (induction chars cursor out post ds rule: from_scalar_loop.induct)
  case (1 chars cursor out post)
  then show ?case
    using 1(4) [unfolded so_far_def, rule_format, OF does_Nil [of "drop cursor chars"]] by simp
next
  case (2 chars cursor out post n ds)
  let ?sl = "take n (drop cursor chars)"
  have *: "take (cursor + n) chars = take cursor chars @ ?sl" by (simp add: take_add)
  from 2 so_far_snoc(1) [OF 2(5), of ?sl] show ?case
    by (auto simp: checked_add_def Let_def * length_utf16 split: if_splits)
next
  case (3 chars cursor out post n ds)
  let ?sl = "take n (drop cursor chars)"
  have *: "take (cursor + n) chars = take cursor chars @ ?sl" by (simp add: take_add)
  from 3 so_far_snoc(3) [OF 3(5), of ?sl] show ?case
    by (auto simp: checked_add_def Let_def * length_utf16 split: if_splits)
next
  case (4 chars cursor out post s ds)
  from 4 so_far_snoc(2) [OF 4(5), of s] show ?case by simp
qed

lemma from_scalar_does:
  assumes "utf16_delta_from_scalar pre d = Some (ops, post)" "list_all wf_text_delta d"
  shows "does (map to_cur ops) pre post"
  using from_scalar_loop_does [OF assms(1) [unfolded utf16_delta_from_scalar_def] assms(2)]
  by (simp add: so_far_def)

lemma translate_deltas_does:
  assumes "translate_deltas cur out ds = Some (ops, post)" "list_all (list_all wf_text_delta) ds"
    and "does (map to_cur out) pre cur"
  shows "does (map to_cur ops) pre post"
  using assms
proof (induction cur out ds rule: translate_deltas.induct)
  case (2 cur out d ds)
  then obtain o1 nxt where n: "utf16_delta_from_scalar cur d = Some (o1, nxt)"
    by (auto split: option.splits)
  with 2 from_scalar_does [OF n] does_compose [OF 2(4)] show ?case by simp
qed simp

lemma replace_delta_does:
  assumes "wf_str post"
  shows "does (map to_cur (replace_delta pre post)) pre post"
proof -
  have i: "does (if post \<noteq> [] then [CInsert (utf16 post)] else []) [] post"
    using does_insert_rest [OF does_Nil refl assms, of "[]"] by simp
  have "does (if length (utf16 pre) > 0 then CDelete (length (utf16 pre)) # xs else xs) pre post"
    if "does xs [] post" for xs
    using does_delete_rest [OF that refl, of pre] by simp
  from this [OF i] show ?thesis by (auto simp: replace_delta_def Let_def intro: does_Nil)
qed

lemma frame_delta_does:
  assumes "wf_str post" and "list_all (list_all wf_text_delta) deltas"
  shows "does (map to_cur (frame_delta shadow deltas post)) shadow post"
proof (cases "\<exists>out. translate_deltas shadow [] deltas = Some (out, post)")
  case True
  then obtain out where t: "translate_deltas shadow [] deltas = Some (out, post)" ..
  from translate_deltas_does [OF t assms(2)] have "does (map to_cur out) shadow post"
    by (simp add: does_Nil)
  with t replace_delta_does [OF assms(1)] show ?thesis by (simp add: frame_delta_def)
next
  case False
  then show ?thesis
    using replace_delta_does [OF assms(1)]
    by (auto simp: frame_delta_def split: option.split)
qed

text \<open>An editor that shows the notes of \<open>item_id\<close> and applies the events about it in order.\<close>

fun editor_text :: "str \<Rightarrow> notes_event list \<Rightarrow> nat list \<Rightarrow> nat list option" where
  "editor_text item_id [] us = Some us"
| "editor_text item_id (ItemNotesDelta i d # es) us =
     (if i = item_id then Option.bind (apply_units d us) (editor_text item_id es)
      else editor_text item_id es us)"
| "editor_text item_id (ItemNotesChanged i s # es) us = editor_text item_id es us"

lemma editor_text_append:
  "editor_text i (es @ fs) us = Option.bind (editor_text i es us) (editor_text i fs)"
  by (induction i es us rule: editor_text.induct) (auto split: if_splits bind_split)

type_synonym notes_change = "str \<times> text_delta list list \<times> str"

fun emit_all :: "notes_change list \<Rightarrow> notes_state \<Rightarrow> notes_state" where
  "emit_all [] st = st"
| "emit_all ((i, ds, post) # cs) st = emit_all cs (emit_notes_delta i ds post st)"

fun wf_change :: "notes_change \<Rightarrow> bool" where
  "wf_change (i, ds, post) \<longleftrightarrow> wf_str post \<and> list_all (list_all wf_text_delta) ds"

lemma emit_in_step:
  assumes "wf_change (i, ds, post)" and "ns_shadows st item = Some shadow"
    and "editor_text item (ns_events st) us = Some (utf16 shadow)"
  defines "st' \<equiv> emit_notes_delta i ds post st"
  shows "\<exists>now. ns_shadows st' item = Some now \<and> editor_text item (ns_events st') us = Some (utf16 now)"
proof (cases "i = item")
  case True
  have a: "apply_units (frame_delta shadow ds post) (utf16 shadow) = Some (utf16 post)"
    using assms(1) by (intro does_apply_units frame_delta_does) auto
  then have "frame_delta shadow ds post = [] \<Longrightarrow> utf16 shadow = utf16 post" by simp
  with True a assms(2,3) show ?thesis
    by (auto simp: st'_def emit_notes_delta_def push_notes_event_def Let_def editor_text_append)
qed (use assms(2,3) in \<open>auto simp: st'_def emit_notes_delta_def push_notes_event_def Let_def editor_text_append split: option.split\<close>)

section \<open>Properties\<close>

text \<open>
  C28: a subscribed editor stays in step with the doc. Through any number of changes to any
  items, whatever Loro diffs each produced (fitting the shadow or not), an editor that started
  from the shadow's text and applies the deltas it is sent, in order, ends with exactly the UTF-16
  text of the shadow; after a change to its own item that is the new notes. No delta fails to
  apply.
\<close>

theorem editor_stays_in_step:
  assumes "ns_shadows st item = Some shadow" and "ns_events st = []"
    and "list_all wf_change cs" and "wf_change (item, ds, post)"
  defines "st' \<equiv> emit_all (cs @ [(item, ds, post)]) st"
  shows "ns_shadows st' item = Some post \<and>
    editor_text item (ns_events st') (utf16 shadow) = Some (utf16 post)"
proof -
  have app: "emit_all (xs @ ys) z = emit_all ys (emit_all xs z)" for xs ys z
    by (induction xs z rule: emit_all.induct) auto
  have run: "\<exists>now. ns_shadows (emit_all xs z) item = Some now \<and>
      editor_text item (ns_events (emit_all xs z)) us = Some (utf16 now)"
    if "list_all wf_change xs" and "ns_shadows z item = Some sh"
      and "editor_text item (ns_events z) us = Some (utf16 sh)" for xs z sh us
    using that
  proof (induction xs z arbitrary: sh rule: emit_all.induct)
    case (2 i ds post cs st)
    then show ?case using emit_in_step [of i ds post st item sh us] by auto
  qed auto
  have "ns_shadows st' item = Some post"
    using run [of cs st shadow "utf16 shadow"] assms
    by (auto simp: st'_def app emit_notes_delta_def push_notes_event_def Let_def)
  with run [of "cs @ [(item, ds, post)]" st shadow "utf16 shadow"] assms show ?thesis
    by (auto simp: st'_def)
qed

theorem editor_stays_in_step_witness:
  "let st = \<lparr>ns_notes = [[1] \<mapsto> [97, 0x1F600, 98], [2] \<mapsto> []], ns_shadows = [[1] \<mapsto> [97, 0x1F600, 98], [2] \<mapsto> []], ns_events = []\<rparr>;
       cs = [([2], [], [99]), ([1], [[TRetain 5]], [97])];
       st' = emit_all (cs @ [([1], [[TRetain 1, TInsert [0x1F601]]], [97, 0x1F601])]) st
   in ns_shadows st' [1] = Some [97, 0x1F601] \<and>
      editor_text [1] (ns_events st') (utf16 [97, 0x1F600, 98]) = Some (utf16 [97, 0x1F601])"
  using editor_stays_in_step [of "\<lparr>ns_notes = [[1] \<mapsto> [97, 0x1F600, 98], [2] \<mapsto> []], ns_shadows = [[1] \<mapsto> [97, 0x1F600, 98], [2] \<mapsto> []], ns_events = []\<rparr>" "[1]"
      "[97, 0x1F600, 98]" "[([2], [], [99]), ([1], [[TRetain 5]], [97])]" "[[TRetain 1, TInsert [0x1F601]]]"
      "[97, 0x1F601]"]
  by (simp add: wf_str_def is_scalar_def Let_def)

text \<open>
  C29: composing two deltas is applying one after the other: if \<open>a\<close> takes a text to a second one
  and \<open>b\<close> the second to a third, on scalar boundaries, then \<open>compose_utf16_deltas a b\<close> takes the
  first to the third.
\<close>

theorem compose_is_sequencing:
  assumes "does (map to_cur a) s t" and "does (map to_cur b) t u"
  shows "apply_units a (utf16 s) = Some (utf16 t) \<and> apply_units b (utf16 t) = Some (utf16 u) \<and>
    apply_units (compose_utf16_deltas a b) (utf16 s) = Some (utf16 u)"
  using assms by (simp add: does_apply_units does_compose)

theorem compose_is_sequencing_witness:
  "apply_units (compose_utf16_deltas [NInsert [0x1F600]] [NRetain 2, NInsert [98]]) (utf16 []) =
     Some (utf16 [0x1F600, 98])"
proof -
  have "does (map to_cur [NInsert [0x1F600]]) [] [0x1F600]"
    using does_Insert [OF refl _ does_Nil, of "[0x1F600]" "[]"] by (simp add: wf_str_def is_scalar_def)
  moreover have "does (map to_cur [NRetain 2, NInsert [98]]) [0x1F600] [0x1F600, 98]"
    using does_Retain [of 2 "[0x1F600]" "[CInsert (utf16 [98])]" "[]" "[98]"]
      does_Insert [OF refl _ does_Nil, of "[98]" "[]"]
    by (simp add: wf_str_def is_scalar_def utf16_char_def)
  ultimately show ?thesis using compose_is_sequencing by blast
qed

end
