(* ===== verification/Notes_Edit.thy ===== *)
theory Notes_Edit
  imports Notes_Delta
begin

text \<open>
  Writing notes: \<open>Doc::apply_notes_delta\<close> of \<open>core/src/doc.rs\<close>. The text container is Loro's: its
  two UTF-16 edits are a parameter (\<open>text_api\<close>), and \<open>text_ok\<close> states what they do at a scalar
  boundary. The validation keeps a set of boundaries in step with the text it will edit; the lemmas
  show that the set stays exact, so that no edit of an accepted delta is refused by the container.
\<close>

section \<open>Applying an accepted delta\<close>

record text_api =
  insert_utf16 :: "nat \<Rightarrow> str \<Rightarrow> str \<Rightarrow> string + str"
  delete_utf16 :: "nat \<Rightarrow> nat \<Rightarrow> str \<Rightarrow> string + str"

fun edit_loop :: "text_api \<Rightarrow> nat \<Rightarrow> notes_op list \<Rightarrow> str \<Rightarrow> (doc_error + unit) \<times> str" where
  "edit_loop T pos [] body = (Inr (), body)"
| "edit_loop T pos (NRetain n # ops) body = edit_loop T (pos + n) ops body"
| "edit_loop T pos (NDelete n # ops) body =
     (case delete_utf16 T pos n body of
        Inl e \<Rightarrow> (Inl (DeLoro e), body)
      | Inr body' \<Rightarrow> edit_loop T pos ops body')"
| "edit_loop T pos (NInsert s # ops) body =
     (case insert_utf16 T pos s body of
        Inl e \<Rightarrow> (Inl (DeLoro e), body)
      | Inr body' \<Rightarrow> edit_loop T (pos + length (utf16 s)) ops body')"

definition apply_notes_delta ::
  "text_api \<Rightarrow> str \<Rightarrow> notes_op list \<Rightarrow> notes_state \<Rightarrow> (doc_error + unit) \<times> notes_state" where
  "apply_notes_delta T item_id delta st =
     (case ns_notes st item_id of
        None \<Rightarrow> (Inl (DeItemNotFound item_id), st)
      | Some current \<Rightarrow>
          (case validate_utf16_delta current delta of
             Inl e \<Rightarrow> (Inl e, st)
           | Inr _ \<Rightarrow>
               let (r, out) = edit_loop T 0 delta current;
                   st' = st\<lparr>ns_notes := (ns_notes st)(item_id \<mapsto> out)\<rparr>
               in case r of
                    Inl e \<Rightarrow> (Inl e, st')
                  | Inr _ \<Rightarrow>
                      if out = current then (Inr (), st')
                      else (Inr (), push_notes_event (ItemNotesChanged item_id out)
                             (refresh_notes_shadow item_id out st'))))"

text \<open>What the container promises: an edit at a scalar boundary does what it says.\<close>

definition text_ok :: "text_api \<Rightarrow> bool" where
  "text_ok T \<longleftrightarrow>
     (\<forall>a s c. insert_utf16 T (length (utf16 a)) s (a @ c) = Inr (a @ s @ c)) \<and>
     (\<forall>a b c. delete_utf16 T (length (utf16 a)) (length (utf16 b)) (a @ b @ c) = Inr (a @ c))"

section \<open>Boundaries\<close>

lemma len_utf16_pos [simp]: "0 < len_utf16 c"
  by (simp add: len_utf16_def)

lemma utf16_eq_Nil [simp]: "utf16 s = [] \<longleftrightarrow> s = []"
  by (cases s) (auto simp: utf16_char_def)

lemma scalar_offsets_not_Nil [simp]: "scalar_offsets k s \<noteq> []"
  by (cases s) auto

lemma scalar_offsets_append:
  "scalar_offsets k (a @ b) = butlast (scalar_offsets k a) @ scalar_offsets (k + length (utf16 a)) b"
  by (induction a arbitrary: k) (simp_all add: length_utf16_char add.assoc)

lemma scalar_offsets_shift: "scalar_offsets (k + n) s = map (\<lambda>b. b + n) (scalar_offsets k s)"
proof (induction s arbitrary: k)
  case (Cons c s)
  from Cons [of "k + len_utf16 c"] show ?case by (simp add: ac_simps)
qed simp

lemma scalar_offsets_ge: "b \<in> set (scalar_offsets k s) \<Longrightarrow> k \<le> b"
  by (induction s arbitrary: k) force+

lemma butlast_offsets_less: "b \<in> set (butlast (scalar_offsets k s)) \<Longrightarrow> k \<le> b \<and> b < k + length (utf16 s)"
proof (induction s arbitrary: k)
  case (Cons c s)
  from Cons.prems Cons.IH [of "k + len_utf16 c"] show ?case
    by (fastforce simp: length_utf16_char)
qed simp

lemma offset_splits: "b \<in> set (scalar_offsets k s) \<Longrightarrow> \<exists>x y. s = x @ y \<and> b = k + length (utf16 x)"
proof (induction s arbitrary: k)
  case (Cons c s)
  show ?case
  proof (cases "b = k")
    case True
    then show ?thesis by (intro exI [of _ "[]"] exI [of _ "c # s"]) simp
  next
    case False
    with Cons.prems Cons.IH [of "k + len_utf16 c"] obtain x y
      where "s = x @ y" "b = k + len_utf16 c + length (utf16 x)" by auto
    then show ?thesis by (intro exI [of _ "c # x"] exI [of _ y]) (simp add: length_utf16_char)
  qed
qed simp

lemma two_offsets_split:
  assumes "b \<in> set (scalar_offsets 0 s)" "b + n \<in> set (scalar_offsets 0 s)"
  shows "\<exists>x y z. s = x @ y @ z \<and> b = length (utf16 x) \<and> n = length (utf16 y)"
proof -
  from offset_splits [OF assms(1)] obtain x y where s: "s = x @ y" "b = length (utf16 x)" by auto
  from offset_splits [OF assms(2)] obtain x' y' where s': "s = x' @ y'" "b + n = length (utf16 x')" by auto
  from s(1) s'(1) obtain us where "x = x' @ us \<and> us @ y = y' \<or> x' = x @ us \<and> y = us @ y'"
    by (auto simp: append_eq_append_conv2)
  then show ?thesis
  proof
    assume *: "x = x' @ us \<and> us @ y = y'"
    with s(2) s'(2) have "us = []" "n = 0" by auto
    with * s show ?thesis by (intro exI [of _ x] exI [of _ "[]"] exI [of _ y]) simp
  next
    assume *: "x' = x @ us \<and> y = us @ y'"
    with s s' show ?thesis by (intro exI [of _ x] exI [of _ us] exI [of _ y']) simp
  qed
qed

lemma delete_keeps_offsets:
  fixes a b c :: str
  defines "pos \<equiv> length (utf16 a)" and "hi \<equiv> length (utf16 a) + length (utf16 b)"
  shows "(\<lambda>x. if x \<ge> hi then x - length (utf16 b) else x) `
      Set.filter (\<lambda>x. x < pos \<or> x \<ge> hi) (set (scalar_offsets 0 (a @ b @ c))) = set (scalar_offsets 0 (a @ c))"
    (is "?f ` Set.filter ?p _ = _")
proof -
  let ?A = "set (butlast (scalar_offsets 0 a))" and ?C = "set (scalar_offsets hi c)"
  have all: "set (scalar_offsets 0 (a @ b @ c)) = ?A \<union> set (butlast (scalar_offsets pos b)) \<union> ?C"
    by (simp add: scalar_offsets_append pos_def hi_def ac_simps)
  have "Set.filter ?p (set (scalar_offsets 0 (a @ b @ c))) = ?A \<union> ?C"
    unfolding all using butlast_offsets_less [of _ 0 a] butlast_offsets_less [of _ pos b] scalar_offsets_ge [of _ hi c]
    by (fastforce simp: pos_def hi_def)
  moreover have "?f ` ?A = ?A"
    using butlast_offsets_less [of _ 0 a] by (force simp: hi_def image_iff)
  moreover have "?f ` ?C = set (scalar_offsets pos c)"
    using scalar_offsets_ge [of _ hi c]
    by (auto simp: hi_def pos_def scalar_offsets_shift [of "length (utf16 a)" "length (utf16 b)" c] image_iff)
  ultimately show ?thesis
    by (simp only: image_Un scalar_offsets_append set_append pos_def [symmetric] add_0)
qed

lemma insert_keeps_offsets:
  fixes a s c :: str
  defines "pos \<equiv> length (utf16 a)"
  shows "(\<lambda>x. if x \<ge> pos then x + length (utf16 s) else x) ` set (scalar_offsets 0 (a @ c)) \<union>
      set (butlast (scalar_offsets pos s)) = set (scalar_offsets 0 (a @ s @ c))" (is "?f ` _ \<union> _ = _")
proof -
  let ?A = "set (butlast (scalar_offsets 0 a))" and ?C = "set (scalar_offsets pos c)"
  have "?f ` ?A = ?A"
    using butlast_offsets_less [of _ 0 a] by (force simp: pos_def image_iff)
  moreover have "?f ` ?C = set (scalar_offsets (pos + length (utf16 s)) c)"
    using scalar_offsets_ge [of _ pos c] by (auto simp: scalar_offsets_shift image_iff)
  ultimately show ?thesis by (auto simp: image_Un scalar_offsets_append pos_def)
qed

section \<open>An accepted delta applies\<close>

lemma accepted_loop_applies:
  assumes T: "text_ok T"
    and "validate_loop (set (scalar_offsets 0 body)) (length (utf16 body)) pos ops = Inr ()"
    and "pos \<le> length (utf16 body)"
  shows "\<exists>body' us. edit_loop T pos ops body = (Inr (), body') \<and>
    apply_units ops (drop pos (utf16 body)) = Some us \<and> utf16 body' = take pos (utf16 body) @ us"
  using assms(2,3)
proof (induction ops arbitrary: body pos)
  case (Cons x ops)
  show ?case
  proof (cases x)
    case (NRetain n)
    with Cons.prems have "validate_loop (set (scalar_offsets 0 body)) (length (utf16 body)) (pos + n) ops = Inr ()"
      and n: "pos + n \<le> length (utf16 body)"
      by (auto simp: checked_add_def split: if_splits)
    from Cons.IH [OF this] obtain body' us where "edit_loop T (pos + n) ops body = (Inr (), body')"
      "apply_units ops (drop (pos + n) (utf16 body)) = Some us" "utf16 body' = take (pos + n) (utf16 body) @ us"
      by blast
    with NRetain n show ?thesis by (auto simp: take_add) (simp add: add.commute)
  next
    case (NDelete n)
    with Cons.prems two_offsets_split [of pos body n] obtain a b c
      where body: "body = a @ b @ c" "pos = length (utf16 a)" "n = length (utf16 b)"
      by (auto simp: checked_add_def split: if_splits)
    with Cons.prems NDelete have "validate_loop (set (scalar_offsets 0 (a @ c))) (length (utf16 (a @ c))) pos ops = Inr ()"
      unfolding delete_keeps_offsets [of a b c, symmetric] by (simp add: checked_add_def Let_def split: if_splits)
    from Cons.IH [OF this] body obtain body' us where "edit_loop T pos ops (a @ c) = (Inr (), body')"
      "apply_units ops (utf16 c) = Some us" "utf16 body' = utf16 a @ us"
      by auto
    with T body NDelete show ?thesis by (simp add: text_ok_def)
  next
    case (NInsert s)
    with Cons.prems offset_splits [of pos 0 body] obtain a c
      where body: "body = a @ c" "pos = length (utf16 a)" by (auto split: if_splits)
    let ?pos = "length (utf16 (a @ s))"
    from Cons.prems NInsert body
    have "validate_loop (set (scalar_offsets 0 (a @ s @ c))) (length (utf16 (a @ s @ c))) ?pos ops = Inr ()"
      unfolding insert_keeps_offsets [of a s c, symmetric] by (simp add: Let_def ac_simps split: if_splits)
    from Cons.IH [OF this] obtain body' us where "edit_loop T ?pos ops (a @ s @ c) = (Inr (), body')"
      "apply_units ops (utf16 c) = Some us" "utf16 body' = utf16 a @ utf16 s @ us"
      by auto
    with T body NInsert show ?thesis by (simp add: text_ok_def)
  qed
qed auto

lemma accepted_delta_applies:
  assumes "text_ok T" and "validate_utf16_delta body ops = Inr ()"
  shows "\<exists>body'. edit_loop T 0 ops body = (Inr (), body') \<and> apply_units ops (utf16 body) = Some (utf16 body')"
  using accepted_loop_applies [OF assms(1), of body 0 ops] assms(2)
  by (auto simp: validate_utf16_delta_def length_utf16)

section \<open>Properties\<close>


text \<open>A container on plain strings: it refuses positions inside a surrogate pair.\<close>

fun demo_split :: "nat \<Rightarrow> str \<Rightarrow> (str \<times> str) option" where
  "demo_split n s =
     (if n = 0 then Some ([], s)
      else case s of
             [] \<Rightarrow> None
           | c # s' \<Rightarrow>
               if len_utf16 c \<le> n then map_option (\<lambda>(a, b). (c # a, b)) (demo_split (n - len_utf16 c) s')
               else None)"

declare demo_split.simps [simp del]

definition demo_text :: text_api where
  "demo_text = \<lparr>
     insert_utf16 = (\<lambda>pos s body. case demo_split pos body of None \<Rightarrow> Inl ''pos'' | Some (a, c) \<Rightarrow> Inr (a @ s @ c)),
     delete_utf16 = (\<lambda>pos n body.
       case demo_split pos body of
         None \<Rightarrow> Inl ''pos''
       | Some (a, c) \<Rightarrow> (case demo_split n c of None \<Rightarrow> Inl ''pos'' | Some (_, d) \<Rightarrow> Inr (a @ d)))\<rparr>"

lemma demo_split_at: "demo_split (length (utf16 a)) (a @ c) = Some (a, c)"
proof (induction a)
  case (Cons x a)
  then show ?case by (simp add: demo_split.simps [of _ "x # y" for y] length_utf16_char)
qed (simp add: demo_split.simps)

lemma demo_text_ok: "text_ok demo_text"
  by (simp add: text_ok_def demo_text_def demo_split_at)

definition demo_notes :: notes_state where
  "demo_notes = \<lparr>ns_notes = [[1] \<mapsto> [97, 0x1F600]], ns_shadows = Map.empty, ns_events = []\<rparr>"

definition demo_delta :: "notes_op list" where
  "demo_delta = [NRetain 1, NDelete 2, NInsert [98]]"


end
