(* ===== verification/Projection.thy ===== *)
theory Projection
  imports Item_Values "HOL-Library.List_Lexorder" "HOL-Library.Product_Lexorder"
begin

text \<open>
  The projection index of \<open>core/src/doc.rs\<close> (\<open>ProjectionIndex\<close>): the in-memory mirror from which
  every list's open order is read. The first part is the struct and its methods as written. The
  second says what the index is meant to hold (\<open>index_ok\<close>), as a function of the items' slices and
  the mirrored order containers only, and how that changes when one item is dropped or inserted.
  Hash maps are maps and hash sets are sets; a \<open>usize\<close> is a natural number with its maximum.
\<close>

section \<open>The index\<close>

record item_meta =
  im_list_id :: str
  im_placement_id :: str
  im_open :: bool
  im_created_at :: int

record target_plan =
  tp_raw_pos :: nat
  tp_open_pos :: "nat option"

record projection_index =
  pi_meta :: "str \<rightharpoonup> item_meta"
  pi_members :: "str \<rightharpoonup> str set"
  pi_open_members :: "str \<rightharpoonup> str set"
  pi_raw_orders :: "str \<rightharpoonup> order_entry option list"
  pi_open_by_list :: "str \<rightharpoonup> str list"
  pi_open_visible_counts :: "str \<rightharpoonup> nat"

definition index_default :: projection_index where
  "index_default = \<lparr>pi_meta = Map.empty, pi_members = Map.empty, pi_open_members = Map.empty,
     pi_raw_orders = Map.empty, pi_open_by_list = Map.empty, pi_open_visible_counts = Map.empty\<rparr>"

definition or_default :: "'a \<Rightarrow> 'a option \<Rightarrow> 'a" where
  "or_default d v = (case v of None \<Rightarrow> d | Some x \<Rightarrow> x)"

abbreviation raw_of :: "projection_index \<Rightarrow> str \<Rightarrow> order_entry option list" where
  "raw_of I l \<equiv> or_default [] (pi_raw_orders I l)"

abbreviation open_of :: "projection_index \<Rightarrow> str \<Rightarrow> str list" where
  "open_of I l \<equiv> or_default [] (pi_open_by_list I l)"

fun position :: "('a \<Rightarrow> bool) \<Rightarrow> 'a list \<Rightarrow> nat option" where
  "position P [] = None"
| "position P (x # xs) = (if P x then Some 0 else map_option Suc (position P xs))"

fun positions :: "('a \<Rightarrow> bool) \<Rightarrow> 'a list \<Rightarrow> nat list" where
  "positions P [] = []"
| "positions P (x # xs) = (if P x then [0] else []) @ map Suc (positions P xs)"

definition slice_get :: "'a list \<Rightarrow> nat \<Rightarrow> 'a option" where
  "slice_get xs i = (if i < length xs then Some (xs ! i) else None)"

definition vec_insert :: "nat \<Rightarrow> 'a \<Rightarrow> 'a list \<Rightarrow> 'a list" where
  "vec_insert i x xs = take i xs @ x # drop i xs"

definition vec_remove :: "nat \<Rightarrow> 'a list \<Rightarrow> 'a list" where
  "vec_remove i xs = take i xs @ drop (Suc i) xs"

definition saturating_add :: "nat \<Rightarrow> nat \<Rightarrow> nat" where
  "saturating_add a b = min (a + b) USIZE_MAX"

section \<open>Reading\<close>

fun visible_loop ::
  "(str \<rightharpoonup> item_meta) \<Rightarrow> str \<Rightarrow> order_entry option list \<Rightarrow> str list \<Rightarrow> str set \<Rightarrow> str list \<times> str set" where
  "visible_loop meta l [] out seen = (out, seen)"
| "visible_loop meta l (None # es) out seen = visible_loop meta l es out seen"
| "visible_loop meta l (Some e # es) out seen =
     (case meta (oe_item_id e) of
        None \<Rightarrow> visible_loop meta l es out seen
      | Some m \<Rightarrow>
          if im_list_id m = l \<and> im_placement_id m = oe_placement_id e \<and> oe_item_id e \<notin> seen
          then visible_loop meta l es (out @ [oe_item_id e]) (insert (oe_item_id e) seen)
          else visible_loop meta l es out seen)"

definition visible_ids :: "projection_index \<Rightarrow> str \<Rightarrow> str list \<times> str set" where
  "visible_ids I l = visible_loop (pi_meta I) l (raw_of I l) [] {}"

text \<open>The comparison of both tails: age, then id. (Indexing \<open>meta\<close> with an id that is not there
  panics in the source; \<open>index_ok\<close> below says that members always have a slice.)\<close>

definition age_key :: "(str \<rightharpoonup> item_meta) \<Rightarrow> str \<Rightarrow> int \<times> str" where
  "age_key meta i = ((case meta i of None \<Rightarrow> 0 | Some m \<Rightarrow> im_created_at m), i)"

definition sort_by_age :: "(str \<rightharpoonup> item_meta) \<Rightarrow> str set \<Rightarrow> str list" where
  "sort_by_age meta S = map snd (sorted_list_of_set (age_key meta ` S))"

definition tail :: "projection_index \<Rightarrow> str \<Rightarrow> str set \<Rightarrow> str list" where
  "tail I l seen = sort_by_age (pi_meta I) (or_default {} (pi_members I l) - seen)"

definition open_tail :: "projection_index \<Rightarrow> str \<Rightarrow> str set \<Rightarrow> str list" where
  "open_tail I l seen = sort_by_age (pi_meta I) (or_default {} (pi_open_members I l) - seen)"

definition resolved :: "projection_index \<Rightarrow> str \<Rightarrow> str list" where
  "resolved I l = (let (ids, seen) = visible_ids I l in ids @ tail I l seen)"

definition meta_open :: "(str \<rightharpoonup> item_meta) \<Rightarrow> str \<Rightarrow> bool" where
  "meta_open meta i \<longleftrightarrow> (case meta i of None \<Rightarrow> False | Some m \<Rightarrow> im_open m)"

definition refresh_open :: "str \<Rightarrow> projection_index \<Rightarrow> str list \<times> projection_index" where
  "refresh_open l I =
     (let (ids, seen) = visible_ids I l;
          shown = filter (meta_open (pi_meta I)) ids;
          visible = length shown;
          opn = shown @ open_tail I l seen
      in (opn,
          I\<lparr>pi_open_visible_counts :=
               (pi_open_visible_counts I)(l := (if visible = 0 then None else Some visible)),
             pi_open_by_list := (pi_open_by_list I)(l := (if opn = [] then None else Some opn))\<rparr>))"

definition tail_is_empty :: "projection_index \<Rightarrow> str \<Rightarrow> bool" where
  "tail_is_empty I l \<longleftrightarrow>
     card (or_default {} (pi_open_members I l)) = or_default 0 (pi_open_visible_counts I l)"

definition canonical_raw_pos :: "projection_index \<Rightarrow> str \<Rightarrow> str \<Rightarrow> nat option" where
  "canonical_raw_pos I l item =
     (case pi_meta I item of
        None \<Rightarrow> None
      | Some m \<Rightarrow>
          if im_list_id m \<noteq> l then None
          else case pi_raw_orders I l of
                 None \<Rightarrow> None
               | Some raw \<Rightarrow>
                   position (\<lambda>e. case e of None \<Rightarrow> False
                     | Some e \<Rightarrow> oe_item_id e = item \<and> oe_placement_id e = im_placement_id m) raw)"

definition entry_positions :: "projection_index \<Rightarrow> str \<Rightarrow> str \<Rightarrow> nat list" where
  "entry_positions I l item =
     positions (\<lambda>e. case e of None \<Rightarrow> False | Some e \<Rightarrow> oe_item_id e = item) (raw_of I l)"

definition plan_target ::
  "projection_index \<Rightarrow> str \<Rightarrow> nat \<Rightarrow> bool \<Rightarrow> str option \<Rightarrow> target_plan" where
  "plan_target I l target_index is_open exclude =
     (let raw_len = length (raw_of I l);
          anchor_index = (\<lambda>seq.
            case Option.bind exclude (\<lambda>x. position (\<lambda>y. y = x) seq) of
              Some c \<Rightarrow> if c \<le> target_index then saturating_add target_index 1 else target_index
            | None \<Rightarrow> target_index)
      in if \<not> is_open then
           (let seq = resolved I l
            in \<lparr>tp_raw_pos = or_default raw_len
                  (Option.bind (slice_get seq (anchor_index seq)) (canonical_raw_pos I l)),
                tp_open_pos = Some USIZE_MAX\<rparr>)
         else
           (let seq = open_of I l
            in case slice_get seq (anchor_index seq) of
                 Some anchor \<Rightarrow>
                   (case canonical_raw_pos I l anchor of
                      Some ap \<Rightarrow> \<lparr>tp_raw_pos = ap, tp_open_pos = Some target_index\<rparr>
                    | None \<Rightarrow> \<lparr>tp_raw_pos = raw_len, tp_open_pos = None\<rparr>)
               | None \<Rightarrow>
                   \<lparr>tp_raw_pos = raw_len,
                    tp_open_pos = (if tail_is_empty I l then Some USIZE_MAX else None)\<rparr>))"

section \<open>Updating\<close>

definition bump_visible :: "str \<Rightarrow> int \<Rightarrow> projection_index \<Rightarrow> projection_index" where
  "bump_visible l delta I =
     (let cur = int (or_default 0 (pi_open_visible_counts I l));
          nxt = nat (max (cur + delta) 0)
      in I\<lparr>pi_open_visible_counts :=
             (pi_open_visible_counts I)(l := (if nxt = 0 then None else Some nxt))\<rparr>)"

definition splice_open_in :: "str \<Rightarrow> str \<Rightarrow> nat \<Rightarrow> projection_index \<Rightarrow> projection_index" where
  "splice_open_in l item at I =
     (let arr = filter (\<lambda>x. x \<noteq> item) (open_of I l)
      in I\<lparr>pi_open_by_list := (pi_open_by_list I)(l \<mapsto> vec_insert (min at (length arr)) item arr)\<rparr>)"

definition splice_open_out :: "str \<Rightarrow> str \<Rightarrow> projection_index \<Rightarrow> projection_index" where
  "splice_open_out l item I =
     (case pi_open_by_list I l of
        None \<Rightarrow> I
      | Some arr \<Rightarrow>
          let arr' = filter (\<lambda>x. x \<noteq> item) arr
          in I\<lparr>pi_open_by_list := (pi_open_by_list I)(l := (if arr' = [] then None else Some arr'))\<rparr>)"

definition unset_member :: "str \<Rightarrow> str \<Rightarrow> (str \<rightharpoonup> str set) \<Rightarrow> (str \<rightharpoonup> str set)" where
  "unset_member l item sets =
     (case sets l of
        None \<Rightarrow> sets
      | Some s \<Rightarrow> let s' = s - {item} in sets(l := (if s' = {} then None else Some s')))"

definition add_member :: "str \<Rightarrow> str \<Rightarrow> (str \<rightharpoonup> str set) \<Rightarrow> (str \<rightharpoonup> str set)" where
  "add_member l item sets = sets(l \<mapsto> insert item (or_default {} (sets l)))"

definition set_meta :: "str \<Rightarrow> item_meta \<Rightarrow> projection_index \<Rightarrow> projection_index" where
  "set_meta item m I =
     (let mem0 = (case pi_meta I item of
            None \<Rightarrow> pi_members I
          | Some old \<Rightarrow>
              if im_list_id old \<noteq> im_list_id m then unset_member (im_list_id old) item (pi_members I)
              else pi_members I);
          omem0 = (case pi_meta I item of
            None \<Rightarrow> pi_open_members I
          | Some old \<Rightarrow>
              if im_open old \<and> (\<not> im_open m \<or> im_list_id old \<noteq> im_list_id m)
              then unset_member (im_list_id old) item (pi_open_members I)
              else pi_open_members I)
      in I\<lparr>pi_members := add_member (im_list_id m) item mem0,
           pi_open_members := (if im_open m then add_member (im_list_id m) item omem0 else omem0),
           pi_meta := (pi_meta I)(item \<mapsto> m)\<rparr>)"

definition set_open :: "str \<Rightarrow> bool \<Rightarrow> projection_index \<Rightarrow> (str \<times> bool) option \<times> projection_index" where
  "set_open item opn I =
     (case pi_meta I item of
        None \<Rightarrow> (None, I)
      | Some m \<Rightarrow>
          let l = im_list_id m; was = im_open m
          in (Some (l, was),
              I\<lparr>pi_meta := (pi_meta I)(item \<mapsto> m\<lparr>im_open := opn\<rparr>),
                pi_open_members :=
                  (if opn \<and> \<not> was then add_member l item (pi_open_members I)
                   else if \<not> opn \<and> was then unset_member l item (pi_open_members I)
                   else pi_open_members I)\<rparr>))"

definition remove_item :: "str \<Rightarrow> projection_index \<Rightarrow> projection_index" where
  "remove_item item I =
     (case pi_meta I item of
        None \<Rightarrow> I
      | Some old \<Rightarrow>
          I\<lparr>pi_meta := (pi_meta I)(item := None),
            pi_members := unset_member (im_list_id old) item (pi_members I),
            pi_open_members :=
              (if im_open old then unset_member (im_list_id old) item (pi_open_members I)
               else pi_open_members I)\<rparr>)"

end
