(* ===== verification/Open_Order.thy ===== *)
theory Open_Order
  imports Projection
begin

text \<open>
  What the projection index is meant to hold. The open order of a list is a function of the items'
  slices and the list's mirrored order container (\<open>open_seq\<close>); \<open>index_ok\<close> says that every derived
  map of the index is exactly that function. The lemmas say how the open order changes when the
  slices and entries of some items are dropped (\<open>open_seq_off\<close>) and when an item is inserted with a
  fresh entry (\<open>open_seq_insert\<close>), and where \<open>plan_target\<close> points (\<open>plan_target_open\<close>).
\<close>

section \<open>First occurrences\<close>

fun nub :: "'a list \<Rightarrow> 'a list" where
  "nub [] = []"
| "nub (x # xs) = x # filter (\<lambda>y. y \<noteq> x) (nub xs)"

lemma set_nub [simp]: "set (nub xs) = set xs"
  by (induction xs) auto

lemma distinct_nub [simp]: "distinct (nub xs)"
  by (induction xs) auto

lemma nub_filter: "nub (filter P xs) = filter P (nub xs)"
  by (induction xs) (auto simp: filter_filter conj_commute intro: filter_cong)

lemma nub_append: "nub (xs @ ys) = nub xs @ filter (\<lambda>y. y \<notin> set xs) (nub ys)"
  by (induction xs) (auto simp: filter_filter conj_commute)

section \<open>The open order of a list\<close>

definition entry_id :: "(str \<rightharpoonup> item_meta) \<Rightarrow> str \<Rightarrow> order_entry option \<Rightarrow> str option" where
  "entry_id meta l e =
     (case e of
        None \<Rightarrow> None
      | Some e \<Rightarrow>
          (case meta (oe_item_id e) of
             None \<Rightarrow> None
           | Some m \<Rightarrow>
               if im_list_id m = l \<and> im_placement_id m = oe_placement_id e then Some (oe_item_id e) else None))"

definition valid_ids :: "(str \<rightharpoonup> item_meta) \<Rightarrow> str \<Rightarrow> order_entry option list \<Rightarrow> str list" where
  "valid_ids meta l raw = List.map_filter (entry_id meta l) raw"

definition shown :: "(str \<rightharpoonup> item_meta) \<Rightarrow> str \<Rightarrow> order_entry option list \<Rightarrow> str list" where
  "shown meta l raw = filter (meta_open meta) (nub (valid_ids meta l raw))"

definition located :: "(str \<rightharpoonup> item_meta) \<Rightarrow> str \<Rightarrow> str set" where
  "located meta l = {i. \<exists>m. meta i = Some m \<and> im_list_id m = l}"

definition open_located :: "(str \<rightharpoonup> item_meta) \<Rightarrow> str \<Rightarrow> str set" where
  "open_located meta l = {i \<in> located meta l. meta_open meta i}"

definition open_rest :: "(str \<rightharpoonup> item_meta) \<Rightarrow> str \<Rightarrow> order_entry option list \<Rightarrow> str list" where
  "open_rest meta l raw = sort_by_age meta (open_located meta l - set (valid_ids meta l raw))"

definition open_seq :: "(str \<rightharpoonup> item_meta) \<Rightarrow> str \<Rightarrow> order_entry option list \<Rightarrow> str list" where
  "open_seq meta l raw = shown meta l raw @ open_rest meta l raw"

definition set_opt :: "'a set \<Rightarrow> 'a set option" where
  "set_opt S = (if S = {} then None else Some S)"

definition list_opt :: "'a list \<Rightarrow> 'a list option" where
  "list_opt xs = (if xs = [] then None else Some xs)"

definition count_opt :: "nat \<Rightarrow> nat option" where
  "count_opt n = (if n = 0 then None else Some n)"

lemma or_default_opt [simp]:
  "or_default {} (set_opt S) = S" "or_default [] (list_opt xs) = xs" "or_default 0 (count_opt n) = n"
  "or_default d (Some v) = v" "or_default d None = d"
  by (simp_all add: or_default_def set_opt_def list_opt_def count_opt_def)

definition base_ok :: "projection_index \<Rightarrow> bool" where
  "base_ok I \<longleftrightarrow> finite (dom (pi_meta I)) \<and>
     (\<forall>l. pi_members I l = set_opt (located (pi_meta I) l)) \<and>
     (\<forall>l. pi_open_members I l = set_opt (open_located (pi_meta I) l))"

definition lists_ok :: "projection_index \<Rightarrow> bool" where
  "lists_ok I \<longleftrightarrow>
     (\<forall>l. pi_open_by_list I l = list_opt (open_seq (pi_meta I) l (raw_of I l))) \<and>
     (\<forall>l. pi_open_visible_counts I l = count_opt (length (shown (pi_meta I) l (raw_of I l))))"

definition index_ok :: "projection_index \<Rightarrow> bool" where
  "index_ok I \<longleftrightarrow> base_ok I \<and> lists_ok I"

lemma valid_ids_simps [simp]:
  "valid_ids meta l [] = []"
  "valid_ids meta l (e # es) = (case entry_id meta l e of None \<Rightarrow> valid_ids meta l es | Some i \<Rightarrow> i # valid_ids meta l es)"
  "valid_ids meta l (es @ fs) = valid_ids meta l es @ valid_ids meta l fs"
  by (auto simp: valid_ids_def List.map_filter_def split: option.splits)

lemma in_valid_ids: "i \<in> set (valid_ids meta l raw) \<longleftrightarrow> (\<exists>e \<in> set raw. entry_id meta l e = Some i)"
  by (induction raw) (auto split: option.splits)

lemma entry_id_Some:
  "entry_id meta l e = Some i \<longleftrightarrow>
     (\<exists>m. meta i = Some m \<and> im_list_id m = l \<and> e = Some \<lparr>oe_item_id = i, oe_placement_id = im_placement_id m\<rparr>)"
proof (cases e)
  case (Some x)
  then show ?thesis by (cases x) (auto simp: entry_id_def split: option.splits)
qed (simp add: entry_id_def)

lemma valid_located: "set (valid_ids meta l raw) \<subseteq> located meta l"
  by (auto simp: in_valid_ids entry_id_Some located_def)

lemma visible_loop_eq:
  "visible_loop meta l raw out seen =
     (out @ filter (\<lambda>i. i \<notin> seen) (nub (valid_ids meta l raw)), seen \<union> set (valid_ids meta l raw))"
proof (induction meta l raw out seen rule: visible_loop.induct)
  case (3 meta l e es out seen)
  then show ?case
    by (auto simp: entry_id_def filter_filter split: option.splits intro!: filter_cong)
qed (auto simp: entry_id_def)

lemma visible_ids_eq:
  "visible_ids I l = (nub (valid_ids (pi_meta I) l (raw_of I l)), set (valid_ids (pi_meta I) l (raw_of I l)))"
  by (simp add: visible_ids_def visible_loop_eq)

lemma finite_located [simp]: "finite (dom meta) \<Longrightarrow> finite (located meta l)"
  by (rule finite_subset [of _ "dom meta"]) (auto simp: located_def)

lemma finite_open_located [simp]: "finite (dom meta) \<Longrightarrow> finite (open_located meta l)"
  by (simp add: open_located_def)

lemma set_sort_by_age [simp]: "finite S \<Longrightarrow> set (sort_by_age meta S) = S"
  by (force simp: sort_by_age_def age_key_def)

lemma inj_age_key: "inj_on (age_key meta) S"
  by (simp add: inj_on_def age_key_def)

lemma distinct_sort_by_age [simp]: "distinct (sort_by_age meta S)"
proof (cases "finite S")
  case True
  have "inj_on snd (age_key meta ` S)" by (auto simp: inj_on_def age_key_def)
  with True show ?thesis by (simp add: sort_by_age_def distinct_map)
next
  case False
  then have "\<not> finite (age_key meta ` S)" using finite_imageD [OF _ inj_age_key] by blast
  then show ?thesis by (simp add: sort_by_age_def)
qed

lemma shown_open_located: "set (shown meta l raw) \<subseteq> open_located meta l"
  using valid_located [of meta l raw] by (auto simp: shown_def open_located_def)

lemma distinct_shown [simp]: "distinct (shown meta l raw)"
  by (simp add: shown_def)

lemma set_open_seq [simp]: "finite (dom meta) \<Longrightarrow> set (open_seq meta l raw) = open_located meta l"
  using shown_open_located [of meta l raw]
  by (auto simp: open_seq_def open_rest_def) (auto simp: shown_def open_located_def)

lemma distinct_open_seq [simp]: "finite (dom meta) \<Longrightarrow> distinct (open_seq meta l raw)"
  by (auto simp: open_seq_def open_rest_def shown_def)

section \<open>The derived maps of an index\<close>

lemma base_okD:
  assumes "base_ok I"
  shows "finite (dom (pi_meta I))" "or_default {} (pi_members I l) = located (pi_meta I) l"
    "or_default {} (pi_open_members I l) = open_located (pi_meta I) l"
  using assms by (simp_all add: base_ok_def)

lemma lists_okD:
  assumes "lists_ok I"
  shows "open_of I l = open_seq (pi_meta I) l (raw_of I l)"
    "or_default 0 (pi_open_visible_counts I l) = length (shown (pi_meta I) l (raw_of I l))"
  using assms by (simp_all add: lists_ok_def)

lemma refresh_open_eq:
  assumes "base_ok I"
  shows "refresh_open l I =
    (open_seq (pi_meta I) l (raw_of I l),
     I\<lparr>pi_open_visible_counts := (pi_open_visible_counts I)(l := count_opt (length (shown (pi_meta I) l (raw_of I l)))),
       pi_open_by_list := (pi_open_by_list I)(l := list_opt (open_seq (pi_meta I) l (raw_of I l)))\<rparr>)"
  by (simp add: refresh_open_def visible_ids_eq open_tail_def base_okD [OF assms] Let_def
      open_seq_def open_rest_def shown_def count_opt_def list_opt_def)

lemma tail_is_empty_iff:
  assumes "index_ok I"
  shows "tail_is_empty I l \<longleftrightarrow> open_rest (pi_meta I) l (raw_of I l) = []"
proof -
  let ?m = "pi_meta I" and ?r = "raw_of I l"
  have ok: "base_ok I" "lists_ok I" using assms by (simp_all add: index_ok_def)
  have f: "finite (open_located ?m l)" using base_okD(1) [OF ok(1)] by simp
  have s: "set (open_seq ?m l ?r) = open_located ?m l" "distinct (open_seq ?m l ?r)"
    using base_okD(1) [OF ok(1)] by simp_all
  then have "card (open_located ?m l) = length (shown ?m l ?r) + length (open_rest ?m l ?r)"
    by (metis distinct_card length_append open_seq_def)
  then show ?thesis
    by (simp add: tail_is_empty_def base_okD [OF ok(1)] lists_okD [OF ok(2)])
qed

lemma position_Some:
  "position P xs = Some i \<longleftrightarrow> i < length xs \<and> P (xs ! i) \<and> (\<forall>j < i. \<not> P (xs ! j))"
proof (induction xs arbitrary: i)
  case (Cons x xs)
  show ?case
  proof (cases i)
    case (Suc j)
    with Cons [of j] show ?thesis by (auto simp: less_Suc_eq_0_disj)
  qed auto
qed simp

lemma position_None: "position P xs = None \<longleftrightarrow> (\<forall>x \<in> set xs. \<not> P x)"
  by (induction xs) auto

lemma canonical_raw_pos_eq:
  "canonical_raw_pos I l i = position (\<lambda>e. entry_id (pi_meta I) l e = Some i) (raw_of I l)"
proof (cases "\<exists>m. pi_meta I i = Some m \<and> im_list_id m = l")
  case True
  then obtain m where m: "pi_meta I i = Some m" "im_list_id m = l" by blast
  then have "(\<lambda>e. entry_id (pi_meta I) l e = Some i) =
      (\<lambda>e. case e of None \<Rightarrow> False | Some e \<Rightarrow> oe_item_id e = i \<and> oe_placement_id e = im_placement_id m)"
    by (auto simp: fun_eq_iff entry_id_def split: option.splits)
  with m show ?thesis by (simp add: canonical_raw_pos_def or_default_def split: option.split)
next
  case False
  then have "position (\<lambda>e. entry_id (pi_meta I) l e = Some i) (raw_of I l) = None"
    by (auto simp: position_None entry_id_Some)
  with False show ?thesis by (auto simp: canonical_raw_pos_def split: option.split)
qed

lemma canonical_None: "canonical_raw_pos I l i = None \<longleftrightarrow> i \<notin> set (valid_ids (pi_meta I) l (raw_of I l))"
  by (auto simp: canonical_raw_pos_eq position_None in_valid_ids)

lemma canonical_split:
  assumes "canonical_raw_pos I l i = Some p"
  shows "p < length (raw_of I l)" "i \<notin> set (valid_ids (pi_meta I) l (take p (raw_of I l)))"
    "entry_id (pi_meta I) l (raw_of I l ! p) = Some i"
    "valid_ids (pi_meta I) l (raw_of I l) =
       valid_ids (pi_meta I) l (take p (raw_of I l)) @ i # valid_ids (pi_meta I) l (drop (Suc p) (raw_of I l))"
proof -
  let ?r = "raw_of I l"
  from assms have p: "p < length ?r" "entry_id (pi_meta I) l (?r ! p) = Some i"
    "\<forall>j < p. entry_id (pi_meta I) l (?r ! j) \<noteq> Some i"
    by (auto simp: canonical_raw_pos_eq position_Some)
  then show "p < length ?r" "entry_id (pi_meta I) l (?r ! p) = Some i" by simp_all
  show "i \<notin> set (valid_ids (pi_meta I) l (take p ?r))"
    using p by (auto simp: in_valid_ids in_set_conv_nth [of _ "take p (raw_of I l)"])
  have "valid_ids (pi_meta I) l ?r = valid_ids (pi_meta I) l (take p ?r @ ?r ! p # drop (Suc p) ?r)"
    using p(1) by (simp add: id_take_nth_drop [symmetric])
  with p(2) show "valid_ids (pi_meta I) l ?r =
      valid_ids (pi_meta I) l (take p ?r) @ i # valid_ids (pi_meta I) l (drop (Suc p) ?r)" by simp
qed

section \<open>Dropping items\<close>

definition drop_entries :: "str set \<Rightarrow> order_entry option list \<Rightarrow> order_entry option list" where
  "drop_entries D raw = filter (\<lambda>e. case e of None \<Rightarrow> True | Some e \<Rightarrow> oe_item_id e \<notin> D) raw"

definition agree_off :: "str set \<Rightarrow> (str \<rightharpoonup> item_meta) \<Rightarrow> (str \<rightharpoonup> item_meta) \<Rightarrow> bool" where
  "agree_off D meta meta' \<longleftrightarrow> (\<forall>i. i \<notin> D \<longrightarrow> meta' i = meta i)"

lemma agree_off_upd [simp]: "agree_off {i} meta (meta(i := v))" "agree_off D meta meta"
  by (simp_all add: agree_off_def)

lemma drop_entries_append [simp]: "drop_entries D (xs @ ys) = drop_entries D xs @ drop_entries D ys"
  by (simp add: drop_entries_def)

lemma drop_entries_Cons:
  "drop_entries D (e # es) =
     (case e of None \<Rightarrow> e # drop_entries D es
      | Some x \<Rightarrow> if oe_item_id x \<in> D then drop_entries D es else e # drop_entries D es)"
  by (auto simp: drop_entries_def split: option.split)

lemma valid_drop_entries: "valid_ids meta l (drop_entries D raw) = filter (\<lambda>i. i \<notin> D) (valid_ids meta l raw)"
  by (induction raw) (auto simp: drop_entries_def entry_id_def split: option.splits)

lemma valid_agree:
  assumes "agree_off D meta meta'"
  shows "filter (\<lambda>i. i \<notin> D) (valid_ids meta' l raw) = filter (\<lambda>i. i \<notin> D) (valid_ids meta l raw)"
proof -
  have "entry_id meta' l e = entry_id meta l e" if "e \<in> set (drop_entries D raw)" for e
    using that assms by (auto simp: drop_entries_def entry_id_def agree_off_def split: option.splits)
  then have "valid_ids meta' l (drop_entries D raw) = valid_ids meta l (drop_entries D raw)"
    by (induction raw) (auto simp: drop_entries_def split: option.splits)
  then show ?thesis by (simp add: valid_drop_entries)
qed

lemma valid_off:
  assumes "agree_off D meta meta'" and "drop_entries D raw' = drop_entries D raw"
  shows "filter (\<lambda>i. i \<notin> D) (valid_ids meta' l raw') = filter (\<lambda>i. i \<notin> D) (valid_ids meta l raw)"
  using valid_agree [OF assms(1), of l raw'] arg_cong [OF assms(2), of "valid_ids meta l"]
  by (simp add: valid_drop_entries)

lemma agree_openD: "agree_off D meta meta' \<Longrightarrow> i \<notin> D \<Longrightarrow> meta_open meta' i = meta_open meta i"
  by (simp add: agree_off_def meta_open_def)

lemma shown_off:
  assumes "agree_off D meta meta'" and "drop_entries D raw' = drop_entries D raw"
  shows "filter (\<lambda>i. i \<notin> D) (shown meta' l raw') = filter (\<lambda>i. i \<notin> D) (shown meta l raw)"
proof -
  have "filter (\<lambda>i. i \<notin> D) (shown m l r) = filter (meta_open m) (nub (filter (\<lambda>i. i \<notin> D) (valid_ids m l r)))" for m r
    by (simp add: shown_def nub_filter filter_filter conj_commute)
  moreover have "filter (meta_open meta') (nub (filter (\<lambda>i. i \<notin> D) xs)) =
      filter (meta_open meta) (nub (filter (\<lambda>i. i \<notin> D) xs))" for xs
    by (rule filter_cong) (auto simp: agree_openD [OF assms(1)])
  ultimately show ?thesis by (simp add: valid_off [OF assms])
qed

lemma open_located_off:
  "agree_off D meta meta' \<Longrightarrow> open_located meta' l - D = open_located meta l - D"
  by (auto simp: open_located_def located_def agree_off_def meta_open_def)

lemma sort_by_age_filter:
  assumes "finite S" "agree_off D meta meta'"
  shows "sort_by_age meta' (S - D) = filter (\<lambda>i. i \<notin> D) (sort_by_age meta S)"
proof -
  have k: "age_key meta' ` (S - D) = {p \<in> age_key meta ` S. snd p \<notin> D}"
    using assms(2) by (force simp: age_key_def agree_off_def)
  have "sorted_list_of_set {p \<in> age_key meta ` S. snd p \<notin> D} =
      filter (\<lambda>p. snd p \<notin> D) (sorted_list_of_set (age_key meta ` S))"
    using assms(1) by (intro sorted_distinct_set_unique) (auto simp: sorted_filter [where f = "\<lambda>x. x", simplified])
  then show ?thesis by (simp add: sort_by_age_def k filter_map o_def)
qed

lemma open_rest_off:
  assumes "agree_off D meta meta'" and "drop_entries D raw' = drop_entries D raw" and "finite (dom meta)"
    and "finite (dom meta')"
  shows "filter (\<lambda>i. i \<notin> D) (open_rest meta' l raw') = filter (\<lambda>i. i \<notin> D) (open_rest meta l raw)"
proof -
  let ?S = "open_located meta l - set (valid_ids meta l raw)"
  let ?S' = "open_located meta' l - set (valid_ids meta' l raw')"
  have v: "set (valid_ids meta' l raw') - D = set (valid_ids meta l raw) - D"
    using arg_cong [OF valid_off [OF assms(1,2), of l], of set] by (auto simp: set_eq_iff)
  have "?S' - D = ?S - D"
    using v open_located_off [OF assms(1), of l] by blast
  with sort_by_age_filter [of ?S' D meta' meta'] sort_by_age_filter [of ?S D meta meta'] assms
  show ?thesis by (simp add: open_rest_def)
qed

text \<open>Off the items of \<open>D\<close> the open order is untouched, whatever happens to their slices and
  entries.\<close>

lemma open_seq_off:
  assumes "agree_off D meta meta'" and "drop_entries D raw' = drop_entries D raw" and "finite (dom meta)"
    and "finite (dom meta')"
  shows "filter (\<lambda>i. i \<notin> D) (open_seq meta' l raw') = filter (\<lambda>i. i \<notin> D) (open_seq meta l raw)"
  using open_rest_off [OF assms] shown_off [OF assms(1,2)] by (simp add: open_seq_def)

section \<open>Inserting an item\<close>

text \<open>How many other open items the entries before a position show.\<close>

definition open_before :: "(str \<rightharpoonup> item_meta) \<Rightarrow> str \<Rightarrow> (str \<Rightarrow> bool) \<Rightarrow> nat \<Rightarrow> order_entry option list \<Rightarrow> nat" where
  "open_before meta l P p raw = length (filter P (shown meta l (take p raw)))"

lemma shown_insert:
  assumes "meta i = Some m" "im_list_id m = l" "im_open m"
    and "Some \<lparr>oe_item_id = i, oe_placement_id = im_placement_id m\<rparr> \<notin> set raw"
  shows "shown meta l (vec_insert p (Some \<lparr>oe_item_id = i, oe_placement_id = im_placement_id m\<rparr>) raw) =
    vec_insert (length (shown meta l (take p raw))) i (shown meta l raw)"
proof -
  let ?e = "Some \<lparr>oe_item_id = i, oe_placement_id = im_placement_id m\<rparr>"
  let ?A = "valid_ids meta l (take p raw)" and ?B = "valid_ids meta l (drop p raw)"
  have new: "i \<notin> set (valid_ids meta l raw)"
    using assms by (auto simp: in_valid_ids entry_id_Some)
  have raw: "valid_ids meta l raw = ?A @ ?B"
    by (metis append_take_drop_id valid_ids_simps(3))
  have e: "entry_id meta l ?e = Some i" using assms by (simp add: entry_id_def)
  have "shown meta l (take p raw @ ?e # drop p raw) =
      filter (meta_open meta) (nub ?A) @ i # filter (meta_open meta) (filter (\<lambda>y. y \<notin> set ?A) (nub ?B))"
    using new assms by (auto simp: shown_def e nub_append filter_filter meta_open_def raw intro!: filter_cong)
  moreover have "shown meta l raw =
      filter (meta_open meta) (nub ?A) @ filter (meta_open meta) (filter (\<lambda>y. y \<notin> set ?A) (nub ?B))"
    by (simp add: shown_def raw nub_append)
  ultimately show ?thesis by (simp add: vec_insert_def shown_def)
qed

lemma length_shown_take: "length (shown meta l (take p raw)) \<le> length (shown meta l raw)"
proof -
  have "valid_ids meta l raw = valid_ids meta l (take p raw) @ valid_ids meta l (drop p raw)"
    by (metis append_take_drop_id valid_ids_simps(3))
  then show ?thesis by (simp add: shown_def nub_append)
qed

lemma vec_insert_append: "k \<le> length xs \<Longrightarrow> vec_insert k i (xs @ ys) = vec_insert k i xs @ ys"
  by (simp add: vec_insert_def)

lemma drop_entries_vec_insert [simp]:
  "oe_item_id e \<in> D \<Longrightarrow> drop_entries D (vec_insert p (Some e) raw) = drop_entries D raw"
  by (simp add: vec_insert_def drop_entries_Cons) (metis append_take_drop_id drop_entries_append)

lemma filter_not_shown:
  assumes "meta i = Some m" "Some \<lparr>oe_item_id = i, oe_placement_id = im_placement_id m\<rparr> \<notin> set raw"
  shows "filter (\<lambda>x. x \<noteq> i) (shown meta l raw) = shown meta l raw"
proof -
  have "i \<notin> set (shown meta l raw)" using assms by (auto simp: shown_def in_valid_ids entry_id_Some)
  then show ?thesis by (metis (mono_tags, lifting) filter_True)
qed

lemma inserted_order:
  fixes p :: nat
  assumes "agree_off {i} meta meta'" and "drop_entries {i} raw0 = drop_entries {i} raw"
    and fin: "finite (dom meta)" "finite (dom meta')"
    and i: "meta' i = Some m" "im_list_id m = l" "im_open m"
    and fresh: "Some \<lparr>oe_item_id = i, oe_placement_id = im_placement_id m\<rparr> \<notin> set raw0"
  defines "raw' \<equiv> vec_insert p (Some \<lparr>oe_item_id = i, oe_placement_id = im_placement_id m\<rparr>) raw0"
    and "k \<equiv> open_before meta l (\<lambda>x. x \<noteq> i) p raw0"
  shows open_seq_insert: "open_seq meta' l raw' = vec_insert k i (filter (\<lambda>x. x \<noteq> i) (open_seq meta l raw))"
    and shown_insert_length: "length (shown meta' l raw') = Suc (length (filter (\<lambda>x. x \<noteq> i) (shown meta l raw)))"
    and "k \<le> length (filter (\<lambda>x. x \<noteq> i) (shown meta l raw))"
proof -
  have fresh_take: "Some \<lparr>oe_item_id = i, oe_placement_id = im_placement_id m\<rparr> \<notin> set (take p raw0)"
    using fresh by (meson in_set_takeD)
  have all: "shown meta' l raw0 = filter (\<lambda>x. x \<noteq> i) (shown meta l raw)"
    using shown_off [OF assms(1,2), of l] filter_not_shown [of meta' i m raw0 l] i(1) fresh by simp
  have k: "length (shown meta' l (take p raw0)) = k"
    using shown_off [OF assms(1) refl, of l "take p raw0"] filter_not_shown [of meta' i m "take p raw0" l] i(1) fresh_take
    by (simp add: k_def open_before_def)
  have k_le: "k \<le> length (shown meta' l raw0)" using length_shown_take [of meta' l p raw0] k by simp
  with all show "k \<le> length (filter (\<lambda>x. x \<noteq> i) (shown meta l raw))" by simp
  have sh: "shown meta' l raw' = vec_insert k i (shown meta' l raw0)"
    unfolding raw'_def using shown_insert [of meta' i m l raw0 p] i fresh k by simp
  then show "length (shown meta' l raw') = Suc (length (filter (\<lambda>x. x \<noteq> i) (shown meta l raw)))"
    using all k_le by (simp add: vec_insert_def)
  have "i \<in> set (shown meta' l raw')" by (simp add: sh vec_insert_def)
  then have "i \<notin> set (open_rest meta' l raw')" using fin by (simp add: open_rest_def shown_def)
  then have "open_rest meta' l raw' = filter (\<lambda>x. x \<noteq> i) (open_rest meta' l raw')"
    by (metis (mono_tags, lifting) filter_True)
  also have "\<dots> = filter (\<lambda>x. x \<noteq> i) (open_rest meta l raw)"
    using open_rest_off [OF assms(1), of raw' raw l] assms(2) fin by (simp add: raw'_def)
  finally show "open_seq meta' l raw' = vec_insert k i (filter (\<lambda>x. x \<noteq> i) (open_seq meta l raw))"
    using sh all k_le by (simp add: open_seq_def vec_insert_append)
qed

section \<open>Where a target index points\<close>

lemma slice_get_append: "slice_get (xs @ ys) t = (if t < length xs then slice_get xs t else slice_get ys (t - length xs))"
  by (auto simp: slice_get_def nth_append)

lemma slice_get_mem: "slice_get xs t = Some a \<Longrightarrow> a \<in> set xs"
  by (auto simp: slice_get_def simp del: nth_append split: if_splits)

lemma slice_get_past: "length xs \<le> t \<Longrightarrow> slice_get xs t = None"
  by (simp add: slice_get_def)

lemma slice_get_anchor:
  assumes "distinct seq" "length seq < USIZE_MAX"
  shows "slice_get seq (case Option.bind exclude (\<lambda>x. position (\<lambda>y. y = x) seq) of
      Some c \<Rightarrow> if c \<le> t then saturating_add t 1 else t | None \<Rightarrow> t) =
    slice_get (filter (\<lambda>y. exclude \<noteq> Some y) seq) t"
proof (cases "Option.bind exclude (\<lambda>x. position (\<lambda>y. y = x) seq)")
  case None
  then have "filter (\<lambda>y. exclude \<noteq> Some y) seq = seq"
    by (cases exclude) (auto simp: position_None filter_id_conv)
  with None show ?thesis by simp
next
  case (Some c)
  then obtain x where x: "exclude = Some x" "position (\<lambda>y. y = x) seq = Some c" by (auto simp: bind_eq_Some_conv)
  then have c: "c < length seq" "seq ! c = x" by (auto simp: position_Some)
  have seq: "seq = take c seq @ x # drop (Suc c) seq" using id_take_nth_drop [OF c(1)] c(2) by simp
  with assms(1) have "x \<notin> set (take c seq)" "x \<notin> set (drop (Suc c) seq)"
    by (metis disjoint_insert(1) distinct_append list.set(2), metis distinct.simps(2) distinct_append)
  then have f: "filter (\<lambda>y. exclude \<noteq> Some y) seq = take c seq @ drop (Suc c) seq"
    by (subst seq) (simp add: x(1), metis (mono_tags, lifting) filter_True)
  have sat: "slice_get seq (saturating_add t 1) = slice_get seq (Suc t)"
    using assms(2) by (auto simp: saturating_add_def slice_get_def min_def)
  have "slice_get seq (if c \<le> t then Suc t else t) = slice_get (take c seq @ drop (Suc c) seq) t"
    using c by (auto simp: slice_get_def nth_append min_def Suc_diff_le)
  with sat show ?thesis by (auto simp: Some f split: if_splits)
qed

lemma nth_in_order:
  assumes "distinct (xs @ a # ys)" and "slice_get (xs @ a # ys) t = Some a"
  shows "t = length xs"
  using assms nth_eq_iff_index_eq [OF assms(1), of t "length xs"]
  by (auto simp: slice_get_def split: if_splits)

lemma plan_target_open:
  fixes exclude :: "str option" and t :: nat
  assumes ok: "index_ok I" and fits: "length (open_of I l) < USIZE_MAX"
  defines "plan \<equiv> plan_target I l t True exclude" and "others \<equiv> \<lambda>y. exclude \<noteq> Some y"
    and "meta \<equiv> pi_meta I" and "raw \<equiv> raw_of I l"
  shows "tp_raw_pos plan \<le> length raw"
    and "open_before meta l others (tp_raw_pos plan) raw = min t (length (filter others (shown meta l raw)))"
    and "tp_open_pos plan = Some pos \<Longrightarrow>
      min pos (length (filter others (open_seq meta l raw))) = min t (length (filter others (shown meta l raw)))"
proof -
  let ?sh = "filter others (shown meta l raw)" and ?rest = "filter others (open_rest meta l raw)"
  have b: "base_ok I" "lists_ok I" using ok by (simp_all add: index_ok_def)
  have fin: "finite (dom meta)" using base_okD(1) [OF b(1)] by (simp add: meta_def)
  have seq: "open_of I l = open_seq meta l raw" using lists_okD(1) [OF b(2)] by (simp add: meta_def raw_def)
  have len: "length (open_seq meta l raw) < USIZE_MAX" using fits seq by simp
  have all: "filter others (open_seq meta l raw) = ?sh @ ?rest" by (simp add: open_seq_def)
  have plan: "plan = (case slice_get (?sh @ ?rest) t of
      Some anchor \<Rightarrow> (case canonical_raw_pos I l anchor of
          Some ap \<Rightarrow> \<lparr>tp_raw_pos = ap, tp_open_pos = Some t\<rparr>
        | None \<Rightarrow> \<lparr>tp_raw_pos = length raw, tp_open_pos = None\<rparr>)
    | None \<Rightarrow> \<lparr>tp_raw_pos = length raw, tp_open_pos = (if tail_is_empty I l then Some USIZE_MAX else None)\<rparr>)"
    using slice_get_anchor [OF distinct_open_seq [OF fin] len, where exclude = exclude and t = t]
    by (simp add: plan_def plan_target_def seq all [unfolded others_def] others_def Let_def flip: raw_def)
  have goal: "tp_raw_pos plan \<le> length raw \<and>
    open_before meta l others (tp_raw_pos plan) raw = min t (length ?sh) \<and>
    (\<forall>pos. tp_open_pos plan = Some pos \<longrightarrow> min pos (length (?sh @ ?rest)) = min t (length ?sh))"
  proof (cases "slice_get (?sh @ ?rest) t")
    case None
    then have "length ?sh \<le> t" by (auto simp: slice_get_def split: if_splits)
    moreover have "length (?sh @ ?rest) < USIZE_MAX"
      using len by (metis all le_less_trans length_filter_le)
    moreover have "?rest = []" if "tail_is_empty I l"
      using tail_is_empty_iff [OF ok, of l] that by (simp add: meta_def raw_def)
    ultimately show ?thesis using None by (auto simp: plan open_before_def)
  next
    case (Some anchor)
    show ?thesis
    proof (cases "canonical_raw_pos I l anchor")
      case None
      have "t \<ge> length ?sh"
      proof (rule ccontr)
        assume "\<not> ?thesis"
        with Some have "anchor = ?sh ! t" "t < length ?sh" by (auto simp: slice_get_append) (simp add: slice_get_def)
        then have "anchor \<in> set ?sh" using nth_mem by blast
        with None show False by (simp add: canonical_None shown_def meta_def raw_def)
      qed
      with Some None show ?thesis by (simp add: plan open_before_def)
    next
      case (Some ap)
      note s = canonical_split [OF Some, folded meta_def raw_def]
      from \<open>slice_get (?sh @ ?rest) t = Some anchor\<close> have "anchor \<in> set (filter others (open_seq meta l raw))"
        unfolding all by (rule slice_get_mem)
      then have a: "meta_open meta anchor" "others anchor" using fin by (auto simp: open_located_def)
      define before where "before = filter others (shown meta l (take ap raw))"
      obtain after where sh: "?sh = before @ anchor # after"
        using s(2,4) a by (auto simp: before_def shown_def nub_append)
      have "distinct (?sh @ ?rest)" using distinct_open_seq [OF fin] by (metis all distinct_filter)
      then have "t = length before"
        using nth_in_order [of before anchor "after @ ?rest" t] \<open>slice_get (?sh @ ?rest) t = Some anchor\<close>
        by (simp add: sh)
      then show ?thesis
        using \<open>slice_get (?sh @ ?rest) t = Some anchor\<close> Some s(1)
        by (simp add: plan sh open_before_def flip: before_def)
    qed
  qed
  from goal show "tp_raw_pos plan \<le> length raw"
    "open_before meta l others (tp_raw_pos plan) raw = min t (length ?sh)" by simp_all
  show "tp_open_pos plan = Some pos \<Longrightarrow> min pos (length (filter others (open_seq meta l raw))) = min t (length ?sh)"
    using goal all by simp
qed

end
