(* ===== verification/Index_Ops.thy ===== *)
theory Index_Ops
  imports Open_Order
begin

text \<open>
  What the item mutations of \<open>core/src/doc.rs\<close> do to the projection index: the index side of
  \<open>add_items_at_impl\<close>, \<open>reorder_in_list\<close>, \<open>replace_entry\<close>, \<open>move_across_lists\<close>, \<open>move_item\<close>,
  \<open>sync_item_openness\<close> and \<open>hard_delete_items\<close>, with the plan each computes first. Each edits the
  derived maps in place instead of recomputing them; the lemmas show that the result is what a
  recomputation gives (\<open>index_ok\<close>), and where the item lands. Fresh ids and creation times are
  arguments.
\<close>

section \<open>The operations\<close>

type_synonym pending = "str \<times> str \<times> int"

definition put_entry :: "str \<Rightarrow> nat \<Rightarrow> order_entry \<Rightarrow> projection_index \<Rightarrow> projection_index" where
  "put_entry l raw_pos e I =
     (let raw = raw_of I l
      in I\<lparr>pi_raw_orders := (pi_raw_orders I)(l \<mapsto> vec_insert (min raw_pos (length raw)) (Some e) raw)\<rparr>)"

fun add_loop :: "str \<Rightarrow> nat \<Rightarrow> pending list \<Rightarrow> projection_index \<Rightarrow> projection_index" where
  "add_loop l at [] I = I"
| "add_loop l at ((item, placement, now) # ps) I =
     add_loop l (Suc at) ps
       (bump_visible l 1
         (put_entry l at \<lparr>oe_item_id = item, oe_placement_id = placement\<rparr>
           (set_meta item \<lparr>im_list_id = l, im_placement_id = placement, im_open = True, im_created_at = now\<rparr> I)))"

fun splice_loop :: "str \<Rightarrow> nat \<Rightarrow> nat \<Rightarrow> str list \<Rightarrow> projection_index \<Rightarrow> projection_index" where
  "splice_loop l pos i [] I = I"
| "splice_loop l pos i (item # items) I =
     splice_loop l pos (Suc i) items (splice_open_in l item (saturating_add pos i) I)"

definition index_add_items :: "str \<Rightarrow> nat \<Rightarrow> pending list \<Rightarrow> projection_index \<Rightarrow> str list \<times> projection_index" where
  "index_add_items l target_index ps I =
     (let plan = plan_target I l target_index True None;
          I1 = add_loop l (tp_raw_pos plan) ps I
      in case tp_open_pos plan of
           Some pos \<Rightarrow> let I2 = splice_loop l pos 0 (map fst ps) I1 in (open_of I2 l, I2)
         | None \<Rightarrow> refresh_open l I1)"

definition position_of :: "str \<Rightarrow> str list \<Rightarrow> nat option" where
  "position_of item xs = position (\<lambda>x. x = item) xs"

text \<open>The result of a move is the \<open>open_index\<close> of its event, if it emits one.\<close>

definition index_replace_entry ::
  "str \<Rightarrow> str \<Rightarrow> nat \<Rightarrow> bool \<Rightarrow> str \<Rightarrow> projection_index \<Rightarrow> nat option option \<times> projection_index" where
  "index_replace_entry item l target_index is_open placement I =
     (let raw_pos = tp_raw_pos (plan_target I l target_index is_open (Some item));
          e = \<lparr>oe_item_id = item, oe_placement_id = placement\<rparr>;
          I1 = (case pi_meta I item of
                  None \<Rightarrow> I
                | Some m \<Rightarrow> I\<lparr>pi_meta := (pi_meta I)(item \<mapsto> m\<lparr>im_placement_id := placement\<rparr>)\<rparr>);
          (opn, I2) = refresh_open l (put_entry l raw_pos e I1)
      in (Some (if is_open then position_of item opn else None), I2))"

definition mirror_mov :: "str \<Rightarrow> nat \<Rightarrow> nat \<Rightarrow> projection_index \<Rightarrow> projection_index" where
  "mirror_mov l frm dst I =
     (case pi_raw_orders I l of
        None \<Rightarrow> I
      | Some raw \<Rightarrow>
          let e = raw ! frm; raw1 = vec_remove frm raw
          in I\<lparr>pi_raw_orders := (pi_raw_orders I)(l \<mapsto> vec_insert (min dst (length raw1)) e raw1)\<rparr>)"

definition index_reorder_in_list ::
  "str \<Rightarrow> str \<Rightarrow> nat \<Rightarrow> bool \<Rightarrow> str \<Rightarrow> projection_index \<Rightarrow> nat option option \<times> projection_index" where
  "index_reorder_in_list item l target_index is_open placement I =
     (case canonical_raw_pos I l item of
        None \<Rightarrow> index_replace_entry item l target_index is_open placement I
      | Some frm \<Rightarrow>
          let plan = plan_target I l target_index is_open (Some item);
              dst = (if tp_raw_pos plan > frm then tp_raw_pos plan - 1 else tp_raw_pos plan)
          in if frm = dst then (None, I)
             else
               let I1 = mirror_mov l frm dst I
               in if \<not> is_open then (Some None, I1)
                  else case tp_open_pos plan of
                         Some pos \<Rightarrow>
                           let I2 = splice_open_in l item pos I1
                           in (Some (position_of item (open_of I2 l)), I2)
                       | None \<Rightarrow>
                           let (opn, I2) = refresh_open l I1
                           in (Some (position_of item opn), I2))"

definition remove_at :: "nat \<Rightarrow> 'a list \<Rightarrow> 'a list" where
  "remove_at p xs = (if p < length xs then vec_remove p xs else xs)"

definition remove_positions :: "nat list \<Rightarrow> 'a list \<Rightarrow> 'a list" where
  "remove_positions ps xs = fold remove_at (rev ps) xs"

definition mirror_remove :: "str \<Rightarrow> nat list \<Rightarrow> projection_index \<Rightarrow> projection_index" where
  "mirror_remove l ps I =
     (case pi_raw_orders I l of
        None \<Rightarrow> I
      | Some raw \<Rightarrow> I\<lparr>pi_raw_orders := (pi_raw_orders I)(l \<mapsto> remove_positions ps raw)\<rparr>)"

text \<open>The first part of the index update of a cross-list move: slice, mirrors and counts.\<close>

definition relocate :: "str \<Rightarrow> str \<Rightarrow> item_meta \<Rightarrow> nat \<Rightarrow> projection_index \<Rightarrow> projection_index" where
  "relocate item cur_list m raw_pos I =
     (let src_positions = entry_positions I cur_list item;
          was_visible = (canonical_raw_pos I cur_list item \<noteq> None);
          I1 = set_meta item m I;
          I2 = mirror_remove cur_list src_positions I1;
          I3 = (if was_visible \<and> im_open m then bump_visible cur_list (- 1) I2 else I2);
          I4 = put_entry (im_list_id m) raw_pos \<lparr>oe_item_id = item, oe_placement_id = im_placement_id m\<rparr> I3
      in if im_open m then bump_visible (im_list_id m) 1 I4 else I4)"

definition index_move_across_lists ::
  "str \<Rightarrow> str \<Rightarrow> str \<Rightarrow> nat \<Rightarrow> bool \<Rightarrow> str \<Rightarrow> int \<Rightarrow> projection_index
     \<Rightarrow> nat option option \<times> projection_index" where
  "index_move_across_lists item cur_list target_list target_index is_open placement created_at I =
     (let plan = plan_target I target_list target_index is_open None;
          I5 = relocate item cur_list
                 \<lparr>im_list_id = target_list, im_placement_id = placement, im_open = is_open, im_created_at = created_at\<rparr>
                 (tp_raw_pos plan) I
      in if \<not> is_open then (Some None, I5)
         else
           let I6 = splice_open_out cur_list item I5
           in case tp_open_pos plan of
                Some pos \<Rightarrow>
                  let I7 = splice_open_in target_list item pos I6
                  in (Some (position_of item (open_of I7 target_list)), I7)
              | None \<Rightarrow>
                  let (opn, I7) = refresh_open target_list I6
                  in (Some (position_of item opn), I7))"

definition index_move_item ::
  "str \<Rightarrow> str \<Rightarrow> nat \<Rightarrow> str \<Rightarrow> int \<Rightarrow> projection_index \<Rightarrow> (nat option option \<times> projection_index) option" where
  "index_move_item item target_list target_index placement created_at I =
     (case pi_meta I item of
        None \<Rightarrow> None
      | Some m \<Rightarrow>
          Some (if im_list_id m = target_list
                then index_reorder_in_list item target_list target_index (im_open m) placement I
                else index_move_across_lists item (im_list_id m) target_list target_index (im_open m)
                       placement created_at I))"

definition sync_item_openness :: "str \<Rightarrow> bool \<Rightarrow> projection_index \<Rightarrow> nat option \<times> projection_index" where
  "sync_item_openness item open_now I =
     (case set_open item open_now I of
        (None, I1) \<Rightarrow> (None, I1)
      | (Some (l, was_open), I1) \<Rightarrow>
          if \<not> open_now then
            let I2 = (if was_open \<and> canonical_raw_pos I1 l item \<noteq> None then bump_visible l (- 1) I1 else I1)
            in (None, splice_open_out l item I2)
          else if was_open then
            (Option.bind (pi_open_by_list I1 l) (position_of item), I1)
          else
            let (opn, I2) = refresh_open l I1 in (position_of item opn, I2))"

text \<open>The positions to delete in one list, sorted and without duplicates.\<close>

definition delete_positions :: "projection_index \<Rightarrow> str list \<Rightarrow> str \<Rightarrow> nat list" where
  "delete_positions I items l =
     remdups (sort (concat (map (entry_positions I l)
       (filter (\<lambda>i. case pi_meta I i of None \<Rightarrow> False | Some m \<Rightarrow> im_list_id m = l) items))))"

fun per_item :: "projection_index \<Rightarrow> str list \<Rightarrow> (str \<times> str \<times> bool) list" where
  "per_item I [] = []"
| "per_item I (i # items) =
     (case pi_meta I i of
        None \<Rightarrow> per_item I items
      | Some m \<Rightarrow> (i, im_list_id m, im_open m \<and> canonical_raw_pos I (im_list_id m) i \<noteq> None) # per_item I items)"

fun splice_out_all :: "(str \<times> str \<times> bool) list \<Rightarrow> projection_index \<Rightarrow> projection_index" where
  "splice_out_all [] I = I"
| "splice_out_all ((i, l, was_visible) # rows) I =
     splice_out_all rows
       (let I1 = splice_open_out l i I in if was_visible then bump_visible l (- 1) I1 else I1)"

definition index_hard_delete :: "str list \<Rightarrow> projection_index \<Rightarrow> projection_index" where
  "index_hard_delete items I =
     (let rows = per_item I items;
          I1 = fold remove_item items I;
          I2 = I1\<lparr>pi_raw_orders := (\<lambda>l. map_option (remove_positions (delete_positions I items l)) (pi_raw_orders I1 l))\<rparr>
      in splice_out_all rows I2)"

section \<open>Membership\<close>

lemma unset_member_opt:
  "unset_member l i (\<lambda>l. set_opt (f l)) = (\<lambda>l'. set_opt (if l' = l then f l' - {i} else f l'))"
  by (auto simp: unset_member_def set_opt_def Let_def fun_eq_iff split: option.split)

lemma add_member_opt:
  "add_member l i (\<lambda>l. set_opt (f l)) = (\<lambda>l'. set_opt (if l' = l then insert i (f l') else f l'))"
  by (auto simp: add_member_def fun_eq_iff) (simp add: set_opt_def)

lemma base_ok_iff:
  "base_ok I \<longleftrightarrow> finite (dom (pi_meta I)) \<and>
     pi_members I = (\<lambda>l. set_opt (located (pi_meta I) l)) \<and>
     pi_open_members I = (\<lambda>l. set_opt (open_located (pi_meta I) l))"
  by (simp add: base_ok_def fun_eq_iff)

lemma located_upd:
  "located (meta(i \<mapsto> m)) l = (if im_list_id m = l then insert i (located meta l) else located meta l - {i})"
  "located (meta(i := None)) l = located meta l - {i}"
  by (auto simp: located_def)

lemma open_located_upd:
  "open_located (meta(i \<mapsto> m)) l =
     (if im_list_id m = l \<and> im_open m then insert i (open_located meta l) else open_located meta l - {i})"
  "open_located (meta(i := None)) l = open_located meta l - {i}"
  by (auto simp: open_located_def located_def meta_open_def)

lemma in_open_located: "i \<in> open_located meta l \<longleftrightarrow> (\<exists>m. meta i = Some m \<and> im_list_id m = l \<and> im_open m)"
  by (auto simp: open_located_def located_def meta_open_def)

lemma in_located: "i \<in> located meta l \<longleftrightarrow> (\<exists>m. meta i = Some m \<and> im_list_id m = l)"
  by (simp add: located_def)

lemmas member_simps = unset_member_opt add_member_opt located_upd open_located_upd in_located in_open_located

lemma base_set_meta: "base_ok I \<Longrightarrow> base_ok (set_meta i m I)"
  by (auto simp: base_ok_iff set_meta_def member_simps Let_def split: option.split if_splits
      intro!: ext arg_cong [where f = set_opt])

lemma base_remove_item: "base_ok I \<Longrightarrow> base_ok (remove_item i I)"
  by (auto simp: base_ok_iff remove_item_def member_simps Let_def split: option.split if_splits
      intro!: ext arg_cong [where f = set_opt])

lemma base_set_open: "base_ok I \<Longrightarrow> base_ok (snd (set_open i b I))"
  by (auto simp: base_ok_iff set_open_def member_simps Let_def split: option.split if_splits
      intro!: ext arg_cong [where f = set_opt])

section \<open>One item changes\<close>

definition counts_ok :: "projection_index \<Rightarrow> bool" where
  "counts_ok I \<longleftrightarrow>
     (\<forall>l. pi_open_visible_counts I l = count_opt (length (shown (pi_meta I) l (raw_of I l))))"

definition orders_ok :: "projection_index \<Rightarrow> bool" where
  "orders_ok I \<longleftrightarrow> (\<forall>l. pi_open_by_list I l = list_opt (open_seq (pi_meta I) l (raw_of I l)))"

lemma index_ok_iff: "index_ok I \<longleftrightarrow> base_ok I \<and> counts_ok I \<and> orders_ok I"
  by (auto simp: index_ok_def lists_ok_def counts_ok_def orders_ok_def)

lemma counts_bump:
  assumes "pi_open_visible_counts I l = count_opt n" and "int n' = int n + d"
  shows "pi_open_visible_counts (bump_visible l d I) = (pi_open_visible_counts I)(l := count_opt n')"
proof -
  have "nat (max (int n + d) 0) = n'" using assms(2) by linarith
  moreover have "pi_open_visible_counts (bump_visible l d I) = (pi_open_visible_counts I)
      (l := count_opt (nat (max (int (or_default 0 (pi_open_visible_counts I l)) + d) 0)))"
    by (simp add: bump_visible_def Let_def count_opt_def)
  ultimately show ?thesis by (simp only: assms(1) or_default_opt)
qed

lemma filter_notin_id: "i \<notin> set xs \<Longrightarrow> filter (\<lambda>x. x \<noteq> i) xs = xs"
  by (metis (mono_tags, lifting) filter_True)

lemma length_filter_ne:
  "distinct xs \<Longrightarrow> int (length (filter (\<lambda>x. x \<noteq> i) xs)) = int (length xs) - (if i \<in> set xs then 1 else 0)"
  by (induction xs) (auto simp: filter_notin_id)

lemma shown_notin: "i \<notin> open_located meta l \<Longrightarrow> filter (\<lambda>x. x \<noteq> i) (shown meta l raw) = shown meta l raw"
  using shown_open_located [of meta l raw] by (intro filter_notin_id) blast

lemma open_seq_notin:
  "finite (dom meta) \<Longrightarrow> i \<notin> open_located meta l \<Longrightarrow> filter (\<lambda>x. x \<noteq> i) (open_seq meta l raw) = open_seq meta l raw"
  by (intro filter_notin_id) simp

lemma hidden_order:
  assumes "agree_off {i} meta meta'" and "drop_entries {i} raw' = drop_entries {i} raw"
    and "finite (dom meta)" "finite (dom meta')" and "i \<notin> open_located meta' l"
  shows "open_seq meta' l raw' = filter (\<lambda>x. x \<noteq> i) (open_seq meta l raw)"
    and "shown meta' l raw' = filter (\<lambda>x. x \<noteq> i) (shown meta l raw)"
  using open_seq_off [OF assms(1-4), of l] shown_off [OF assms(1,2), of l]
    open_seq_notin [OF assms(4,5), of raw'] shown_notin [OF assms(5), of raw']
  by simp_all

lemma untouched_order:
  assumes "agree_off {i} meta meta'" and "drop_entries {i} raw' = drop_entries {i} raw"
    and "finite (dom meta)" "finite (dom meta')" and "i \<notin> open_located meta' l" and "i \<notin> open_located meta l"
  shows "open_seq meta' l raw' = open_seq meta l raw" and "shown meta' l raw' = shown meta l raw"
  using hidden_order [OF assms(1-5)] open_seq_notin [OF assms(3,6)] shown_notin [OF assms(6)] by simp_all

lemma index_fields [simp]:
  "pi_meta (put_entry l p e I) = pi_meta I"
  "pi_members (put_entry l p e I) = pi_members I"
  "pi_open_members (put_entry l p e I) = pi_open_members I"
  "pi_open_by_list (put_entry l p e I) = pi_open_by_list I"
  "pi_open_visible_counts (put_entry l p e I) = pi_open_visible_counts I"
  "pi_meta (bump_visible l d I) = pi_meta I"
  "pi_members (bump_visible l d I) = pi_members I"
  "pi_open_members (bump_visible l d I) = pi_open_members I"
  "pi_open_by_list (bump_visible l d I) = pi_open_by_list I"
  "pi_raw_orders (bump_visible l d I) = pi_raw_orders I"
  "pi_meta (set_meta i m I) = (pi_meta I)(i \<mapsto> m)"
  "pi_raw_orders (set_meta i m I) = pi_raw_orders I"
  "pi_open_by_list (set_meta i m I) = pi_open_by_list I"
  "pi_open_visible_counts (set_meta i m I) = pi_open_visible_counts I"
  "pi_meta (splice_open_in l i p I) = pi_meta I"
  "pi_members (splice_open_in l i p I) = pi_members I"
  "pi_open_members (splice_open_in l i p I) = pi_open_members I"
  "pi_raw_orders (splice_open_in l i p I) = pi_raw_orders I"
  "pi_open_visible_counts (splice_open_in l i p I) = pi_open_visible_counts I"
  by (simp_all add: put_entry_def bump_visible_def set_meta_def splice_open_in_def Let_def)

lemma splice_open_out_fields [simp]:
  "pi_meta (splice_open_out l i I) = pi_meta I"
  "pi_members (splice_open_out l i I) = pi_members I"
  "pi_open_members (splice_open_out l i I) = pi_open_members I"
  "pi_raw_orders (splice_open_out l i I) = pi_raw_orders I"
  "pi_open_visible_counts (splice_open_out l i I) = pi_open_visible_counts I"
  by (simp_all add: splice_open_out_def Let_def split: option.split)

lemma raw_of_put_entry [simp]:
  "raw_of (put_entry l p e I) l' =
     (if l' = l then vec_insert (min p (length (raw_of I l))) (Some e) (raw_of I l) else raw_of I l')"
  by (simp add: put_entry_def Let_def)

lemma base_ok_cong:
  assumes "pi_meta J = pi_meta I" "pi_members J = pi_members I" "pi_open_members J = pi_open_members I"
  shows "base_ok J \<longleftrightarrow> base_ok I"
  using assms by (simp add: base_ok_def)

lemma open_by_list_splice_in:
  "pi_open_by_list (splice_open_in l i k I) =
    (pi_open_by_list I)(l := list_opt (vec_insert (min k (length (filter (\<lambda>x. x \<noteq> i) (open_of I l)))) i
      (filter (\<lambda>x. x \<noteq> i) (open_of I l))))"
  by (simp add: splice_open_in_def list_opt_def vec_insert_def Let_def)

lemma open_by_list_splice_out:
  assumes "pi_open_by_list I l = list_opt xs"
  shows "pi_open_by_list (splice_open_out l i I) = (pi_open_by_list I)(l := list_opt (filter (\<lambda>x. x \<noteq> i) xs))"
  using assms by (auto simp: splice_open_out_def list_opt_def Let_def fun_eq_iff split: if_splits)

section \<open>Adding items\<close>

lemma set_vec_insert [simp]: "set (vec_insert p x xs) = insert x (set xs)"
proof -
  have "set (take p xs) \<union> set (drop p xs) = set xs" by (metis append_take_drop_id set_append)
  then show ?thesis by (auto simp: vec_insert_def)
qed

lemma length_vec_insert [simp]: "length (vec_insert p x xs) = Suc (length xs)"
  by (simp add: vec_insert_def)

lemma take_vec_insert: "p \<le> length xs \<Longrightarrow> take (Suc p) (vec_insert p x xs) = vec_insert p x (take p xs)"
  by (simp add: vec_insert_def)

lemma add_step:
  fixes i pl :: str and now :: int
  assumes ok: "base_ok I" "counts_ok I" and at: "at \<le> length (raw_of I l)"
    and new: "pi_meta I i = None" "\<forall>e. Some e \<in> set (raw_of I l) \<longrightarrow> oe_item_id e \<noteq> i"
  defines "J \<equiv> bump_visible l 1 (put_entry l at \<lparr>oe_item_id = i, oe_placement_id = pl\<rparr>
      (set_meta i \<lparr>im_list_id = l, im_placement_id = pl, im_open = True, im_created_at = now\<rparr> I))"
    and "k \<equiv> length (shown (pi_meta I) l (take at (raw_of I l)))"
  shows "base_ok J" "counts_ok J"
    "open_seq (pi_meta J) l (raw_of J l) = vec_insert k i (open_seq (pi_meta I) l (raw_of I l))"
    "k \<le> length (open_seq (pi_meta I) l (raw_of I l))"
    "length (shown (pi_meta J) l (take (Suc at) (raw_of J l))) = Suc k"
    "\<And>l'. l' \<noteq> l \<Longrightarrow> open_seq (pi_meta J) l' (raw_of J l') = open_seq (pi_meta I) l' (raw_of I l')"
proof -
  let ?m = "\<lparr>im_list_id = l, im_placement_id = pl, im_open = True, im_created_at = now\<rparr>"
  let ?meta' = "(pi_meta I)(i \<mapsto> ?m)" and ?raw = "raw_of I l"
  have J: "pi_meta J = ?meta'"
    "raw_of J l' = (if l' = l then vec_insert at (Some \<lparr>oe_item_id = i, oe_placement_id = pl\<rparr>) ?raw else raw_of I l')" for l'
    using at by (simp_all add: J_def min_absorb1)
  have fin: "finite (dom (pi_meta I))" "finite (dom ?meta')" using ok(1) by (simp_all add: base_ok_def)
  have out: "i \<notin> open_located (pi_meta I) l'" for l' using new(1) by (simp add: in_open_located)
  have fresh: "Some \<lparr>oe_item_id = i, oe_placement_id = im_placement_id ?m\<rparr> \<notin> set ?raw"
    using new(2) by fastforce
  have nf: "filter (\<lambda>x. x \<noteq> i) (shown (pi_meta I) l r) = shown (pi_meta I) l r" for r
    using out by (rule shown_notin)
  have sq: "filter (\<lambda>x. x \<noteq> i) (open_seq (pi_meta I) l ?raw) = open_seq (pi_meta I) l ?raw"
    using fin(1) out by (rule open_seq_notin)
  note ins = inserted_order [of i "pi_meta I" ?meta' ?raw ?raw ?m l at, OF _ refl fin _ _ _ fresh]
  show base: "base_ok J" by (rule base_ok_cong [THEN iffD2, OF _ _ _ base_set_meta [OF ok(1), of i ?m]]) (simp_all add: J_def)
  show "open_seq (pi_meta J) l (raw_of J l) = vec_insert k i (open_seq (pi_meta I) l ?raw)"
    using ins(1) sq nf by (simp add: J k_def open_before_def)
  show "k \<le> length (open_seq (pi_meta I) l ?raw)"
    using length_shown_take [of "pi_meta I" l at ?raw] by (simp add: k_def open_seq_def)
  have other: "open_seq (pi_meta J) l' (raw_of J l') = open_seq (pi_meta I) l' (raw_of I l') \<and>
      shown (pi_meta J) l' (raw_of J l') = shown (pi_meta I) l' (raw_of I l')" if "l' \<noteq> l" for l'
    using untouched_order [of i "pi_meta I" ?meta' "raw_of I l'" "raw_of I l'" l', OF _ refl fin _ out] that
    by (simp add: J open_located_upd out)
  then show "\<And>l'. l' \<noteq> l \<Longrightarrow> open_seq (pi_meta J) l' (raw_of J l') = open_seq (pi_meta I) l' (raw_of I l')" by blast
  have "length (shown (pi_meta J) l (raw_of J l)) = Suc (length (shown (pi_meta I) l ?raw))"
    using ins(2) nf by (simp add: J)
  moreover have "pi_open_visible_counts J =
      (pi_open_visible_counts I)(l := count_opt (Suc (length (shown (pi_meta I) l ?raw))))"
    unfolding J_def by (rule counts_bump [THEN trans]) (use ok(2) in \<open>simp_all add: counts_ok_def\<close>)
  ultimately have "pi_open_visible_counts J =
      (pi_open_visible_counts I)(l := count_opt (length (shown (pi_meta J) l (raw_of J l))))" by simp
  with ok(2) other show "counts_ok J" by (auto simp: counts_ok_def)
  have ft: "Some \<lparr>oe_item_id = i, oe_placement_id = im_placement_id ?m\<rparr> \<notin> set (take at ?raw)"
    using fresh by (meson in_set_takeD)
  have "shown ?meta' l (take at ?raw) = shown (pi_meta I) l (take at ?raw)"
    using shown_off [of "{i}" "pi_meta I" ?meta' "take at ?raw" "take at ?raw" l]
      filter_not_shown [of ?meta' i ?m "take at ?raw" l] ft nf by simp
  moreover have "take (Suc at) (raw_of J l) =
      vec_insert at (Some \<lparr>oe_item_id = i, oe_placement_id = im_placement_id ?m\<rparr>) (take at ?raw)"
    using at by (simp add: J take_vec_insert)
  moreover note shown_insert [of ?meta' i ?m l "take at ?raw" at, OF _ _ _ ft]
  ultimately show "length (shown (pi_meta J) l (take (Suc at) (raw_of J l))) = Suc k"
    by (simp add: J(1) k_def)
qed

definition new_items :: "pending list \<Rightarrow> str \<Rightarrow> projection_index \<Rightarrow> bool" where
  "new_items ps l I \<longleftrightarrow> distinct (map fst ps) \<and>
     (\<forall>i \<in> set (map fst ps). pi_meta I i = None \<and> (\<forall>e. Some e \<in> set (raw_of I l) \<longrightarrow> oe_item_id e \<noteq> i))"

lemma add_loop_spec:
  assumes "base_ok I" "counts_ok I" "at \<le> length (raw_of I l)" "new_items ps l I"
  defines "k \<equiv> length (shown (pi_meta I) l (take at (raw_of I l)))"
    and "S \<equiv> open_seq (pi_meta I) l (raw_of I l)"
  shows "base_ok (add_loop l at ps I) \<and> counts_ok (add_loop l at ps I) \<and>
    pi_open_by_list (add_loop l at ps I) = pi_open_by_list I \<and>
    open_seq (pi_meta (add_loop l at ps I)) l (raw_of (add_loop l at ps I) l) = take k S @ map fst ps @ drop k S \<and>
    (\<forall>l'. l' \<noteq> l \<longrightarrow> open_seq (pi_meta (add_loop l at ps I)) l' (raw_of (add_loop l at ps I) l') =
       open_seq (pi_meta I) l' (raw_of I l'))"
  using assms(1-4) unfolding k_def S_def
proof (induction l at ps I rule: add_loop.induct)
  case (2 l at i pl now ps I)
  let ?k = "length (shown (pi_meta I) l (take at (raw_of I l)))"
  define J where "J = bump_visible l 1 (put_entry l at \<lparr>oe_item_id = i, oe_placement_id = pl\<rparr>
      (set_meta i \<lparr>im_list_id = l, im_placement_id = pl, im_open = True, im_created_at = now\<rparr> I))"
  have new: "pi_meta I i = None" "\<forall>e. Some e \<in> set (raw_of I l) \<longrightarrow> oe_item_id e \<noteq> i"
    using "2.prems"(4) by (auto simp: new_items_def)
  have step: "base_ok J" "counts_ok J"
    "open_seq (pi_meta J) l (raw_of J l) = vec_insert ?k i (open_seq (pi_meta I) l (raw_of I l))"
    "?k \<le> length (open_seq (pi_meta I) l (raw_of I l))"
    "length (shown (pi_meta J) l (take (Suc at) (raw_of J l))) = Suc ?k"
    "\<And>l'. l' \<noteq> l \<Longrightarrow> open_seq (pi_meta J) l' (raw_of J l') = open_seq (pi_meta I) l' (raw_of I l')"
    unfolding J_def by (rule add_step [OF "2.prems"(1-3) new]; assumption)+
  have J: "new_items ps l J" "Suc at \<le> length (raw_of J l)" "pi_open_by_list J = pi_open_by_list I"
    unfolding J_def using "2.prems"(3,4) by (force simp: new_items_def)+
  note "2.IH" [folded J_def, OF step(1,2) J(2,1)]
  with step(3-6) J(3) show ?case by (simp add: vec_insert_def flip: J_def)
qed simp

lemma splice_loop_spec:
  assumes "pi_open_by_list I l = list_opt (A @ D @ B)" "length D = j" "min pos (length A + length B) = length A"
    and "length A + length B + j + length items \<le> USIZE_MAX" "distinct items" "set items \<inter> set (A @ D @ B) = {}"
  shows "splice_loop l pos j items I = I\<lparr>pi_open_by_list := (pi_open_by_list I)(l := list_opt (A @ D @ items @ B))\<rparr>"
  using assms
proof (induction l pos j items I arbitrary: D rule: splice_loop.induct)
  case (1 l pos j I)
  then show ?case by (auto simp: fun_upd_idem)
next
  case (2 l pos j i items I)
  let ?I = "splice_open_in l i (saturating_add pos j) I"
  have at: "min (saturating_add pos j) (length A + (j + length B)) = length A + j"
    using "2.prems"(3,4) by (auto simp: saturating_add_def min_def split: if_splits)
  have "filter (\<lambda>x. x \<noteq> i) (A @ D @ B) = A @ D @ B" using "2.prems"(6) by (intro filter_notin_id) auto
  moreover have "vec_insert (length A + j) i (A @ D @ B) = A @ (D @ [i]) @ B"
    using "2.prems"(2) by (simp add: vec_insert_def)
  ultimately have I: "?I = I\<lparr>pi_open_by_list := (pi_open_by_list I)(l := list_opt (A @ (D @ [i]) @ B))\<rparr>"
    using "2.prems"(2) at by (simp add: splice_open_in_def Let_def "2.prems"(1) list_opt_def [of "A @ D @ i # B"])
  from "2.IH" [of "D @ [i]"] "2.prems" show ?case by (simp add: I cong: if_cong)
qed

lemma orders_okD: "orders_ok I \<Longrightarrow> open_of I l = open_seq (pi_meta I) l (raw_of I l)"
  by (simp add: orders_ok_def)

lemma index_ok_refresh:
  assumes "base_ok I" "counts_ok I \<or> (\<forall>l'. l' \<noteq> l \<longrightarrow>
      pi_open_visible_counts I l' = count_opt (length (shown (pi_meta I) l' (raw_of I l'))))"
    and "\<forall>l'. l' \<noteq> l \<longrightarrow> pi_open_by_list I l' = list_opt (open_seq (pi_meta I) l' (raw_of I l'))"
  shows "index_ok (snd (refresh_open l I))" "fst (refresh_open l I) = open_seq (pi_meta I) l (raw_of I l)"
    "open_of (snd (refresh_open l I)) l = open_seq (pi_meta I) l (raw_of I l)"
    "pi_meta (snd (refresh_open l I)) = pi_meta I" "pi_raw_orders (snd (refresh_open l I)) = pi_raw_orders I"
  using assms(2,3) base_ok_cong [of "snd (refresh_open l I)" I] assms(1)
  by (auto simp: refresh_open_eq [OF assms(1)] index_ok_iff counts_ok_def orders_ok_def)

lemma index_add_items_spec:
  fixes t :: nat
  assumes ok: "index_ok I" and new: "new_items ps l I"
    and fits: "length (open_of I l) + length ps < USIZE_MAX"
  defines "k \<equiv> min t (length (shown (pi_meta I) l (raw_of I l)))"
    and "J \<equiv> snd (index_add_items l t ps I)"
  shows "index_ok J" "open_of J l = take k (open_of I l) @ map fst ps @ drop k (open_of I l)"
    "fst (index_add_items l t ps I) = open_of J l" "\<And>l'. l' \<noteq> l \<Longrightarrow> open_of J l' = open_of I l'"
proof -
  define plan where "plan = plan_target I l t True None"
  define S where "S = open_seq (pi_meta I) l (raw_of I l)"
  define I1 where "I1 = add_loop l (tp_raw_pos plan) ps I"
  have b: "base_ok I" "counts_ok I" "orders_ok I" using ok by (simp_all add: index_ok_iff)
  have S: "open_of I l = S" using orders_okD [OF b(3)] by (simp add: S_def)
  have len: "length (open_of I l) < USIZE_MAX" using fits by simp
  note plan = plan_target_open [OF ok len, where t = t and exclude = None, folded plan_def, simplified]
  have k: "length (shown (pi_meta I) l (take (tp_raw_pos plan) (raw_of I l))) = k"
    using plan(2) by (simp add: open_before_def k_def)
  note spec = add_loop_spec [OF b(1,2) plan(1) new, folded I1_def, unfolded k, folded S_def]
  have k_le: "k \<le> length S" by (simp add: k_def S_def open_seq_def)
  have rest: "\<forall>l'. l' \<noteq> l \<longrightarrow> pi_open_by_list I1 l' = list_opt (open_seq (pi_meta I1) l' (raw_of I1 l'))"
    using spec b(3) by (simp add: orders_ok_def)
  have seq: "open_seq (pi_meta I1) l (raw_of I1 l) = take k S @ map fst ps @ drop k S" using spec by simp
  have "index_ok J \<and> open_of J l = take k S @ map fst ps @ drop k S \<and>
      fst (index_add_items l t ps I) = open_of J l \<and> (\<forall>l'. l' \<noteq> l \<longrightarrow> open_of J l' = open_of I l')"
  proof (cases "tp_open_pos plan")
    case None
    then have J: "index_add_items l t ps I = refresh_open l I1"
      by (simp add: index_add_items_def Let_def flip: plan_def I1_def)
    have "base_ok I1" using spec by simp
    from refresh_open_eq [OF this, of l] spec have "\<forall>l'. l' \<noteq> l \<longrightarrow> open_of J l' = open_of I l'" by (simp add: J_def J)
    with index_ok_refresh [of I1 l] spec rest seq show ?thesis by (simp add: J_def J)
  next
    case (Some pos)
    have pos: "min pos (length (take k S) + length (drop k S)) = length (take k S)"
      using plan(3) [OF Some] k_le by (simp add: k_def S_def)
    have "set (map fst ps) \<inter> set (take k S @ [] @ drop k S) = {}"
      using new b(1) by (auto simp: S_def new_items_def base_ok_def in_open_located simp del: set_append)
    moreover have "pi_open_by_list I1 l = list_opt (take k S @ [] @ drop k S)"
      using spec b(3) by (simp add: orders_ok_def S_def)
    moreover have "length (take k S) + length (drop k S) + 0 + length (map fst ps) \<le> USIZE_MAX"
      using fits S k_le by simp
    ultimately have "splice_loop l pos 0 (map fst ps) I1 =
        I1\<lparr>pi_open_by_list := (pi_open_by_list I1)(l := list_opt (take k S @ [] @ map fst ps @ drop k S))\<rparr>"
      using pos new by (intro splice_loop_spec) (simp_all add: new_items_def)
    with Some have J: "J = I1\<lparr>pi_open_by_list := (pi_open_by_list I1)(l := list_opt (take k S @ map fst ps @ drop k S))\<rparr>"
      and "fst (index_add_items l t ps I) = open_of J l"
      by (simp_all add: J_def index_add_items_def Let_def flip: plan_def I1_def)
    moreover have "index_ok J"
      using spec rest seq base_ok_cong [of J I1] by (auto simp: J index_ok_iff counts_ok_def orders_ok_def)
    ultimately show ?thesis using spec by (simp add: J)
  qed
  then show "index_ok J" "open_of J l = take k (open_of I l) @ map fst ps @ drop k (open_of I l)"
    "fst (index_add_items l t ps I) = open_of J l" "\<And>l'. l' \<noteq> l \<Longrightarrow> open_of J l' = open_of I l'"
    by (simp_all add: S)
qed

end
