(* ===== verification/Index_Moves.thy ===== *)
theory Index_Moves
  imports Index_Ops
begin

text \<open>
  Hiding, restoring, moving and deleting items keep the projection index exact, and a move puts the
  item where the caller asked.
\<close>

section \<open>Hiding and restoring\<close>

lemma valid_ids_open: "meta i = Some m \<Longrightarrow> valid_ids (meta(i \<mapsto> m\<lparr>im_open := b\<rparr>)) l raw = valid_ids meta l raw"
proof -
  assume "meta i = Some m"
  then have "entry_id (meta(i \<mapsto> m\<lparr>im_open := b\<rparr>)) l e = entry_id meta l e" for e
    by (auto simp: entry_id_def split: option.split)
  then have "entry_id (meta(i \<mapsto> m\<lparr>im_open := b\<rparr>)) l = entry_id meta l" ..
  then show ?thesis by (simp only: valid_ids_def)
qed

lemma in_shown: "i \<in> set (shown meta l raw) \<longleftrightarrow> meta_open meta i \<and> i \<in> set (valid_ids meta l raw)"
  by (auto simp: shown_def)

lemma set_open_fields:
  fixes b :: bool
  assumes "pi_meta I i = Some m"
  defines "I1 \<equiv> snd (set_open i b I)"
  shows "set_open i b I = (Some (im_list_id m, im_open m), I1)"
    "pi_meta I1 = (pi_meta I)(i \<mapsto> m\<lparr>im_open := b\<rparr>)" "pi_raw_orders I1 = pi_raw_orders I"
    "pi_open_by_list I1 = pi_open_by_list I" "pi_open_visible_counts I1 = pi_open_visible_counts I"
    "im_open m = b \<Longrightarrow> I1 = I"
  using assms by (auto simp: set_open_def Let_def map_upd_triv)

lemma openness_elsewhere:
  fixes b :: bool
  assumes "pi_meta I i = Some m" and "base_ok I" and "l \<noteq> im_list_id m"
  defines "meta' \<equiv> (pi_meta I)(i \<mapsto> m\<lparr>im_open := b\<rparr>)"
  shows "open_seq meta' l raw = open_seq (pi_meta I) l raw" "shown meta' l raw = shown (pi_meta I) l raw"
  unfolding meta'_def using assms(1-3)
  by (intro untouched_order [of i]; auto simp: base_ok_def in_open_located)+

lemma hide_item:
  fixes I :: projection_index
  assumes ok: "index_ok I" and m: "pi_meta I i = Some m"
  defines "J \<equiv> snd (sync_item_openness i False I)"
  shows "index_ok J \<and> pi_raw_orders J = pi_raw_orders I \<and> pi_meta J = (pi_meta I)(i \<mapsto> m\<lparr>im_open := False\<rparr>) \<and>
    fst (sync_item_openness i False I) = None"
proof -
  let ?l = "im_list_id m" and ?meta' = "(pi_meta I)(i \<mapsto> m\<lparr>im_open := False\<rparr>)"
  let ?sh = "shown (pi_meta I) ?l (raw_of I ?l)"
  define I1 where "I1 = snd (set_open i False I)"
  note I1 = set_open_fields [OF m, of False, folded I1_def]
  have b: "base_ok I" "counts_ok I" "orders_ok I" using ok by (simp_all add: index_ok_iff)
  have fin: "finite (dom (pi_meta I))" "finite (dom ?meta')" using b(1) by (simp_all add: base_ok_def)
  have gone: "i \<notin> open_located ?meta' l" for l by (simp add: in_open_located)
  note hid = hidden_order [of i "pi_meta I" ?meta', OF _ refl fin gone]
  define vis where "vis \<longleftrightarrow> i \<in> set ?sh"
  define I2 where "I2 = (if vis then bump_visible ?l (- 1) I1 else I1)"
  have "vis \<longleftrightarrow> im_open m \<and> canonical_raw_pos I1 ?l i \<noteq> None"
    using valid_ids_open [where meta = "pi_meta I" and i = i and m = m and b = False and l = ?l and raw = "raw_of I ?l"] m
    by (simp add: canonical_None I1 vis_def in_shown meta_open_def m)
  then have J: "J = splice_open_out ?l i I2" "fst (sync_item_openness i False I) = None"
    by (auto simp: J_def sync_item_openness_def I1(1) I2_def Let_def)
  have "int (length (shown ?meta' ?l (raw_of I ?l))) = int (length ?sh) + (if vis then - 1 else 0)"
    using hid(2) [of ?l "raw_of I ?l"] by (simp add: length_filter_ne vis_def)
  then have cnt: "pi_open_visible_counts J =
      (pi_open_visible_counts I)(?l := count_opt (length (shown ?meta' ?l (raw_of I ?l))))"
    using b(2) counts_bump [of I1 ?l "length ?sh" _ "- 1"]
    by (auto simp: J(1) I2_def I1 counts_ok_def fun_upd_idem split: if_splits)
  have obl: "pi_open_by_list J = (pi_open_by_list I)(?l := list_opt (open_seq ?meta' ?l (raw_of I ?l)))"
    unfolding J using b(3) hid(1) [of ?l "raw_of I ?l"]
    by (subst open_by_list_splice_out [where xs = "open_seq (pi_meta I) ?l (raw_of I ?l)"])
      (auto simp: I2_def I1 orders_ok_def)
  have J2: "pi_meta J = ?meta'" "pi_raw_orders J = pi_raw_orders I" "base_ok J"
    using base_ok_cong [of J I1] base_set_open [OF b(1), of i False] by (simp_all add: J(1) I2_def I1 flip: I1_def)
  have "counts_ok J" using cnt b(2) openness_elsewhere(2) [OF m b(1)] by (auto simp: counts_ok_def J2)
  moreover have "orders_ok J" using obl b(3) openness_elsewhere(1) [OF m b(1)] by (auto simp: orders_ok_def J2)
  ultimately show ?thesis using J2 J(2) by (simp add: index_ok_iff)
qed

lemma show_item:
  assumes ok: "index_ok I" and m: "pi_meta I i = Some m"
  defines "J \<equiv> snd (sync_item_openness i True I)"
  shows "index_ok J \<and> pi_raw_orders J = pi_raw_orders I \<and> pi_meta J = (pi_meta I)(i \<mapsto> m\<lparr>im_open := True\<rparr>) \<and>
    fst (sync_item_openness i True I) = position_of i (open_of J (im_list_id m))"
proof (cases "im_open m")
  case True
  with m have "m\<lparr>im_open := True\<rparr> = m" by simp
  with True ok m show ?thesis
    using set_open_fields(1,6) [OF m, of True]
    by (auto simp: J_def sync_item_openness_def position_of_def or_default_def map_upd_triv split: option.split)
next
  case False
  let ?l = "im_list_id m"
  define I1 where "I1 = snd (set_open i True I)"
  note I1 = set_open_fields [OF m, of True, folded I1_def]
  have b: "base_ok I" "counts_ok I" "orders_ok I" using ok by (simp_all add: index_ok_iff)
  have b1: "base_ok I1" using base_set_open [OF b(1)] by (simp add: I1_def)
  have J: "sync_item_openness i True I = (position_of i (fst (refresh_open ?l I1)), snd (refresh_open ?l I1))"
    using False by (simp add: sync_item_openness_def I1(1) split_beta)
  have "\<forall>l'. l' \<noteq> ?l \<longrightarrow> pi_open_visible_counts I1 l' = count_opt (length (shown (pi_meta I1) l' (raw_of I1 l')))"
    "\<forall>l'. l' \<noteq> ?l \<longrightarrow> pi_open_by_list I1 l' = list_opt (open_seq (pi_meta I1) l' (raw_of I1 l'))"
    using b(2,3) openness_elsewhere [OF m b(1)] by (simp_all add: I1 counts_ok_def orders_ok_def)
  with index_ok_refresh [OF b1, of ?l] I1 show ?thesis by (simp add: J_def J)
qed

section \<open>Moving within a list\<close>

text \<open>Where a moved item ends: before the \<open>t\<close>-th of the other open items of its list that have an
  entry (after all of these when there are fewer); a hidden item moves no open item.\<close>

definition lands :: "str \<Rightarrow> str \<Rightarrow> nat \<Rightarrow> bool \<Rightarrow> projection_index \<Rightarrow> projection_index \<Rightarrow> bool" where
  "lands i l t opn I J \<longleftrightarrow>
     open_of J l =
       (if opn then vec_insert (min t (length (filter (\<lambda>x. x \<noteq> i) (shown (pi_meta I) l (raw_of I l))))) i
                      (filter (\<lambda>x. x \<noteq> i) (open_of I l))
        else open_of I l) \<and>
     (\<forall>l'. l' \<noteq> l \<longrightarrow> open_of J l' = filter (\<lambda>x. x \<noteq> i) (open_of I l'))"

lemma open_of_ok: "index_ok I \<Longrightarrow> open_of I l = open_seq (pi_meta I) l (raw_of I l)"
  by (simp add: index_ok_iff orders_okD)

lemma landsI:
  assumes "index_ok I" "index_ok J"
    and "open_seq (pi_meta J) l (raw_of J l) =
       (if opn then vec_insert (min t (length (filter (\<lambda>x. x \<noteq> i) (shown (pi_meta I) l (raw_of I l))))) i
                      (filter (\<lambda>x. x \<noteq> i) (open_seq (pi_meta I) l (raw_of I l)))
        else open_seq (pi_meta I) l (raw_of I l))"
    and "\<And>l'. l' \<noteq> l \<Longrightarrow>
      open_seq (pi_meta J) l' (raw_of J l') = filter (\<lambda>x. x \<noteq> i) (open_seq (pi_meta I) l' (raw_of I l'))"
  shows "lands i l t opn I J"
  using assms by (simp add: lands_def open_of_ok)

lemma plan_excluding:
  fixes i :: str and t :: nat
  assumes "index_ok I" "length (open_of I l) < USIZE_MAX"
  defines "plan \<equiv> plan_target I l t True (Some i)" and "k \<equiv> min t (length (filter (\<lambda>x. x \<noteq> i) (shown (pi_meta I) l (raw_of I l))))"
  shows "tp_raw_pos plan \<le> length (raw_of I l)"
    "open_before (pi_meta I) l (\<lambda>x. x \<noteq> i) (tp_raw_pos plan) (raw_of I l) = k"
    "tp_open_pos plan = Some pos \<Longrightarrow> min pos (length (filter (\<lambda>x. x \<noteq> i) (open_of I l))) = k"
proof -
  have ne: "(\<lambda>y. Some i \<noteq> Some y) = (\<lambda>x. x \<noteq> i)" by auto
  note p = plan_target_open [OF assms(1,2), where t = t and exclude = "Some i", folded plan_def, unfolded ne, folded k_def]
  show "tp_raw_pos plan \<le> length (raw_of I l)" by (rule p)
  show "open_before (pi_meta I) l (\<lambda>x. x \<noteq> i) (tp_raw_pos plan) (raw_of I l) = k" by (rule p)
  show "tp_open_pos plan = Some pos \<Longrightarrow> min pos (length (filter (\<lambda>x. x \<noteq> i) (open_of I l))) = k"
    unfolding open_of_ok [OF assms(1)] by (rule p)
qed

lemma replace_entry_ok:
  fixes t :: nat and pl :: str
  assumes ok: "index_ok I" and m: "pi_meta I i = Some m" and l: "l = im_list_id m"
    and fresh: "Some \<lparr>oe_item_id = i, oe_placement_id = pl\<rparr> \<notin> set (raw_of I l)"
    and fits: "length (open_of I l) < USIZE_MAX"
  defines "J \<equiv> snd (index_replace_entry i l t (im_open m) pl I)"
    and "rp \<equiv> min (tp_raw_pos (plan_target I l t (im_open m) (Some i))) (length (raw_of I l))"
  shows "index_ok J" "lands i l t (im_open m) I J" "pi_meta J = (pi_meta I)(i \<mapsto> m\<lparr>im_placement_id := pl\<rparr>)"
    "raw_of J l' = (if l' = l then vec_insert rp (Some \<lparr>oe_item_id = i, oe_placement_id = pl\<rparr>) (raw_of I l) else raw_of I l')"
    "fst (index_replace_entry i l t (im_open m) pl I) = Some (if im_open m then position_of i (open_of J l) else None)"
proof -
  let ?m' = "m\<lparr>im_placement_id := pl\<rparr>" and ?e = "\<lparr>oe_item_id = i, oe_placement_id = pl\<rparr>"
  let ?meta' = "(pi_meta I)(i \<mapsto> ?m')" and ?raw' = "vec_insert rp (Some \<lparr>oe_item_id = i, oe_placement_id = pl\<rparr>) (raw_of I l)"
  define I2 where "I2 = put_entry l (tp_raw_pos (plan_target I l t (im_open m) (Some i))) ?e (I\<lparr>pi_meta := ?meta'\<rparr>)"
  have b: "base_ok I" "counts_ok I" "orders_ok I" using ok by (simp_all add: index_ok_iff)
  have fin: "finite (dom (pi_meta I))" "finite (dom ?meta')" using b(1) by (simp_all add: base_ok_def)
  have I2: "pi_meta I2 = ?meta'" "raw_of I2 l' = (if l' = l then ?raw' else raw_of I l')" "pi_open_by_list I2 = pi_open_by_list I"
    "pi_open_visible_counts I2 = pi_open_visible_counts I" for l'
    by (auto simp: I2_def rp_def)
  have J: "index_replace_entry i l t (im_open m) pl I =
      (Some (if im_open m then position_of i (fst (refresh_open l I2)) else None), snd (refresh_open l I2))"
    by (simp add: index_replace_entry_def m Let_def split_beta I2_def)
  have "located ?meta' = located (pi_meta I)" "open_located ?meta' = open_located (pi_meta I)"
    using m by (auto simp: fun_eq_iff located_upd open_located_upd in_located in_open_located)
  then have b2: "base_ok I2" using b(1) fin by (auto simp: base_ok_iff I2_def)
  have away: "i \<notin> open_located ?meta' l'" "i \<notin> open_located (pi_meta I) l'" if "l' \<noteq> l" for l'
    using that m l by (auto simp: in_open_located)
  note un = untouched_order [of i "pi_meta I" ?meta', OF _ _ fin]
  have "\<forall>l'. l' \<noteq> l \<longrightarrow> pi_open_visible_counts I2 l' = count_opt (length (shown (pi_meta I2) l' (raw_of I2 l')))"
    "\<forall>l'. l' \<noteq> l \<longrightarrow> pi_open_by_list I2 l' = list_opt (open_seq (pi_meta I2) l' (raw_of I2 l'))"
    using b(2,3) un away by (simp_all add: I2 counts_ok_def orders_ok_def)
  note r = index_ok_refresh [OF b2 disjI2 [OF this(1)] this(2)]
  show J_ok: "index_ok J" using r(1) by (simp add: J_def J)
  have mJ: "pi_meta J = ?meta'" and rJ: "raw_of J l' = (if l' = l then ?raw' else raw_of I l')" for l'
    using r(4,5) I2(1,2) by (simp_all add: J_def J)
  show "pi_meta J = ?meta'" "raw_of J l' = (if l' = l then ?raw' else raw_of I l')" by (rule mJ, rule rJ)
  show "fst (index_replace_entry i l t (im_open m) pl I) = Some (if im_open m then position_of i (open_of J l) else None)"
    unfolding J_def J fst_conv snd_conv r(2,3) ..
  have elsewhere: "open_seq ?meta' l' (raw_of I l') = filter (\<lambda>x. x \<noteq> i) (open_seq (pi_meta I) l' (raw_of I l'))" if "l' \<noteq> l" for l'
    using un(1) [of "raw_of I l'" "raw_of I l'" l'] away [OF that] open_seq_notin [OF fin(1), of i l'] by simp
  show "lands i l t (im_open m) I J"
  proof (rule landsI [OF ok J_ok])
    show "open_seq (pi_meta J) l (raw_of J l) = (if im_open m then
        vec_insert (min t (length (filter (\<lambda>x. x \<noteq> i) (shown (pi_meta I) l (raw_of I l))))) i
          (filter (\<lambda>x. x \<noteq> i) (open_seq (pi_meta I) l (raw_of I l)))
        else open_seq (pi_meta I) l (raw_of I l))"
    proof (cases "im_open m")
      case True
      note p = plan_excluding [OF ok fits, where t = t and i = i]
      have "open_seq ?meta' l ?raw' = vec_insert (open_before (pi_meta I) l (\<lambda>x. x \<noteq> i) rp (raw_of I l)) i
          (filter (\<lambda>x. x \<noteq> i) (open_seq (pi_meta I) l (raw_of I l)))"
        using open_seq_insert [of i "pi_meta I" ?meta' "raw_of I l" "raw_of I l" ?m' l rp] fin True l fresh by simp
      with True p(1,2) show ?thesis by (simp add: mJ rJ rp_def min_absorb1)
    next
      case False
      then show ?thesis using un(1) [of ?raw' "raw_of I l" l] m by (simp add: mJ rJ in_open_located)
    qed
  qed (simp add: mJ rJ elsewhere)
qed

lemma drop_entries_remove:
  assumes "p < length raw" "raw ! p = Some e" "oe_item_id e \<in> D"
  shows "drop_entries D (vec_remove p raw) = drop_entries D raw"
proof -
  have "drop_entries D raw = drop_entries D (take p raw @ Some e # drop (Suc p) raw)"
    using assms id_take_nth_drop by metis
  with assms(3) show ?thesis by (simp add: vec_remove_def drop_entries_Cons)
qed

lemma drop_entries_take_remove:
  assumes "p < length raw" "raw ! p = Some e" "oe_item_id e \<in> D"
  shows "drop_entries D (take (if r > p then r - 1 else r) (vec_remove p raw)) = drop_entries D (take r raw)"
proof (cases "r > p")
  case True
  then have "take (r - 1) (vec_remove p raw) = vec_remove p (take r raw)"
    using assms(1) by (cases r) (auto simp: vec_remove_def take_drop min_def less_Suc_eq_le dest: le_antisym)
  with True assms drop_entries_remove [of p "take r raw" e D] show ?thesis by simp
next
  case False
  with assms(1) show ?thesis by (simp add: vec_remove_def)
qed

definition entries_distinct :: "projection_index \<Rightarrow> bool" where
  "entries_distinct I \<longleftrightarrow> (\<forall>l. distinct (filter (\<lambda>e. e \<noteq> None) (raw_of I l)))"

lemma not_in_removed:
  assumes "distinct (filter (\<lambda>e. e \<noteq> None) raw)" "p < length raw" "raw ! p = Some e"
  shows "Some e \<notin> set (vec_remove p raw)"
proof -
  have "raw = take p raw @ Some e # drop (Suc p) raw" using assms(2,3) id_take_nth_drop by metis
  with assms(1) have "distinct (filter (\<lambda>e. e \<noteq> None) (take p raw @ Some e # drop (Suc p) raw))" by metis
  then show ?thesis by (auto simp: vec_remove_def)
qed

lemma mov_order:
  fixes t :: nat
  assumes ok: "index_ok I" and dist: "entries_distinct I" and m: "pi_meta I i = Some m" "im_list_id m = l" "im_open m"
    and fits: "length (open_of I l) < USIZE_MAX" and frm: "canonical_raw_pos I l i = Some frm"
  defines "rp \<equiv> tp_raw_pos (plan_target I l t True (Some i))"
  defines "dst \<equiv> if rp > frm then rp - 1 else rp"
  defines "raw' \<equiv> vec_insert dst (raw_of I l ! frm) (vec_remove frm (raw_of I l))"
  shows "dst \<le> length (vec_remove frm (raw_of I l))"
    "open_seq (pi_meta I) l raw' = vec_insert (min t (length (filter (\<lambda>x. x \<noteq> i) (shown (pi_meta I) l (raw_of I l))))) i
      (filter (\<lambda>x. x \<noteq> i) (open_seq (pi_meta I) l (raw_of I l)))"
    "length (shown (pi_meta I) l raw') = length (shown (pi_meta I) l (raw_of I l))"
proof -
  let ?e = "\<lparr>oe_item_id = i, oe_placement_id = im_placement_id m\<rparr>" and ?raw = "raw_of I l"
  note c = canonical_split [OF frm]
  have e: "?raw ! frm = Some ?e" using c(3) m(1) by (auto simp: entry_id_Some)
  have fin: "finite (dom (pi_meta I))" using ok by (simp add: index_ok_iff base_ok_def)
  note p = plan_excluding [OF ok fits, where t = t and i = i, folded rp_def]
  show "dst \<le> length (vec_remove frm ?raw)" using c(1) p(1) by (auto simp: dst_def vec_remove_def)
  have fresh: "Some ?e \<notin> set (vec_remove frm ?raw)"
    using not_in_removed [of ?raw frm ?e] dist c(1) e by (simp add: entries_distinct_def)
  have "open_before (pi_meta I) l (\<lambda>x. x \<noteq> i) dst (vec_remove frm ?raw) =
      open_before (pi_meta I) l (\<lambda>x. x \<noteq> i) rp ?raw"
    using shown_off [of "{i}" "pi_meta I" "pi_meta I" "take dst (vec_remove frm ?raw)" "take rp ?raw" l]
      drop_entries_take_remove [OF c(1) e, of "{i}" rp]
    by (simp add: open_before_def dst_def)
  note k = this [unfolded p(2)]
  note ins = inserted_order [of i "pi_meta I" "pi_meta I" "vec_remove frm ?raw" ?raw m l dst,
      OF agree_off_upd(2) drop_entries_remove [OF c(1) e] fin fin m fresh]
  show "open_seq (pi_meta I) l raw' = vec_insert (min t (length (filter (\<lambda>x. x \<noteq> i) (shown (pi_meta I) l ?raw)))) i
      (filter (\<lambda>x. x \<noteq> i) (open_seq (pi_meta I) l ?raw))"
    using ins(1) k by (simp add: raw'_def e)
  have "i \<in> set (shown (pi_meta I) l ?raw)"
    using m c(4) by (simp add: in_shown meta_open_def)
  then show "length (shown (pi_meta I) l raw') = length (shown (pi_meta I) l ?raw)"
    using ins(2) length_filter_ne [OF distinct_shown, of i "pi_meta I" l ?raw] by (simp add: raw'_def e)
qed

lemma distinct_filter_vec_insert:
  "distinct (filter P (vec_insert p x xs)) \<longleftrightarrow> (P x \<longrightarrow> x \<notin> set xs) \<and> distinct (filter P xs)"
proof -
  have "distinct (filter P (A @ x # B)) \<longleftrightarrow> (P x \<longrightarrow> x \<notin> set (A @ B)) \<and> distinct (filter P (A @ B))" for A B
    by auto
  from this [of "take p xs" "drop p xs"] show ?thesis by (simp only: vec_insert_def append_take_drop_id)
qed

lemma insert_removed: "p < length xs \<Longrightarrow> vec_insert p (xs ! p) (vec_remove p xs) = xs"
  by (simp add: vec_insert_def vec_remove_def id_take_nth_drop [symmetric])

lemma distinct_removed: "distinct (filter P xs) \<Longrightarrow> distinct (filter P (vec_remove p xs))"
proof (cases "p < length xs")
  case True
  assume "distinct (filter P xs)"
  with distinct_filter_vec_insert [of P p "xs ! p" "vec_remove p xs"] True show ?thesis by (simp add: insert_removed)
qed (simp add: vec_remove_def)

lemma mirror_mov_facts:
  fixes dst :: nat
  assumes frm: "canonical_raw_pos I l i = Some frm" and dist: "entries_distinct I"
  defines "I1 \<equiv> mirror_mov l frm dst I"
    and "raw' \<equiv> vec_insert (min dst (length (vec_remove frm (raw_of I l)))) (raw_of I l ! frm) (vec_remove frm (raw_of I l))"
  shows "pi_meta I1 = pi_meta I" "pi_open_by_list I1 = pi_open_by_list I" "base_ok I1 \<longleftrightarrow> base_ok I"
    "pi_open_visible_counts I1 = pi_open_visible_counts I" "raw_of I1 l' = (if l' = l then raw' else raw_of I l')"
    "drop_entries {i} raw' = drop_entries {i} (raw_of I l)" "entries_distinct I1"
proof -
  note c = canonical_split [OF frm]
  have I1: "I1 = I\<lparr>pi_raw_orders := (pi_raw_orders I)(l \<mapsto> raw')\<rparr>"
    using c(1) by (cases "pi_raw_orders I l") (auto simp: I1_def raw'_def mirror_mov_def Let_def)
  then show "pi_meta I1 = pi_meta I" "pi_open_by_list I1 = pi_open_by_list I"
    "pi_open_visible_counts I1 = pi_open_visible_counts I" "raw_of I1 l' = (if l' = l then raw' else raw_of I l')"
    "base_ok I1 \<longleftrightarrow> base_ok I"
    by (simp_all add: base_ok_def)
  obtain e where e: "raw_of I l ! frm = Some e" "oe_item_id e = i" using c(3) by (auto simp: entry_id_Some)
  then show "drop_entries {i} raw' = drop_entries {i} (raw_of I l)"
    using drop_entries_remove [OF c(1) e(1), of "{i}"] by (simp add: raw'_def)
  show "entries_distinct I1"
    using dist not_in_removed [of "raw_of I l" frm e] c(1) e(1)
    by (auto simp: entries_distinct_def I1 raw'_def distinct_filter_vec_insert distinct_removed)
qed

lemma mov_hidden:
  assumes ok: "index_ok I" and dist: "entries_distinct I" and m: "pi_meta I i = Some m" "\<not> im_open m"
    and frm: "canonical_raw_pos I l i = Some frm"
  shows "index_ok (mirror_mov l frm dst I)" "lands i l t False I (mirror_mov l frm dst I)" "lands i l t False I I"
proof -
  note f = mirror_mov_facts [OF frm dist, where dst = dst]
  have b: "base_ok I" "counts_ok I" "orders_ok I" using ok by (simp_all add: index_ok_iff)
  have fin: "finite (dom (pi_meta I))" using b(1) by (simp add: base_ok_def)
  have out: "i \<notin> open_located (pi_meta I) l'" for l' using m by (simp add: in_open_located)
  note same = untouched_order [OF agree_off_upd(2) f(6) fin fin out out]
  from b same show I1: "index_ok (mirror_mov l frm dst I)"
    by (auto simp: index_ok_iff counts_ok_def orders_ok_def f)
  show "lands i l t False I (mirror_mov l frm dst I)" "lands i l t False I I"
    using same open_seq_notin [OF fin out] by (auto intro!: landsI ok I1 simp: f)
qed

lemma mov_shown:
  fixes t :: nat
  assumes ok: "index_ok I" and dist: "entries_distinct I" and m: "pi_meta I i = Some m" "im_list_id m = l" "im_open m"
    and fits: "length (open_of I l) < USIZE_MAX" and frm: "canonical_raw_pos I l i = Some frm"
  defines "plan \<equiv> plan_target I l t True (Some i)"
  defines "dst \<equiv> if tp_raw_pos plan > frm then tp_raw_pos plan - 1 else tp_raw_pos plan"
  defines "I1 \<equiv> mirror_mov l frm dst I"
  shows "frm = dst \<Longrightarrow> lands i l t True I I"
    "tp_open_pos plan = Some pos \<Longrightarrow> index_ok (splice_open_in l i pos I1) \<and> lands i l t True I (splice_open_in l i pos I1)"
    "index_ok (snd (refresh_open l I1)) \<and> lands i l t True I (snd (refresh_open l I1)) \<and>
       fst (refresh_open l I1) = open_of (snd (refresh_open l I1)) l"
proof -
  let ?raw = "raw_of I l" and ?k = "min t (length (filter (\<lambda>x. x \<noteq> i) (shown (pi_meta I) l (raw_of I l))))"
  let ?raw' = "vec_insert dst (?raw ! frm) (vec_remove frm ?raw)"
  note mo = mov_order [OF ok dist m fits frm, where t = t, folded plan_def, folded dst_def]
  note f = mirror_mov_facts [OF frm dist, where dst = dst, unfolded min_absorb1 [OF mo(1)], folded I1_def]
  have b: "base_ok I" "counts_ok I" "orders_ok I" using ok by (simp_all add: index_ok_iff)
  have fin: "finite (dom (pi_meta I))" using b(1) by (simp add: base_ok_def)
  have away: "filter (\<lambda>x. x \<noteq> i) (open_seq (pi_meta I) l' rw) = open_seq (pi_meta I) l' rw" if "l' \<noteq> l" for l' rw
    using open_seq_notin [OF fin] that m by (simp add: in_open_located)
  have land: "lands i l t True I K" if "index_ok K" "pi_meta K = pi_meta I" "raw_of K l = ?raw'"
      "\<And>l'. l' \<noteq> l \<Longrightarrow> raw_of K l' = raw_of I l'" for K
    using that mo(2) away by (intro landsI [OF ok]) auto
  show "frm = dst \<Longrightarrow> lands i l t True I I"
    using land [OF ok] insert_removed [OF canonical_split(1) [OF frm]] by simp
  show "index_ok (snd (refresh_open l I1)) \<and> lands i l t True I (snd (refresh_open l I1)) \<and>
       fst (refresh_open l I1) = open_of (snd (refresh_open l I1)) l"
    using index_ok_refresh [of I1 l] b land by (simp add: f counts_ok_def orders_ok_def)
  assume "tp_open_pos plan = Some pos"
  then have "min pos (length (filter (\<lambda>x. x \<noteq> i) (open_of I l))) = ?k"
    using plan_excluding(3) [OF ok fits, where t = t and i = i, folded plan_def] by simp
  then have "pi_open_by_list (splice_open_in l i pos I1) = (pi_open_by_list I)(l := list_opt (open_seq (pi_meta I) l ?raw'))"
    unfolding open_by_list_splice_in by (simp add: f mo(2) open_of_ok [OF ok])
  with b mo(3) have "index_ok (splice_open_in l i pos I1)"
    using base_ok_cong [of "splice_open_in l i pos I1" I1] by (auto simp: f index_ok_iff counts_ok_def orders_ok_def)
  with land show "index_ok (splice_open_in l i pos I1) \<and> lands i l t True I (splice_open_in l i pos I1)" by (simp add: f)
qed

text \<open>What a move leaves and reports.\<close>

definition moved :: "str \<Rightarrow> str \<Rightarrow> nat \<Rightarrow> bool \<Rightarrow> projection_index \<Rightarrow> nat option option \<times> projection_index \<Rightarrow> bool" where
  "moved i l t opn I = (\<lambda>(r, J). index_ok J \<and> entries_distinct J \<and> lands i l t opn I J \<and>
     (case r of None \<Rightarrow> J = I | Some x \<Rightarrow> x = (if opn then position_of i (open_of J l) else None)))"

lemma entries_distinct_cong: "(\<And>l. raw_of J l = raw_of I l) \<Longrightarrow> entries_distinct J \<longleftrightarrow> entries_distinct I"
  by (simp add: entries_distinct_def)

lemma refresh_open_raw [simp]: "pi_raw_orders (snd (refresh_open l I)) = pi_raw_orders I"
  by (simp add: refresh_open_def Let_def split_beta)

lemma reorder_moved:
  assumes ok: "index_ok I" and dist: "entries_distinct I" and m: "pi_meta I i = Some m" "l = im_list_id m"
    and fits: "length (open_of I l) < USIZE_MAX"
    and fresh: "Some \<lparr>oe_item_id = i, oe_placement_id = pl\<rparr> \<notin> set (raw_of I l)"
  shows "moved i l t (im_open m) I (index_reorder_in_list i l t (im_open m) pl I)"
proof (cases "canonical_raw_pos I l i")
  case None
  note r = replace_entry_ok [OF ok m fresh fits, where t = t]
  have "entries_distinct (snd (index_replace_entry i l t (im_open m) pl I))"
    using dist fresh by (auto simp: entries_distinct_def r(4) distinct_filter_vec_insert)
  with None r(1,2,5) show ?thesis by (simp add: moved_def index_reorder_in_list_def split_beta)
next
  case (Some frm)
  define plan where "plan = plan_target I l t (im_open m) (Some i)"
  define dst where "dst = (if tp_raw_pos plan > frm then tp_raw_pos plan - 1 else tp_raw_pos plan)"
  define I1 where "I1 = mirror_mov l frm dst I"
  have J: "index_reorder_in_list i l t (im_open m) pl I = (if frm = dst then (None, I)
      else if \<not> im_open m then (Some None, I1)
      else case tp_open_pos plan of
          Some pos \<Rightarrow> (Some (position_of i (open_of (splice_open_in l i pos I1) l)), splice_open_in l i pos I1)
        | None \<Rightarrow> (Some (position_of i (fst (refresh_open l I1))), snd (refresh_open l I1)))"
    by (simp add: index_reorder_in_list_def Some Let_def split_beta split: option.split flip: plan_def dst_def I1_def)
  have d: "entries_distinct I1" "entries_distinct (snd (refresh_open l I1))" "\<And>pos. entries_distinct (splice_open_in l i pos I1)"
    using mirror_mov_facts(7) [OF Some dist, of dst] by (simp_all add: entries_distinct_def I1_def)
  show ?thesis
  proof (cases "im_open m")
    case True
    then have p: "plan_target I l t True (Some i) = plan" by (simp add: plan_def)
    note h = mov_shown [OF ok dist m(1) m(2) [symmetric] True fits Some, where t = t, unfolded p, folded dst_def,
        folded I1_def]
    from True d ok dist h(1,3) show ?thesis
      unfolding J moved_def by (cases "tp_open_pos plan") (simp_all add: h(2))
  next
    case False
    then show ?thesis
      using mov_hidden(1) [OF ok dist m(1) False Some] mov_hidden(2,3) [OF ok dist m(1) False Some, of t] d ok dist
      unfolding J moved_def by (simp add: I1_def)
  qed
qed

section \<open>Moving across lists\<close>

lemma remove_at_Cons [simp]: "remove_at (Suc p) (x # xs) = x # remove_at p xs" "remove_at 0 (x # xs) = xs"
  by (simp_all add: remove_at_def vec_remove_def)

lemma remove_positions_filter: "remove_positions (positions P xs) xs = filter (\<lambda>x. \<not> P x) xs"
proof -
  have shift: "foldr remove_at (map Suc ps) (x # ys) = x # foldr remove_at ps ys" for ps ys and x :: 'a
    by (induction ps) simp_all
  have "foldr remove_at (positions P xs) xs = filter (\<lambda>x. \<not> P x) xs"
    by (induction xs) (simp_all add: shift)
  then show ?thesis by (simp add: remove_positions_def foldr_conv_fold)
qed

lemma remove_entry_positions: "remove_positions (entry_positions I l i) (raw_of I l) = drop_entries {i} (raw_of I l)"
  by (auto simp: entry_positions_def remove_positions_filter drop_entries_def intro!: filter_cong split: option.split)

lemma drop_entries_Nil: "drop_entries D [] = []"
  by (simp add: drop_entries_def)

lemma drop_entries_idem [simp]: "drop_entries D (drop_entries D raw) = drop_entries D raw"
  by (simp add: drop_entries_def)

definition relocated :: "str \<Rightarrow> str \<Rightarrow> item_meta \<Rightarrow> nat \<Rightarrow> projection_index \<Rightarrow> str \<Rightarrow> order_entry option list" where
  "relocated i c m rp I l' =
     (if l' = im_list_id m then
        vec_insert (min rp (length (raw_of I l'))) (Some \<lparr>oe_item_id = i, oe_placement_id = im_placement_id m\<rparr>) (raw_of I l')
      else if l' = c then drop_entries {i} (raw_of I l') else raw_of I l')"

lemma mirror_remove_fields [simp]:
  "pi_meta (mirror_remove l ps I) = pi_meta I"
  "pi_members (mirror_remove l ps I) = pi_members I"
  "pi_open_members (mirror_remove l ps I) = pi_open_members I"
  "pi_open_by_list (mirror_remove l ps I) = pi_open_by_list I"
  "pi_open_visible_counts (mirror_remove l ps I) = pi_open_visible_counts I"
  by (simp_all add: mirror_remove_def split: option.split)

lemma relocate_fields:
  assumes "c \<noteq> im_list_id m"
  shows "pi_meta (relocate i c m rp I) = (pi_meta I)(i \<mapsto> m)"
    "pi_open_by_list (relocate i c m rp I) = pi_open_by_list I"
    "raw_of (relocate i c m rp I) l' = relocated i c m rp I l'"
    "base_ok I \<Longrightarrow> base_ok (relocate i c m rp I)"
proof -
  show "pi_meta (relocate i c m rp I) = (pi_meta I)(i \<mapsto> m)"
    "pi_open_by_list (relocate i c m rp I) = pi_open_by_list I"
    by (simp_all add: relocate_def Let_def)
  have "raw_of (mirror_remove c (entry_positions I c i) (set_meta i m I)) l' =
      (if l' = c then drop_entries {i} (raw_of I l') else raw_of I l')" for l'
    using remove_entry_positions [of I c i] by (auto simp: mirror_remove_def drop_entries_Nil split: option.split)
  then show "raw_of (relocate i c m rp I) l' = relocated i c m rp I l'"
    using assms by (simp add: relocate_def relocated_def Let_def)
  assume "base_ok I"
  from base_set_meta [OF this, of i m] show "base_ok (relocate i c m rp I)"
    by (rule base_ok_cong [THEN iffD2, rotated 3]) (simp_all add: relocate_def Let_def)
qed

lemma relocated_order:
  fixes rp :: nat
  assumes fin: "finite (dom (pi_meta I))" and old: "pi_meta I i = Some old" "c = im_list_id old" and ne: "c \<noteq> im_list_id m"
    and fresh: "Some \<lparr>oe_item_id = i, oe_placement_id = im_placement_id m\<rparr> \<notin> set (raw_of I (im_list_id m))"
  defines "meta' \<equiv> (pi_meta I)(i \<mapsto> m)" and "raw' \<equiv> relocated i c m rp I" and "l \<equiv> im_list_id m"
  shows "l' \<noteq> l \<or> \<not> im_open m \<Longrightarrow> open_seq meta' l' (raw' l') = filter (\<lambda>x. x \<noteq> i) (open_seq (pi_meta I) l' (raw_of I l')) \<and>
      shown meta' l' (raw' l') = filter (\<lambda>x. x \<noteq> i) (shown (pi_meta I) l' (raw_of I l'))"
    "im_open m \<Longrightarrow> open_seq meta' l (raw' l) =
      vec_insert (length (shown (pi_meta I) l (take (min rp (length (raw_of I l))) (raw_of I l)))) i (open_seq (pi_meta I) l (raw_of I l)) \<and>
      length (shown meta' l (raw' l)) = Suc (length (shown (pi_meta I) l (raw_of I l)))"
proof -
  have fin': "finite (dom meta')" using fin by (simp add: meta'_def)
  have out: "i \<notin> open_located (pi_meta I) l" using old ne by (simp add: in_open_located l_def)
  have dr: "drop_entries {i} (raw' l') = drop_entries {i} (raw_of I l')" for l' by (simp add: raw'_def relocated_def)
  have ag: "agree_off {i} (pi_meta I) meta'" by (simp add: meta'_def)
  show "open_seq meta' l' (raw' l') = filter (\<lambda>x. x \<noteq> i) (open_seq (pi_meta I) l' (raw_of I l')) \<and>
      shown meta' l' (raw' l') = filter (\<lambda>x. x \<noteq> i) (shown (pi_meta I) l' (raw_of I l'))" if "l' \<noteq> l \<or> \<not> im_open m"
  proof -
    from that have "i \<notin> open_located meta' l'" by (auto simp: meta'_def in_open_located l_def)
    from hidden_order [OF ag dr fin fin' this] show ?thesis by simp
  qed
  show "open_seq meta' l (raw' l) =
      vec_insert (length (shown (pi_meta I) l (take (min rp (length (raw_of I l))) (raw_of I l)))) i (open_seq (pi_meta I) l (raw_of I l)) \<and>
      length (shown meta' l (raw' l)) = Suc (length (shown (pi_meta I) l (raw_of I l)))" if "im_open m"
  proof -
    have m: "meta' i = Some m" "im_list_id m = l" by (simp_all add: meta'_def l_def)
    have r: "raw' l = vec_insert (min rp (length (raw_of I l))) (Some \<lparr>oe_item_id = i, oe_placement_id = im_placement_id m\<rparr>) (raw_of I l)"
      by (simp add: raw'_def relocated_def l_def)
    from inserted_order(1,2) [OF ag refl fin fin' m that, of "raw_of I l" "min rp (length (raw_of I l))"] fresh
      shown_notin [OF out] open_seq_notin [OF fin out]
    show ?thesis unfolding r by (simp add: l_def open_before_def)
  qed
qed

lemma relocate_counts:
  assumes "\<And>l. pi_open_visible_counts I l = count_opt (n l)" and "c \<noteq> im_list_id m"
    and "int (n' c) = int (n c) + (if canonical_raw_pos I c i \<noteq> None \<and> im_open m then - 1 else 0)"
    and "n' (im_list_id m) = n (im_list_id m) + (if im_open m then 1 else 0)"
  shows "pi_open_visible_counts (relocate i c m rp I) =
    (pi_open_visible_counts I)(c := count_opt (n' c), im_list_id m := count_opt (n' (im_list_id m)))"
proof -
  let ?l = "im_list_id m" and ?vis = "canonical_raw_pos I c i \<noteq> None \<and> im_open m"
  define I2 where "I2 = mirror_remove c (entry_positions I c i) (set_meta i m I)"
  define I4 where "I4 = put_entry ?l rp \<lparr>oe_item_id = i, oe_placement_id = im_placement_id m\<rparr>
      (if ?vis then bump_visible c (- 1) I2 else I2)"
  have J: "relocate i c m rp I = (if im_open m then bump_visible ?l 1 I4 else I4)"
    unfolding relocate_def Let_def I4_def I2_def ..
  have I2: "pi_open_visible_counts I2 = pi_open_visible_counts I" by (simp add: I2_def)
  have I4: "pi_open_visible_counts I4 = (pi_open_visible_counts I)(c := count_opt (n' c))"
  proof (cases ?vis)
    case True
    then show ?thesis using counts_bump [of I2 c "n c" "n' c" "- 1"] assms(1,3) by (simp add: I4_def I2)
  next
    case False
    with assms(3) have "n' c = n c" by (simp split: if_splits)
    with False assms(1) show ?thesis by (auto simp: I4_def I2 fun_upd_idem)
  qed
  show ?thesis
    using counts_bump [of I4 ?l "n ?l" "n' ?l" 1] assms(1,2,4) by (auto simp: J I4 fun_upd_idem)
qed

lemma counts_relocate:
  assumes ok: "base_ok I" "counts_ok I" and old: "pi_meta I i = Some old" "c = im_list_id old" and ne: "c \<noteq> im_list_id m"
    and fresh: "Some \<lparr>oe_item_id = i, oe_placement_id = im_placement_id m\<rparr> \<notin> set (raw_of I (im_list_id m))"
    and opn: "im_open m = im_open old"
  shows "counts_ok (relocate i c m rp I)"
proof -
  let ?J = "relocate i c m rp I" and ?l = "im_list_id m"
  have fin: "finite (dom (pi_meta I))" using ok(1) by (simp add: base_ok_def)
  note f = relocate_fields [OF ne, where i = i and rp = rp and I = I]
  note ro = relocated_order [OF fin old ne fresh, where rp = rp]
  define vis where "vis \<longleftrightarrow> canonical_raw_pos I c i \<noteq> None \<and> im_open m"
  define n where "n l' = length (shown (pi_meta I) l' (raw_of I l'))" for l'
  define n' where "n' l' = length (shown (pi_meta ?J) l' (raw_of ?J l'))" for l'
  have vis: "vis \<longleftrightarrow> i \<in> set (shown (pi_meta I) c (raw_of I c))"
    using opn old(1) by (auto simp: vis_def canonical_None in_shown meta_open_def)
  have nc: "int (n' c) = int (n c) + (if vis then - 1 else 0)"
    using ro(1) [of c] ne vis by (simp add: n_def n'_def f length_filter_ne)
  have nl: "n' ?l = n ?l + (if im_open m then 1 else 0)"
  proof (cases "im_open m")
    case False
    then have "i \<notin> open_located (pi_meta I) ?l" using old ne by (simp add: in_open_located)
    with ro(1) [of ?l] False shown_notin show ?thesis by (simp add: n_def n'_def f)
  qed (use ro(2) in \<open>simp add: n_def n'_def f\<close>)
  have no: "n' l' = n l'" if "l' \<noteq> c" "l' \<noteq> ?l" for l'
  proof -
    have "i \<notin> open_located (pi_meta I) l'" using old that by (simp add: in_open_located)
    with ro(1) [of l'] that shown_notin show ?thesis by (simp add: n_def n'_def f)
  qed
  have cnt: "pi_open_visible_counts I l' = count_opt (n l')" for l' using ok(2) by (simp add: counts_ok_def n_def)
  have "pi_open_visible_counts ?J = (pi_open_visible_counts I)(c := count_opt (n' c), ?l := count_opt (n' ?l))"
    using relocate_counts [where I = I and n = n and c = c and i = i and m = m and n' = n' and rp = rp] cnt nc nl ne by (simp add: vis_def)
  with cnt no show ?thesis by (auto simp: counts_ok_def simp flip: n'_def)
qed

lemma distinct_drop_entries:
  assumes "distinct (filter P raw)"
  shows "distinct (filter P (drop_entries D raw))"
proof -
  have swap: "filter P (filter Q xs) = filter Q (filter P xs)" for Q and xs :: "order_entry option list"
    by (simp add: filter_filter conj_commute)
  show ?thesis unfolding drop_entries_def swap using assms by (rule distinct_filter)
qed

lemma across_splice:
  fixes t :: nat
  assumes ok: "index_ok I" and I5: "base_ok I5" "counts_ok I5" "pi_open_by_list I5 = pi_open_by_list I" and ne: "c \<noteq> l"
    and other: "\<And>l'. l' \<noteq> l \<Longrightarrow> open_seq (pi_meta I5) l' (raw_of I5 l') = filter (\<lambda>x. x \<noteq> i) (open_seq (pi_meta I) l' (raw_of I l'))"
    and here: "open_seq (pi_meta I5) l (raw_of I5 l) = vec_insert (min t (length (filter (\<lambda>x. x \<noteq> i) (shown (pi_meta I) l (raw_of I l))))) i
        (open_seq (pi_meta I) l (raw_of I l))"
    and out: "\<And>l'. l' \<noteq> c \<Longrightarrow> i \<notin> open_located (pi_meta I) l'"
  defines "I6 \<equiv> splice_open_out c i I5"
  shows "index_ok (snd (refresh_open l I6)) \<and> lands i l t True I (snd (refresh_open l I6)) \<and>
      fst (refresh_open l I6) = open_of (snd (refresh_open l I6)) l"
    "min pos (length (open_seq (pi_meta I) l (raw_of I l))) = min t (length (filter (\<lambda>x. x \<noteq> i) (shown (pi_meta I) l (raw_of I l)))) \<Longrightarrow>
      index_ok (splice_open_in l i pos I6) \<and> lands i l t True I (splice_open_in l i pos I6)"
proof -
  have b: "base_ok I" "counts_ok I" "orders_ok I" using ok by (simp_all add: index_ok_iff)
  have fin: "finite (dom (pi_meta I))" using b(1) by (simp add: base_ok_def)
  have nf: "filter (\<lambda>x. x \<noteq> i) (open_seq (pi_meta I) l' rw) = open_seq (pi_meta I) l' rw" if "l' \<noteq> c" for l' rw
    using open_seq_notin [OF fin out [OF that]] .
  have "pi_open_by_list I5 c = list_opt (open_seq (pi_meta I) c (raw_of I c))" using b(3) by (simp add: I5 orders_ok_def)
  from open_by_list_splice_out [OF this, of i]
  have obl: "pi_open_by_list I6 l' = (if l' = l then list_opt (open_seq (pi_meta I) l (raw_of I l))
      else list_opt (open_seq (pi_meta I5) l' (raw_of I5 l')))" for l'
    using b(3) ne other nf by (auto simp: I6_def I5(3) orders_ok_def)
  have b6: "base_ok I6" "counts_ok I6" using I5(1,2) base_ok_cong [of I6 I5] by (simp_all add: I6_def counts_ok_def)
  have land: "lands i l t True I K" if "index_ok K" "pi_meta K = pi_meta I5" "pi_raw_orders K = pi_raw_orders I5" for K
    using that other here nf ne by (intro landsI [OF ok]) (auto simp: that)
  show "index_ok (snd (refresh_open l I6)) \<and> lands i l t True I (snd (refresh_open l I6)) \<and>
      fst (refresh_open l I6) = open_of (snd (refresh_open l I6)) l"
    using index_ok_refresh [OF b6(1), of l] b6(2) obl land by (simp add: I6_def)
  assume pos: "min pos (length (open_seq (pi_meta I) l (raw_of I l))) = min t (length (filter (\<lambda>x. x \<noteq> i) (shown (pi_meta I) l (raw_of I l))))"
  have "pi_open_by_list (splice_open_in l i pos I6) = (pi_open_by_list I6)(l := list_opt (open_seq (pi_meta I5) l (raw_of I5 l)))"
    unfolding open_by_list_splice_in using ne by (simp add: obl nf here pos)
  with b6 obl have "index_ok (splice_open_in l i pos I6)"
    using base_ok_cong [of "splice_open_in l i pos I6" I6] by (simp add: index_ok_iff counts_ok_def orders_ok_def I6_def)
  with land show "index_ok (splice_open_in l i pos I6) \<and> lands i l t True I (splice_open_in l i pos I6)" by (simp add: I6_def)
qed

lemma across_moved:
  assumes ok: "index_ok I" and dist: "entries_distinct I" and m: "pi_meta I i = Some m" and ne: "im_list_id m \<noteq> l"
    and fits: "length (open_of I l) < USIZE_MAX"
    and fresh: "Some \<lparr>oe_item_id = i, oe_placement_id = pl\<rparr> \<notin> set (raw_of I l)"
  shows "moved i l t (im_open m) I (index_move_across_lists i (im_list_id m) l t (im_open m) pl now I)"
proof -
  let ?c = "im_list_id m"
  define m' where "m' = \<lparr>im_list_id = l, im_placement_id = pl, im_open = im_open m, im_created_at = now\<rparr>"
  define plan where "plan = plan_target I l t (im_open m) None"
  define I5 where "I5 = relocate i ?c m' (tp_raw_pos plan) I"
  define I6 where "I6 = splice_open_out ?c i I5"
  have m': "im_list_id m' = l" "im_open m' = im_open m" "im_placement_id m' = pl" by (simp_all add: m'_def)
  have b: "base_ok I" "counts_ok I" "orders_ok I" using ok by (simp_all add: index_ok_iff)
  have fin: "finite (dom (pi_meta I))" using b(1) by (simp add: base_ok_def)
  note f = relocate_fields [where c = ?c and m = m' and i = i and I = I and rp = "tp_raw_pos plan", folded I5_def]
  have f5: "pi_meta I5 = (pi_meta I)(i \<mapsto> m')" "pi_open_by_list I5 = pi_open_by_list I" "base_ok I5"
    "raw_of I5 l' = relocated i ?c m' (tp_raw_pos plan) I l'" for l'
    using f ne b(1) by (simp_all add: m')
  have fresh': "Some \<lparr>oe_item_id = i, oe_placement_id = im_placement_id m'\<rparr> \<notin> set (raw_of I (im_list_id m'))"
    using fresh by (simp add: m')
  have ne': "?c \<noteq> im_list_id m'" using ne by (simp add: m')
  have c5: "counts_ok I5"
    using counts_relocate [OF b(1,2) m refl ne' fresh'] by (simp add: I5_def m')
  note ro = relocated_order [OF fin m refl ne' fresh', where rp = "tp_raw_pos plan", unfolded m', folded f5(1) f5(4)]
  have d5: "entries_distinct I5"
    using dist fresh
    by (auto simp: entries_distinct_def f5 relocated_def m' distinct_filter_vec_insert distinct_drop_entries)
  show ?thesis
  proof (cases "im_open m")
    case False
    have nf: "filter (\<lambda>x. x \<noteq> i) (open_seq (pi_meta I) l' rw) = open_seq (pi_meta I) l' rw" for l' rw
      using open_seq_notin [OF fin] False m by (simp add: in_open_located)
    then have "index_ok I5" using f5 c5 b(3) ro(1) False by (simp add: index_ok_iff orders_ok_def)
    moreover from this have "lands i l t False I I5" using ro(1) False nf by (intro landsI ok) simp_all
    ultimately show ?thesis
      using False d5 by (simp add: index_move_across_lists_def moved_def I5_def m'_def plan_def Let_def)
  next
    case True
    have p: "plan = plan_target I l t True None" by (simp add: plan_def True)
    note pl = plan_target_open [OF ok fits, where t = t and exclude = None, simplified, folded p]
    have nf: "filter (\<lambda>x. x \<noteq> i) (shown (pi_meta I) l rw) = shown (pi_meta I) l rw" for rw
      using shown_notin m ne by (simp add: in_open_located)
    have out: "i \<notin> open_located (pi_meta I) l'" if "l' \<noteq> ?c" for l' using that m by (simp add: in_open_located)
    note sp = across_splice [OF ok f5(3) c5 f5(2) ne, where i = i and t = t, folded I6_def]
    have J: "index_move_across_lists i ?c l t (im_open m) pl now I = (case tp_open_pos plan of
        Some pos \<Rightarrow> (Some (position_of i (open_of (splice_open_in l i pos I6) l)), splice_open_in l i pos I6)
      | None \<Rightarrow> (Some (position_of i (fst (refresh_open l I6))), snd (refresh_open l I6)))"
      using True by (simp add: index_move_across_lists_def Let_def split_beta I6_def I5_def m'_def plan_def split: option.split)
    have d6: "entries_distinct (snd (refresh_open l I6))" "entries_distinct (splice_open_in l i pos I6)" for pos
      using d5 by (simp_all add: entries_distinct_def I6_def)
    have "open_seq (pi_meta I5) l (raw_of I5 l) = vec_insert (min t (length (filter (\<lambda>x. x \<noteq> i) (shown (pi_meta I) l (raw_of I l))))) i
        (open_seq (pi_meta I) l (raw_of I l))"
      using ro(2) True pl(1,2) by (simp add: open_before_def nf min_absorb1)
    note sp = sp [OF _ this out] 
    from sp True d6 show ?thesis
      unfolding J moved_def using ro(1) pl(3) nf by (cases "tp_open_pos plan") simp_all
  qed
qed

end
