(* ===== verification/Index_Rebuild.thy ===== *)
theory Index_Rebuild
  imports Index_Moves "HOL-Library.Code_Target_Nat"
begin

text \<open>
  Deleting items, rebuilding the index from the doc (\<open>Doc::compute_index\<close>), and the properties of
  the index: through any sequence of local mutations it stays equal to a rebuild, and items land
  where the caller asked.
\<close>

section \<open>Rebuilding\<close>

text \<open>The item slices, the list ids and the order containers (a scalar that is not a string is
  \<open>None\<close>) are read from the doc.\<close>

definition compute_index ::
  "(str \<times> item_meta) list \<Rightarrow> str list \<Rightarrow> (str \<Rightarrow> str option list) \<Rightarrow> projection_index" where
  "compute_index metas list_ids order =
     (let I0 = fold (\<lambda>(i, m). set_meta i m) metas index_default;
          candidates = remdups (map (\<lambda>(_, m). im_list_id m) metas @ LIST_INBOX # list_ids);
          I1 = I0\<lparr>pi_raw_orders := (\<lambda>l. if l \<in> set candidates
                 then Some (map (\<lambda>s. Option.bind s entry_parse) (order l)) else None)\<rparr>
      in fold (\<lambda>l I. snd (refresh_open l I)) candidates I1)"

datatype index_op =
    OpAdd str nat "pending list"
  | OpMove str str nat str int
  | OpOpenness str bool
  | OpDelete "str list"

fun run_index_op :: "index_op \<Rightarrow> projection_index \<Rightarrow> projection_index" where
  "run_index_op (OpAdd l t ps) I = snd (index_add_items l t ps I)"
| "run_index_op (OpMove i l t placement created_at) I =
     (case index_move_item i l t placement created_at I of None \<Rightarrow> I | Some (_, J) \<Rightarrow> J)"
| "run_index_op (OpOpenness i b) I = snd (sync_item_openness i b I)"
| "run_index_op (OpDelete items) I = index_hard_delete items I"

text \<open>Fresh ids are fresh, a batch to delete has no duplicates, and lists are shorter than a
  \<open>usize\<close> can count.\<close>

fun index_op_ok :: "index_op \<Rightarrow> projection_index \<Rightarrow> bool" where
  "index_op_ok (OpAdd l t ps) I \<longleftrightarrow> new_items ps l I \<and> length (open_of I l) + length ps < USIZE_MAX"
| "index_op_ok (OpMove i l t placement created_at) I \<longleftrightarrow>
     Some \<lparr>oe_item_id = i, oe_placement_id = placement\<rparr> \<notin> set (raw_of I l) \<and> length (open_of I l) < USIZE_MAX"
| "index_op_ok (OpOpenness i b) I \<longleftrightarrow> True"
| "index_op_ok (OpDelete items) I \<longleftrightarrow> distinct items"

fun index_ops_ok :: "index_op list \<Rightarrow> projection_index \<Rightarrow> bool" where
  "index_ops_ok [] I \<longleftrightarrow> True"
| "index_ops_ok (op # ops) I \<longleftrightarrow> index_op_ok op I \<and> index_ops_ok ops (run_index_op op I)"

definition same_index :: "projection_index \<Rightarrow> projection_index \<Rightarrow> bool" where
  "same_index I J \<longleftrightarrow> pi_meta I = pi_meta J \<and> pi_members I = pi_members J \<and>
     pi_open_members I = pi_open_members J \<and> pi_open_by_list I = pi_open_by_list J \<and>
     pi_open_visible_counts I = pi_open_visible_counts J"

section \<open>Deleting items\<close>

lemma hidden_orders:
  assumes "agree_off D meta meta'" and "drop_entries D raw' = drop_entries D raw"
    and "finite (dom meta)" "finite (dom meta')" and "D \<inter> open_located meta' l = {}"
  shows "open_seq meta' l raw' = filter (\<lambda>x. x \<notin> D) (open_seq meta l raw)"
    and "shown meta' l raw' = filter (\<lambda>x. x \<notin> D) (shown meta l raw)"
proof -
  have "filter (\<lambda>x. x \<notin> D) (open_seq meta' l raw') = open_seq meta' l raw'"
    "filter (\<lambda>x. x \<notin> D) (shown meta' l raw') = shown meta' l raw'"
    using assms(4,5) shown_open_located [of meta' l raw'] by (auto intro!: filter_True)
  then show "open_seq meta' l raw' = filter (\<lambda>x. x \<notin> D) (open_seq meta l raw)"
    "shown meta' l raw' = filter (\<lambda>x. x \<notin> D) (shown meta l raw)"
    using open_seq_off [OF assms(1-4), of l] shown_off [OF assms(1,2), of l] by simp_all
qed

lemma remove_items_fields:
  "pi_meta (fold remove_item items I) = (\<lambda>i. if i \<in> set items then None else pi_meta I i)"
  "pi_raw_orders (fold remove_item items I) = pi_raw_orders I"
  "pi_open_by_list (fold remove_item items I) = pi_open_by_list I"
  "pi_open_visible_counts (fold remove_item items I) = pi_open_visible_counts I"
  "base_ok I \<Longrightarrow> base_ok (fold remove_item items I)"
proof -
  have f: "pi_meta (remove_item i I) = (pi_meta I)(i := None)" "pi_raw_orders (remove_item i I) = pi_raw_orders I"
    "pi_open_by_list (remove_item i I) = pi_open_by_list I"
    "pi_open_visible_counts (remove_item i I) = pi_open_visible_counts I" for i I
    by (auto simp: remove_item_def fun_upd_idem split: option.split)
  show "pi_meta (fold remove_item items I) = (\<lambda>i. if i \<in> set items then None else pi_meta I i)"
    by (induction items arbitrary: I) (auto simp: f fun_eq_iff)
  show "pi_raw_orders (fold remove_item items I) = pi_raw_orders I"
    "pi_open_by_list (fold remove_item items I) = pi_open_by_list I"
    "pi_open_visible_counts (fold remove_item items I) = pi_open_visible_counts I"
    by (induction items arbitrary: I) (simp_all add: f)
  show "base_ok I \<Longrightarrow> base_ok (fold remove_item items I)"
    by (induction items arbitrary: I) (simp_all add: base_remove_item)
qed

lemma set_positions: "set (positions P xs) = {i. i < length xs \<and> P (xs ! i)}"
proof (induction xs)
  case (Cons x xs)
  have "{i. i < length (x # xs) \<and> P ((x # xs) ! i)} = (if P x then {0} else {}) \<union> Suc ` {i. i < length xs \<and> P (xs ! i)}"
    by (auto simp: less_Suc_eq_0_disj image_iff)
  with Cons show ?case by simp
qed simp

lemma sorted_positions: "sorted (positions P xs)" "distinct (positions P xs)"
  by (induction xs) (auto simp: sorted_append sorted_map distinct_map)

lemma delete_positions_eq:
  "delete_positions I items l = positions (\<lambda>e. case e of None \<Rightarrow> False | Some e \<Rightarrow>
     oe_item_id e \<in> set items \<inter> located (pi_meta I) l) (raw_of I l)"
  unfolding delete_positions_def
  by (rule sorted_distinct_set_unique)
    (auto simp: sorted_positions set_positions entry_positions_def in_located split: option.splits)

lemma splice_out_all_fields:
  "pi_meta (splice_out_all rows I) = pi_meta I" "pi_members (splice_out_all rows I) = pi_members I"
  "pi_open_members (splice_out_all rows I) = pi_open_members I"
  "pi_raw_orders (splice_out_all rows I) = pi_raw_orders I"
  by (induction rows I rule: splice_out_all.induct) (simp_all add: Let_def)

lemma splice_out_all_order:
  assumes "\<And>l. pi_open_by_list I l = list_opt (f l)"
  shows "pi_open_by_list (splice_out_all rows I) l = list_opt (filter (\<lambda>x. \<forall>v. (x, l, v) \<notin> set rows) (f l))"
  using assms
proof (induction rows I arbitrary: f rule: splice_out_all.induct)
  case (2 i c v rows I)
  let ?I = "let I1 = splice_open_out c i I in if v then bump_visible c (- 1) I1 else I1"
  let ?f = "f(c := filter (\<lambda>x. x \<noteq> i) (f c))"
  have "pi_open_by_list ?I l = list_opt (?f l)" for l
    using open_by_list_splice_out [of I c "f c" i] "2.prems" by (simp add: Let_def)
  from "2.IH" [OF this] show ?case
    by (auto simp: filter_filter intro!: arg_cong [where f = list_opt] filter_cong)
qed simp

lemma splice_out_all_counts:
  assumes "\<And>l. pi_open_visible_counts I l = count_opt (n l)"
  shows "pi_open_visible_counts (splice_out_all rows I) l =
    count_opt (n l - length (filter (\<lambda>(i, l', v). l' = l \<and> v) rows))"
  using assms
proof (induction rows I arbitrary: n rule: splice_out_all.induct)
  case (2 i c v rows I)
  let ?I = "let I1 = splice_open_out c i I in if v then bump_visible c (- 1) I1 else I1"
  let ?n = "\<lambda>l. if l = c \<and> v then n l - 1 else n l"
  have "pi_open_visible_counts ?I l = count_opt (?n l)" for l
    using "2.prems" by (auto simp: bump_visible_def Let_def count_opt_def nat_diff_distrib)
  from "2.IH" [OF this] show ?case by auto
qed simp

lemma per_item_rows: "(x, l, v) \<in> set (per_item I items) \<longleftrightarrow> x \<in> set items \<and> (\<exists>m. pi_meta I x = Some m \<and>
    im_list_id m = l \<and> v = (im_open m \<and> canonical_raw_pos I l x \<noteq> None))"
  by (induction items) (auto split: option.split)

lemma per_item_visible:
  "map fst (filter (\<lambda>(i, l', v). l' = l \<and> v) (per_item I items)) =
     filter (\<lambda>i. i \<in> set (shown (pi_meta I) l (raw_of I l))) items"
proof (induction items)
  case (Cons i items)
  have "i \<notin> set (shown (pi_meta I) l (raw_of I l))" if "pi_meta I i = None \<or> (\<exists>m. pi_meta I i = Some m \<and> im_list_id m \<noteq> l)"
    using that shown_open_located [of "pi_meta I" l "raw_of I l"] by (auto simp: in_open_located)
  moreover have "(i \<in> set (shown (pi_meta I) l (raw_of I l))) = (im_open m \<and> canonical_raw_pos I l i \<noteq> None)"
    if "pi_meta I i = Some m" for m
    using that canonical_None [of I l i] by (auto simp: in_shown meta_open_def)
  ultimately show ?case using Cons by (auto split: option.split)
qed simp

lemma length_filter_notin:
  assumes "distinct xs" "distinct ds"
  shows "length (filter (\<lambda>x. x \<notin> set ds) xs) = length xs - length (filter (\<lambda>d. d \<in> set xs) ds)"
proof -
  have "length (filter (\<lambda>d. d \<in> set xs) ds) = card (set ds \<inter> set xs)"
    using assms(2) by (subst distinct_card [symmetric]) (auto intro: arg_cong [where f = card])
  moreover have "length (filter (\<lambda>x. x \<in> set ds) xs) = card (set ds \<inter> set xs)"
    using assms(1) by (subst distinct_card [symmetric]) (auto intro: arg_cong [where f = card])
  ultimately show ?thesis using sum_length_filter_compl [of "\<lambda>x. x \<in> set ds" xs] by simp
qed

lemma hard_delete_fields:
  "pi_meta (index_hard_delete items I) = (\<lambda>i. if i \<in> set items then None else pi_meta I i)"
  "raw_of (index_hard_delete items I) l = drop_entries (set items \<inter> located (pi_meta I) l) (raw_of I l)"
  "base_ok I \<Longrightarrow> base_ok (index_hard_delete items I)"
proof -
  define I1 where "I1 = fold remove_item items I"
  define I2 where "I2 = I1\<lparr>pi_raw_orders := (\<lambda>l. map_option (remove_positions (delete_positions I items l)) (pi_raw_orders I1 l))\<rparr>"
  note f1 = remove_items_fields [where items = items and I = I, folded I1_def]
  have J: "index_hard_delete items I = splice_out_all (per_item I items) I2"
    by (simp add: index_hard_delete_def Let_def I2_def I1_def)
  show "pi_meta (index_hard_delete items I) = (\<lambda>i. if i \<in> set items then None else pi_meta I i)"
    by (simp add: J splice_out_all_fields I2_def f1)
  have "remove_positions (delete_positions I items l) (raw_of I l) = drop_entries (set items \<inter> located (pi_meta I) l) (raw_of I l)"
    unfolding delete_positions_eq remove_positions_filter drop_entries_def
    by (rule filter_cong) (auto split: option.split)
  moreover have "raw_of I2 l = remove_positions (delete_positions I items l) (raw_of I l)"
    by (cases "pi_raw_orders I l") (auto simp: I2_def f1 delete_positions_eq remove_positions_def)
  ultimately show "raw_of (index_hard_delete items I) l = drop_entries (set items \<inter> located (pi_meta I) l) (raw_of I l)"
    by (simp add: J splice_out_all_fields)
  assume "base_ok I"
  then have "base_ok I1" by (simp add: f1)
  then show "base_ok (index_hard_delete items I)"
    by (rule base_ok_cong [THEN iffD2, rotated 3]) (simp_all add: J splice_out_all_fields I2_def)
qed

lemma hard_delete_ok:
  assumes ok: "index_ok I" and d: "distinct items"
  shows "index_ok (index_hard_delete items I)"
proof -
  let ?J = "index_hard_delete items I" and ?D = "set items"
  let ?meta' = "\<lambda>i. if i \<in> ?D then None else pi_meta I i"
  have b: "base_ok I" "counts_ok I" "orders_ok I" using ok by (simp_all add: index_ok_iff)
  note f = hard_delete_fields [where items = items and I = I]
  have fin: "finite (dom (pi_meta I))" "finite (dom (pi_meta ?J))"
    using b(1) f(3) by (simp_all add: base_ok_def)
  have "agree_off ?D (pi_meta I) (pi_meta ?J)" "\<And>l. ?D \<inter> open_located (pi_meta ?J) l = {}"
    by (auto simp: f agree_off_def in_open_located)
  moreover have "drop_entries ?D (raw_of ?J l) = drop_entries ?D (raw_of I l)" for l
    by (auto simp: f(2)) (auto simp: drop_entries_def filter_filter intro!: filter_cong split: option.splits)
  ultimately have h: "open_seq (pi_meta ?J) l (raw_of ?J l) = filter (\<lambda>x. x \<notin> ?D) (open_seq (pi_meta I) l (raw_of I l))"
    "shown (pi_meta ?J) l (raw_of ?J l) = filter (\<lambda>x. x \<notin> ?D) (shown (pi_meta I) l (raw_of I l))" for l
    using hidden_orders [OF _ _ fin, of ?D] by blast+
  define I2 where "I2 = (fold remove_item items I)\<lparr>pi_raw_orders := (\<lambda>l. map_option
      (remove_positions (delete_positions I items l)) (pi_raw_orders (fold remove_item items I) l))\<rparr>"
  have J: "?J = splice_out_all (per_item I items) I2"
    by (simp add: index_hard_delete_def Let_def I2_def)
  have "pi_open_by_list ?J l = list_opt (open_seq (pi_meta ?J) l (raw_of ?J l))" for l
  proof -
    have "filter (\<lambda>x. \<forall>v. (x, l, v) \<notin> set (per_item I items)) (open_seq (pi_meta I) l (raw_of I l)) =
        filter (\<lambda>x. x \<notin> ?D) (open_seq (pi_meta I) l (raw_of I l))"
      using fin(1) by (intro filter_cong) (auto simp: per_item_rows in_open_located)
    with splice_out_all_order [of I2 "\<lambda>l. open_seq (pi_meta I) l (raw_of I l)" "per_item I items" l] b(3)
    show ?thesis by (simp add: h(1)) (simp add: J I2_def remove_items_fields orders_ok_def)
  qed
  moreover have "pi_open_visible_counts ?J l = count_opt (length (shown (pi_meta ?J) l (raw_of ?J l)))" for l
  proof -
    have "length (filter (\<lambda>(i, l', v). l' = l \<and> v) (per_item I items)) =
        length (filter (\<lambda>i. i \<in> set (shown (pi_meta I) l (raw_of I l))) items)"
      using per_item_visible [of l I items] by (metis length_map)
    with splice_out_all_counts [of I2 "\<lambda>l. length (shown (pi_meta I) l (raw_of I l))" "per_item I items" l] b(2)
      length_filter_notin [OF distinct_shown d, of "pi_meta I" l "raw_of I l"]
    show ?thesis by (simp add: h(2)) (simp add: J I2_def remove_items_fields counts_ok_def)
  qed
  ultimately show ?thesis using f(3) b(1) by (simp add: index_ok_iff orders_ok_def counts_ok_def)
qed

section \<open>A rebuilt index is exact\<close>

lemma fold_set_meta:
  assumes "base_ok I"
  shows "base_ok (fold (\<lambda>(i, m). set_meta i m) metas I)"
    "pi_open_by_list (fold (\<lambda>(i, m). set_meta i m) metas I) = pi_open_by_list I"
    "pi_open_visible_counts (fold (\<lambda>(i, m). set_meta i m) metas I) = pi_open_visible_counts I"
    "distinct (map fst metas) \<Longrightarrow> pi_meta (fold (\<lambda>(i, m). set_meta i m) metas I) = pi_meta I ++ map_of metas"
proof -
  show "base_ok (fold (\<lambda>(i, m). set_meta i m) metas I)"
    using assms by (induction metas arbitrary: I) (auto simp: base_set_meta)
  show "pi_open_by_list (fold (\<lambda>(i, m). set_meta i m) metas I) = pi_open_by_list I"
    "pi_open_visible_counts (fold (\<lambda>(i, m). set_meta i m) metas I) = pi_open_visible_counts I"
    by (induction metas arbitrary: I) auto
  show "distinct (map fst metas) \<Longrightarrow> pi_meta (fold (\<lambda>(i, m). set_meta i m) metas I) = pi_meta I ++ map_of metas"
  proof (induction metas arbitrary: I)
    case (Cons p metas)
    then have "fst p \<notin> dom (map_of metas)" by (simp add: dom_map_of_conv_image_fst)
    with Cons show ?case by (auto simp: split_beta map_add_def fun_eq_iff split: option.split)
  qed simp
qed

lemma fold_refresh:
  fixes ls :: "str list"
  assumes "base_ok I"
  defines "J \<equiv> fold (\<lambda>l I. snd (refresh_open l I)) ls I"
  shows "pi_meta J = pi_meta I \<and> pi_members J = pi_members I \<and> pi_open_members J = pi_open_members I \<and>
    pi_raw_orders J = pi_raw_orders I \<and>
    (\<forall>l. pi_open_by_list J l = (if l \<in> set ls then list_opt (open_seq (pi_meta I) l (raw_of I l)) else pi_open_by_list I l) \<and>
         pi_open_visible_counts J l =
           (if l \<in> set ls then count_opt (length (shown (pi_meta I) l (raw_of I l))) else pi_open_visible_counts I l))"
  using assms(1) unfolding J_def
proof (induction ls arbitrary: I)
  case (Cons l ls)
  let ?I = "snd (refresh_open l I)"
  have "base_ok ?I" using Cons.prems base_ok_cong [of ?I I] by (simp add: refresh_open_eq)
  from Cons.IH [OF this] show ?case
    using Cons.prems by (auto simp: refresh_open_eq)
qed simp

lemma unlocated_empty: "located meta l = {} \<Longrightarrow> finite (dom meta) \<Longrightarrow> open_seq meta l raw = [] \<and> shown meta l raw = []"
proof -
  assume "located meta l = {}" "finite (dom meta)"
  then have "open_located meta l = {}" by (simp add: open_located_def)
  with \<open>finite (dom meta)\<close> have "set (open_seq meta l raw) = {}" by simp
  then show ?thesis by (simp add: open_seq_def)
qed

lemma compute_index_spec:
  fixes list_ids :: "str list" and order :: "str \<Rightarrow> str option list"
  assumes "distinct (map fst metas)"
  defines "R \<equiv> compute_index metas list_ids order"
    and "raw \<equiv> \<lambda>l. map (\<lambda>s. Option.bind s entry_parse) (order l)"
  shows "index_ok R" "pi_meta R = map_of metas"
    "raw_of R l = raw l \<or> raw_of R l = [] \<and> located (map_of metas) l = {}"
proof -
  define C where "C = remdups (map (\<lambda>(_, m). im_list_id m) metas @ LIST_INBOX # list_ids)"
  define I1 where "I1 = (fold (\<lambda>(i, m). set_meta i m) metas index_default)\<lparr>pi_raw_orders :=
      (\<lambda>l. if l \<in> set C then Some (raw l) else None)\<rparr>"
  have R: "R = fold (\<lambda>l I. snd (refresh_open l I)) C I1"
    unfolding R_def compute_index_def Let_def C_def I1_def raw_def ..
  have b0: "base_ok index_default"
    by (simp add: base_ok_def index_default_def set_opt_def open_located_def located_def)
  note f0 = fold_set_meta [OF b0, of metas]
  have I1: "base_ok I1" "pi_meta I1 = map_of metas" "pi_open_by_list I1 = Map.empty" "pi_open_visible_counts I1 = Map.empty"
    "raw_of I1 l = (if l \<in> set C then raw l else [])" for l
    using f0 assms(1) base_ok_cong [of I1 "fold (\<lambda>(i, m). set_meta i m) metas index_default"]
    by (simp_all add: I1_def index_default_def)
  have out: "located (map_of metas) l = {}" if "l \<notin> set C" for l
    using that by (auto simp: C_def in_located dest!: map_of_SomeD)
  note fr = fold_refresh [OF I1(1), of C, folded R]
  show meta: "pi_meta R = map_of metas" using fr I1(2) by simp
  have rawR: "raw_of R l = (if l \<in> set C then raw l else [])" for l using fr I1(5) by simp
  then show "raw_of R l = raw l \<or> raw_of R l = [] \<and> located (map_of metas) l = {}" using out by auto
  have fin: "finite (dom (map_of metas))" by (simp add: finite_dom_map_of)
  have "base_ok R" using I1(1) fr base_ok_cong [of R I1] by simp
  moreover have "counts_ok R" "orders_ok R"
    using fr I1 rawR unlocated_empty [OF out fin]
    by (auto simp: counts_ok_def orders_ok_def count_opt_def list_opt_def)
  ultimately show "index_ok R" by (simp add: index_ok_iff)
qed

lemma same_indexI:
  assumes "index_ok I" "index_ok J" "pi_meta I = pi_meta J"
    and "\<And>l. raw_of I l = raw_of J l \<or> located (pi_meta J) l = {}"
  shows "same_index I J"
proof -
  have fin: "finite (dom (pi_meta J))" using assms(2) by (simp add: index_ok_iff base_ok_def)
  have "open_seq (pi_meta J) l (raw_of I l) = open_seq (pi_meta J) l (raw_of J l) \<and>
      shown (pi_meta J) l (raw_of I l) = shown (pi_meta J) l (raw_of J l)" for l
    using assms(4) [of l] unlocated_empty [OF _ fin] by metis
  with assms(1-3) show ?thesis
    by (simp add: same_index_def index_ok_iff base_ok_def counts_ok_def orders_ok_def fun_eq_iff)
qed

section \<open>Every mutation\<close>

lemma add_loop_distinct:
  "entries_distinct I \<Longrightarrow> new_items ps l I \<Longrightarrow> entries_distinct (add_loop l at ps I)"
proof (induction l at ps I rule: add_loop.induct)
  case (2 l at i pl now ps I)
  let ?J = "bump_visible l 1 (put_entry l at \<lparr>oe_item_id = i, oe_placement_id = pl\<rparr>
      (set_meta i \<lparr>im_list_id = l, im_placement_id = pl, im_open = True, im_created_at = now\<rparr> I))"
  have "entries_distinct ?J" "new_items ps l ?J"
    using "2.prems" by (force simp: entries_distinct_def new_items_def distinct_filter_vec_insert)+
  with "2.IH" show ?case by simp
qed simp

lemma splice_loop_raw: "pi_raw_orders (splice_loop l pos j items I) = pi_raw_orders I"
  by (induction l pos j items I rule: splice_loop.induct) simp_all

lemma run_index_op_ok:
  assumes "index_ok I" "entries_distinct I" "index_op_ok op I"
  shows "index_ok (run_index_op op I) \<and> entries_distinct (run_index_op op I)"
proof (cases op)
  case (OpAdd l t ps)
  have "entries_distinct (snd (index_add_items l t ps I))"
    using add_loop_distinct [OF assms(2), of ps l "tp_raw_pos (plan_target I l t True None)"] assms(3) OpAdd
    by (simp add: index_add_items_def Let_def entries_distinct_def splice_loop_raw split: option.split)
  with OpAdd assms index_add_items_spec(1) [OF assms(1)] show ?thesis by simp
next
  case (OpMove i l t pl now)
  show ?thesis
  proof (cases "pi_meta I i")
    case (Some m)
    with OpMove assms show ?thesis
      using reorder_moved [OF assms(1,2) Some, of l pl t] across_moved [OF assms(1,2) Some, of l pl t now]
      by (auto simp: index_move_item_def moved_def split: prod.splits if_splits)
  qed (use OpMove assms in \<open>simp add: index_move_item_def\<close>)
next
  case (OpOpenness i b)
  show ?thesis
  proof (cases "pi_meta I i")
    case (Some m)
    have "index_ok (snd (sync_item_openness i b I))" "pi_raw_orders (snd (sync_item_openness i b I)) = pi_raw_orders I"
      using hide_item [OF assms(1) Some] show_item [OF assms(1) Some] by (cases b; simp)+
    with OpOpenness assms(2) show ?thesis by (simp add: entries_distinct_def)
  qed (use OpOpenness assms in \<open>simp add: sync_item_openness_def set_open_def\<close>)
next
  case (OpDelete items)
  with assms hard_delete_ok [OF assms(1)] show ?thesis
    by (simp add: entries_distinct_def hard_delete_fields distinct_drop_entries)
qed

lemma run_index_ops_ok:
  "index_ok I \<Longrightarrow> entries_distinct I \<Longrightarrow> index_ops_ok ops I \<Longrightarrow>
     index_ok (fold run_index_op ops I) \<and> entries_distinct (fold run_index_op ops I)"
  by (induction ops arbitrary: I) (auto simp: run_index_op_ok)

section \<open>Properties\<close>


definition demo_metas :: "(str \<times> item_meta) list" where
  "demo_metas = [([1], \<lparr>im_list_id = [9], im_placement_id = [1], im_open = True, im_created_at = 5\<rparr>),
     ([2], \<lparr>im_list_id = [9], im_placement_id = [2], im_open = True, im_created_at = 4\<rparr>),
     ([3], \<lparr>im_list_id = [9], im_placement_id = [3], im_open = False, im_created_at = 3\<rparr>)]"

definition demo_order :: "str \<Rightarrow> str option list" where
  "demo_order l = (if l = [9] then [Some [3, COLON, 3], None, Some [1, COLON, 1]] else [])"

definition demo_index :: projection_index where
  "demo_index = compute_index demo_metas [] demo_order"

lemma demo_metas_distinct: "distinct (map fst demo_metas)"
  by code_simp

lemma demo_raw: "raw_of demo_index l = map (\<lambda>s. Option.bind s entry_parse) (demo_order l)"
proof (cases "l = [9]")
  case True
  have "raw_of demo_index [9] = map (\<lambda>s. Option.bind s entry_parse) (demo_order [9])" by code_simp
  with True show ?thesis by simp
next
  case False
  then show ?thesis
    using compute_index_spec(3) [OF demo_metas_distinct, of "[]" demo_order l]
    by (auto simp: demo_index_def demo_order_def)
qed

lemma demo_index_ok: "index_ok demo_index" "entries_distinct demo_index" "pi_meta demo_index = map_of demo_metas"
proof -
  show "index_ok demo_index" "pi_meta demo_index = map_of demo_metas"
    using compute_index_spec(1,2) [OF demo_metas_distinct] by (simp_all add: demo_index_def)
  have "distinct (filter (\<lambda>e. e \<noteq> None) (map (\<lambda>s. Option.bind s entry_parse) (demo_order [9])))" by code_simp
  then have "distinct (filter (\<lambda>e. e \<noteq> None) (map (\<lambda>s. Option.bind s entry_parse) (demo_order l)))" for l
    by (cases "l = [9]") (simp_all add: demo_order_def)
  then show "entries_distinct demo_index" by (simp add: entries_distinct_def demo_raw)
qed


text \<open>
  C30: new items land where the caller asked. Adding a batch at a target index to an exact index
  inserts it, in order and contiguous, at that index of the list's open order, or after the items
  that have an entry when the index lies beyond them (the items without one always come last); the
  other lists keep their orders.
\<close>

theorem added_items_land_at_target:
  assumes "index_ok I" and "new_items ps l I" and "length (open_of I l) + length ps < USIZE_MAX"
    and "index_add_items l t ps I = (reported, J)"
  shows "open_of J l = take (min t (length (shown (pi_meta I) l (raw_of I l)))) (open_of I l) @ map fst ps @
      drop (min t (length (shown (pi_meta I) l (raw_of I l)))) (open_of I l) \<and>
    reported = open_of J l \<and> (\<forall>l'. l' \<noteq> l \<longrightarrow> open_of J l' = open_of I l')"
  using index_add_items_spec [OF assms(1-3), where t = t] assms(4) by simp

lemma new_items_code [code]:
  "new_items ps l I \<longleftrightarrow> distinct (map fst ps) \<and>
     list_all (\<lambda>i. pi_meta I i = None \<and> list_all (\<lambda>e. case e of None \<Rightarrow> True | Some e \<Rightarrow> oe_item_id e \<noteq> i) (raw_of I l))
       (map fst ps)"
  by (fastforce simp: new_items_def list_all_iff split: option.splits)

definition demo_pending :: "pending list" where
  "demo_pending = [([4], [4], 8), ([5], [5], 8)]"

theorem added_items_land_at_target_witness:
  "open_of (snd (index_add_items [9] 1 demo_pending demo_index)) [9] = [[1], [4], [5], [2]]"
proof -
  have "new_items demo_pending [9] demo_index" by code_simp
  moreover have "length (open_of demo_index [9]) + length demo_pending < USIZE_MAX" by code_simp
  ultimately have "open_of (snd (index_add_items [9] 1 demo_pending demo_index)) [9] =
      take (min 1 (length (shown (pi_meta demo_index) [9] (raw_of demo_index [9])))) (open_of demo_index [9]) @
      map fst demo_pending @
      drop (min 1 (length (shown (pi_meta demo_index) [9] (raw_of demo_index [9])))) (open_of demo_index [9])"
    using added_items_land_at_target [OF demo_index_ok(1) _ _ prod.collapse [symmetric]] by blast
  also have "\<dots> = [[1], [4], [5], [2]]" by code_simp
  finally show ?thesis .
qed

text \<open>
  C31: a moved item lands where the caller asked. Moving an open item to a target index, within its
  list or to another, takes it out of every open order and puts it at that index among the other
  open items of the target list (after those with an entry, when the index lies beyond them);
  everything else keeps its order. Moving a hidden item changes no open order. The reported index
  is the item's index in the new order.
\<close>

theorem moved_item_lands_at_target:
  assumes "index_ok I" and "entries_distinct I" and "pi_meta I i = Some m"
    and "Some \<lparr>oe_item_id = i, oe_placement_id = placement\<rparr> \<notin> set (raw_of I l)"
    and "length (open_of I l) < USIZE_MAX"
    and "index_move_item i l t placement created_at I = Some (reported, J)"
  shows "open_of J l =
      (if im_open m
       then vec_insert (min t (length (filter (\<lambda>x. x \<noteq> i) (shown (pi_meta I) l (raw_of I l))))) i
              (filter (\<lambda>x. x \<noteq> i) (open_of I l))
       else open_of I l) \<and>
    (\<forall>l'. l' \<noteq> l \<longrightarrow> open_of J l' = filter (\<lambda>x. x \<noteq> i) (open_of I l')) \<and>
    (\<forall>r. reported = Some r \<longrightarrow> r = (if im_open m then position_of i (open_of J l) else None))"
proof -
  have "moved i l t (im_open m) I (reported, J)"
    using assms reorder_moved [OF assms(1,2,3), of l placement t] across_moved [OF assms(1,2,3), of l placement t created_at]
    by (auto simp: index_move_item_def split: if_splits)
  then show ?thesis by (auto simp: moved_def lands_def split: option.splits)
qed

theorem moved_item_lands_at_target_witness:
  "\<exists>reported J. index_move_item [2] [9] 0 [7] 4 demo_index = Some (reported, J) \<and> open_of J [9] = [[2], [1]]"
proof -
  have "open_of demo_index [9] = [[1], [2]]" by code_simp
  moreover have "shown (pi_meta demo_index) [9] (raw_of demo_index [9]) = [[1]]" by code_simp
  moreover have "Some \<lparr>oe_item_id = [2], oe_placement_id = [7]\<rparr> \<notin> set (raw_of demo_index [9])" by code_simp
  moreover have "pi_meta demo_index [2] = Some \<lparr>im_list_id = [9], im_placement_id = [2], im_open = True, im_created_at = 4\<rparr>"
    by code_simp
  moreover have "length (open_of demo_index [9]) < USIZE_MAX" by code_simp
  moreover from calculation obtain p where "index_move_item [2] [9] 0 [7] 4 demo_index = Some p"
    by (auto simp: index_move_item_def)
  moreover obtain reported J where "p = (reported, J)" by (cases p)
  ultimately show ?thesis
    using moved_item_lands_at_target [OF demo_index_ok(1,2), of "[2]" _ "[7]" "[9]" 0 4 reported J]
    by (auto simp: vec_insert_def)
qed

end
