(* ===== verification/Search_Index.thy ===== *)
theory Search_Index
  imports Item_Values Notes_Delta "HOL-Library.AList" "HOL-Library.List_Lexorder" "HOL-Library.Product_Lexorder"
begin

text \<open>
  \<open>core/src/search.rs\<close>: the in-memory inverted index over items and lists, its dirty set, its
  maintenance and its ranked queries; and \<open>Doc::search\<close> of \<open>core/src/doc.rs\<close>, which brings the
  index up to date before it answers.

  Hash maps are association lists and hash sets are lists without order of their own: what a query
  answers is shown not to depend on it. The Unicode tables (\<open>unicode-normalization\<close>, and those behind
  \<open>char::is_alphanumeric\<close> and \<open>char::to_lowercase\<close>) are the record \<open>unicode\<close>. Coordinates of a
  place are the bits of their \<open>f64\<close>. Counts and scores stay far below the width of their types and
  are naturals.
\<close>

section \<open>Tokens\<close>

record unicode =
  un_nfkd :: "str \<Rightarrow> str"
  un_is_combining_mark :: "scalar \<Rightarrow> bool"
  un_is_alphanumeric :: "scalar \<Rightarrow> bool"
  un_to_lowercase :: "scalar \<Rightarrow> str"

definition flush :: "str \<Rightarrow> str list \<Rightarrow> str list" where
  "flush cur out = (if cur \<noteq> [] \<and> cur \<notin> set out then out @ [cur] else out)"

fun tokenize_loop :: "unicode \<Rightarrow> str \<Rightarrow> str \<Rightarrow> str list \<Rightarrow> str list" where
  "tokenize_loop U [] cur out = flush cur out"
| "tokenize_loop U (c # cs) cur out =
     (if un_is_combining_mark U c then tokenize_loop U cs cur out
      else if un_is_alphanumeric U c then tokenize_loop U cs (cur @ un_to_lowercase U c) out
      else tokenize_loop U cs [] (flush cur out))"

definition tokenize :: "unicode \<Rightarrow> str \<Rightarrow> str list" where
  "tokenize U input = tokenize_loop U (un_nfkd U input) [] []"

definition starts_with :: "str \<Rightarrow> str \<Rightarrow> bool" where
  "starts_with s p \<longleftrightarrow> take (length p) s = p"

definition matches_name :: "unicode \<Rightarrow> str \<Rightarrow> str \<Rightarrow> bool" where
  "matches_name U name query =
     (let wanted = tokenize U query
      in if wanted = [] then True
         else let own = tokenize U name in list_all (\<lambda>w. list_ex (\<lambda>t. starts_with t w) own) wanted)"

section \<open>Views\<close>

record place =
  pl_label :: str
  pl_lat :: "u64 option"
  pl_lon :: "u64 option"
  pl_address :: "str option"
  pl_reference :: "str option"

record item_view =
  iv_id :: str
  iv_text :: str
  iv_notes :: str
  iv_list_id :: str
  iv_state :: workflow_state
  iv_lifecycle_at :: int
  iv_deadline :: "str option"
  iv_when :: "str option"
  iv_duration :: "u32 option"
  iv_place :: "place option"
  iv_created_at :: int
  iv_created_by :: "str option"
  iv_started_at :: "int option"
  iv_done_at :: "int option"
  iv_binned_at :: "int option"

definition is_binned :: "item_view \<Rightarrow> bool" where
  "is_binned it \<longleftrightarrow> iv_binned_at it \<noteq> None"

definition item_lifecycle_of :: "item_view \<Rightarrow> item_lifecycle" where
  "item_lifecycle_of it = (if is_binned it then IlBinned else lifecycle_from (iv_state it))"

record list_view =
  lv_id :: str
  lv_name :: str
  lv_icon :: "str option"
  lv_default_view :: "default_view option"
  lv_archived_at :: "int option"
  lv_created_at :: int

section \<open>The index\<close>

datatype search_kind = KItem | KList

record search_result =
  sr_id :: str
  sr_kind :: search_kind
  sr_title :: str
  sr_body :: "str option"
  sr_list_id :: "str option"
  sr_lifecycle :: "item_lifecycle option"
  sr_score :: nat

record search_doc =
  sd_id :: str
  sd_kind :: search_kind
  sd_title :: str
  sd_body :: str
  sd_list_id :: "str option"
  sd_lifecycle :: "item_lifecycle option"
  sd_updated_at :: int
  sd_title_tokens :: "str list"
  sd_body_tokens :: "str list"
  sd_context_tokens :: "str list"

definition all_tokens :: "search_doc \<Rightarrow> str list" where
  "all_tokens d = sd_title_tokens d @ sd_body_tokens d @ sd_context_tokens d"

fun lifecycle_rank :: "item_lifecycle option \<Rightarrow> nat" where
  "lifecycle_rank (Some IlInProgress) = 5"
| "lifecycle_rank (Some IlReview) = 4"
| "lifecycle_rank (Some IlTodo) = 3"
| "lifecycle_rank (Some IlBacklog) = 2"
| "lifecycle_rank (Some IlDone) = 1"
| "lifecycle_rank (Some IlCancelled) = 1"
| "lifecycle_rank (Some IlBinned) = 0"
| "lifecycle_rank None = 0"

record dirty =
  di_all :: bool
  di_items :: "str list"
  di_lists :: "str list"

definition dirty_default :: dirty where
  "dirty_default = \<lparr>di_all = False, di_items = [], di_lists = []\<rparr>"

definition is_clean :: "dirty \<Rightarrow> bool" where
  "is_clean d \<longleftrightarrow> \<not> di_all d \<and> di_items d = [] \<and> di_lists d = []"

type_synonym postings = "(str \<times> str list) list"

record search_index =
  si_docs_by_id :: "(str \<times> search_doc) list"
  si_postings :: postings
  si_items_by_list :: postings
  si_list_names :: "(str \<times> str) list"
  si_dirty :: dirty

definition search_new :: search_index where
  "search_new = \<lparr>si_docs_by_id = [], si_postings = [], si_items_by_list = [], si_list_names = [],
     si_dirty = dirty_default\<lparr>di_all := True\<rparr>\<rparr>"

section \<open>Dirty tracking\<close>

text \<open>
  The events of \<open>core/src/events.rs\<close>. The fields of \<open>ItemAdded\<close> are those of an item's view, with its
  index among the open items of its list.
\<close>

datatype app_event =
    FullResync
  | ItemAdded item_view "nat option"
  | ItemRemoved str
  | ItemMoved str "nat option"
  | ItemTextChanged str str
  | ItemNotesChanged str str
  | ItemNotesDelta str "notes_op list"
  | ItemDeadlineChanged str "str option"
  | ItemWhenChanged str "str option"
  | ItemDurationChanged str "u32 option"
  | ItemPlaceChanged str "place option"
  | ItemLifecycleChanged str workflow_state int "int option" "int option" "int option" "nat option"
  | ItemListChanged str str "nat option"
  | ListAdded str str int "int option" nat
  | ListRemoved str
  | ListMoved str nat
  | ListRenamed str str
  | ListIconChanged str "str option"
  | ListDefaultViewChanged str "default_view option"
  | ListArchivedChanged str "int option"
  | FocusChanged
  | SettingsChanged bool "default_view option" "str option" "str list" bool

definition mark_all_dirty :: "search_index \<Rightarrow> search_index" where
  "mark_all_dirty X = X\<lparr>si_dirty := \<lparr>di_all = True, di_items = [], di_lists = []\<rparr>\<rparr>"

definition mark_item :: "str \<Rightarrow> search_index \<Rightarrow> search_index" where
  "mark_item i X = X\<lparr>si_dirty := (si_dirty X)\<lparr>di_items := List.insert i (di_items (si_dirty X))\<rparr>\<rparr>"

definition mark_list :: "str \<Rightarrow> search_index \<Rightarrow> search_index" where
  "mark_list l X = X\<lparr>si_dirty := (si_dirty X)\<lparr>di_lists := List.insert l (di_lists (si_dirty X))\<rparr>\<rparr>"

definition note_event :: "app_event \<Rightarrow> search_index \<Rightarrow> search_index" where
  "note_event ev X =
     (if di_all (si_dirty X) then X
      else case ev of
        FullResync \<Rightarrow> mark_all_dirty X
      | ItemAdded v _ \<Rightarrow> mark_item (iv_id v) X
      | ItemRemoved i \<Rightarrow> mark_item i X
      | ItemTextChanged i _ \<Rightarrow> mark_item i X
      | ItemNotesChanged i _ \<Rightarrow> mark_item i X
      | ItemNotesDelta i _ \<Rightarrow> mark_item i X
      | ItemLifecycleChanged i _ _ _ _ _ _ \<Rightarrow> mark_item i X
      | ItemListChanged i _ _ \<Rightarrow> mark_item i X
      | ListAdded l _ _ _ _ \<Rightarrow> mark_list l X
      | ListRemoved l \<Rightarrow> mark_list l X
      | ListRenamed l _ \<Rightarrow> mark_list l X
      | _ \<Rightarrow> X)"

definition take_dirty :: "search_index \<Rightarrow> dirty option \<times> search_index" where
  "take_dirty X =
     (if is_clean (si_dirty X) then (None, X)
      else (Some (si_dirty X), X\<lparr>si_dirty := dirty_default\<rparr>))"

section \<open>Maintenance\<close>

definition posted :: "postings \<Rightarrow> str \<Rightarrow> str list" where
  "posted P t = (case map_of P t of None \<Rightarrow> [] | Some s \<Rightarrow> s)"

definition item_ids_in_list :: "search_index \<Rightarrow> str \<Rightarrow> str list" where
  "item_ids_in_list X l = posted (si_items_by_list X) l"

text \<open>\<open>entry(t).or_default().insert(id)\<close>, and \<open>remove\<close> with the empty set dropped.\<close>

definition post_insert :: "str \<Rightarrow> str \<Rightarrow> postings \<Rightarrow> postings" where
  "post_insert i t P = AList.update t (List.insert i (posted P t)) P"

definition post_remove :: "str \<Rightarrow> str \<Rightarrow> postings \<Rightarrow> postings" where
  "post_remove i t P =
     (case map_of P t of
        None \<Rightarrow> P
      | Some s \<Rightarrow> let s' = removeAll i s in if s' = [] then AList.delete t P else AList.update t s' P)"

definition search_clear :: "search_index \<Rightarrow> search_index" where
  "search_clear X = X\<lparr>si_docs_by_id := [], si_postings := [], si_items_by_list := [], si_list_names := []\<rparr>"

definition search_remove :: "str \<Rightarrow> search_index \<Rightarrow> search_index" where
  "search_remove i X =
     (case map_of (si_docs_by_id X) i of
        None \<Rightarrow> X
      | Some d \<Rightarrow>
          X\<lparr>si_docs_by_id := AList.delete i (si_docs_by_id X),
            si_postings := fold (post_remove i) (all_tokens d) (si_postings X),
            si_items_by_list := (case sd_list_id d of None \<Rightarrow> si_items_by_list X
                                 | Some l \<Rightarrow> post_remove i l (si_items_by_list X))\<rparr>)"

definition insert_doc :: "search_doc \<Rightarrow> search_index \<Rightarrow> search_index" where
  "insert_doc d X =
     X\<lparr>si_postings := fold (post_insert (sd_id d)) (all_tokens d) (si_postings X),
       si_items_by_list := (if sd_kind d = KItem
                            then (case sd_list_id d of None \<Rightarrow> si_items_by_list X
                                  | Some l \<Rightarrow> post_insert (sd_id d) l (si_items_by_list X))
                            else si_items_by_list X),
       si_docs_by_id := AList.update (sd_id d) d (si_docs_by_id X)\<rparr>"

definition list_doc :: "unicode \<Rightarrow> list_view \<Rightarrow> search_doc" where
  "list_doc U l =
     \<lparr>sd_id = lv_id l, sd_kind = KList, sd_title = lv_name l, sd_body = [], sd_list_id = None, sd_lifecycle = None,
      sd_updated_at = lv_created_at l, sd_title_tokens = tokenize U (lv_name l), sd_body_tokens = [],
      sd_context_tokens = []\<rparr>"

definition index_list :: "unicode \<Rightarrow> list_view \<Rightarrow> search_index \<Rightarrow> search_index" where
  "index_list U l X =
     (let X1 = X\<lparr>si_list_names := AList.update (lv_id l) (lv_name l) (si_list_names X)\<rparr>
      in insert_doc (list_doc U l) (search_remove (lv_id l) X1))"

definition remove_list :: "str \<Rightarrow> search_index \<Rightarrow> search_index" where
  "remove_list l X = (let X1 = search_remove l X in X1\<lparr>si_list_names := AList.delete l (si_list_names X1)\<rparr>)"

definition item_doc :: "unicode \<Rightarrow> str \<Rightarrow> item_view \<Rightarrow> search_doc" where
  "item_doc U ctx_name it =
     \<lparr>sd_id = iv_id it, sd_kind = KItem, sd_title = iv_text it, sd_body = iv_notes it,
      sd_list_id = (if iv_list_id it = [] then None else Some (iv_list_id it)),
      sd_lifecycle = Some (item_lifecycle_of it),
      sd_updated_at = (case iv_binned_at it of Some t \<Rightarrow> t | None \<Rightarrow> iv_lifecycle_at it),
      sd_title_tokens = tokenize U (iv_text it), sd_body_tokens = tokenize U (iv_notes it),
      sd_context_tokens = tokenize U ctx_name\<rparr>"

definition index_item :: "unicode \<Rightarrow> item_view \<Rightarrow> search_index \<Rightarrow> search_index" where
  "index_item U it X =
     (let X1 = search_remove (iv_id it) X;
          ctx_name = (case map_of (si_list_names X1) (iv_list_id it) of None \<Rightarrow> [] | Some n \<Rightarrow> n)
      in insert_doc (item_doc U ctx_name it) X1)"

definition search_rebuild :: "unicode \<Rightarrow> list_view list \<Rightarrow> item_view list \<Rightarrow> search_index \<Rightarrow> search_index" where
  "search_rebuild U ls its X = fold (index_item U) its (fold (index_list U) ls (search_clear X))"

section \<open>Queries\<close>

record scored =
  sc_doc :: search_doc
  sc_title_exact :: nat
  sc_title_prefix :: nat
  sc_body_hits :: nat
  sc_context_hits :: nat
  sc_score :: nat

definition any_starts_with :: "str list \<Rightarrow> str \<Rightarrow> bool" where
  "any_starts_with ts p = list_ex (\<lambda>t. starts_with t p) ts"

text \<open>The loop over the exact tokens: hits in title, body and context.\<close>

fun score_loop :: "search_doc \<Rightarrow> str list \<Rightarrow> nat \<times> nat \<times> nat \<Rightarrow> (nat \<times> nat \<times> nat) option" where
  "score_loop d [] acc = Some acc"
| "score_loop d (t # ts) (title, body, context) =
     (if t \<in> set (sd_title_tokens d) then score_loop d ts (title + 1, body, context)
      else if t \<in> set (sd_body_tokens d) then score_loop d ts (title, body + 1, context)
      else if t \<in> set (sd_context_tokens d) then score_loop d ts (title, body, context + 1)
      else None)"

definition make_scored :: "search_doc \<Rightarrow> nat \<Rightarrow> nat \<Rightarrow> nat \<Rightarrow> nat \<Rightarrow> scored" where
  "make_scored d te tp b c =
     \<lparr>sc_doc = d, sc_title_exact = te, sc_title_prefix = tp, sc_body_hits = b, sc_context_hits = c,
      sc_score = te * 10000 + tp * 1000 + b * 100 + c * 10 + lifecycle_rank (sd_lifecycle d)\<rparr>"

definition score_doc :: "search_doc \<Rightarrow> str list \<Rightarrow> str \<Rightarrow> scored option" where
  "score_doc d exact_tokens final_token =
     (case score_loop d exact_tokens (0, 0, 0) of
        None \<Rightarrow> None
      | Some (te, b, c) \<Rightarrow>
          if final_token \<in> set (sd_title_tokens d) then Some (make_scored d (te + 1) 0 b c)
          else if any_starts_with (sd_title_tokens d) final_token then Some (make_scored d te 1 b c)
          else if final_token \<in> set (sd_body_tokens d) \<or> any_starts_with (sd_body_tokens d) final_token
          then Some (make_scored d te 0 (b + 1) c)
          else if final_token \<in> set (sd_context_tokens d) \<or> any_starts_with (sd_context_tokens d) final_token
          then Some (make_scored d te 0 b (c + 1))
          else None)"

definition intersect :: "str list option \<Rightarrow> str list \<Rightarrow> str list" where
  "intersect a b =
     (case a of
        None \<Rightarrow> b
      | Some a \<Rightarrow> if length a \<le> length b then filter (\<lambda>i. i \<in> set b) a else filter (\<lambda>i. i \<in> set a) b)"

text \<open>\<open>None\<close> is the early return of an empty answer.\<close>

fun candidates_loop :: "postings \<Rightarrow> str list \<Rightarrow> str list option \<Rightarrow> str list option option" where
  "candidates_loop P [] acc = Some acc"
| "candidates_loop P (t # ts) acc =
     (case map_of P t of
        None \<Rightarrow> None
      | Some s \<Rightarrow> let a = intersect acc s in if a = [] then None else candidates_loop P ts (Some a))"

definition prefix_candidates :: "postings \<Rightarrow> str \<Rightarrow> str list" where
  "prefix_candidates P p = remdups (concat (map snd (filter (\<lambda>(t, _). starts_with t p) P)))"

text \<open>The comparator of \<open>sort_by\<close> as a key: larger counts, rank and time first, then the smaller id.\<close>

definition scored_key :: "scored \<Rightarrow> int \<times> int \<times> int \<times> int \<times> int \<times> int \<times> str" where
  "scored_key s =
     (- int (sc_title_exact s), - int (sc_title_prefix s), - int (sc_body_hits s), - int (sc_context_hits s),
      - int (lifecycle_rank (sd_lifecycle (sc_doc s))), - sd_updated_at (sc_doc s), sd_id (sc_doc s))"

definition result_of :: "scored \<Rightarrow> search_result" where
  "result_of s =
     (let d = sc_doc s
      in \<lparr>sr_id = sd_id d, sr_kind = sd_kind d, sr_title = sd_title d,
          sr_body = (if sd_body d = [] then None else Some (sd_body d)), sr_list_id = sd_list_id d,
          sr_lifecycle = sd_lifecycle d, sr_score = sc_score s\<rparr>)"

definition search_query :: "unicode \<Rightarrow> str \<Rightarrow> nat \<Rightarrow> search_index \<Rightarrow> search_result list" where
  "search_query U input limit X =
     (let tokens = tokenize U input
      in if tokens = [] then []
         else
           let final_token = last tokens; exact_tokens = butlast tokens
           in case candidates_loop (si_postings X) exact_tokens None of
                None \<Rightarrow> []
              | Some acc \<Rightarrow>
                  let final_set = prefix_candidates (si_postings X) final_token
                  in if final_set = [] then []
                     else
                       let candidates = intersect acc final_set;
                           found = List.map_filter (\<lambda>i. map_of (si_docs_by_id X) i) candidates;
                           hits = List.map_filter (\<lambda>d. score_doc d exact_tokens final_token) found
                       in map result_of (take limit (sort_key scored_key hits)))"

section \<open>\<open>Doc::search\<close>\<close>

text \<open>
  What the index reads of the doc: the rows of the list container that have an id, each with its
  view when it decodes, the items, and the ids of the items in the resolved order of the lists.
\<close>

record search_source =
  ss_list_rows :: "(str \<times> list_view option) list"
  ss_items :: "(str \<times> item_view) list"
  ss_order :: "str list"

fun all_lists_loop :: "(str \<times> list_view option) list \<Rightarrow> str list \<Rightarrow> list_view list" where
  "all_lists_loop [] seen = []"
| "all_lists_loop ((_, row) # rows) seen =
     (case row of
        None \<Rightarrow> all_lists_loop rows seen
      | Some v \<Rightarrow> if lv_id v \<in> set seen then all_lists_loop rows seen
                  else v # all_lists_loop rows (lv_id v # seen))"

definition all_lists :: "search_source \<Rightarrow> list_view list" where
  "all_lists D = all_lists_loop (ss_list_rows D) []"

definition get_list_meta :: "search_source \<Rightarrow> str \<Rightarrow> list_view option" where
  "get_list_meta D l = (case map_of (ss_list_rows D) l of None \<Rightarrow> None | Some row \<Rightarrow> row)"

definition get_item :: "search_source \<Rightarrow> str \<Rightarrow> item_view option" where
  "get_item D i = map_of (ss_items D) i"

definition iter_items :: "search_source \<Rightarrow> item_view list" where
  "iter_items D = List.map_filter (get_item D) (ss_order D)"

definition reconcile_search_item :: "unicode \<Rightarrow> search_source \<Rightarrow> str \<Rightarrow> search_index \<Rightarrow> search_index" where
  "reconcile_search_item U D i X =
     (case get_item D i of Some it \<Rightarrow> index_item U it X | None \<Rightarrow> search_remove i X)"

definition reconcile_search_list :: "unicode \<Rightarrow> search_source \<Rightarrow> str \<Rightarrow> search_index \<Rightarrow> search_index" where
  "reconcile_search_list U D l X =
     (let X1 = (case get_list_meta D l of Some v \<Rightarrow> index_list U v X | None \<Rightarrow> remove_list l X)
      in fold (reconcile_search_item U D) (item_ids_in_list X1 l) X1)"

definition doc_search :: "unicode \<Rightarrow> search_source \<Rightarrow> str \<Rightarrow> nat \<Rightarrow> search_index \<Rightarrow> search_result list \<times> search_index" where
  "doc_search U D input limit X =
     (case take_dirty X of
        (None, X1) \<Rightarrow> (search_query U input limit X1, X1)
      | (Some d, X1) \<Rightarrow>
          let X2 = (if di_all d then search_rebuild U (all_lists D) (iter_items D) X1
                    else fold (reconcile_search_item U D) (di_items d)
                           (fold (reconcile_search_list U D) (di_lists d) X1))
          in (search_query U input limit X2, X2))"

end
