(* ===== verification/Search_Props.thy ===== *)
theory Search_Props
  imports Search_Index
begin

text \<open>
  The search index is kept in step with the doc: the postings hold exactly the tokens of the indexed
  entries, and reconciling a list or an item brings what is indexed of it to the state of the doc.
\<close>

section \<open>Postings\<close>

definition postings_ok :: "postings \<Rightarrow> bool" where
  "postings_ok P \<longleftrightarrow> distinct (map fst P) \<and> (\<forall>t. map_of P t \<noteq> Some [] \<and> distinct (posted P t))"

lemma posted_insert: "posted (post_insert i t P) u = (if u = t then List.insert i (posted P t) else posted P u)"
  by (simp add: posted_def post_insert_def update_conv')

lemma posted_remove: "posted (post_remove i t P) u = (if u = t then removeAll i (posted P t) else posted P u)"
  by (auto simp: posted_def post_remove_def update_conv' delete_conv' Let_def split: option.split)

lemma map_of_insert: "map_of (post_insert i t P) u = (if u = t then Some (List.insert i (posted P t)) else map_of P u)"
  by (simp add: post_insert_def update_conv')

lemma map_of_remove:
  "map_of P t \<noteq> Some [] \<Longrightarrow>
   map_of (post_remove i t P) u =
     (if u = t then (if removeAll i (posted P t) = [] then None else Some (removeAll i (posted P t))) else map_of P u)"
  by (simp add: post_remove_def posted_def update_conv' delete_conv' Let_def split: option.split)

lemma postings_okI:
  assumes "distinct (map fst P)" "\<And>t. map_of P t \<noteq> Some []" "\<And>t. distinct (posted P t)"
  shows "postings_ok P"
  using assms unfolding postings_ok_def by blast

lemma postings_okD:
  assumes "postings_ok P"
  shows "distinct (map fst P)" "map_of P t \<noteq> Some []" "distinct (posted P t)"
  using assms unfolding postings_ok_def by blast+

lemma post_insert_ok: "postings_ok P \<Longrightarrow> postings_ok (post_insert i t P)"
proof (rule postings_okI)
  assume ok: "postings_ok P"
  show "distinct (map fst (post_insert i t P))"
    unfolding post_insert_def by (rule distinct_update [OF postings_okD(1) [OF ok]])
  show "map_of (post_insert i t P) u \<noteq> Some []" for u
    using postings_okD(2) [OF ok, of u] by (auto simp: map_of_insert List.insert_def)
  show "distinct (posted (post_insert i t P) u)" for u
    using postings_okD(3) [OF ok] by (simp add: posted_insert)
qed

lemma post_remove_ok: "postings_ok P \<Longrightarrow> postings_ok (post_remove i t P)"
proof (rule postings_okI)
  assume ok: "postings_ok P"
  show "distinct (map fst (post_remove i t P))"
    using distinct_update [OF postings_okD(1) [OF ok]] distinct_delete [OF postings_okD(1) [OF ok]] postings_okD(1) [OF ok]
    by (simp only: post_remove_def Let_def split: option.split if_split) blast
  show "map_of (post_remove i t P) u \<noteq> Some []" for u
    using postings_okD(2) [OF ok, of u] by (simp only: map_of_remove [OF postings_okD(2) [OF ok]] split: if_split) blast
  show "distinct (posted (post_remove i t P) u)" for u
    using postings_okD(3) [OF ok] by (simp add: posted_remove distinct_removeAll)
qed

lemma fold_post_insert:
  "set (posted (fold (post_insert i) ts P) u) = set (posted P u) \<union> (if u \<in> set ts then {i} else {})"
  by (induction ts arbitrary: P) (auto simp: posted_insert)

lemma fold_post_remove:
  "set (posted (fold (post_remove i) ts P) u) = set (posted P u) - (if u \<in> set ts then {i} else {})"
  by (induction ts arbitrary: P) (auto simp: posted_remove)

lemma fold_post_ok:
  "postings_ok P \<Longrightarrow> postings_ok (fold (post_insert i) ts P)"
  "postings_ok P \<Longrightarrow> postings_ok (fold (post_remove i) ts P)"
  by (induction ts arbitrary: P) (auto simp: post_insert_ok post_remove_ok)

section \<open>A well-formed index\<close>

definition doc_of :: "search_index \<Rightarrow> str \<Rightarrow> search_doc option" where
  "doc_of X i = map_of (si_docs_by_id X) i"

definition name_of :: "search_index \<Rightarrow> str \<Rightarrow> str option" where
  "name_of X l = map_of (si_list_names X) l"

text \<open>\<open>L\<close> tells the ids of lists from those of items.\<close>

definition index_wf :: "(str \<Rightarrow> bool) \<Rightarrow> search_index \<Rightarrow> bool" where
  "index_wf L X \<longleftrightarrow>
     (\<forall>i d. doc_of X i = Some d \<longrightarrow> sd_id d = i \<and> (sd_kind d = KList \<longleftrightarrow> L i) \<and> (L i \<longrightarrow> sd_list_id d = None)) \<and>
     (\<forall>t i. i \<in> set (posted (si_postings X) t) \<longleftrightarrow> (\<exists>d. doc_of X i = Some d \<and> t \<in> set (all_tokens d))) \<and>
     (\<forall>l i. i \<in> set (posted (si_items_by_list X) l) \<longleftrightarrow> (\<exists>d. doc_of X i = Some d \<and> sd_list_id d = Some l)) \<and>
     postings_ok (si_postings X)"

lemma remove_docs: "doc_of (search_remove i X) j = (if j = i then None else doc_of X j)"
  by (auto simp: doc_of_def search_remove_def delete_conv' split: option.split)

lemma remove_names [simp]: "si_list_names (search_remove i X) = si_list_names X" "si_dirty (search_remove i X) = si_dirty X"
  by (simp_all add: search_remove_def split: option.split)

lemma insert_docs: "doc_of (insert_doc d X) j = (if j = sd_id d then Some d else doc_of X j)"
  by (simp add: doc_of_def insert_doc_def update_conv')

lemma insert_names [simp]: "si_list_names (insert_doc d X) = si_list_names X" "si_dirty (insert_doc d X) = si_dirty X"
  by (simp_all add: insert_doc_def)

lemma remove_wf:
  assumes "index_wf L X"
  shows "index_wf L (search_remove i X)"
proof (cases "doc_of X i")
  case None
  then have "search_remove i X = X" by (simp add: search_remove_def doc_of_def)
  with assms show ?thesis by simp
next
  case (Some d)
  have p: "set (posted (si_postings (search_remove i X)) t) = set (posted (si_postings X) t) - (if t \<in> set (all_tokens d) then {i} else {})" for t
    using Some by (simp add: search_remove_def doc_of_def fold_post_remove)
  have b: "set (posted (si_items_by_list (search_remove i X)) l) = set (posted (si_items_by_list X) l) - (if sd_list_id d = Some l then {i} else {})" for l
    using Some by (auto simp: search_remove_def doc_of_def posted_remove split: option.split)
  have "postings_ok (si_postings (search_remove i X))"
    using Some assms by (simp add: search_remove_def doc_of_def index_wf_def fold_post_ok)
  with assms Some show ?thesis unfolding index_wf_def p b remove_docs by (auto split: if_split_asm)
qed

lemma insert_wf:
  assumes "index_wf L X" "doc_of X (sd_id d) = None" "sd_kind d = KList \<longleftrightarrow> L (sd_id d)" "L (sd_id d) \<longrightarrow> sd_list_id d = None"
  shows "index_wf L (insert_doc d X)"
proof -
  have p: "set (posted (si_postings (insert_doc d X)) t) = set (posted (si_postings X) t) \<union> (if t \<in> set (all_tokens d) then {sd_id d} else {})" for t
    by (simp add: insert_doc_def fold_post_insert)
  have b: "set (posted (si_items_by_list (insert_doc d X)) l) = set (posted (si_items_by_list X) l) \<union> (if sd_list_id d = Some l then {sd_id d} else {})" for l
  proof (cases "sd_kind d")
    case KItem
    then show ?thesis by (auto simp: insert_doc_def posted_insert split: option.split)
  next
    case KList
    with assms(3,4) show ?thesis by (simp add: insert_doc_def)
  qed
  have "postings_ok (si_postings (insert_doc d X))"
    using assms(1) by (simp add: insert_doc_def index_wf_def fold_post_ok)
  with assms show ?thesis unfolding index_wf_def p b insert_docs by (auto split: if_split_asm)
qed

lemma wf_same:
  assumes "si_docs_by_id Y = si_docs_by_id X" "si_postings Y = si_postings X" "si_items_by_list Y = si_items_by_list X"
  shows "index_wf L Y = index_wf L X"
  using assms by (simp add: index_wf_def doc_of_def)

section \<open>Maintenance\<close>

text \<open>The name of the list an item is indexed under, as the index knows it.\<close>

definition context_name :: "search_index \<Rightarrow> item_view \<Rightarrow> str" where
  "context_name X it = (case name_of X (iv_list_id it) of None \<Rightarrow> [] | Some n \<Rightarrow> n)"

lemma list_doc_fields: "sd_id (list_doc U v) = lv_id v" "sd_kind (list_doc U v) = KList" "sd_list_id (list_doc U v) = None"
  by (simp_all add: list_doc_def)

lemma item_doc_fields: "sd_id (item_doc U c it) = iv_id it" "sd_kind (item_doc U c it) = KItem"
  "iv_list_id it \<noteq> [] \<Longrightarrow> sd_list_id (item_doc U c it) = Some (iv_list_id it)"
  by (simp_all add: item_doc_def)

lemma index_item_spec:
  assumes "index_wf L X" "\<not> L (iv_id it)"
  shows "index_wf L (index_item U it X)"
    "doc_of (index_item U it X) j = (if j = iv_id it then Some (item_doc U (context_name X it) it) else doc_of X j)"
    "name_of (index_item U it X) = name_of X" "si_dirty (index_item U it X) = si_dirty X"
proof -
  have e: "index_item U it X = insert_doc (item_doc U (context_name X it) it) (search_remove (iv_id it) X)"
    by (simp add: index_item_def Let_def context_name_def name_of_def)
  show "index_wf L (index_item U it X)" unfolding e
    by (rule insert_wf [OF remove_wf [OF assms(1)]]) (use assms(2) in \<open>simp_all add: remove_docs item_doc_fields\<close>)
  show "doc_of (index_item U it X) j = (if j = iv_id it then Some (item_doc U (context_name X it) it) else doc_of X j)"
    unfolding e by (simp add: insert_docs remove_docs item_doc_fields)
  show "name_of (index_item U it X) = name_of X" "si_dirty (index_item U it X) = si_dirty X"
    unfolding e by (simp_all add: name_of_def fun_eq_iff)
qed

lemma index_list_spec:
  assumes "index_wf L X" "L (lv_id v)"
  shows "index_wf L (index_list U v X)"
    "doc_of (index_list U v X) j = (if j = lv_id v then Some (list_doc U v) else doc_of X j)"
    "name_of (index_list U v X) = (name_of X)(lv_id v \<mapsto> lv_name v)" "si_dirty (index_list U v X) = si_dirty X"
proof -
  define X1 where "X1 = X\<lparr>si_list_names := AList.update (lv_id v) (lv_name v) (si_list_names X)\<rparr>"
  have e: "index_list U v X = insert_doc (list_doc U v) (search_remove (lv_id v) X1)"
    by (simp add: index_list_def X1_def)
  have "index_wf L X1" using assms(1) wf_same [of X1 X] by (simp add: X1_def)
  from insert_wf [OF remove_wf [OF this]] assms(2) show "index_wf L (index_list U v X)"
    unfolding e by (simp add: remove_docs list_doc_fields)
  have "doc_of X1 = doc_of X" by (simp add: doc_of_def X1_def fun_eq_iff)
  then show "doc_of (index_list U v X) j = (if j = lv_id v then Some (list_doc U v) else doc_of X j)"
    unfolding e by (simp add: insert_docs remove_docs list_doc_fields)
  show "name_of (index_list U v X) = (name_of X)(lv_id v \<mapsto> lv_name v)" "si_dirty (index_list U v X) = si_dirty X"
    unfolding e by (simp_all add: name_of_def fun_eq_iff X1_def update_conv')
qed

lemma remove_list_spec:
  assumes "index_wf L X"
  shows "index_wf L (remove_list l X)" "doc_of (remove_list l X) j = (if j = l then None else doc_of X j)"
    "name_of (remove_list l X) = (name_of X)(l := None)" "si_dirty (remove_list l X) = si_dirty X"
proof -
  define X1 where "X1 = search_remove l X"
  have e: "remove_list l X = X1\<lparr>si_list_names := AList.delete l (si_list_names X1)\<rparr>"
    by (simp add: remove_list_def X1_def Let_def)
  show "index_wf L (remove_list l X)"
    using remove_wf [OF assms, of l] wf_same [of "remove_list l X" X1] unfolding e X1_def by simp
  show "doc_of (remove_list l X) j = (if j = l then None else doc_of X j)"
    using remove_docs [of l X j] unfolding e X1_def by (simp add: doc_of_def)
  show "name_of (remove_list l X) = (name_of X)(l := None)" "si_dirty (remove_list l X) = si_dirty X"
    unfolding e by (simp_all add: name_of_def fun_eq_iff X1_def delete_conv')
qed

section \<open>Reconciling\<close>

definition source_ok :: "(str \<Rightarrow> bool) \<Rightarrow> search_source \<Rightarrow> bool" where
  "source_ok L D \<longleftrightarrow>
     (\<forall>(l, row) \<in> set (ss_list_rows D). L l \<and> (\<exists>v. row = Some v \<and> lv_id v = l)) \<and>
     (\<forall>i it. get_item D i = Some it \<longrightarrow> iv_id it = i \<and> \<not> L i \<and> iv_list_id it \<noteq> [] \<and> i \<in> set (ss_order D)) \<and>
     distinct (ss_order D)"

definition list_name :: "search_source \<Rightarrow> str \<Rightarrow> str option" where
  "list_name D l = map_option lv_name (get_list_meta D l)"

definition true_context :: "search_source \<Rightarrow> item_view \<Rightarrow> str" where
  "true_context D it = (case list_name D (iv_list_id it) of None \<Rightarrow> [] | Some n \<Rightarrow> n)"

text \<open>
  The index agrees with the doc but for the lists in \<open>DL\<close>, the items in \<open>DI\<close>, and the list name
  in the context of the items in \<open>R\<close> and of those on a list in \<open>DL\<close>.
\<close>

definition item_agrees :: "unicode \<Rightarrow> search_source \<Rightarrow> str set \<Rightarrow> str set \<Rightarrow> search_index \<Rightarrow> str \<Rightarrow> bool" where
  "item_agrees U D DL R X i \<longleftrightarrow>
     (case get_item D i of
        None \<Rightarrow> doc_of X i = None
      | Some it \<Rightarrow> \<exists>c. doc_of X i = Some (item_doc U c it) \<and>
                      (iv_list_id it \<notin> DL \<longrightarrow> i \<notin> R \<longrightarrow> c = true_context D it))"

definition agrees ::
  "(str \<Rightarrow> bool) \<Rightarrow> unicode \<Rightarrow> search_source \<Rightarrow> str set \<Rightarrow> str set \<Rightarrow> str set \<Rightarrow> search_index \<Rightarrow> bool" where
  "agrees L U D DL DI R X \<longleftrightarrow>
     index_wf L X \<and> (\<forall>l. \<not> L l \<longrightarrow> name_of X l = None) \<and>
     (\<forall>l. L l \<longrightarrow> l \<notin> DL \<longrightarrow> name_of X l = list_name D l \<and> doc_of X l = map_option (list_doc U) (get_list_meta D l)) \<and>
     (\<forall>i. \<not> L i \<longrightarrow> i \<notin> DI \<longrightarrow> item_agrees U D DL R X i)"

lemma agreesD:
  assumes "agrees L U D DL DI R X"
  shows "index_wf L X" "\<And>l. \<not> L l \<Longrightarrow> name_of X l = None"
    "\<And>l. L l \<Longrightarrow> l \<notin> DL \<Longrightarrow> name_of X l = list_name D l \<and> doc_of X l = map_option (list_doc U) (get_list_meta D l)"
    "\<And>i. \<not> L i \<Longrightarrow> i \<notin> DI \<Longrightarrow> item_agrees U D DL R X i"
  using assms by (simp_all add: agrees_def)

lemma agreesI:
  assumes "index_wf L X" "\<And>l. \<not> L l \<Longrightarrow> name_of X l = None"
    "\<And>l. L l \<Longrightarrow> l \<notin> DL \<Longrightarrow> name_of X l = list_name D l"
    "\<And>l. L l \<Longrightarrow> l \<notin> DL \<Longrightarrow> doc_of X l = map_option (list_doc U) (get_list_meta D l)"
    "\<And>i. \<not> L i \<Longrightarrow> i \<notin> DI \<Longrightarrow> item_agrees U D DL R X i"
  shows "agrees L U D DL DI R X"
  using assms by (simp add: agrees_def)

lemma get_list_meta_id: "source_ok L D \<Longrightarrow> get_list_meta D l = Some v \<Longrightarrow> lv_id v = l \<and> L l"
  by (fastforce simp: get_list_meta_def source_ok_def split: option.split_asm dest: map_of_SomeD)

lemma no_list_meta: "source_ok L D \<Longrightarrow> \<not> L l \<Longrightarrow> get_list_meta D l = None"
  by (cases "get_list_meta D l") (auto dest: get_list_meta_id)

lemma reconcile_item_agrees:
  assumes D: "source_ok L D" and a: "agrees L U D DL DI R X" and i: "\<not> L i"
  shows "agrees L U D DL (DI - {i}) (R - {i}) (reconcile_search_item U D i X)"
    "si_dirty (reconcile_search_item U D i X) = si_dirty X"
proof -
  let ?X = "reconcile_search_item U D i X"
  note A = agreesD [OF a]
  have s: "index_wf L ?X \<and> name_of ?X = name_of X \<and> si_dirty ?X = si_dirty X \<and> (\<forall>j. j \<noteq> i \<longrightarrow> doc_of ?X j = doc_of X j) \<and>
      item_agrees U D DL (R - {i}) ?X i"
  proof (cases "get_item D i")
    case None
    then show ?thesis
      using remove_wf [OF A(1)] by (simp add: reconcile_search_item_def remove_docs item_agrees_def name_of_def fun_eq_iff)
  next
    case (Some it)
    have it: "iv_id it = i" using D Some by (auto simp: source_ok_def)
    then have n: "\<not> L (iv_id it)" using i by simp
    have c: "context_name X it = true_context D it" if "iv_list_id it \<notin> DL"
      using A(2,3) [of "iv_list_id it"] no_list_meta [OF D, of "iv_list_id it"] that
      by (cases "L (iv_list_id it)") (simp_all add: context_name_def true_context_def list_name_def)
    have "item_agrees U D DL (R - {i}) (index_item U it X) i"
      using Some it c index_item_spec(2) [OF A(1) n, of U i] by (auto simp: item_agrees_def intro!: exI [of _ "context_name X it"])
    with Some it index_item_spec [OF A(1) n, where U = U] show ?thesis
      by (simp add: reconcile_search_item_def)
  qed
  then show "si_dirty ?X = si_dirty X" by blast
  have list: "doc_of ?X l = doc_of X l" if "L l" for l
  proof -
    have "l \<noteq> i" using i that by metis
    with s show ?thesis by simp
  qed
  have wf: "index_wf L ?X" and names: "name_of ?X = name_of X" using s by blast+
  show "agrees L U D DL (DI - {i}) (R - {i}) ?X"
  proof (rule agreesI)
    fix j assume j: "\<not> L j" "j \<notin> DI - {i}"
    show "item_agrees U D DL (R - {i}) ?X j"
    proof (cases "j = i")
      case False
      with s have "doc_of ?X j = doc_of X j" by blast
      with A(4) [of j] j False show ?thesis by (simp add: item_agrees_def split: option.splits)
    qed (use s in blast)
  next
    fix l assume l: "L l" "l \<notin> DL"
    show "name_of ?X l = list_name D l" unfolding names using A(3) [OF l] by blast
    show "doc_of ?X l = map_option (list_doc U) (get_list_meta D l)" unfolding list [OF l(1)] using A(3) [OF l] by blast
  next
    fix l assume l: "\<not> L l"
    show "name_of ?X l = None" unfolding names by (rule A(2) [OF l])
  qed (rule wf)
qed

lemma reconcile_items_agree:
  assumes D: "source_ok L D" and "agrees L U D DL DI R X" "\<forall>i \<in> set ids. \<not> L i"
  shows "agrees L U D DL (DI - set ids) (R - set ids) (fold (reconcile_search_item U D) ids X) \<and>
         si_dirty (fold (reconcile_search_item U D) ids X) = si_dirty X"
  using assms(2,3)
proof (induction ids arbitrary: X DI R)
  case (Cons i ids)
  have i: "\<not> L i" using Cons.prems(2) by simp
  note S = reconcile_item_agrees [OF D Cons.prems(1) i]
  have "A - {i} - set ids = A - set (i # ids)" for A by auto
  with Cons.IH [OF S(1)] Cons.prems(2) S(2) show ?case by simp
qed simp

lemma agrees_weaken:
  assumes a: "agrees L U D DL DI R X" and "DI \<subseteq> DI'" "\<And>i. get_item D i \<noteq> None \<Longrightarrow> i \<notin> DI' \<Longrightarrow> i \<in> R \<Longrightarrow> i \<in> R'"
  shows "agrees L U D DL DI' R' X"
proof -
  have "item_agrees U D DL R' X i" if i: "\<not> L i" "i \<notin> DI'" for i
  proof -
    have "i \<notin> DI" using i assms(2) by blast
    from agreesD(4) [OF a i(1) this] i assms(3) [of i] show ?thesis by (auto simp: item_agrees_def split: option.splits)
  qed
  with a show ?thesis unfolding agrees_def by blast
qed

lemma list_op_agrees:
  assumes D: "source_ok L D" and a: "agrees L U D DL DI R X" and l: "L l"
    and X1: "X1 = (case get_list_meta D l of Some v \<Rightarrow> index_list U v X | None \<Rightarrow> remove_list l X)"
  shows "agrees L U D (DL - {l}) DI (R \<union> set (item_ids_in_list X1 l)) X1" "si_dirty X1 = si_dirty X"
    "\<forall>i \<in> set (item_ids_in_list X1 l). \<not> L i"
proof -
  note A = agreesD [OF a]
  have s: "index_wf L X1 \<and> si_dirty X1 = si_dirty X \<and> name_of X1 = (name_of X)(l := list_name D l) \<and>
      (\<forall>j. doc_of X1 j = (if j = l then map_option (list_doc U) (get_list_meta D l) else doc_of X j))"
  proof (cases "get_list_meta D l")
    case None
    then show ?thesis using remove_list_spec [OF A(1), of l] by (simp add: X1 list_name_def)
  next
    case (Some v)
    then have v: "lv_id v = l" by (simp add: get_list_meta_id [OF D])
    with l have "L (lv_id v)" by simp
    from index_list_spec [OF A(1) this, of U] Some v show ?thesis by (simp add: X1 list_name_def)
  qed
  show "si_dirty X1 = si_dirty X" using s by blast
  have wf: "index_wf L X1" and names: "name_of X1 = (name_of X)(l := list_name D l)" using s by blast+
  have doc_l: "doc_of X1 l = map_option (list_doc U) (get_list_meta D l)" using s by simp
  have docs: "doc_of X1 j = doc_of X j" if "j \<noteq> l" for j using s that by simp
  have b: "i \<in> set (item_ids_in_list X1 l) \<longleftrightarrow> (\<exists>d. doc_of X1 i = Some d \<and> sd_list_id d = Some l)" for i
    using wf by (simp add: item_ids_in_list_def index_wf_def)
  have "\<not> L i" if "doc_of X1 i = Some d" "sd_list_id d = Some l" for i d
  proof
    assume "L i"
    with wf that(1) have "sd_list_id d = None" unfolding index_wf_def by blast
    with that(2) show False by simp
  qed
  then show "\<forall>i \<in> set (item_ids_in_list X1 l). \<not> L i" using b by blast
  show "agrees L U D (DL - {l}) DI (R \<union> set (item_ids_in_list X1 l)) X1"
  proof (rule agreesI)
    fix i assume i: "\<not> L i" "i \<notin> DI"
    have "i \<noteq> l" using i(1) l by metis
    then have e: "doc_of X1 i = doc_of X i" by (rule docs)
    show "item_agrees U D (DL - {l}) (R \<union> set (item_ids_in_list X1 l)) X1 i"
    proof (cases "get_item D i")
      case None
      with A(4) [OF i] e show ?thesis by (simp add: item_agrees_def)
    next
      case (Some it)
      with A(4) [OF i] obtain c where c: "doc_of X i = Some (item_doc U c it)"
          "iv_list_id it \<notin> DL \<Longrightarrow> i \<notin> R \<Longrightarrow> c = true_context D it" by (auto simp: item_agrees_def)
      have "iv_list_id it \<noteq> []" using D Some by (simp add: source_ok_def)
      then have "i \<in> set (item_ids_in_list X1 l)" if "iv_list_id it = l"
        unfolding b e c(1) using that item_doc_fields(3) [of it U c] by simp
      with Some c e show ?thesis by (auto simp: item_agrees_def intro!: exI [of _ c])
    qed
  next
    fix m assume m: "L m" "m \<notin> DL - {l}"
    show "name_of X1 m = list_name D m"
      using A(3) [of m] m by (cases "m = l") (simp_all add: names)
    show "doc_of X1 m = map_option (list_doc U) (get_list_meta D m)"
      using A(3) [of m] m docs [of m] doc_l by (cases "m = l") simp_all
  next
    fix m assume m: "\<not> L m"
    then show "name_of X1 m = None" using A(2) [of m] l by (cases "m = l") (simp_all add: names)
  qed (rule wf)
qed

lemma reconcile_list_agrees:
  assumes D: "source_ok L D" and a: "agrees L U D DL DI {} X" and l: "L l"
  shows "agrees L U D (DL - {l}) DI {} (reconcile_search_list U D l X)"
    "si_dirty (reconcile_search_list U D l X) = si_dirty X"
proof -
  define X1 where "X1 = (case get_list_meta D l of Some v \<Rightarrow> index_list U v X | None \<Rightarrow> remove_list l X)"
  note S = list_op_agrees [OF D a l X1_def]
  have e: "reconcile_search_list U D l X = fold (reconcile_search_item U D) (item_ids_in_list X1 l) X1"
    by (simp add: reconcile_search_list_def X1_def Let_def)
  note F = reconcile_items_agree [OF D S(1,3)]
  show "agrees L U D (DL - {l}) DI {} (reconcile_search_list U D l X)"
    unfolding e by (rule agrees_weaken [OF F [THEN conjunct1]]) auto
  show "si_dirty (reconcile_search_list U D l X) = si_dirty X" unfolding e using F S(2) by simp
qed

lemma reconcile_lists_agree:
  assumes D: "source_ok L D" and "agrees L U D DL DI {} X" "\<forall>l \<in> set ls. L l"
  shows "agrees L U D (DL - set ls) DI {} (fold (reconcile_search_list U D) ls X) \<and>
         si_dirty (fold (reconcile_search_list U D) ls X) = si_dirty X"
  using assms(2,3)
proof (induction ls arbitrary: X DL)
  case (Cons l ls)
  have "L l" using Cons.prems(2) by simp
  note S = reconcile_list_agrees [OF D Cons.prems(1) this]
  have "DL - {l} - set ls = DL - set (l # ls)" by auto
  with Cons.IH [OF S(1)] Cons.prems(2) S(2) show ?case by simp
qed simp

end
