(* ===== verification/Search_Exact.thy ===== *)
theory Search_Exact
  imports Search_Props "HOL-Library.Multiset"
begin

text \<open>
  The search index answers as if it were built for the question: through any changes of the doc whose
  events name what they touch, \<open>Doc::search\<close> gives what ranking every item and list of the doc gives.
\<close>

section \<open>Rebuilding\<close>

definition rows_ok :: "(str \<times> list_view option) list \<Rightarrow> bool" where
  "rows_ok rows \<longleftrightarrow> (\<forall>(l, row) \<in> set rows. \<exists>v. row = Some v \<and> lv_id v = l)"

lemma rows_ok_Cons: "rows_ok ((l, row) # rows) \<longleftrightarrow> (\<exists>v. row = Some v \<and> lv_id v = l) \<and> rows_ok rows"
  by (simp add: rows_ok_def)

lemma all_lists_loop_set:
  "rows_ok rows \<Longrightarrow> set (all_lists_loop rows seen) = {v. lv_id v \<notin> set seen \<and> map_of rows (lv_id v) = Some (Some v)}"
  by (induction rows seen rule: all_lists_loop.induct) (auto simp: rows_ok_Cons split: if_split_asm)

lemma all_lists_loop_distinct: "rows_ok rows \<Longrightarrow> distinct (map lv_id (all_lists_loop rows seen))"
  by (induction rows seen rule: all_lists_loop.induct) (auto simp: rows_ok_Cons all_lists_loop_set)

lemma source_rows_ok: "source_ok L D \<Longrightarrow> rows_ok (ss_list_rows D)"
  by (auto simp: source_ok_def rows_ok_def)

lemma all_lists_set:
  assumes "source_ok L D"
  shows "set (all_lists D) = {v. get_list_meta D (lv_id v) = Some v}"
  by (auto simp: all_lists_def all_lists_loop_set [OF source_rows_ok [OF assms]] get_list_meta_def split: option.split_asm)

lemma all_lists_distinct: "source_ok L D \<Longrightarrow> distinct (map lv_id (all_lists D))"
  unfolding all_lists_def by (rule all_lists_loop_distinct [OF source_rows_ok])

lemma map_filter_set: "set (List.map_filter f xs) = {y. \<exists>x \<in> set xs. f x = Some y}"
  by (induction xs) (auto simp: map_filter_simps split: option.split)

lemma map_filter_distinct:
  "distinct xs \<Longrightarrow> (\<And>x y. x \<in> set xs \<Longrightarrow> f x = Some y \<Longrightarrow> h y = x) \<Longrightarrow> distinct (map h (List.map_filter f xs))"
proof (induction xs)
  case (Cons x xs)
  have IH: "distinct (map h (List.map_filter f xs))" using Cons by simp
  show ?case
  proof (cases "f x")
    case (Some y)
    have "h z \<noteq> h y" if "z \<in> set (List.map_filter f xs)" for z
    proof -
      from that obtain u where u: "u \<in> set xs" "f u = Some z" by (auto simp: map_filter_set)
      have "h z = u" "h y = x" using Cons.prems(2) [of u z] Cons.prems(2) [of x y] u Some by simp_all
      with u(1) Cons.prems(1) show ?thesis by auto
    qed
    then have "h y \<notin> h ` set (List.map_filter f xs)" by (metis imageE)
    with IH Some show ?thesis by (simp add: map_filter_simps)
  qed (use IH in \<open>simp add: map_filter_simps\<close>)
qed (simp add: map_filter_simps)

lemma get_item_id: "source_ok L D \<Longrightarrow> get_item D i = Some it \<Longrightarrow> iv_id it = i \<and> \<not> L i \<and> i \<in> set (ss_order D)"
  by (simp add: source_ok_def)

lemma iter_items_set:
  assumes D: "source_ok L D"
  shows "set (iter_items D) = {it. get_item D (iv_id it) = Some it}"
  using get_item_id [OF D] by (auto simp: iter_items_def map_filter_set)

lemma iter_items_distinct:
  assumes D: "source_ok L D"
  shows "distinct (map iv_id (iter_items D))"
  unfolding iter_items_def
  by (rule map_filter_distinct) (use D get_item_id [OF D] in \<open>auto simp: source_ok_def\<close>)

text \<open>The ids of the lists and of the items the doc has.\<close>

definition stored_lists :: "search_source \<Rightarrow> str set" where
  "stored_lists D = {l. get_list_meta D l \<noteq> None}"

definition stored_items :: "search_source \<Rightarrow> str set" where
  "stored_items D = {i. get_item D i \<noteq> None}"

lemma all_lists_ids:
  assumes D: "source_ok L D"
  shows "lv_id ` set (all_lists D) = stored_lists D"
proof (rule set_eqI)
  fix l
  have "l \<in> lv_id ` set (all_lists D) \<longleftrightarrow> (\<exists>v. get_list_meta D l = Some v \<and> lv_id v = l)"
    unfolding all_lists_set [OF D] by (simp only: image_iff mem_Collect_eq bex_simps) metis
  also have "\<dots> \<longleftrightarrow> l \<in> stored_lists D"
    unfolding stored_lists_def using get_list_meta_id [OF D, of l] by (simp only: mem_Collect_eq not_None_eq) metis
  finally show "l \<in> lv_id ` set (all_lists D) \<longleftrightarrow> l \<in> stored_lists D" .
qed

lemma iter_items_ids:
  assumes D: "source_ok L D"
  shows "iv_id ` set (iter_items D) = stored_items D"
proof (rule set_eqI)
  fix i
  have "i \<in> iv_id ` set (iter_items D) \<longleftrightarrow> (\<exists>v. get_item D i = Some v \<and> iv_id v = i)"
    unfolding iter_items_set [OF D] by (simp only: image_iff mem_Collect_eq bex_simps) metis
  also have "\<dots> \<longleftrightarrow> i \<in> stored_items D"
    unfolding stored_items_def using get_item_id [OF D, of i] by (simp only: mem_Collect_eq not_None_eq) metis
  finally show "i \<in> iv_id ` set (iter_items D) \<longleftrightarrow> i \<in> stored_items D" .
qed

lemma clear_agrees:
  "agrees L U D (stored_lists D) (stored_items D) {} (search_clear X)" "si_dirty (search_clear X) = si_dirty X"
proof -
  show "agrees L U D (stored_lists D) (stored_items D) {} (search_clear X)"
    by (rule agreesI) (simp_all add: stored_lists_def stored_items_def index_wf_def postings_ok_def posted_def doc_of_def
        name_of_def search_clear_def list_name_def item_agrees_def)
qed (simp add: search_clear_def)

lemma index_lists_agree:
  assumes D: "source_ok L D" and "agrees L U D DL (stored_items D) {} X" "\<forall>v \<in> set vs. get_list_meta D (lv_id v) = Some v"
  shows "agrees L U D (DL - lv_id ` set vs) (stored_items D) {} (fold (index_list U) vs X) \<and>
         si_dirty (fold (index_list U) vs X) = si_dirty X"
  using assms(2,3)
proof (induction vs arbitrary: X DL)
  case (Cons v vs)
  have v: "get_list_meta D (lv_id v) = Some v" using Cons.prems(2) by simp
  from get_list_meta_id [OF D v] have l: "L (lv_id v)" by (rule conjunct2)
  have "index_list U v X = (case get_list_meta D (lv_id v) of Some v \<Rightarrow> index_list U v X | None \<Rightarrow> remove_list (lv_id v) X)"
    unfolding v by simp
  note S = list_op_agrees [OF D Cons.prems(1) l this]
  have "agrees L U D (DL - {lv_id v}) (stored_items D) {} (index_list U v X)"
    by (rule agrees_weaken [OF S(1)]) (simp_all add: stored_items_def)
  moreover have "DL - {lv_id v} - lv_id ` set vs = DL - lv_id ` set (v # vs)" by auto
  ultimately show ?case using Cons.IH [of "DL - {lv_id v}" "index_list U v X"] Cons.prems(2) S(2) by simp
qed simp

lemma rebuild_agrees:
  assumes D: "source_ok L D"
  shows "agrees L U D {} {} {} (search_rebuild U (all_lists D) (iter_items D) X)"
    "si_dirty (search_rebuild U (all_lists D) (iter_items D) X) = si_dirty X"
proof -
  define X1 where "X1 = fold (index_list U) (all_lists D) (search_clear X)"
  have "\<forall>v \<in> set (all_lists D). get_list_meta D (lv_id v) = Some v" by (simp add: all_lists_set [OF D])
  from index_lists_agree [OF D clear_agrees(1) this, of U X]
  have X1: "agrees L U D {} (stored_items D) {} X1" "si_dirty X1 = si_dirty X"
    by (simp_all add: X1_def all_lists_ids [OF D] clear_agrees(2))
  have "get_item D (iv_id it) = Some it" if "it \<in> set (iter_items D)" for it
    using that by (simp add: iter_items_set [OF D])
  then have "fold (index_item U) (iter_items D) X1 = fold (reconcile_search_item U D) (map iv_id (iter_items D)) X1"
    unfolding fold_map by (intro fold_cong) (simp_all add: reconcile_search_item_def fun_eq_iff)
  then have e: "search_rebuild U (all_lists D) (iter_items D) X = fold (reconcile_search_item U D) (map iv_id (iter_items D)) X1"
    by (simp add: search_rebuild_def X1_def)
  have "\<not> L i" if i: "i \<in> stored_items D" for i
  proof -
    from i obtain it where "get_item D i = Some it" by (auto simp: stored_items_def)
    from get_item_id [OF D this] show ?thesis by simp
  qed
  then have "\<forall>i \<in> set (map iv_id (iter_items D)). \<not> L i" by (simp only: set_map iter_items_ids [OF D]) blast
  note F = reconcile_items_agree [OF D X1(1) this]
  show "agrees L U D {} {} {} (search_rebuild U (all_lists D) (iter_items D) X)"
    using F unfolding e by (simp add: iter_items_ids [OF D])
  show "si_dirty (search_rebuild U (all_lists D) (iter_items D) X) = si_dirty X" unfolding e using F X1(2) by simp
qed

section \<open>Queries\<close>

text \<open>The specification: score every entry, sort, cut off.\<close>

definition ranked :: "unicode \<Rightarrow> search_doc list \<Rightarrow> str \<Rightarrow> nat \<Rightarrow> search_result list" where
  "ranked U docs input limit =
     (let tokens = tokenize U input
      in if tokens = [] then []
         else map result_of (take limit (sort_key scored_key
                (List.map_filter (\<lambda>d. score_doc d (butlast tokens) (last tokens)) docs))))"

lemma score_loop_tokens: "score_loop d ts acc \<noteq> None \<Longrightarrow> set ts \<subseteq> set (all_tokens d)"
  by (induction d ts acc rule: score_loop.induct) (auto simp: all_tokens_def split: if_split_asm)

lemma starts_with_self [simp]: "starts_with t t"
  by (simp add: starts_with_def)

lemma any_starts_with_iff: "any_starts_with ts p \<longleftrightarrow> (\<exists>t \<in> set ts. starts_with t p)"
  by (simp add: any_starts_with_def list_ex_iff)

lemma score_doc_tokens:
  assumes "score_doc d ex fin = Some s"
  shows "set ex \<subseteq> set (all_tokens d)" "\<exists>t \<in> set (all_tokens d). starts_with t fin" "sc_doc s = d"
proof -
  from assms obtain te b c where l: "score_loop d ex (0, 0, 0) = Some (te, b, c)"
    by (auto simp: score_doc_def split: option.split_asm)
  then show "set ex \<subseteq> set (all_tokens d)" using score_loop_tokens by fastforce
  show "sc_doc s = d" using assms l by (auto simp: score_doc_def make_scored_def split: if_split_asm)
  have "fin \<in> set (all_tokens d) \<or> (\<exists>t \<in> set (all_tokens d). starts_with t fin)"
    using assms l by (auto simp: score_doc_def any_starts_with_iff all_tokens_def split: if_split_asm)
  then show "\<exists>t \<in> set (all_tokens d). starts_with t fin" using starts_with_self by blast
qed

definition among :: "str \<Rightarrow> str list option \<Rightarrow> bool" where
  "among i acc \<longleftrightarrow> (case acc of None \<Rightarrow> True | Some a \<Rightarrow> i \<in> set a)"

definition acc_distinct :: "str list option \<Rightarrow> bool" where
  "acc_distinct acc \<longleftrightarrow> (case acc of None \<Rightarrow> True | Some a \<Rightarrow> distinct a)"

lemma intersect_among: "i \<in> set (intersect acc s) \<longleftrightarrow> among i acc \<and> i \<in> set s"
  by (auto simp: intersect_def among_def split: option.split)

lemma intersect_distinct: "acc_distinct acc \<Longrightarrow> distinct s \<Longrightarrow> distinct (intersect acc s)"
  by (cases acc) (simp_all add: intersect_def acc_distinct_def)

lemma posted_Some: "i \<in> set (posted P t) \<Longrightarrow> map_of P t = Some (posted P t)"
  by (cases "map_of P t") (simp_all add: posted_def)

text \<open>No candidate is lost: not to an early return, and not to an intersection.\<close>

lemma candidates_keep:
  "\<forall>t \<in> set ts. i \<in> set (posted P t) \<Longrightarrow> among i acc \<Longrightarrow>
   \<exists>acc'. candidates_loop P ts acc = Some acc' \<and> among i acc'"
proof (induction ts arbitrary: acc)
  case (Cons t ts)
  define a where "a = intersect acc (posted P t)"
  have t: "i \<in> set (posted P t)" using Cons.prems(1) by simp
  with Cons.prems(2) have a: "i \<in> set a" unfolding a_def intersect_among by simp
  then have "a \<noteq> []" "among i (Some a)" by (auto simp: among_def)
  with Cons.IH [of "Some a"] Cons.prems(1) show ?case by (simp add: posted_Some [OF t] Let_def flip: a_def)
qed simp

lemma candidates_distinct:
  "postings_ok P \<Longrightarrow> acc_distinct acc \<Longrightarrow> candidates_loop P ts acc = Some acc' \<Longrightarrow> acc_distinct acc'"
proof (induction ts arbitrary: acc)
  case (Cons t ts)
  then obtain s where s: "map_of P t = Some s" "candidates_loop P ts (Some (intersect acc s)) = Some acc'"
    by (auto simp: Let_def split: option.split_asm if_split_asm)
  have "distinct s" using postings_okD(3) [OF Cons.prems(1), of t] s(1) by (simp add: posted_def)
  then have "acc_distinct (Some (intersect acc s))" using intersect_distinct [OF Cons.prems(2)] by (simp add: acc_distinct_def)
  from Cons.IH [OF Cons.prems(1) this s(2)] show ?case .
qed simp

lemma prefix_candidates_iff:
  "distinct (map fst P) \<Longrightarrow> i \<in> set (prefix_candidates P p) \<longleftrightarrow> (\<exists>t. starts_with t p \<and> i \<in> set (posted P t))"
  by (auto simp: prefix_candidates_def posted_def split: option.split_asm dest: map_of_SomeD intro: map_of_is_SomeI)

lemma sort_key_same:
  assumes "set xs = set ys" "distinct (map h xs)" "distinct (map h ys)" "inj_on f (set xs)"
  shows "sort_key f xs = sort_key f ys"
proof (rule sort_key_inj_key_eq)
  have "distinct xs" "distinct ys" using assms(2,3) by (simp_all add: distinct_map)
  with assms(1) show "mset xs = mset (sort_key f ys)" by (simp add: set_eq_iff_mset_eq_distinct)
qed (use assms(4) in simp_all)

text \<open>Whatever scores is a candidate.\<close>

lemma scored_is_candidate:
  assumes wf: "index_wf L X" and d: "doc_of X i = Some d" "score_doc d ex fin = Some s"
  shows "\<exists>acc. candidates_loop (si_postings X) ex None = Some acc \<and>
           i \<in> set (intersect acc (prefix_candidates (si_postings X) fin))"
proof -
  have ok: "postings_ok (si_postings X)" using wf by (simp add: index_wf_def)
  have post: "i \<in> set (posted (si_postings X) t)" if "t \<in> set (all_tokens d)" for t
    using wf d(1) that unfolding index_wf_def by blast
  note T = score_doc_tokens [OF d(2)]
  from T(1) post have "\<forall>t \<in> set ex. i \<in> set (posted (si_postings X) t)" by blast
  from candidates_keep [OF this, of None] obtain acc
    where acc: "candidates_loop (si_postings X) ex None = Some acc" "among i acc" by (auto simp: among_def)
  have "i \<in> set (prefix_candidates (si_postings X) fin)"
    using T(2) post by (auto simp: prefix_candidates_iff [OF postings_okD(1) [OF ok]])
  with acc show ?thesis by (auto simp: intersect_among)
qed

lemma hits_distinct: "distinct docs \<Longrightarrow> distinct (map sc_doc (List.map_filter (\<lambda>d. score_doc d ex fin) docs))"
  by (rule map_filter_distinct) (auto dest: score_doc_tokens(3))

lemma hits_key_inj:
  assumes "distinct (map sd_id docs)"
  shows "inj_on scored_key (set (List.map_filter (\<lambda>d. score_doc d ex fin) docs))"
proof (rule inj_onI)
  fix s s' assume h: "s \<in> set (List.map_filter (\<lambda>d. score_doc d ex fin) docs)"
    "s' \<in> set (List.map_filter (\<lambda>d. score_doc d ex fin) docs)" "scored_key s = scored_key s'"
  then obtain d d' where d: "d \<in> set docs" "score_doc d ex fin = Some s" "d' \<in> set docs" "score_doc d' ex fin = Some s'"
    by (auto simp: map_filter_set)
  have "sd_id d = sd_id d'"
    using h(3) score_doc_tokens(3) [OF d(2)] score_doc_tokens(3) [OF d(4)] by (simp add: scored_key_def)
  moreover have "inj_on sd_id (set docs)" using assms by (simp add: distinct_map)
  ultimately have "d = d'" using d(1,3) inj_onD by metis
  with d(2,4) show "s = s'" by simp
qed

text \<open>Scoring the candidates gives the hits of scoring every entry.\<close>

lemma candidate_hits:
  assumes wf: "index_wf L X" and docs: "\<And>d. d \<in> set docs \<longleftrightarrow> doc_of X (sd_id d) = Some d"
    and acc: "candidates_loop (si_postings X) ex None = Some acc"
    and C: "C = intersect acc (prefix_candidates (si_postings X) fin)"
  shows "set (List.map_filter (\<lambda>d. score_doc d ex fin) (List.map_filter (doc_of X) C)) =
         set (List.map_filter (\<lambda>d. score_doc d ex fin) docs)"
    and "distinct (List.map_filter (doc_of X) C)"
proof -
  have ok: "postings_ok (si_postings X)" using wf by (simp add: index_wf_def)
  have ids: "sd_id d = i" if "doc_of X i = Some d" for i d using wf that by (simp add: index_wf_def)
  have "distinct C" unfolding C using candidates_distinct [OF ok _ acc]
    by (intro intersect_distinct) (simp_all add: acc_distinct_def prefix_candidates_def)
  then have "distinct (map sd_id (List.map_filter (doc_of X) C))" by (rule map_filter_distinct) (rule ids)
  then show "distinct (List.map_filter (doc_of X) C)" by (simp add: distinct_map)
  have 1: "d \<in> set docs" if "d \<in> set (List.map_filter (doc_of X) C)" for d
  proof -
    from that obtain i where "doc_of X i = Some d" by (auto simp: map_filter_set)
    with ids [OF this] docs [of d] show ?thesis by simp
  qed
  have 2: "d \<in> set (List.map_filter (doc_of X) C)" if "d \<in> set docs" "score_doc d ex fin = Some s" for d s
  proof -
    have d: "doc_of X (sd_id d) = Some d" using that(1) docs by simp
    from scored_is_candidate [OF wf d that(2)] acc have "sd_id d \<in> set C" by (simp add: C)
    with d show ?thesis unfolding map_filter_set by blast
  qed
  show "set (List.map_filter (\<lambda>d. score_doc d ex fin) (List.map_filter (doc_of X) C)) =
        set (List.map_filter (\<lambda>d. score_doc d ex fin) docs)"
  proof (rule set_eqI)
    fix s
    from 1 2 [of _ s] have "(\<exists>d \<in> set (List.map_filter (doc_of X) C). score_doc d ex fin = Some s) \<longleftrightarrow>
        (\<exists>d \<in> set docs. score_doc d ex fin = Some s)" by blast
    then show "s \<in> set (List.map_filter (\<lambda>d. score_doc d ex fin) (List.map_filter (doc_of X) C)) \<longleftrightarrow>
        s \<in> set (List.map_filter (\<lambda>d. score_doc d ex fin) docs)"
      unfolding map_filter_set [of "\<lambda>d. score_doc d ex fin"] by simp
  qed
qed

lemma query_exact:
  assumes wf: "index_wf L X" and docs: "\<And>d. d \<in> set docs \<longleftrightarrow> doc_of X (sd_id d) = Some d" and dd: "distinct (map sd_id docs)"
  shows "search_query U input limit X = ranked U docs input limit"
proof (cases "tokenize U input = []")
  case True
  then show ?thesis by (simp add: search_query_def ranked_def)
next
  case False
  define ex fin where "ex = butlast (tokenize U input)" and "fin = last (tokenize U input)"
  define hits where "hits = List.map_filter (\<lambda>d. score_doc d ex fin) docs"
  have spec: "ranked U docs input limit = map result_of (take limit (sort_key scored_key hits))"
    using False by (simp add: ranked_def hits_def ex_def fin_def Let_def)
  note query = search_query_def ex_def [symmetric] fin_def [symmetric] Let_def
  have cand: "\<exists>acc. candidates_loop (si_postings X) ex None = Some acc \<and>
      sd_id d \<in> set (intersect acc (prefix_candidates (si_postings X) fin))"
    if "d \<in> set docs" "score_doc d ex fin = Some s" for d s
    using scored_is_candidate [OF wf] docs that by blast
  have early: "hits = []" if "candidates_loop (si_postings X) ex None = None \<or> prefix_candidates (si_postings X) fin = []"
  proof -
    have "score_doc d ex fin \<noteq> Some s" if "d \<in> set docs" for d s
      using cand [OF that, of s] \<open>_ \<or> _\<close> by (auto simp: intersect_among)
    then have "set hits = {}" by (auto simp: hits_def map_filter_set)
    then show ?thesis by simp
  qed
  show ?thesis
  proof (cases "candidates_loop (si_postings X) ex None")
    case None
    with early False show ?thesis by (simp add: query spec)
  next
    case (Some acc)
    define C where "C = intersect acc (prefix_candidates (si_postings X) fin)"
    have q: "search_query U input limit X = (if prefix_candidates (si_postings X) fin = [] then []
        else map result_of (take limit (sort_key scored_key
               (List.map_filter (\<lambda>d. score_doc d ex fin) (List.map_filter (doc_of X) C)))))"
      using False Some by (simp add: query C_def doc_of_def [abs_def])
    note S = candidate_hits [OF wf docs Some C_def]
    have "distinct docs" using dd by (simp add: distinct_map)
    from sort_key_same [where f = scored_key, OF S(1) hits_distinct [OF S(2)] hits_distinct [OF this]]
      hits_key_inj [OF dd, of ex fin] S(1)
    have "sort_key scored_key (List.map_filter (\<lambda>d. score_doc d ex fin) (List.map_filter (doc_of X) C)) = sort_key scored_key hits"
      by (simp add: hits_def)
    with q spec early show ?thesis by simp
  qed
qed

section \<open>Entries of a doc\<close>

definition fresh_docs :: "unicode \<Rightarrow> search_source \<Rightarrow> search_doc list" where
  "fresh_docs U D = map (list_doc U) (all_lists D) @ map (\<lambda>it. item_doc U (true_context D it) it) (iter_items D)"

lemma fresh_docs_distinct:
  assumes D: "source_ok L D"
  shows "distinct (map sd_id (fresh_docs U D))"
proof -
  have "L (lv_id v)" if "v \<in> set (all_lists D)" for v
    using that get_list_meta_id [OF D, of "lv_id v" v] by (simp add: all_lists_set [OF D])
  moreover have "\<not> L (iv_id it)" if "it \<in> set (iter_items D)" for it
    using that get_item_id [OF D, of "iv_id it" it] by (simp add: iter_items_set [OF D])
  ultimately have "lv_id ` set (all_lists D) \<inter> iv_id ` set (iter_items D) = {}" by (smt (verit) disjoint_iff imageE)
  then show ?thesis
    using all_lists_distinct [OF D] iter_items_distinct [OF D]
    by (simp add: fresh_docs_def o_def list_doc_fields item_doc_fields)
qed

lemma fresh_docs_iff:
  assumes D: "source_ok L D" and a: "agrees L U D {} {} {} X"
  shows "d \<in> set (fresh_docs U D) \<longleftrightarrow> doc_of X (sd_id d) = Some d"
proof (cases "L (sd_id d)")
  case True
  have "d \<in> set (fresh_docs U D) \<longleftrightarrow> (\<exists>v. get_list_meta D (sd_id d) = Some v \<and> d = list_doc U v)"
  proof
    assume "d \<in> set (fresh_docs U D)"
    then consider v where "v \<in> set (all_lists D)" "d = list_doc U v"
      | it where "it \<in> set (iter_items D)" "sd_id d = iv_id it" by (auto simp: fresh_docs_def item_doc_fields)
    then show "\<exists>v. get_list_meta D (sd_id d) = Some v \<and> d = list_doc U v"
    proof cases
      case 1
      then show ?thesis by (auto simp: all_lists_set [OF D] list_doc_fields)
    next
      case 2
      then show ?thesis using True get_item_id [OF D, of "iv_id it" it] by (simp add: iter_items_set [OF D])
    qed
  next
    assume "\<exists>v. get_list_meta D (sd_id d) = Some v \<and> d = list_doc U v"
    then show "d \<in> set (fresh_docs U D)" by (auto simp: fresh_docs_def all_lists_set [OF D] list_doc_fields)
  qed
  with agreesD(3) [OF a True] show ?thesis by auto
next
  case False
  have "d \<in> set (fresh_docs U D) \<longleftrightarrow> (\<exists>it. get_item D (sd_id d) = Some it \<and> d = item_doc U (true_context D it) it)"
  proof
    assume "d \<in> set (fresh_docs U D)"
    then consider v where "v \<in> set (all_lists D)" "sd_id d = lv_id v"
      | it where "it \<in> set (iter_items D)" "d = item_doc U (true_context D it) it" by (auto simp: fresh_docs_def list_doc_fields)
    then show "\<exists>it. get_item D (sd_id d) = Some it \<and> d = item_doc U (true_context D it) it"
    proof cases
      case 1
      then show ?thesis using False get_list_meta_id [OF D, of "lv_id v" v] by (simp add: all_lists_set [OF D])
    next
      case 2
      then show ?thesis by (auto simp: iter_items_set [OF D] item_doc_fields)
    qed
  next
    assume "\<exists>it. get_item D (sd_id d) = Some it \<and> d = item_doc U (true_context D it) it"
    then show "d \<in> set (fresh_docs U D)" by (auto simp: fresh_docs_def iter_items_set [OF D] item_doc_fields)
  qed
  with agreesD(4) [OF a False] show ?thesis by (auto simp: item_agrees_def split: option.split_asm)
qed

lemma query_fresh:
  assumes "source_ok L D" "agrees L U D {} {} {} X"
  shows "search_query U input limit X = ranked U (fresh_docs U D) input limit"
  using query_exact [OF agreesD(1) [OF assms(2)] fresh_docs_iff [OF assms] fresh_docs_distinct [OF assms(1)]] .

end
