(* ===== verification/Search_Run.thy ===== *)
theory Search_Run
  imports Search_Exact
begin

text \<open>
  The life of a search index beside its doc: it is born dirty, hears of the doc's events through
  \<open>Doc::push_event\<close>, is marked dirty as a whole by \<open>Doc::rebuild_index\<close>, and answers queries.
\<close>

section \<open>What events name\<close>

text \<open>The item, and the list, an event says to have changed in what the index holds of it.\<close>

fun named_item :: "app_event \<Rightarrow> str option" where
  "named_item (ItemAdded v _) = Some (iv_id v)"
| "named_item (ItemRemoved i) = Some i"
| "named_item (ItemTextChanged i _) = Some i"
| "named_item (ItemNotesChanged i _) = Some i"
| "named_item (ItemNotesDelta i _) = Some i"
| "named_item (ItemLifecycleChanged i _ _ _ _ _ _) = Some i"
| "named_item (ItemListChanged i _ _) = Some i"
| "named_item _ = None"

fun named_list :: "app_event \<Rightarrow> str option" where
  "named_list (ListAdded l _ _ _ _) = Some l"
| "named_list (ListRemoved l) = Some l"
| "named_list (ListRenamed l _) = Some l"
| "named_list _ = None"

definition items_named :: "app_event list \<Rightarrow> str set" where
  "items_named evs = {i. \<exists>ev \<in> set evs. named_item ev = Some i}"

definition lists_named :: "app_event list \<Rightarrow> str set" where
  "lists_named evs = {l. \<exists>ev \<in> set evs. named_list ev = Some l}"

definition item_content :: "item_view \<Rightarrow> str \<times> str \<times> str \<times> str \<times> workflow_state \<times> int \<times> int option" where
  "item_content it = (iv_id it, iv_text it, iv_notes it, iv_list_id it, iv_state it, iv_lifecycle_at it, iv_binned_at it)"

definition list_content :: "list_view \<Rightarrow> str \<times> str \<times> int" where
  "list_content v = (lv_id v, lv_name v, lv_created_at v)"

text \<open>
  A change of the doc from \<open>D\<close> to \<open>D'\<close> under the events \<open>evs\<close>: an item or list they do not name has
  the content it had, and they name items as items and lists as lists.
\<close>

definition reported :: "(str \<Rightarrow> bool) \<Rightarrow> app_event list \<Rightarrow> search_source \<Rightarrow> search_source \<Rightarrow> bool" where
  "reported L evs D D' \<longleftrightarrow>
     (\<forall>i \<in> items_named evs. \<not> L i) \<and> (\<forall>l \<in> lists_named evs. L l) \<and>
     (FullResync \<in> set evs \<or>
      (\<forall>i. i \<notin> items_named evs \<longrightarrow> map_option item_content (get_item D i) = map_option item_content (get_item D' i)) \<and>
      (\<forall>l. l \<notin> lists_named evs \<longrightarrow> map_option list_content (get_list_meta D l) = map_option list_content (get_list_meta D' l)))"

inductive search_run :: "(str \<Rightarrow> bool) \<Rightarrow> unicode \<Rightarrow> search_source \<Rightarrow> search_index \<Rightarrow> bool" for L U where
  start: "source_ok L D \<Longrightarrow> search_run L U D search_new"
| change: "search_run L U D X \<Longrightarrow> source_ok L D' \<Longrightarrow> reported L evs D D' \<Longrightarrow> search_run L U D' (fold note_event evs X)"
| rebuilt: "search_run L U D X \<Longrightarrow> source_ok L D' \<Longrightarrow> search_run L U D' (mark_all_dirty X)"
| asked: "search_run L U D X \<Longrightarrow> search_run L U D (snd (doc_search U D input limit X))"

section \<open>The dirty set covers what is stale\<close>

definition dirty_covers :: "(str \<Rightarrow> bool) \<Rightarrow> unicode \<Rightarrow> search_source \<Rightarrow> search_index \<Rightarrow> bool" where
  "dirty_covers L U D X \<longleftrightarrow>
     di_all (si_dirty X) \<or>
     agrees L U D (set (di_lists (si_dirty X))) (set (di_items (si_dirty X))) {} X \<and>
     (\<forall>i \<in> set (di_items (si_dirty X)). \<not> L i) \<and> (\<forall>l \<in> set (di_lists (si_dirty X)). L l)"

lemma agrees_same:
  assumes "si_docs_by_id Y = si_docs_by_id X" "si_postings Y = si_postings X" "si_items_by_list Y = si_items_by_list X"
    "si_list_names Y = si_list_names X"
  shows "agrees L U D DL DI R Y = agrees L U D DL DI R X"
proof -
  have d: "doc_of Y = doc_of X" and n: "name_of Y = name_of X" using assms by (simp_all add: doc_of_def name_of_def fun_eq_iff)
  show ?thesis unfolding agrees_def item_agrees_def wf_same [OF assms(1-3), of L] d n ..
qed

lemma note_event_index [simp]:
  "si_docs_by_id (note_event ev X) = si_docs_by_id X" "si_postings (note_event ev X) = si_postings X"
  "si_items_by_list (note_event ev X) = si_items_by_list X" "si_list_names (note_event ev X) = si_list_names X"
  by (cases ev; simp add: note_event_def mark_item_def mark_list_def mark_all_dirty_def)+

lemma note_events_index [simp]:
  "si_docs_by_id (fold note_event evs X) = si_docs_by_id X" "si_postings (fold note_event evs X) = si_postings X"
  "si_items_by_list (fold note_event evs X) = si_items_by_list X" "si_list_names (fold note_event evs X) = si_list_names X"
  by (induction evs arbitrary: X) simp_all

lemma note_event_dirty:
  "di_all (si_dirty (note_event ev X)) \<longleftrightarrow> di_all (si_dirty X) \<or> ev = FullResync"
  "\<not> di_all (si_dirty (note_event ev X)) \<Longrightarrow>
   set (di_items (si_dirty (note_event ev X))) = set (di_items (si_dirty X)) \<union> items_named [ev] \<and>
   set (di_lists (si_dirty (note_event ev X))) = set (di_lists (si_dirty X)) \<union> lists_named [ev]"
  by (cases ev; auto simp: note_event_def mark_item_def mark_list_def mark_all_dirty_def items_named_def lists_named_def)+

lemma named_Cons:
  "items_named (ev # evs) = items_named [ev] \<union> items_named evs" "lists_named (ev # evs) = lists_named [ev] \<union> lists_named evs"
  by (auto simp: items_named_def lists_named_def)

lemma note_events_dirty:
  "\<not> di_all (si_dirty (fold note_event evs X)) \<Longrightarrow>
   \<not> di_all (si_dirty X) \<and> FullResync \<notin> set evs \<and>
   set (di_items (si_dirty (fold note_event evs X))) = set (di_items (si_dirty X)) \<union> items_named evs \<and>
   set (di_lists (si_dirty (fold note_event evs X))) = set (di_lists (si_dirty X)) \<union> lists_named evs"
proof (induction evs arbitrary: X)
  case Nil
  then show ?case by (simp add: items_named_def lists_named_def)
next
  case (Cons ev evs)
  then have 1: "\<not> di_all (si_dirty (fold note_event evs (note_event ev X)))" by simp
  note S = Cons.IH [OF this]
  from S have 2: "\<not> di_all (si_dirty (note_event ev X))" by blast
  from S note_event_dirty(1) [of ev X] note_event_dirty(2) [OF 2] show ?case
    by (auto simp: named_Cons [of ev evs])
qed

lemma item_content_doc: "item_content a = item_content b \<Longrightarrow> item_doc U c a = item_doc U c b \<and> iv_list_id a = iv_list_id b"
  by (auto simp: item_content_def item_doc_def item_lifecycle_of_def is_binned_def split: option.split)

lemma list_content_doc: "list_content a = list_content b \<Longrightarrow> list_doc U a = list_doc U b \<and> lv_name a = lv_name b"
  by (simp add: list_content_def list_doc_def)

lemma list_same:
  assumes "map_option list_content (get_list_meta D l) = map_option list_content (get_list_meta D' l)"
  shows "list_name D l = list_name D' l"
    and "map_option (list_doc U) (get_list_meta D l) = map_option (list_doc U) (get_list_meta D' l)"
proof -
  have "list_name D l = list_name D' l \<and> map_option (list_doc U) (get_list_meta D l) = map_option (list_doc U) (get_list_meta D' l)"
  proof (cases "get_list_meta D l")
    case None
    with assms show ?thesis by (simp add: list_name_def)
  next
    case (Some v)
    with assms obtain v' where v': "get_list_meta D' l = Some v'" "list_content v = list_content v'"
      by (cases "get_list_meta D' l") auto
    with list_content_doc [OF v'(2), of U] Some show ?thesis by (simp add: list_name_def)
  qed
  then show "list_name D l = list_name D' l"
    "map_option (list_doc U) (get_list_meta D l) = map_option (list_doc U) (get_list_meta D' l)" by simp_all
qed

lemma change_agrees:
  assumes a: "agrees L U D DL DI {} X"
    and items: "\<And>i. i \<notin> IN \<Longrightarrow> map_option item_content (get_item D i) = map_option item_content (get_item D' i)"
    and lists: "\<And>l. l \<notin> LN \<Longrightarrow> map_option list_content (get_list_meta D l) = map_option list_content (get_list_meta D' l)"
  shows "agrees L U D' (DL \<union> LN) (DI \<union> IN) {} X"
proof (rule agreesI)
  note A = agreesD [OF a]
  note same = list_same(1) [OF lists] list_same(2) [OF lists, where U = U]
  {
    fix l assume l: "L l" "l \<notin> DL \<union> LN"
    then have "l \<notin> DL" "l \<notin> LN" by simp_all
    with A(3) [OF l(1)] same [of l]
    show "name_of X l = list_name D' l" "doc_of X l = map_option (list_doc U) (get_list_meta D' l)" by simp_all
  }
  fix i assume i: "\<not> L i" "i \<notin> DI \<union> IN"
  have I: "item_agrees U D DL {} X i" "map_option item_content (get_item D i) = map_option item_content (get_item D' i)"
    using A(4) [of i] items [of i] i by simp_all
  show "item_agrees U D' (DL \<union> LN) {} X i"
  proof (cases "get_item D i")
    case None
    with I show ?thesis by (simp add: item_agrees_def)
  next
    case (Some it)
    with I(2) obtain it' where it': "get_item D' i = Some it'" "item_content it = item_content it'"
      by (cases "get_item D' i") auto
    from I(1) Some obtain c where c: "doc_of X i = Some (item_doc U c it)" "iv_list_id it \<notin> DL \<Longrightarrow> c = true_context D it"
      by (auto simp: item_agrees_def)
    have e: "item_doc U c it = item_doc U c it'" "iv_list_id it = iv_list_id it'" using item_content_doc [OF it'(2)] by blast+
    have "true_context D it = true_context D' it'" if "iv_list_id it' \<notin> LN"
      using same(1) [of "iv_list_id it'"] that e(2) by (simp add: true_context_def)
    with c e it'(1) show ?thesis by (auto simp: item_agrees_def intro!: exI [of _ c])
  qed
qed (use agreesD [OF a] in simp_all)

lemma change_covers:
  assumes c: "dirty_covers L U D X" and r: "reported L evs D D'"
  shows "dirty_covers L U D' (fold note_event evs X)"
proof (cases "di_all (si_dirty (fold note_event evs X))")
  case True
  then show ?thesis by (simp add: dirty_covers_def)
next
  case False
  note N = note_events_dirty [OF False]
  from c N have a: "agrees L U D (set (di_lists (si_dirty X))) (set (di_items (si_dirty X))) {} X"
    by (simp add: dirty_covers_def)
  have "agrees L U D' (set (di_lists (si_dirty X)) \<union> lists_named evs) (set (di_items (si_dirty X)) \<union> items_named evs) {} X"
    by (rule change_agrees [OF a]) (use r N in \<open>simp_all add: reported_def\<close>)
  with N c r show ?thesis
    by (auto simp: dirty_covers_def reported_def agrees_same [where X = X and Y = "fold note_event evs X"])
qed

lemma search_agrees:
  assumes D: "source_ok L D" and c: "dirty_covers L U D X"
  shows "\<exists>Y. doc_search U D input limit X = (search_query U input limit Y, Y) \<and> agrees L U D {} {} {} Y \<and> is_clean (si_dirty Y)"
proof (cases "is_clean (si_dirty X)")
  case True
  with c show ?thesis by (simp add: doc_search_def take_dirty_def dirty_covers_def is_clean_def)
next
  case dirty: False
  define X1 where "X1 = X\<lparr>si_dirty := dirty_default\<rparr>"
  have clean: "is_clean (si_dirty X1)" by (simp add: X1_def is_clean_def dirty_default_def)
  show ?thesis
  proof (cases "di_all (si_dirty X)")
    case True
    with dirty rebuild_agrees [OF D, of U X1] clean show ?thesis
      by (simp add: doc_search_def take_dirty_def X1_def Let_def)
  next
    case False
    define ls ids where "ls = di_lists (si_dirty X)" and "ids = di_items (si_dirty X)"
    have "agrees L U D (set ls) (set ids) {} X1" "\<forall>i \<in> set ids. \<not> L i" "\<forall>l \<in> set ls. L l"
      using c False agrees_same [of X1 X] by (simp_all add: dirty_covers_def X1_def ls_def ids_def)
    note S = reconcile_lists_agree [OF D this(1,3)]
    note T = reconcile_items_agree [OF D S [THEN conjunct1] \<open>\<forall>i \<in> set ids. \<not> L i\<close>]
    from dirty False S T clean show ?thesis
      by (simp add: doc_search_def take_dirty_def X1_def Let_def ls_def ids_def)
  qed
qed

lemma run_covers: "search_run L U D X \<Longrightarrow> source_ok L D \<and> dirty_covers L U D X"
proof (induction rule: search_run.induct)
  case (start D)
  then show ?case by (simp add: dirty_covers_def search_new_def)
next
  case (change D X D' evs)
  then show ?case using change_covers by blast
next
  case (rebuilt D X D')
  then show ?case by (simp add: dirty_covers_def mark_all_dirty_def)
next
  case (asked D X input limit)
  from search_agrees [of L D U X input limit] asked.IH obtain Y where
    "snd (doc_search U D input limit X) = Y" "agrees L U D {} {} {} Y" "is_clean (si_dirty Y)" by auto
  with asked.IH show ?case by (simp add: dirty_covers_def is_clean_def)
qed

section \<open>The properties\<close>

text \<open>C32. However the doc changed under reported events, rebuilds and earlier queries, \<open>Doc::search\<close>
  answers what scoring, sorting and cutting off every list and item of the doc as it is now gives: the
  incremental index, its early exits and its candidate sets lose no hit and keep no stale one.\<close>

theorem search_is_exact:
  assumes "search_run L U D X"
  shows "fst (doc_search U D input limit X) = ranked U (fresh_docs U D) input limit"
proof -
  from run_covers [OF assms] have D: "source_ok L D" and c: "dirty_covers L U D X" by blast+
  from search_agrees [OF D c, of input limit] obtain Y where
    Y: "doc_search U D input limit X = (search_query U input limit Y, Y)" "agrees L U D {} {} {} Y" by blast
  from query_fresh [OF D Y(2), of input limit] Y(1) show ?thesis by simp
qed

text \<open>
  A small doc: list \<open>10\<close> is named \<open>5\<close>, item \<open>20\<close> on it has text \<open>6 0 7\<close>; \<open>0\<close> is the separator. The list
  is then renamed to \<open>8\<close>, and the query for \<open>8\<close> finds the list by its title and the item by its context.
\<close>

definition plain_unicode :: unicode where
  "plain_unicode = \<lparr>un_nfkd = (\<lambda>s. s), un_is_combining_mark = (\<lambda>_. False), un_is_alphanumeric = (\<lambda>c. c \<noteq> 0),
     un_to_lowercase = (\<lambda>c. [c])\<rparr>"

definition small_item :: item_view where
  "small_item = \<lparr>iv_id = [20], iv_text = [6, 0, 7], iv_notes = [], iv_list_id = [10], iv_state = Todo, iv_lifecycle_at = 3,
     iv_deadline = None, iv_when = None, iv_duration = None, iv_place = None, iv_created_at = 1, iv_created_by = None,
     iv_started_at = None, iv_done_at = None, iv_binned_at = None\<rparr>"

definition small_source :: "str \<Rightarrow> search_source" where
  "small_source name =
     \<lparr>ss_list_rows = [([10], Some \<lparr>lv_id = [10], lv_name = name, lv_icon = None, lv_default_view = None,
                                 lv_archived_at = None, lv_created_at = 1\<rparr>)],
      ss_items = [([20], small_item)], ss_order = [[20]]\<rparr>"

definition renamed_index :: search_index where
  "renamed_index = fold note_event [ListRenamed [10] [8]] (snd (doc_search plain_unicode (small_source [5]) [6] 9 search_new))"

lemma small_source_ok: "source_ok (\<lambda>i. i = [10]) (small_source name)"
  by (auto simp: source_ok_def small_source_def small_item_def get_item_def)

lemma small_run: "search_run (\<lambda>i. i = [10]) plain_unicode (small_source [8]) renamed_index"
proof -
  have "reported (\<lambda>i. i = [10]) [ListRenamed [10] [8]] (small_source [5]) (small_source [8])"
    by (auto simp: reported_def items_named_def lists_named_def get_item_def get_list_meta_def small_source_def)
  with search_run.change [OF search_run.asked [OF search_run.start [OF small_source_ok]] small_source_ok]
  show ?thesis unfolding renamed_index_def .
qed

theorem search_is_exact_witness:
  "fst (doc_search plain_unicode (small_source [8]) [8] 9 renamed_index) =
     ranked plain_unicode (fresh_docs plain_unicode (small_source [8])) [8] 9 \<and>
   map sr_id (fst (doc_search plain_unicode (small_source [8]) [8] 9 renamed_index)) = [[10], [20]]"
proof -
  have "map sr_id (ranked plain_unicode (fresh_docs plain_unicode (small_source [8])) [8] 9) = [[10], [20]]"
    by code_simp
  then show ?thesis using search_is_exact [OF small_run, of "[8]" 9] by simp
qed

end
