(* ===== verification/Accounts.thy ===== *)
theory Accounts
  imports Server_Stream
begin

text \<open>
  \<open>server/src/auth/queries.rs\<close>: the accounts, memberships, devices and recovery sessions of the
  server, over the tables of \<^theory_text>\<open>Server_Queries\<close>. A query is a function of the tables that
  fails or returns its result and the tables it leaves; a failing statement fails the query, whose
  transaction leaves the tables as they were. Ids minted by \<open>Uuid::now_v7\<close>, the clock
  (\<open>now_millis\<close>) and the hashes the routes compute are arguments.

  A foreign key is checked by the statement that would break it. A frontier row names a device of
  the table (it is inserted under that constraint and goes with the device), so the frontiers of
  a doc are found by going through the devices.
\<close>

section \<open>Roles and key-derivation parameters\<close>

datatype member_role = Owner | Member

fun role_as_str :: "member_role \<Rightarrow> string" where
  "role_as_str Owner = ''owner''"
| "role_as_str Member = ''member''"

definition role_parse :: "string \<Rightarrow> member_role option" where
  "role_parse s = (if s = ''owner'' then Some Owner else if s = ''member'' then Some Member else None)"

record kdf_params =
  kdf_m_kib :: u32
  kdf_t :: u32
  kdf_p :: u32

section \<open>Statements\<close>

type_synonym 'a query = "server_db \<Rightarrow> db_error + ('a \<times> server_db)"

definition qreturn :: "'a \<Rightarrow> 'a query" where
  "qreturn x db = Inr (x, db)"

definition qfail :: "db_error \<Rightarrow> 'a query" where
  "qfail e db = Inl e"

definition qbind :: "'a query \<Rightarrow> ('a \<Rightarrow> 'b query) \<Rightarrow> 'b query" where
  "qbind m f db = (case m db of Inl e \<Rightarrow> Inl e | Inr (x, db') \<Rightarrow> f x db')"

abbreviation qthen :: "'a query \<Rightarrow> 'b query \<Rightarrow> 'b query" where
  "qthen m k \<equiv> qbind m (\<lambda>_. k)"

text \<open>\<open>SELECT\<close>, and statements that break no constraint.\<close>

definition qselect :: "(server_db \<Rightarrow> 'a) \<Rightarrow> 'a query" where
  "qselect f db = Inr (f db, db)"

definition qexec :: "(server_db \<Rightarrow> server_db) \<Rightarrow> unit query" where
  "qexec f db = Inr ((), f db)"

text \<open>SQLite's \<open>lower\<close> folds ASCII letters only, and \<open>trim\<close> removes spaces only.\<close>

definition sql_lower :: "str \<Rightarrow> str" where
  "sql_lower s = map (\<lambda>c. if 65 \<le> c \<and> c \<le> 90 then c + 32 else c) s"

definition sql_trim :: "str \<Rightarrow> str" where
  "sql_trim s = rev (dropWhile (\<lambda>c. c = 32) (rev (dropWhile (\<lambda>c. c = 32) s)))"

definition insert_doc :: "uuid \<Rightarrow> unit query" where
  "insert_doc doc db =
     (if doc \<in> set (db_docs db) then Inl (DbUnique ''docs.id'')
      else Inr ((), db\<lparr>db_docs := db_docs db @ [doc]\<rparr>))"

definition insert_account_row :: "account_row \<Rightarrow> unit query" where
  "insert_account_row row db =
     (if a_email row \<noteq> sql_lower (sql_trim (a_email row)) then Inl DbCheck
      else if list_ex (\<lambda>a. a_id a = a_id row) (db_accounts db) then Inl (DbUnique ''accounts.id'')
      else if list_ex (\<lambda>a. a_email a = a_email row) (db_accounts db)
      then Inl (DbUnique ''accounts.email'')
      else if a_primary_doc_id row \<notin> set (db_docs db) then Inl DbForeignKey
      else Inr ((), db\<lparr>db_accounts := db_accounts db @ [row]\<rparr>))"

definition has_account :: "uuid \<Rightarrow> server_db \<Rightarrow> bool" where
  "has_account acc db \<longleftrightarrow> list_ex (\<lambda>a. a_id a = acc) (db_accounts db)"

definition insert_member_row :: "member_row \<Rightarrow> unit query" where
  "insert_member_row row db =
     (if list_ex (\<lambda>m. m_doc m = m_doc row \<and> m_account m = m_account row) (db_members db)
      then Inl (DbUnique ''doc_members.doc_id, doc_members.account_id'')
      else if m_doc row \<notin> set (db_docs db) \<or> \<not> has_account (m_account row) db then Inl DbForeignKey
      else Inr ((), db\<lparr>db_members := db_members db @ [row]\<rparr>))"

definition insert_device_row :: "device_row \<Rightarrow> unit query" where
  "insert_device_row row db =
     (if list_ex (\<lambda>d. d_id d = d_id row) (db_devices db) then Inl (DbUnique ''devices.id'')
      else if \<not> has_account (d_account row) db then Inl DbForeignKey
      else Inr ((), db\<lparr>db_devices := db_devices db @ [row]\<rparr>))"

definition insert_recovery_row :: "recovery_row \<Rightarrow> unit query" where
  "insert_recovery_row row db =
     (if list_ex (\<lambda>r. rs_token_hash r = rs_token_hash row) (db_recovery db)
      then Inl (DbUnique ''recovery_sessions.token_hash'')
      else if \<not> has_account (rs_account row) db then Inl DbForeignKey
      else Inr ((), db\<lparr>db_recovery := db_recovery db @ [row]\<rparr>))"

text \<open>\<open>DELETE FROM docs\<close>, refused while a row references the doc.\<close>

definition doc_referenced :: "uuid \<Rightarrow> server_db \<Rightarrow> bool" where
  "doc_referenced doc db \<longleftrightarrow>
     list_ex (\<lambda>a. a_primary_doc_id a = doc) (db_accounts db) \<or>
     list_ex (\<lambda>m. m_doc m = doc) (db_members db) \<or>
     list_ex (\<lambda>i. i_doc i = doc) (db_invites db) \<or>
     list_ex (\<lambda>d. db_frontiers db (d_id d, doc) \<noteq> None) (db_devices db) \<or>
     db_sequences db doc \<noteq> None \<or>
     list_ex (\<lambda>u. u_doc u = doc) (db_updates db) \<or>
     list_ex (\<lambda>s. s_doc s = doc) (db_snapshots db)"

definition delete_doc_row :: "uuid \<Rightarrow> unit query" where
  "delete_doc_row doc db =
     (if doc \<in> set (db_docs db) \<and> doc_referenced doc db then Inl DbForeignKey
      else Inr ((), db\<lparr>db_docs := filter (\<lambda>d. d \<noteq> doc) (db_docs db)\<rparr>))"

definition account_referenced :: "uuid \<Rightarrow> server_db \<Rightarrow> bool" where
  "account_referenced acc db \<longleftrightarrow>
     list_ex (\<lambda>m. m_account m = acc) (db_members db) \<or>
     list_ex (\<lambda>i. i_issued_by i = acc \<or> i_consumed_by i = Some acc) (db_invites db) \<or>
     list_ex (\<lambda>r. rs_account r = acc) (db_recovery db) \<or>
     list_ex (\<lambda>d. d_account d = acc) (db_devices db)"

definition delete_account_row :: "uuid \<Rightarrow> unit query" where
  "delete_account_row acc db =
     (if has_account acc db \<and> account_referenced acc db then Inl DbForeignKey
      else Inr ((), db\<lparr>db_accounts := filter (\<lambda>a. a_id a \<noteq> acc) (db_accounts db)\<rparr>))"

text \<open>\<open>DELETE FROM devices\<close>; the frontiers of a deleted device cascade.\<close>

definition delete_devices :: "(device_row \<Rightarrow> bool) \<Rightarrow> nat query" where
  "delete_devices P db =
     (let gone = filter P (db_devices db)
      in Inr (length gone,
           db\<lparr>db_devices := filter (\<lambda>d. \<not> P d) (db_devices db),
              db_frontiers := (\<lambda>(dev, doc). if dev \<in> d_id ` set gone then None
                                           else db_frontiers db (dev, doc))\<rparr>))"

section \<open>Accounts\<close>

record account_view =
  av_id :: uuid
  av_email :: str
  av_password_hash :: bytes
  av_password_salt :: bytes
  av_kdf_params :: kdf_params
  av_primary_doc_id :: uuid
  av_recovery_salt :: "bytes option"
  av_recovery_auth_hash :: "bytes option"

definition recovery_present :: "account_view \<Rightarrow> bool" where
  "recovery_present a \<longleftrightarrow> av_recovery_auth_hash a \<noteq> None"

definition row_to_account :: "account_row \<Rightarrow> account_view" where
  "row_to_account r =
     \<lparr>av_id = a_id r, av_email = a_email r, av_password_hash = a_password_hash r,
      av_password_salt = a_password_salt r,
      av_kdf_params = \<lparr>kdf_m_kib = word_of_int (a_kdf_m_kib r), kdf_t = word_of_int (a_kdf_t r),
                       kdf_p = word_of_int (a_kdf_p r)\<rparr>,
      av_primary_doc_id = a_primary_doc_id r, av_recovery_salt = a_recovery_salt r,
      av_recovery_auth_hash = a_recovery_auth_hash r\<rparr>"

record new_account =
  na_email :: str
  na_password_hash :: bytes
  na_password_salt :: bytes
  na_kdf_params :: kdf_params
  na_wrapped_dek :: bytes
  na_wrapped_dek_nonce :: bytes
  na_recovery_salt :: "bytes option"
  na_recovery_auth_hash :: "bytes option"
  na_recovery_wrapped_dek :: "bytes option"
  na_recovery_wrapped_dek_nonce :: "bytes option"
  na_device_name :: str
  na_device_kind :: str
  na_device_token_hash :: bytes
  na_primary_doc_id :: "uuid option"

record created_account =
  ca_account_id :: uuid
  ca_device_id :: uuid
  ca_primary_doc_id :: uuid

datatype create_account_error = AccountExistsErr | DocExistsErr | CreateFailed db_error

fun create_account_error_of :: "db_error \<Rightarrow> create_account_error" where
  "create_account_error_of (DbUnique c) =
     (if c = ''accounts.email'' then AccountExistsErr
      else if c = ''docs.id'' then DocExistsErr
      else CreateFailed (DbUnique c))"
| "create_account_error_of e = CreateFailed e"

definition new_account_row :: "uuid \<Rightarrow> uuid \<Rightarrow> new_account \<Rightarrow> account_row" where
  "new_account_row account_id doc n =
     \<lparr>a_id = account_id, a_email = na_email n, a_password_hash = na_password_hash n,
      a_password_salt = na_password_salt n, a_kdf_m_kib = uint (kdf_m_kib (na_kdf_params n)),
      a_kdf_t = uint (kdf_t (na_kdf_params n)), a_kdf_p = uint (kdf_p (na_kdf_params n)),
      a_primary_doc_id = doc, a_recovery_salt = na_recovery_salt n,
      a_recovery_auth_hash = na_recovery_auth_hash n\<rparr>"

definition home_member_row :: "uuid \<Rightarrow> uuid \<Rightarrow> int \<Rightarrow> new_account \<Rightarrow> member_row" where
  "home_member_row account_id doc now n =
     \<lparr>m_doc = doc, m_account = account_id, m_role = role_as_str Owner,
      m_wrapped_dek = na_wrapped_dek n, m_wrapped_dek_nonce = na_wrapped_dek_nonce n,
      m_recovery_wrapped_dek = na_recovery_wrapped_dek n,
      m_recovery_wrapped_dek_nonce = na_recovery_wrapped_dek_nonce n, m_added_at = now,
      m_removed_at = None\<rparr>"

definition new_device_row :: "uuid \<Rightarrow> uuid \<Rightarrow> str \<Rightarrow> str \<Rightarrow> bytes \<Rightarrow> int \<Rightarrow> device_row" where
  "new_device_row device_id account_id name kind token_hash now =
     \<lparr>d_id = device_id, d_account = account_id, d_name = name, d_kind = kind,
      d_token_hash = token_hash, d_last_seen_at = now, d_last_seen_ip = None, d_created_at = now\<rparr>"

definition create_account ::
  "uuid \<Rightarrow> uuid \<Rightarrow> uuid \<Rightarrow> int \<Rightarrow> new_account \<Rightarrow> server_db
     \<Rightarrow> create_account_error + (created_account \<times> server_db)" where
  "create_account account_id device_id minted_doc now n db =
     (let doc = (case na_primary_doc_id n of None \<Rightarrow> minted_doc | Some d \<Rightarrow> d)
      in case qthen (insert_doc doc)
                (qthen (insert_account_row (new_account_row account_id doc n))
                   (qthen (insert_member_row (home_member_row account_id doc now n))
                      (insert_device_row
                         (new_device_row device_id account_id (na_device_name n) (na_device_kind n)
                            (na_device_token_hash n) now)))) db of
           Inl e \<Rightarrow> Inl (create_account_error_of e)
         | Inr (_, db') \<Rightarrow>
             Inr (\<lparr>ca_account_id = account_id, ca_device_id = device_id, ca_primary_doc_id = doc\<rparr>, db'))"

definition find_account_by_email :: "str \<Rightarrow> account_view option query" where
  "find_account_by_email email =
     qselect (\<lambda>db. map_option row_to_account (find (\<lambda>a. a_email a = email) (db_accounts db)))"

definition find_account_by_id :: "uuid \<Rightarrow> account_view option query" where
  "find_account_by_id acc =
     qselect (\<lambda>db. map_option row_to_account (find (\<lambda>a. a_id a = acc) (db_accounts db)))"

section \<open>Memberships and docs\<close>

record membership_row =
  mr_doc_id :: uuid
  mr_role :: member_role
  mr_wrapped_dek :: bytes
  mr_wrapped_dek_nonce :: bytes
  mr_recovery_wrapped_dek :: "bytes option"
  mr_recovery_wrapped_dek_nonce :: "bytes option"

definition row_to_membership :: "member_row \<Rightarrow> db_error + membership_row" where
  "row_to_membership m =
     (case role_parse (m_role m) of
        None \<Rightarrow> Inl DbConversion
      | Some role \<Rightarrow>
          Inr \<lparr>mr_doc_id = m_doc m, mr_role = role, mr_wrapped_dek = m_wrapped_dek m,
               mr_wrapped_dek_nonce = m_wrapped_dek_nonce m,
               mr_recovery_wrapped_dek = m_recovery_wrapped_dek m,
               mr_recovery_wrapped_dek_nonce = m_recovery_wrapped_dek_nonce m\<rparr>)"

text \<open>\<open>collect::<Result<Vec<_>>>\<close>: the first failure fails the whole.\<close>

fun collect_rows :: "('a \<Rightarrow> db_error + 'b) \<Rightarrow> 'a list \<Rightarrow> 'b list query" where
  "collect_rows f [] = qreturn []"
| "collect_rows f (x # xs) =
     (case f x of
        Inl e \<Rightarrow> qfail e
      | Inr y \<Rightarrow> qbind (collect_rows f xs) (\<lambda>ys. qreturn (y # ys)))"

definition active :: "member_row \<Rightarrow> bool" where
  "active m \<longleftrightarrow> m_removed_at m = None"

text \<open>\<open>ORDER BY added_at, doc_id\<close>: uuids compare as their bytes, big-endian.\<close>

definition list_memberships :: "uuid \<Rightarrow> membership_row list query" where
  "list_memberships acc =
     qbind (qselect (\<lambda>db. sort_key m_added_at
              (sort_key m_doc (filter (\<lambda>m. m_account m = acc \<and> active m) (db_members db)))))
       (collect_rows row_to_membership)"

record new_doc =
  nd_wrapped_dek :: bytes
  nd_wrapped_dek_nonce :: bytes

definition plain_member_row ::
  "uuid \<Rightarrow> uuid \<Rightarrow> member_role \<Rightarrow> bytes \<Rightarrow> bytes \<Rightarrow> int \<Rightarrow> member_row" where
  "plain_member_row doc acc role wrapped_dek wrapped_dek_nonce now =
     \<lparr>m_doc = doc, m_account = acc, m_role = role_as_str role, m_wrapped_dek = wrapped_dek,
      m_wrapped_dek_nonce = wrapped_dek_nonce, m_recovery_wrapped_dek = None,
      m_recovery_wrapped_dek_nonce = None, m_added_at = now, m_removed_at = None\<rparr>"

definition create_doc :: "uuid \<Rightarrow> int \<Rightarrow> uuid \<Rightarrow> new_doc \<Rightarrow> uuid query" where
  "create_doc doc now acc n =
     qthen (insert_doc doc)
       (qthen (insert_member_row
                 (plain_member_row doc acc Owner (nd_wrapped_dek n) (nd_wrapped_dek_nonce n) now))
          (qreturn doc))"

text \<open>\<open>is_active_owner\<close> of \<open>invites.rs\<close>, and the same count in \<open>delete_doc\<close>.\<close>

definition is_active_owner :: "uuid \<Rightarrow> uuid \<Rightarrow> server_db \<Rightarrow> bool" where
  "is_active_owner doc acc db \<longleftrightarrow>
     length (filter (\<lambda>m. m_doc m = doc \<and> m_account m = acc \<and> m_role m = role_as_str Owner \<and> active m)
               (db_members db)) > 0"

datatype delete_doc_outcome = Deleted | DeleteNotOwner

definition purge_rows_under_doc :: "uuid \<Rightarrow> unit query" where
  "purge_rows_under_doc doc =
     qthen (qexec (\<lambda>db. db\<lparr>db_updates := filter (\<lambda>u. u_doc u \<noteq> doc) (db_updates db)\<rparr>))
    (qthen (qexec (\<lambda>db. db\<lparr>db_snapshots := filter (\<lambda>s. s_doc s \<noteq> doc) (db_snapshots db)\<rparr>))
    (qthen (qexec (\<lambda>db. db\<lparr>db_frontiers := (\<lambda>(dev, d). if d = doc then None
                                                        else db_frontiers db (dev, d))\<rparr>))
    (qthen (qexec (\<lambda>db. db\<lparr>db_sequences := (db_sequences db)(doc := None)\<rparr>))
    (qthen (qexec (\<lambda>db. db\<lparr>db_invites := filter (\<lambda>i. i_doc i \<noteq> doc) (db_invites db)\<rparr>))
           (qexec (\<lambda>db. db\<lparr>db_members := filter (\<lambda>m. m_doc m \<noteq> doc) (db_members db)\<rparr>))))))"

definition purge_doc_rows :: "uuid \<Rightarrow> unit query" where
  "purge_doc_rows doc = qthen (purge_rows_under_doc doc) (delete_doc_row doc)"

definition delete_doc :: "uuid \<Rightarrow> uuid \<Rightarrow> delete_doc_outcome query" where
  "delete_doc acc doc =
     qbind (qselect (is_active_owner doc acc))
       (\<lambda>owner. if \<not> owner then qreturn DeleteNotOwner
                else qthen (purge_doc_rows doc) (qreturn Deleted))"

record deleted_account =
  purged_docs :: "uuid list"
  left_docs :: "uuid list"

fun qfor :: "('a \<Rightarrow> unit query) \<Rightarrow> 'a list \<Rightarrow> unit query" where
  "qfor f [] = qreturn ()"
| "qfor f (x # xs) = qthen (f x) (qfor f xs)"

definition account_docs :: "uuid \<Rightarrow> server_db \<Rightarrow> deleted_account" where
  "account_docs acc db =
     (let rows = filter (\<lambda>m. m_account m = acc \<and> active m) (db_members db)
      in \<lparr>purged_docs = map m_doc (filter (\<lambda>m. m_role m = role_as_str Owner) rows),
          left_docs = map m_doc (filter (\<lambda>m. m_role m \<noteq> role_as_str Owner) rows)\<rparr>)"

text \<open>The loop over the statements that name the account.\<close>

definition delete_account_statements :: "uuid \<Rightarrow> unit query" where
  "delete_account_statements acc =
     qthen (qexec (\<lambda>db. db\<lparr>db_members := filter (\<lambda>m. m_account m \<noteq> acc) (db_members db)\<rparr>))
    (qthen (qexec (\<lambda>db. db\<lparr>db_invites := filter (\<lambda>i. i_issued_by i \<noteq> acc) (db_invites db)\<rparr>))
    (qthen (qexec (\<lambda>db. db\<lparr>db_invites :=
              map (\<lambda>i. if i_consumed_by i = Some acc then i\<lparr>i_consumed_by := None\<rparr> else i)
                (db_invites db)\<rparr>))
    (qthen (qexec (\<lambda>db. db\<lparr>db_recovery := filter (\<lambda>r. rs_account r \<noteq> acc) (db_recovery db)\<rparr>))
    (qthen (delete_devices (\<lambda>d. d_account d = acc))
           (delete_account_row acc)))))"

definition delete_account :: "uuid \<Rightarrow> deleted_account query" where
  "delete_account acc =
     qbind (qselect (account_docs acc)) (\<lambda>out.
       qthen (qfor purge_rows_under_doc (purged_docs out))
      (qthen (delete_account_statements acc)
      (qthen (qfor delete_doc_row (purged_docs out))
             (qreturn out))))"

section \<open>Passwords\<close>

record doc_key_update =
  dk_doc_id :: uuid
  dk_wrapped_dek :: bytes
  dk_wrapped_dek_nonce :: bytes

record password_update =
  pu_password_hash :: bytes
  pu_password_salt :: bytes
  pu_kdf_params :: kdf_params
  pu_doc_keys :: "doc_key_update list"

datatype password_update_outcome =
    Updated
  | DocKeysMismatch "uuid list" "uuid list" \<comment> \<open>expected, got\<close>

definition set_password :: "uuid \<Rightarrow> password_update \<Rightarrow> account_row \<Rightarrow> account_row" where
  "set_password acc u a =
     (if a_id a = acc
      then a\<lparr>a_password_hash := pu_password_hash u, a_password_salt := pu_password_salt u,
             a_kdf_m_kib := uint (kdf_m_kib (pu_kdf_params u)), a_kdf_t := uint (kdf_t (pu_kdf_params u)),
             a_kdf_p := uint (kdf_p (pu_kdf_params u))\<rparr>
      else a)"

definition set_wrap :: "uuid \<Rightarrow> doc_key_update \<Rightarrow> member_row \<Rightarrow> member_row" where
  "set_wrap acc k m =
     (if m_doc m = dk_doc_id k \<and> m_account m = acc \<and> active m
      then m\<lparr>m_wrapped_dek := dk_wrapped_dek k, m_wrapped_dek_nonce := dk_wrapped_dek_nonce k\<rparr>
      else m)"

definition update_wrap :: "uuid \<Rightarrow> doc_key_update \<Rightarrow> unit query" where
  "update_wrap acc k db =
     (let n = length (filter (\<lambda>m. m_doc m = dk_doc_id k \<and> m_account m = acc \<and> active m) (db_members db))
      in if n \<noteq> 1 then Inl (DbChangedRows n)
         else Inr ((), db\<lparr>db_members := map (set_wrap acc k) (db_members db)\<rparr>))"

definition apply_password_update :: "uuid \<Rightarrow> password_update \<Rightarrow> password_update_outcome query" where
  "apply_password_update acc u db =
     (case find (\<lambda>a. a_id a = acc) (db_accounts db) of
        None \<Rightarrow> Inl DbNoRows
      | Some a \<Rightarrow>
          (let expected = [a_primary_doc_id a];
               got = map dk_doc_id (pu_doc_keys u)
           in if set expected \<noteq> set got \<or> length (remdups got) \<noteq> length got
              then Inr (DocKeysMismatch expected got, db)
              else qthen (qexec (\<lambda>db. db\<lparr>db_accounts := map (set_password acc u) (db_accounts db)\<rparr>))
                     (qthen (qfor (update_wrap acc) (pu_doc_keys u)) (qreturn Updated)) db))"

definition update_password :: "uuid \<Rightarrow> password_update \<Rightarrow> password_update_outcome query" where
  "update_password acc u db =
     (case apply_password_update acc u db of
        Inl e \<Rightarrow> Inl e
      | Inr (outcome, db') \<Rightarrow> Inr (outcome, if outcome = Updated then db' else db))"

datatype password_reset_outcome =
    ResetUpdated uuid
  | SessionInvalid
  | ResetDocKeysMismatch "uuid list" "uuid list"

definition consume_session :: "bytes \<Rightarrow> int \<Rightarrow> recovery_row \<Rightarrow> recovery_row" where
  "consume_session token_hash now r =
     (if rs_token_hash r = token_hash then r\<lparr>rs_consumed_at := Some now\<rparr> else r)"

definition reset_password_with_recovery_session ::
  "int \<Rightarrow> bytes \<Rightarrow> password_update \<Rightarrow> password_reset_outcome query" where
  "reset_password_with_recovery_session now token_hash u db =
     (case find (\<lambda>r. rs_token_hash r = token_hash) (db_recovery db) of
        None \<Rightarrow> Inr (SessionInvalid, db)
      | Some r \<Rightarrow>
          if rs_consumed_at r \<noteq> None \<or> rs_expires_at r < now then Inr (SessionInvalid, db)
          else (case apply_password_update (rs_account r) u db of
                  Inl e \<Rightarrow> Inl e
                | Inr (DocKeysMismatch expected got, _) \<Rightarrow> Inr (ResetDocKeysMismatch expected got, db)
                | Inr (Updated, db1) \<Rightarrow>
                    Inr (ResetUpdated (rs_account r),
                         db1\<lparr>db_recovery := map (consume_session token_hash now) (db_recovery db1)\<rparr>)))"

section \<open>Devices and recovery sessions\<close>

definition create_device :: "uuid \<Rightarrow> int \<Rightarrow> uuid \<Rightarrow> str \<Rightarrow> str \<Rightarrow> bytes \<Rightarrow> uuid query" where
  "create_device device_id now acc name kind token_hash =
     qthen (insert_device_row (new_device_row device_id acc name kind token_hash now)) (qreturn device_id)"

definition list_devices :: "uuid \<Rightarrow> device_row list query" where
  "list_devices acc =
     qselect (\<lambda>db. sort_key d_created_at (filter (\<lambda>d. d_account d = acc) (db_devices db)))"

definition revoke_device :: "uuid \<Rightarrow> uuid \<Rightarrow> bool query" where
  "revoke_device acc device_id =
     qbind (delete_devices (\<lambda>d. d_id d = device_id \<and> d_account d = acc)) (\<lambda>n. qreturn (n > 0))"

definition rename_device :: "uuid \<Rightarrow> uuid \<Rightarrow> str \<Rightarrow> bool query" where
  "rename_device acc device_id name db =
     Inr (length (filter (\<lambda>d. d_id d = device_id \<and> d_account d = acc) (db_devices db)) > 0,
          db\<lparr>db_devices := map (\<lambda>d. if d_id d = device_id \<and> d_account d = acc
                                   then d\<lparr>d_name := name\<rparr> else d) (db_devices db)\<rparr>)"

record device_lookup =
  dl_account_id :: uuid
  dl_device_id :: uuid
  dl_primary_doc_id :: uuid
  dl_email :: str

text \<open>\<open>JOIN accounts ON accounts.id = devices.account_id\<close>, first row.\<close>

definition find_device_by_token_hash :: "bytes \<Rightarrow> device_lookup option query" where
  "find_device_by_token_hash token_hash =
     qselect (\<lambda>db. case concat (map (\<lambda>d. map (\<lambda>a. \<lparr>dl_account_id = d_account d, dl_device_id = d_id d,
                              dl_primary_doc_id = a_primary_doc_id a, dl_email = a_email a\<rparr>)
                            (filter (\<lambda>a. a_id a = d_account d) (db_accounts db)))
                     (filter (\<lambda>d. d_token_hash d = token_hash) (db_devices db))) of
                [] \<Rightarrow> None
              | l # _ \<Rightarrow> Some l)"

definition touch_device_last_seen :: "int \<Rightarrow> uuid \<Rightarrow> str option \<Rightarrow> unit query" where
  "touch_device_last_seen now device_id ip =
     qexec (\<lambda>db. db\<lparr>db_devices :=
       map (\<lambda>d. if d_id d = device_id
                then d\<lparr>d_last_seen_at := now,
                       d_last_seen_ip := (case ip of None \<Rightarrow> d_last_seen_ip d | Some x \<Rightarrow> Some x)\<rparr>
                else d) (db_devices db)\<rparr>)"

definition create_recovery_session :: "int \<Rightarrow> uuid \<Rightarrow> bytes \<Rightarrow> int \<Rightarrow> unit query" where
  "create_recovery_session now acc token_hash ttl_millis =
     insert_recovery_row \<lparr>rs_token_hash = token_hash, rs_account = acc, rs_expires_at = now + ttl_millis,
       rs_consumed_at = None\<rparr>"

end
