(* ===== verification/Invites.thy ===== *)
theory Invites
  imports Accounts
begin

text \<open>
  \<open>server/src/auth/invites.rs\<close>: sharing links and the member list, over the same tables and in the
  same style as \<^theory_text>\<open>Accounts\<close>.
\<close>

definition DEFAULT_TTL_MILLIS :: int where
  "DEFAULT_TTL_MILLIS = 7 * 24 * 60 * 60 * 1000"

definition MAX_TTL_MILLIS :: int where
  "MAX_TTL_MILLIS = 30 * 24 * 60 * 60 * 1000"

definition MIN_TTL_MILLIS :: int where
  "MIN_TTL_MILLIS = 60 * 1000"

section \<open>Issuing and revoking\<close>

record new_invite =
  ni_id :: bytes
  ni_wrapped_dek :: bytes
  ni_wrapped_dek_nonce :: bytes
  ni_ttl_millis :: int

datatype create_invite_outcome = InviteCreated int | InviteNotOwner | InviteDuplicate

definition insert_invite_row :: "invite_row \<Rightarrow> unit query" where
  "insert_invite_row row db =
     (if list_ex (\<lambda>i. i_id i = i_id row) (db_invites db) then Inl (DbUnique ''doc_invites.id'')
      else if i_doc row \<notin> set (db_docs db) \<or> \<not> has_account (i_issued_by row) db then Inl DbForeignKey
      else Inr ((), db\<lparr>db_invites := db_invites db @ [row]\<rparr>))"

definition new_invite_row :: "int \<Rightarrow> uuid \<Rightarrow> uuid \<Rightarrow> new_invite \<Rightarrow> invite_row" where
  "new_invite_row now acc doc n =
     \<lparr>i_id = ni_id n, i_doc = doc, i_issued_by = acc, i_wrapped_dek = ni_wrapped_dek n,
      i_wrapped_dek_nonce = ni_wrapped_dek_nonce n, i_created_at = now,
      i_expires_at = now + ni_ttl_millis n, i_consumed_at = None, i_consumed_by = None\<rparr>"

definition create_invite :: "int \<Rightarrow> uuid \<Rightarrow> uuid \<Rightarrow> new_invite \<Rightarrow> create_invite_outcome query" where
  "create_invite now acc doc n =
     qbind (qselect (is_active_owner doc acc)) (\<lambda>owner.
       if \<not> owner then qreturn InviteNotOwner
       else qbind (qselect (\<lambda>db. length (filter (\<lambda>i. i_id i = ni_id n) (db_invites db)))) (\<lambda>exists.
         if exists > 0 then qreturn InviteDuplicate
         else qthen (insert_invite_row (new_invite_row now acc doc n))
                (qreturn (InviteCreated (now + ni_ttl_millis n)))))"

record invite_view =
  iv_id :: bytes
  iv_created_at :: int
  iv_expires_at :: int
  iv_consumed_at :: "int option"

text \<open>\<open>ORDER BY created_at DESC, id\<close>: blobs compare as byte strings.\<close>

fun bytes_le :: "bytes \<Rightarrow> bytes \<Rightarrow> bool" where
  "bytes_le [] _ = True"
| "bytes_le (x # xs) [] = False"
| "bytes_le (x # xs) (y # ys) = (x < y \<or> (x = y \<and> bytes_le xs ys))"

definition invite_before :: "invite_row \<Rightarrow> invite_row \<Rightarrow> bool" where
  "invite_before i j \<longleftrightarrow>
     i_created_at j < i_created_at i \<or> (i_created_at i = i_created_at j \<and> bytes_le (i_id i) (i_id j))"

fun insert_by :: "('a \<Rightarrow> 'a \<Rightarrow> bool) \<Rightarrow> 'a \<Rightarrow> 'a list \<Rightarrow> 'a list" where
  "insert_by le x [] = [x]"
| "insert_by le x (y # ys) = (if le x y then x # y # ys else y # insert_by le x ys)"

definition sort_by :: "('a \<Rightarrow> 'a \<Rightarrow> bool) \<Rightarrow> 'a list \<Rightarrow> 'a list" where
  "sort_by le xs = foldr (insert_by le) xs []"

definition list_invites :: "uuid \<Rightarrow> uuid \<Rightarrow> invite_view list option query" where
  "list_invites acc doc =
     qselect (\<lambda>db. if \<not> is_active_owner doc acc db then None
       else Some (map (\<lambda>i. \<lparr>iv_id = i_id i, iv_created_at = i_created_at i, iv_expires_at = i_expires_at i,
                            iv_consumed_at = i_consumed_at i\<rparr>)
                    (sort_by invite_before (filter (\<lambda>i. i_doc i = doc) (db_invites db)))))"

definition revoke_invite :: "uuid \<Rightarrow> uuid \<Rightarrow> bytes \<Rightarrow> bool query" where
  "revoke_invite acc doc invite_id =
     qbind (qselect (is_active_owner doc acc)) (\<lambda>owner.
       if \<not> owner then qreturn False
       else qbind (qselect (\<lambda>db. length (filter (\<lambda>i. i_id i = invite_id \<and> i_doc i = doc) (db_invites db))))
         (\<lambda>n. qthen (qexec (\<lambda>db. db\<lparr>db_invites :=
                filter (\<lambda>i. \<not> (i_id i = invite_id \<and> i_doc i = doc)) (db_invites db)\<rparr>))
              (qreturn (n > 0))))"

section \<open>Fetching and accepting\<close>

record invite_payload =
  ip_doc_id :: uuid
  ip_wrapped_dek :: bytes
  ip_wrapped_dek_nonce :: bytes
  ip_expires_at :: int
  ip_inviter_email :: str

datatype fetch_invite_outcome = FetchOpen invite_payload | FetchNotFound | FetchExpired | FetchConsumed

text \<open>\<open>JOIN accounts ON accounts.id = issued_by_account_id\<close>, first row.\<close>

definition fetch_invite :: "int \<Rightarrow> bytes \<Rightarrow> fetch_invite_outcome query" where
  "fetch_invite now invite_id =
     qselect (\<lambda>db.
       case concat (map (\<lambda>i. map (\<lambda>a. (i, a_email a))
                       (filter (\<lambda>a. a_id a = i_issued_by i) (db_accounts db)))
                     (filter (\<lambda>i. i_id i = invite_id) (db_invites db))) of
         [] \<Rightarrow> FetchNotFound
       | (i, email) # _ \<Rightarrow>
           if i_consumed_at i \<noteq> None then FetchConsumed
           else if i_expires_at i < now then FetchExpired
           else FetchOpen \<lparr>ip_doc_id = i_doc i, ip_wrapped_dek = i_wrapped_dek i,
                           ip_wrapped_dek_nonce = i_wrapped_dek_nonce i,
                           ip_expires_at = i_expires_at i, ip_inviter_email = email\<rparr>)"

record accept_wrap =
  aw_wrapped_dek :: bytes
  aw_wrapped_dek_nonce :: bytes

datatype accept_invite_outcome =
    Joined uuid
  | AcceptNotFound
  | AcceptExpired
  | AcceptConsumed
  | AlreadyMember uuid

definition rejoin :: "uuid \<Rightarrow> uuid \<Rightarrow> accept_wrap \<Rightarrow> int \<Rightarrow> member_row \<Rightarrow> member_row" where
  "rejoin doc acc wrap now m =
     (if m_doc m = doc \<and> m_account m = acc
      then m\<lparr>m_role := role_as_str Member, m_wrapped_dek := aw_wrapped_dek wrap,
             m_wrapped_dek_nonce := aw_wrapped_dek_nonce wrap, m_recovery_wrapped_dek := None,
             m_recovery_wrapped_dek_nonce := None, m_added_at := now, m_removed_at := None\<rparr>
      else m)"

definition consume_invite :: "bytes \<Rightarrow> uuid \<Rightarrow> int \<Rightarrow> invite_row \<Rightarrow> invite_row" where
  "consume_invite invite_id acc now i =
     (if i_id i = invite_id then i\<lparr>i_consumed_at := Some now, i_consumed_by := Some acc\<rparr> else i)"

definition update_consumed :: "bytes \<Rightarrow> uuid \<Rightarrow> int \<Rightarrow> unit query" where
  "update_consumed invite_id acc now db =
     (if list_ex (\<lambda>i. i_id i = invite_id) (db_invites db) \<and> \<not> has_account acc db then Inl DbForeignKey
      else Inr ((), db\<lparr>db_invites := map (consume_invite invite_id acc now) (db_invites db)\<rparr>))"

definition accept_invite :: "int \<Rightarrow> uuid \<Rightarrow> bytes \<Rightarrow> accept_wrap \<Rightarrow> accept_invite_outcome query" where
  "accept_invite now acc invite_id wrap db =
     (case find (\<lambda>i. i_id i = invite_id) (db_invites db) of
        None \<Rightarrow> Inr (AcceptNotFound, db)
      | Some i \<Rightarrow>
          if i_consumed_at i \<noteq> None then Inr (AcceptConsumed, db)
          else if i_expires_at i < now then Inr (AcceptExpired, db)
          else
            let doc = i_doc i;
                consume = qthen (update_consumed invite_id acc now) (qreturn (Joined doc))
            in case map_option m_removed_at
                      (find (\<lambda>m. m_doc m = doc \<and> m_account m = acc) (db_members db)) of
                 Some None \<Rightarrow> Inr (AlreadyMember doc, db)
               | Some (Some _) \<Rightarrow>
                   qthen (qexec (\<lambda>db. db\<lparr>db_members := map (rejoin doc acc wrap now) (db_members db)\<rparr>))
                     consume db
               | None \<Rightarrow>
                   qthen (insert_member_row (plain_member_row doc acc Member (aw_wrapped_dek wrap)
                            (aw_wrapped_dek_nonce wrap) now))
                     consume db)"

section \<open>Members\<close>

record listed_member =
  lm_account_id :: uuid
  lm_email :: str
  lm_role :: member_role
  lm_added_at :: int

definition to_listed_member :: "member_row \<times> str \<Rightarrow> db_error + listed_member" where
  "to_listed_member p =
     (case role_parse (m_role (fst p)) of
        None \<Rightarrow> Inl DbConversion
      | Some role \<Rightarrow> Inr \<lparr>lm_account_id = m_account (fst p), lm_email = snd p, lm_role = role,
                          lm_added_at = m_added_at (fst p)\<rparr>)"

text \<open>\<open>ORDER BY added_at, account_id\<close>.\<close>

definition list_members :: "uuid \<Rightarrow> uuid \<Rightarrow> listed_member list option query" where
  "list_members acc doc =
     qbind (qselect (is_member doc acc)) (\<lambda>member.
       if \<not> member then qreturn None
       else qbind (qselect (\<lambda>db.
              concat (map (\<lambda>m. map (\<lambda>a. (m, a_email a)) (filter (\<lambda>a. a_id a = m_account m) (db_accounts db)))
                (sort_key m_added_at (sort_key m_account
                   (filter (\<lambda>m. m_doc m = doc \<and> active m) (db_members db)))))))
            (\<lambda>rows. qbind (collect_rows to_listed_member rows) (\<lambda>ms. qreturn (Some ms))))"

datatype remove_member_outcome =
    Removed
  | CallerNotMember
  | CallerNotOwner
  | SelfRemoval
  | LastOwner
  | TargetNotMember

definition active_role :: "uuid \<Rightarrow> uuid \<Rightarrow> server_db \<Rightarrow> member_role option" where
  "active_role doc acc db =
     (case find (\<lambda>m. m_doc m = doc \<and> m_account m = acc \<and> active m) (db_members db) of
        None \<Rightarrow> None
      | Some m \<Rightarrow> role_parse (m_role m))"

definition owner_count :: "uuid \<Rightarrow> server_db \<Rightarrow> nat" where
  "owner_count doc db =
     length (filter (\<lambda>m. m_doc m = doc \<and> m_role m = role_as_str Owner \<and> active m) (db_members db))"

definition stamp_removed :: "uuid \<Rightarrow> uuid \<Rightarrow> int \<Rightarrow> member_row \<Rightarrow> member_row" where
  "stamp_removed doc target now m =
     (if m_doc m = doc \<and> m_account m = target \<and> active m then m\<lparr>m_removed_at := Some now\<rparr> else m)"

definition remove_member :: "int \<Rightarrow> uuid \<Rightarrow> uuid \<Rightarrow> uuid \<Rightarrow> remove_member_outcome query" where
  "remove_member now caller doc target db =
     (case active_role doc caller db of
        None \<Rightarrow> Inr (CallerNotMember, db)
      | Some Member \<Rightarrow> Inr (CallerNotOwner, db)
      | Some Owner \<Rightarrow>
          if caller = target then Inr (SelfRemoval, db)
          else (case active_role doc target db of
                  None \<Rightarrow> Inr (TargetNotMember, db)
                | Some role \<Rightarrow>
                    if role = Owner \<and> owner_count doc db \<le> 1 then Inr (LastOwner, db)
                    else Inr (Removed, db\<lparr>db_members := map (stamp_removed doc target now) (db_members db)\<rparr>)))"

end
