(* ===== verification/Http_Routes.thy ===== *)
theory Http_Routes
  imports Invites Ws
begin

text \<open>
  The HTTP surface of the server: \<open>server/src/http/\<close> (account, device, doc and invite routes),
  \<open>server/src/error.rs\<close>, and of \<open>server/src/auth/\<close> the token format, the device cookie, the email
  normalisation and the \<open>DeviceAuth\<close> extractor. A route is a function of the application state
  that answers an error or a response and leaves the state it made, as several queries of a route
  are separate transactions. Requests are decoded bodies and path segments; ids in responses are
  kept as ids, and an error text that quotes ids keeps its fixed part.

  Third-party code is the record \<open>web_env\<close>: the \<open>uuid\<close>, \<open>hex\<close> and \<open>sha2\<close> crates and the
  MessagePack encoder of the frames a route sends to live sessions. The Unicode case table behind
  \<open>str::to_lowercase\<close> is there too. Ids, random tokens and clock readings are arguments.
\<close>

record web_env =
  we_parse_uuid :: "str \<Rightarrow> uuid option"
  we_hex_decode :: "str \<Rightarrow> bytes option"
  we_hex_encode :: "bytes \<Rightarrow> str"
  we_sha256 :: "bytes \<Rightarrow> bytes"
  we_lowercase :: "str \<Rightarrow> str"
  we_frame :: "server_frame \<Rightarrow> bytes option"
  we_secure_cookies :: bool

section \<open>Errors\<close>

datatype internal_cause = FromDb db_error | FromCreate create_account_error | FromMessage string

datatype api_error =
    BadRequest string
  | InvalidCredentials
  | AccountExists
  | NotFound
  | Forbidden string
  | Conflict string
  | Gone string
  | RecoveryNotEnrolled
  | RecoverySessionInvalid
  | Unauthorized
  | Internal internal_cause

fun status_and_code :: "api_error \<Rightarrow> nat \<times> string" where
  "status_and_code (BadRequest _) = (400, ''bad_request'')"
| "status_and_code InvalidCredentials = (401, ''invalid_credentials'')"
| "status_and_code AccountExists = (409, ''account_exists'')"
| "status_and_code NotFound = (404, ''not_found'')"
| "status_and_code (Forbidden _) = (403, ''forbidden'')"
| "status_and_code (Conflict _) = (409, ''conflict'')"
| "status_and_code (Gone _) = (410, ''gone'')"
| "status_and_code RecoveryNotEnrolled = (403, ''recovery_not_enrolled'')"
| "status_and_code RecoverySessionInvalid = (403, ''recovery_session_invalid'')"
| "status_and_code Unauthorized = (401, ''unauthorized'')"
| "status_and_code (Internal _) = (500, ''internal'')"

type_synonym 'a route = "app_state \<Rightarrow> (api_error + 'a) \<times> app_state"

definition rreturn :: "'a \<Rightarrow> 'a route" where
  "rreturn x s = (Inr x, s)"

definition rfail :: "api_error \<Rightarrow> 'a route" where
  "rfail e s = (Inl e, s)"

definition rbind :: "'a route \<Rightarrow> ('a \<Rightarrow> 'b route) \<Rightarrow> 'b route" where
  "rbind m f s = (case m s of (Inl e, s') \<Rightarrow> (Inl e, s') | (Inr x, s') \<Rightarrow> f x s')"

abbreviation rthen :: "'a route \<Rightarrow> 'b route \<Rightarrow> 'b route" where
  "rthen m k \<equiv> rbind m (\<lambda>_. k)"

definition rsome :: "api_error \<Rightarrow> 'a option \<Rightarrow> 'a route" where
  "rsome e x = (case x of None \<Rightarrow> rfail e | Some y \<Rightarrow> rreturn y)"

definition rensure :: "bool \<Rightarrow> api_error \<Rightarrow> unit route" where
  "rensure b e = (if b then rreturn () else rfail e)"

text \<open>A query, its failure an internal error.\<close>

definition rquery :: "'a query \<Rightarrow> 'a route" where
  "rquery q s =
     (case q (as_db s) of
        Inl e \<Rightarrow> (Inl (Internal (FromDb e)), s)
      | Inr (x, db) \<Rightarrow> (Inr x, s\<lparr>as_db := db\<rparr>))"

definition rsessions :: "(sessions \<Rightarrow> nat \<times> sessions) \<Rightarrow> nat route" where
  "rsessions f s = (let (n, S) = f (as_sessions s) in (Inr n, s\<lparr>as_sessions := S\<rparr>))"

section \<open>Tokens, email, cookies\<close>

definition TOKEN_LEN :: nat where
  "TOKEN_LEN = 32"

definition encode_token :: "web_env \<Rightarrow> bytes \<Rightarrow> str" where
  "encode_token E token = we_hex_encode E token"

definition decode_token :: "web_env \<Rightarrow> str \<Rightarrow> bytes option" where
  "decode_token E s =
     (case we_hex_decode E (trim s) of
        None \<Rightarrow> None
      | Some b \<Rightarrow> if length b = TOKEN_LEN then Some b else None)"

definition normalize_email :: "web_env \<Rightarrow> str \<Rightarrow> str option" where
  "normalize_email E raw =
     (let trimmed = trim raw
      in if trimmed = [] then None else Some (we_lowercase E trimmed))"

text \<open>\<open>diff |= x ^ y\<close> over the zipped bytes.\<close>

definition constant_time_eq :: "bytes \<Rightarrow> bytes \<Rightarrow> bool" where
  "constant_time_eq a b =
     (if length a \<noteq> length b then False
      else fold (\<lambda>(x, y) diff. or diff (xor x y)) (zip a b) 0 = 0)"

definition COOKIE_NAME :: str where
  "COOKIE_NAME = lit ''monoplan_device''"

definition set_cookie :: "str \<Rightarrow> bool \<Rightarrow> str" where
  "set_cookie token secure =
     COOKIE_NAME @ lit ''='' @ token @ lit ''; HttpOnly;'' @ (if secure then lit '' Secure;'' else []) @
     lit '' SameSite=Strict; Path=/; Max-Age=34560000''"

definition clear_cookie :: "bool \<Rightarrow> str" where
  "clear_cookie secure =
     COOKIE_NAME @ lit ''=; HttpOnly;'' @ (if secure then lit '' Secure;'' else []) @
     lit '' SameSite=Strict; Path=/; Max-Age=0''"

text \<open>The inner loop over one \<open>Cookie\<close> header, then the loop over the headers that are text.\<close>

fun token_from_pairs :: "str list \<Rightarrow> str option" where
  "token_from_pairs [] = None"
| "token_from_pairs (pair # pairs) =
     (case split_once 61 (trim pair) of
        Some (name, val) \<Rightarrow> if name = COOKIE_NAME then Some val else token_from_pairs pairs
      | None \<Rightarrow> token_from_pairs pairs)"

fun token_from_cookies :: "str option list \<Rightarrow> str option" where
  "token_from_cookies [] = None"
| "token_from_cookies (None # hs) = token_from_cookies hs"
| "token_from_cookies (Some s # hs) =
     (case token_from_pairs (split_on 59 s) of Some t \<Rightarrow> Some t | None \<Rightarrow> token_from_cookies hs)"

section \<open>\<open>DeviceAuth\<close>\<close>

text \<open>
  The headers a route reads (\<open>None\<close> for a header that is absent or not text), and the address
  \<open>client_ip\<close> found for the request.
\<close>

record http_headers =
  hh_authorization :: "str option"
  hh_cookies :: "str option list"
  hh_client_ip :: "str option"

definition device_auth :: "web_env \<Rightarrow> int \<Rightarrow> http_headers \<Rightarrow> device_lookup route" where
  "device_auth E now h =
     (let bearer = Option.bind (hh_authorization h) (strip_prefix (lit ''Bearer ''));
          token = (case bearer of Some t \<Rightarrow> Some t | None \<Rightarrow> token_from_cookies (hh_cookies h))
      in rbind (rsome Unauthorized token) (\<lambda>token.
         rbind (rsome Unauthorized (decode_token E token)) (\<lambda>raw.
         rbind (rquery (find_device_by_token_hash (we_sha256 E raw))) (\<lambda>found.
         rbind (rsome Unauthorized found) (\<lambda>lookup s.
           case rquery (touch_device_last_seen now (dl_device_id lookup) (hh_client_ip h)) s of
             (_, s') \<Rightarrow> (Inr lookup, s'))))))"

section \<open>Account routes\<close>

definition RECOVERY_SESSION_TTL_MILLIS :: int where
  "RECOVERY_SESSION_TTL_MILLIS = 15 * 60 * 1000"

record recovery_material =
  rm_recovery_salt :: bytes
  rm_recovery_auth_secret :: bytes
  rm_recovery_wrapped_dek :: bytes
  rm_recovery_wrapped_dek_nonce :: bytes

record signup_request =
  su_email :: str
  su_master_salt :: bytes
  su_kdf_params :: kdf_params
  su_auth_secret :: bytes
  su_wrapped_dek :: bytes
  su_wrapped_dek_nonce :: bytes
  su_primary_doc_id :: "str option"
  su_recovery :: recovery_material
  su_device_name :: str
  su_device_kind :: str

record signup_response =
  sr_account_id :: uuid
  sr_device_id :: uuid
  sr_device_token :: str
  sr_primary_doc_id :: uuid

text \<open>\<open>req.primary_doc_id.map(parse).transpose()\<close>\<close>

definition parse_primary_doc_id :: "web_env \<Rightarrow> str option \<Rightarrow> uuid option route" where
  "parse_primary_doc_id E p =
     (case p of
        None \<Rightarrow> rreturn None
      | Some s \<Rightarrow>
          (case we_parse_uuid E s of
             None \<Rightarrow> rfail (BadRequest ''primary_doc_id must be a uuid'')
           | Some d \<Rightarrow> rreturn (Some d)))"

fun signup_error :: "create_account_error \<Rightarrow> api_error" where
  "signup_error AccountExistsErr = AccountExists"
| "signup_error DocExistsErr = Conflict ''primary_doc_id already exists''"
| "signup_error (CreateFailed e) = Internal (FromCreate (CreateFailed e))"

definition rcreate_account ::
  "uuid \<Rightarrow> uuid \<Rightarrow> uuid \<Rightarrow> int \<Rightarrow> new_account \<Rightarrow> created_account route" where
  "rcreate_account acc dev doc now n s =
     (case create_account acc dev doc now n (as_db s) of
        Inl e \<Rightarrow> (Inl (signup_error e), s)
      | Inr (c, db) \<Rightarrow> (Inr c, s\<lparr>as_db := db\<rparr>))"

definition signup_account :: "web_env \<Rightarrow> str \<Rightarrow> uuid option \<Rightarrow> bytes \<Rightarrow> signup_request \<Rightarrow> new_account" where
  "signup_account E email primary device_token req =
     \<lparr>na_email = email, na_password_hash = we_sha256 E (su_auth_secret req),
      na_password_salt = su_master_salt req, na_kdf_params = su_kdf_params req,
      na_wrapped_dek = su_wrapped_dek req, na_wrapped_dek_nonce = su_wrapped_dek_nonce req,
      na_recovery_salt = Some (rm_recovery_salt (su_recovery req)),
      na_recovery_auth_hash = Some (we_sha256 E (rm_recovery_auth_secret (su_recovery req))),
      na_recovery_wrapped_dek = Some (rm_recovery_wrapped_dek (su_recovery req)),
      na_recovery_wrapped_dek_nonce = Some (rm_recovery_wrapped_dek_nonce (su_recovery req)),
      na_device_name = su_device_name req, na_device_kind = su_device_kind req,
      na_device_token_hash = we_sha256 E device_token, na_primary_doc_id = primary\<rparr>"

definition signup ::
  "web_env \<Rightarrow> uuid \<Rightarrow> uuid \<Rightarrow> uuid \<Rightarrow> bytes \<Rightarrow> int \<Rightarrow> signup_request \<Rightarrow> (str \<times> signup_response) route" where
  "signup E acc dev minted_doc device_token now req =
     rbind (rsome (BadRequest ''email is required'') (normalize_email E (su_email req))) (\<lambda>email.
     rthen (rensure (trim (su_device_name req) \<noteq> []) (BadRequest ''device_name is required''))
    (rthen (rensure (trim (su_device_kind req) \<noteq> []) (BadRequest ''device_kind is required''))
    (rbind (parse_primary_doc_id E (su_primary_doc_id req)) (\<lambda>primary.
     rbind (rcreate_account acc dev minted_doc now (signup_account E email primary device_token req)) (\<lambda>created.
     let token_hex = encode_token E device_token
     in rreturn (set_cookie token_hex (we_secure_cookies E),
          \<lparr>sr_account_id = ca_account_id created, sr_device_id = ca_device_id created,
           sr_device_token = token_hex, sr_primary_doc_id = ca_primary_doc_id created\<rparr>))))))"

record prelogin_response =
  pl_master_salt :: bytes
  pl_kdf_params :: kdf_params
  pl_recovery_salt :: "bytes option"

definition prelogin :: "web_env \<Rightarrow> str \<Rightarrow> prelogin_response route" where
  "prelogin E raw_email =
     rbind (rsome (BadRequest ''email is required'') (normalize_email E raw_email)) (\<lambda>email.
     rbind (rquery (find_account_by_email email)) (\<lambda>found.
     rbind (rsome NotFound found) (\<lambda>account.
     rreturn \<lparr>pl_master_salt = av_password_salt account, pl_kdf_params = av_kdf_params account,
              pl_recovery_salt = av_recovery_salt account\<rparr>)))"

record device_registration =
  dr_name :: str
  dr_kind :: str

record device_credential =
  dc_device_id :: uuid
  dc_device_token :: str

record membership =
  ms_doc_id :: uuid
  ms_role :: member_role
  ms_wrapped_dek :: bytes
  ms_wrapped_dek_nonce :: bytes

definition to_membership :: "membership_row \<Rightarrow> membership" where
  "to_membership m = \<lparr>ms_doc_id = mr_doc_id m, ms_role = mr_role m, ms_wrapped_dek = mr_wrapped_dek m,
     ms_wrapped_dek_nonce = mr_wrapped_dek_nonce m\<rparr>"

record login_response =
  lr_account_id :: uuid
  lr_primary_doc_id :: uuid
  lr_memberships :: "membership list"
  lr_recovery_present :: bool
  lr_device :: "device_credential option"

definition register_device ::
  "web_env \<Rightarrow> uuid \<Rightarrow> bytes \<Rightarrow> int \<Rightarrow> uuid \<Rightarrow> string \<Rightarrow> string \<Rightarrow> device_registration \<Rightarrow> device_credential route" where
  "register_device E dev token now acc no_name no_kind reg =
     rthen (rensure (trim (dr_name reg) \<noteq> []) (BadRequest no_name))
    (rthen (rensure (trim (dr_kind reg) \<noteq> []) (BadRequest no_kind))
    (rbind (rquery (create_device dev now acc (dr_name reg) (dr_kind reg) (we_sha256 E token))) (\<lambda>device_id.
     rreturn \<lparr>dc_device_id = device_id, dc_device_token = encode_token E token\<rparr>)))"

definition login ::
  "web_env \<Rightarrow> uuid \<Rightarrow> bytes \<Rightarrow> int \<Rightarrow> str \<Rightarrow> bytes \<Rightarrow> device_registration option
     \<Rightarrow> (str option \<times> login_response) route" where
  "login E dev token now raw_email auth_secret reg =
     rbind (rsome InvalidCredentials (normalize_email E raw_email)) (\<lambda>email.
     rbind (rquery (find_account_by_email email)) (\<lambda>found.
     rbind (rsome InvalidCredentials found) (\<lambda>account.
     rthen (rensure (constant_time_eq (we_sha256 E auth_secret) (av_password_hash account)) InvalidCredentials)
    (rbind (case reg of
              None \<Rightarrow> rreturn None
            | Some r \<Rightarrow>
                rbind (register_device E dev token now (av_id account) ''device.name is required''
                         ''device.kind is required'' r) (\<lambda>c. rreturn (Some c))) (\<lambda>device.
     rbind (rquery (list_memberships (av_id account))) (\<lambda>rows.
     rreturn (map_option (\<lambda>c. set_cookie (dc_device_token c) (we_secure_cookies E)) device,
       \<lparr>lr_account_id = av_id account, lr_primary_doc_id = av_primary_doc_id account,
        lr_memberships = map to_membership rows, lr_recovery_present = recovery_present account,
        lr_device = device\<rparr>)))))))"

record doc_key =
  key_doc_id :: uuid
  key_wrapped_dek :: bytes
  key_wrapped_dek_nonce :: bytes

record recover_response =
  rr_account_id :: uuid
  rr_primary_doc_id :: uuid
  rr_doc_keys :: "doc_key list"
  rr_session_token :: str

definition recovery_key :: "membership_row \<Rightarrow> doc_key option" where
  "recovery_key m =
     (case (mr_recovery_wrapped_dek m, mr_recovery_wrapped_dek_nonce m) of
        (Some w, Some n) \<Rightarrow> Some \<lparr>key_doc_id = mr_doc_id m, key_wrapped_dek = w, key_wrapped_dek_nonce = n\<rparr>
      | _ \<Rightarrow> None)"

definition recover :: "web_env \<Rightarrow> bytes \<Rightarrow> int \<Rightarrow> str \<Rightarrow> bytes \<Rightarrow> recover_response route" where
  "recover E session_token now raw_email recovery_auth_secret =
     rbind (rsome InvalidCredentials (normalize_email E raw_email)) (\<lambda>email.
     rbind (rquery (find_account_by_email email)) (\<lambda>found.
     rbind (rsome InvalidCredentials found) (\<lambda>account.
     rbind (rsome RecoveryNotEnrolled (av_recovery_auth_hash account)) (\<lambda>hash.
     rthen (rensure (constant_time_eq (we_sha256 E recovery_auth_secret) hash) InvalidCredentials)
    (rbind (rquery (list_memberships (av_id account))) (\<lambda>rows.
     let doc_keys = List.map_filter recovery_key (filter (\<lambda>m. mr_doc_id m = av_primary_doc_id account) rows)
     in rthen (rensure (doc_keys \<noteq> [])
          (Internal (FromMessage ''recovery enrolled but the primary membership carries no recovery wrap'')))
       (rthen (rquery (create_recovery_session now (av_id account) (we_sha256 E session_token)
                 RECOVERY_SESSION_TTL_MILLIS))
        (rreturn \<lparr>rr_account_id = av_id account, rr_primary_doc_id = av_primary_doc_id account,
           rr_doc_keys = doc_keys, rr_session_token = encode_token E session_token\<rparr>))))))))"

text \<open>A \<open>DocKey\<close> of a request: its doc id is still text.\<close>

type_synonym posted_key = "str \<times> bytes \<times> bytes"

fun parse_doc_keys :: "web_env \<Rightarrow> posted_key list \<Rightarrow> doc_key_update list route" where
  "parse_doc_keys E [] = rreturn []"
| "parse_doc_keys E ((doc, w, n) # ks) =
     (case we_parse_uuid E doc of
        None \<Rightarrow> rfail (BadRequest ''new_doc_keys: malformed doc_id'')
      | Some d \<Rightarrow> rbind (parse_doc_keys E ks) (\<lambda>us.
          rreturn (\<lparr>dk_doc_id = d, dk_wrapped_dek = w, dk_wrapped_dek_nonce = n\<rparr> # us)))"

definition doc_keys_mismatch :: api_error where
  "doc_keys_mismatch = BadRequest ''new_doc_keys must name exactly the account's primary doc''"

record new_password =
  np_master_salt :: bytes
  np_kdf_params :: kdf_params
  np_auth_secret :: bytes
  np_doc_keys :: "posted_key list"

definition to_password_update :: "web_env \<Rightarrow> new_password \<Rightarrow> doc_key_update list \<Rightarrow> password_update" where
  "to_password_update E p keys =
     \<lparr>pu_password_hash = we_sha256 E (np_auth_secret p), pu_password_salt = np_master_salt p,
      pu_kdf_params = np_kdf_params p, pu_doc_keys = keys\<rparr>"

definition password_change :: "web_env \<Rightarrow> device_lookup \<Rightarrow> bytes \<Rightarrow> new_password \<Rightarrow> unit route" where
  "password_change E auth current_auth_secret p =
     rbind (rquery (find_account_by_id (dl_account_id auth))) (\<lambda>found.
     rbind (rsome Unauthorized found) (\<lambda>account.
     rthen (rensure (constant_time_eq (we_sha256 E current_auth_secret) (av_password_hash account)) InvalidCredentials)
    (rbind (parse_doc_keys E (np_doc_keys p)) (\<lambda>keys.
     rbind (rquery (update_password (av_id account) (to_password_update E p keys))) (\<lambda>outcome.
       case outcome of Updated \<Rightarrow> rreturn () | DocKeysMismatch _ _ \<Rightarrow> rfail doc_keys_mismatch)))))"

record password_reset_response =
  prr_device_id :: uuid
  prr_device_token :: str
  prr_primary_doc_id :: uuid

definition password_reset ::
  "web_env \<Rightarrow> uuid \<Rightarrow> bytes \<Rightarrow> int \<Rightarrow> int \<Rightarrow> str \<Rightarrow> new_password \<Rightarrow> device_registration
     \<Rightarrow> (str \<times> password_reset_response) route" where
  "password_reset E dev device_token now later session_token p reg =
     rthen (rensure (trim (dr_name reg) \<noteq> []) (BadRequest ''device_name is required''))
    (rthen (rensure (trim (dr_kind reg) \<noteq> []) (BadRequest ''device_kind is required''))
    (rbind (rsome RecoverySessionInvalid (decode_token E session_token)) (\<lambda>token.
     rbind (parse_doc_keys E (np_doc_keys p)) (\<lambda>keys.
     rbind (rquery (reset_password_with_recovery_session now (we_sha256 E token) (to_password_update E p keys)))
       (\<lambda>outcome. case outcome of
           SessionInvalid \<Rightarrow> rfail RecoverySessionInvalid
         | ResetDocKeysMismatch _ _ \<Rightarrow> rfail doc_keys_mismatch
         | ResetUpdated acc \<Rightarrow>
             rbind (rquery (create_device dev later acc (dr_name reg) (dr_kind reg) (we_sha256 E device_token)))
               (\<lambda>device_id.
             rbind (rquery (find_account_by_id acc)) (\<lambda>found.
             rbind (rsome (Internal (FromMessage ''account missing after password reset''))
                      (map_option av_primary_doc_id found)) (\<lambda>primary.
             let token_hex = encode_token E device_token
             in rreturn (set_cookie token_hex (we_secure_cookies E),
                  \<lparr>prr_device_id = device_id, prr_device_token = token_hex,
                   prr_primary_doc_id = primary\<rparr>)))))))))"

definition logout :: "web_env \<Rightarrow> device_lookup \<Rightarrow> str route" where
  "logout E auth =
     rthen (rquery (revoke_device (dl_account_id auth) (dl_device_id auth)))
       (rreturn (clear_cookie (we_secure_cookies E)))"

fun close_all :: "(uuid \<Rightarrow> sessions \<Rightarrow> nat \<times> sessions) \<Rightarrow> uuid list \<Rightarrow> nat route" where
  "close_all f [] = rreturn 0"
| "close_all f (d # ds) = rbind (rsessions (f d)) (\<lambda>n. rbind (close_all f ds) (\<lambda>k. rreturn (n + k)))"

definition delete_account_route :: "web_env \<Rightarrow> device_lookup \<Rightarrow> bytes \<Rightarrow> str route" where
  "delete_account_route E auth current_auth_secret =
     rbind (rquery (find_account_by_id (dl_account_id auth))) (\<lambda>found.
     rbind (rsome Unauthorized found) (\<lambda>account.
     rthen (rensure (constant_time_eq (we_sha256 E current_auth_secret) (av_password_hash account)) InvalidCredentials)
    (rbind (rquery (delete_account (av_id account))) (\<lambda>deleted.
     rthen (close_all (\<lambda>doc. close_doc (we_frame E) doc (Some (dl_device_id auth)) ''account deleted'')
              (purged_docs deleted))
    (rthen (close_all (\<lambda>doc. close_for_account (we_frame E) doc (av_id account) ''account deleted'')
              (left_docs deleted))
       (rreturn (clear_cookie (we_secure_cookies E))))))))"

section \<open>Device routes\<close>

definition devices_list :: "device_lookup \<Rightarrow> device_row list route" where
  "devices_list auth = rquery (list_devices (dl_account_id auth))"

definition devices_register ::
  "web_env \<Rightarrow> uuid \<Rightarrow> bytes \<Rightarrow> int \<Rightarrow> device_lookup \<Rightarrow> device_registration \<Rightarrow> device_credential route" where
  "devices_register E dev token now auth reg =
     register_device E dev token now (dl_account_id auth) ''name is required'' ''kind is required'' reg"

definition devices_revoke :: "web_env \<Rightarrow> device_lookup \<Rightarrow> str \<Rightarrow> unit route" where
  "devices_revoke E auth device_id =
     rbind (rsome (BadRequest ''invalid device id'') (we_parse_uuid E device_id)) (\<lambda>target.
     rbind (rquery (revoke_device (dl_account_id auth) target)) (\<lambda>removed.
     rensure removed NotFound))"

definition devices_rename :: "web_env \<Rightarrow> device_lookup \<Rightarrow> str \<Rightarrow> str \<Rightarrow> unit route" where
  "devices_rename E auth device_id raw_name =
     (let name = trim raw_name
      in rthen (rensure (name \<noteq> []) (BadRequest ''name is required''))
        (rbind (rsome (BadRequest ''invalid device id'') (we_parse_uuid E device_id)) (\<lambda>target.
         rbind (rquery (rename_device (dl_account_id auth) target name)) (\<lambda>renamed.
         rensure renamed NotFound))))"

section \<open>Doc routes\<close>

definition docs_list :: "device_lookup \<Rightarrow> (uuid \<times> membership list) route" where
  "docs_list auth =
     rbind (rquery (list_memberships (dl_account_id auth))) (\<lambda>rows.
     rreturn (dl_primary_doc_id auth, map to_membership rows))"

definition docs_create :: "uuid \<Rightarrow> int \<Rightarrow> device_lookup \<Rightarrow> new_doc \<Rightarrow> uuid route" where
  "docs_create doc now auth n =
     rthen (rensure (nd_wrapped_dek n \<noteq> [] \<and> nd_wrapped_dek_nonce n \<noteq> []) (BadRequest ''wrapped_dek is required''))
       (rquery (create_doc doc now (dl_account_id auth) n))"

definition docs_delete :: "web_env \<Rightarrow> device_lookup \<Rightarrow> str \<Rightarrow> unit route" where
  "docs_delete E auth raw_doc =
     rbind (rsome (BadRequest ''invalid doc id'') (we_parse_uuid E raw_doc)) (\<lambda>doc.
     rthen (rensure (doc \<noteq> dl_primary_doc_id auth) (Forbidden ''the primary doc cannot be deleted''))
    (rbind (rquery (delete_doc (dl_account_id auth) doc)) (\<lambda>outcome.
       case outcome of
         DeleteNotOwner \<Rightarrow> rfail NotFound
       | Deleted \<Rightarrow>
           rthen (rsessions (close_doc (we_frame E) doc (Some (dl_device_id auth)) ''doc deleted'')) (rreturn ()))))"

section \<open>Invite routes\<close>

text \<open>\<open>i64::try_from(secs)\<close>, \<open>checked_mul(1000)\<close>, \<open>clamp\<close>.\<close>

definition invite_ttl :: "u64 option \<Rightarrow> int" where
  "invite_ttl expires_in_secs =
     (case expires_in_secs of
        None \<Rightarrow> DEFAULT_TTL_MILLIS
      | Some secs \<Rightarrow>
          let millis = (if uint secs < 2 ^ 63 \<and> uint secs * 1000 < 2 ^ 63 then uint secs * 1000
                        else MAX_TTL_MILLIS)
          in min (max millis MIN_TTL_MILLIS) MAX_TTL_MILLIS)"

record create_invite_request =
  ci_invite_id :: str
  ci_wrapped_dek :: bytes
  ci_wrapped_dek_nonce :: bytes
  ci_expires_in_secs :: "u64 option"

definition parse_doc_id :: "web_env \<Rightarrow> str \<Rightarrow> uuid route" where
  "parse_doc_id E s = rsome (BadRequest ''invalid doc id'') (we_parse_uuid E s)"

definition invites_create ::
  "web_env \<Rightarrow> int \<Rightarrow> device_lookup \<Rightarrow> str \<Rightarrow> create_invite_request \<Rightarrow> (str \<times> int) route" where
  "invites_create E now auth raw_doc req =
     rbind (parse_doc_id E raw_doc) (\<lambda>doc.
     rthen (rensure (doc \<noteq> dl_primary_doc_id auth) (Forbidden ''the primary doc cannot be shared''))
    (rbind (rsome (BadRequest ''invalid invite id'') (decode_token E (ci_invite_id req))) (\<lambda>invite_id.
     rthen (rensure (ci_wrapped_dek req \<noteq> [] \<and> ci_wrapped_dek_nonce req \<noteq> []) (BadRequest ''wrapped_dek is required''))
    (rbind (rquery (create_invite now (dl_account_id auth) doc
              \<lparr>ni_id = invite_id, ni_wrapped_dek = ci_wrapped_dek req,
               ni_wrapped_dek_nonce = ci_wrapped_dek_nonce req,
               ni_ttl_millis = invite_ttl (ci_expires_in_secs req)\<rparr>)) (\<lambda>outcome.
       case outcome of
         InviteCreated expires_at \<Rightarrow> rreturn (ci_invite_id req, expires_at)
       | InviteNotOwner \<Rightarrow> rfail NotFound
       | InviteDuplicate \<Rightarrow> rfail (Conflict ''invite id already exists''))))))"

definition invites_list :: "web_env \<Rightarrow> device_lookup \<Rightarrow> str \<Rightarrow> (str \<times> invite_view) list route" where
  "invites_list E auth raw_doc =
     rbind (parse_doc_id E raw_doc) (\<lambda>doc.
     rbind (rquery (list_invites (dl_account_id auth) doc)) (\<lambda>found.
     rbind (rsome NotFound found) (\<lambda>rows.
     rreturn (map (\<lambda>r. (we_hex_encode E (iv_id r), r)) rows))))"

definition invites_revoke :: "web_env \<Rightarrow> device_lookup \<Rightarrow> str \<Rightarrow> str \<Rightarrow> unit route" where
  "invites_revoke E auth raw_doc raw_invite =
     rbind (parse_doc_id E raw_doc) (\<lambda>doc.
     rbind (rsome (BadRequest ''invalid invite id'') (decode_token E raw_invite)) (\<lambda>invite_id.
     rbind (rquery (revoke_invite (dl_account_id auth) doc invite_id)) (\<lambda>revoked.
     rensure revoked NotFound)))"

text \<open>The first character of the local part, an ellipsis, the domain.\<close>

definition mask_email :: "str \<Rightarrow> str" where
  "mask_email email =
     (case split_once 64 email of
        Some (local, domain) \<Rightarrow> take 1 local @ [0x2026, 64] @ domain
      | None \<Rightarrow> [0x2026])"

definition invites_fetch :: "web_env \<Rightarrow> int \<Rightarrow> str \<Rightarrow> invite_payload route" where
  "invites_fetch E now raw_invite =
     rbind (rsome NotFound (decode_token E raw_invite)) (\<lambda>invite_id.
     rbind (rquery (fetch_invite now invite_id)) (\<lambda>outcome.
       case outcome of
         FetchOpen p \<Rightarrow> rreturn (p\<lparr>ip_inviter_email := mask_email (ip_inviter_email p)\<rparr>)
       | FetchNotFound \<Rightarrow> rfail NotFound
       | FetchExpired \<Rightarrow> rfail (Gone ''invite expired'')
       | FetchConsumed \<Rightarrow> rfail (Gone ''invite already used'')))"

definition invites_accept :: "web_env \<Rightarrow> int \<Rightarrow> device_lookup \<Rightarrow> str \<Rightarrow> accept_wrap \<Rightarrow> uuid route" where
  "invites_accept E now auth raw_invite w =
     rbind (rsome NotFound (decode_token E raw_invite)) (\<lambda>invite_id.
     rthen (rensure (aw_wrapped_dek w \<noteq> [] \<and> aw_wrapped_dek_nonce w \<noteq> []) (BadRequest ''wrapped_dek is required''))
    (rbind (rquery (accept_invite now (dl_account_id auth) invite_id w)) (\<lambda>outcome.
       case outcome of
         Joined doc \<Rightarrow> rreturn doc
       | AcceptNotFound \<Rightarrow> rfail NotFound
       | AcceptExpired \<Rightarrow> rfail (Gone ''invite expired'')
       | AcceptConsumed \<Rightarrow> rfail (Gone ''invite already used'')
       | AlreadyMember _ \<Rightarrow> rfail (Conflict ''already a member''))))"

definition members_list :: "web_env \<Rightarrow> device_lookup \<Rightarrow> str \<Rightarrow> listed_member list route" where
  "members_list E auth raw_doc =
     rbind (parse_doc_id E raw_doc) (\<lambda>doc.
     rbind (rquery (list_members (dl_account_id auth) doc)) (\<lambda>found. rsome NotFound found))"

definition remove_member_route :: "web_env \<Rightarrow> int \<Rightarrow> device_lookup \<Rightarrow> str \<Rightarrow> str \<Rightarrow> unit route" where
  "remove_member_route E now auth raw_doc raw_account =
     rbind (parse_doc_id E raw_doc) (\<lambda>doc.
     rthen (rensure (doc \<noteq> dl_primary_doc_id auth) (Forbidden ''the primary doc has no members to remove''))
    (rbind (rsome (BadRequest ''invalid account id'') (we_parse_uuid E raw_account)) (\<lambda>target.
     rbind (rquery (remove_member now (dl_account_id auth) doc target)) (\<lambda>outcome.
       case outcome of
         Removed \<Rightarrow>
           rthen (rsessions (close_for_account (we_frame E) doc target ''membership removed'')) (rreturn ())
       | CallerNotMember \<Rightarrow> rfail NotFound
       | TargetNotMember \<Rightarrow> rfail NotFound
       | CallerNotOwner \<Rightarrow> rfail (Forbidden ''only an owner can remove members'')
       | SelfRemoval \<Rightarrow> rfail (Conflict ''cannot remove yourself from a doc'')
       | LastOwner \<Rightarrow> rfail (Conflict ''cannot remove the last owner of a doc'')))))"

end
