(* ===== verification/Accounts_Inv.thy ===== *)
theory Accounts_Inv
  imports Invites
begin

text \<open>
  What the account, invite and sync queries keep of the server's tables: the keys are unique, the
  references resolve, every doc has exactly one owner, and the Home doc of an account is held by
  that account alone and never shared.
\<close>

section \<open>Queries as steps\<close>

lemma role_parse_as_str [simp]: "role_parse (role_as_str r) = Some r"
  by (cases r) (simp_all add: role_parse_def)

lemma role_parse_iff: "role_parse s = Some r \<longleftrightarrow> s = role_as_str r"
  by (cases r) (auto simp: role_parse_def)

lemma role_as_str_inject [simp]: "role_as_str r = role_as_str r' \<longleftrightarrow> r = r'"
  using role_parse_as_str by (metis option.inject)

declare role_as_str.simps [simp del]

lemmas query_defs = qbind_def qreturn_def qfail_def qselect_def qexec_def

named_theorems row_simps "projections of updated rows"

lemma set_password_fields [row_simps]:
  "a_id (set_password acc u a) = a_id a" "a_email (set_password acc u a) = a_email a"
  "a_primary_doc_id (set_password acc u a) = a_primary_doc_id a"
  "a_recovery_auth_hash (set_password acc u a) = a_recovery_auth_hash a"
  by (simp_all add: set_password_def)

lemma set_wrap_fields [row_simps]:
  "m_doc (set_wrap acc k m) = m_doc m" "m_account (set_wrap acc k m) = m_account m"
  "m_role (set_wrap acc k m) = m_role m" "m_removed_at (set_wrap acc k m) = m_removed_at m"
  "m_recovery_wrapped_dek (set_wrap acc k m) = m_recovery_wrapped_dek m"
  "m_recovery_wrapped_dek_nonce (set_wrap acc k m) = m_recovery_wrapped_dek_nonce m"
  by (simp_all add: set_wrap_def)

lemma rejoin_fields [row_simps]:
  "m_doc (rejoin doc acc w now m) = m_doc m" "m_account (rejoin doc acc w now m) = m_account m"
  by (simp_all add: rejoin_def)

lemma stamp_removed_fields [row_simps]:
  "m_doc (stamp_removed doc acc now m) = m_doc m" "m_account (stamp_removed doc acc now m) = m_account m"
  "m_role (stamp_removed doc acc now m) = m_role m"
  "m_recovery_wrapped_dek (stamp_removed doc acc now m) = m_recovery_wrapped_dek m"
  "m_recovery_wrapped_dek_nonce (stamp_removed doc acc now m) = m_recovery_wrapped_dek_nonce m"
  by (simp_all add: stamp_removed_def)

lemma consume_invite_fields [row_simps]:
  "i_id (consume_invite iid acc now i) = i_id i" "i_doc (consume_invite iid acc now i) = i_doc i"
  "i_issued_by (consume_invite iid acc now i) = i_issued_by i"
  by (simp_all add: consume_invite_def)

lemma consume_session_fields [row_simps]:
  "rs_token_hash (consume_session h now r) = rs_token_hash r" "rs_account (consume_session h now r) = rs_account r"
  by (simp_all add: consume_session_def)

lemma new_row_fields [row_simps]:
  "a_id (new_account_row acc doc n) = acc" "a_email (new_account_row acc doc n) = na_email n"
  "a_primary_doc_id (new_account_row acc doc n) = doc"
  "a_recovery_auth_hash (new_account_row acc doc n) = na_recovery_auth_hash n"
  "m_doc (home_member_row acc doc now n) = doc" "m_account (home_member_row acc doc now n) = acc"
  "m_role (home_member_row acc doc now n) = role_as_str Owner"
  "m_removed_at (home_member_row acc doc now n) = None"
  "m_recovery_wrapped_dek (home_member_row acc doc now n) = na_recovery_wrapped_dek n"
  "m_recovery_wrapped_dek_nonce (home_member_row acc doc now n) = na_recovery_wrapped_dek_nonce n"
  "m_doc (plain_member_row doc acc role w wn now) = doc"
  "m_account (plain_member_row doc acc role w wn now) = acc"
  "m_role (plain_member_row doc acc role w wn now) = role_as_str role"
  "m_removed_at (plain_member_row doc acc role w wn now) = None"
  "d_id (new_device_row dev acc nm k h now) = dev" "d_account (new_device_row dev acc nm k h now) = acc"
  "i_id (new_invite_row now acc doc ni) = ni_id ni" "i_doc (new_invite_row now acc doc ni) = doc"
  "i_issued_by (new_invite_row now acc doc ni) = acc" "i_consumed_by (new_invite_row now acc doc ni) = None"
  by (simp_all add: new_account_row_def home_member_row_def plain_member_row_def new_device_row_def
      new_invite_row_def)

section \<open>Invariants\<close>

definition keys_ok :: "server_db \<Rightarrow> bool" where
  "keys_ok db \<longleftrightarrow>
     distinct (db_docs db) \<and> distinct (map a_id (db_accounts db)) \<and> distinct (map a_email (db_accounts db)) \<and>
     distinct (map (\<lambda>m. (m_doc m, m_account m)) (db_members db)) \<and> distinct (map i_id (db_invites db)) \<and>
     distinct (map rs_token_hash (db_recovery db)) \<and> distinct (map d_id (db_devices db))"

definition sync_refs :: "server_db \<Rightarrow> bool" where
  "sync_refs db \<longleftrightarrow>
     (\<forall>p \<in> dom (db_frontiers db). fst p \<in> d_id ` set (db_devices db) \<and> snd p \<in> set (db_docs db)) \<and>
     dom (db_sequences db) \<subseteq> set (db_docs db) \<and>
     u_doc ` set (db_updates db) \<subseteq> set (db_docs db) \<and> s_doc ` set (db_snapshots db) \<subseteq> set (db_docs db)"

definition refs_ok :: "server_db \<Rightarrow> bool" where
  "refs_ok db \<longleftrightarrow>
     (\<forall>a \<in> set (db_accounts db). a_primary_doc_id a \<in> set (db_docs db)) \<and>
     (\<forall>m \<in> set (db_members db). m_doc m \<in> set (db_docs db) \<and> m_account m \<in> a_id ` set (db_accounts db)) \<and>
     (\<forall>i \<in> set (db_invites db). i_doc i \<in> set (db_docs db) \<and> i_issued_by i \<in> a_id ` set (db_accounts db) \<and>
        (\<forall>c. i_consumed_by i = Some c \<longrightarrow> c \<in> a_id ` set (db_accounts db))) \<and>
     (\<forall>r \<in> set (db_recovery db). rs_account r \<in> a_id ` set (db_accounts db)) \<and>
     (\<forall>d \<in> set (db_devices db). d_account d \<in> a_id ` set (db_accounts db)) \<and>
     sync_refs db"

definition owns :: "uuid \<Rightarrow> uuid \<Rightarrow> server_db \<Rightarrow> bool" where
  "owns doc acc db \<longleftrightarrow> (\<exists>m \<in> set (db_members db). m_doc m = doc \<and> m_account m = acc \<and> m_role m = role_as_str Owner)"

definition roles_ok :: "server_db \<Rightarrow> bool" where
  "roles_ok db \<longleftrightarrow> (\<forall>m \<in> set (db_members db).
     (role_parse (m_role m) \<noteq> None) \<and> (m_role m = role_as_str Owner \<longrightarrow> m_removed_at m = None))"

definition owners_ok :: "server_db \<Rightarrow> bool" where
  "owners_ok db \<longleftrightarrow>
     (\<forall>doc \<in> set (db_docs db). \<exists>acc. owns doc acc db) \<and>
     (\<forall>doc x y. owns doc x db \<longrightarrow> owns doc y db \<longrightarrow> x = y)"

definition homes_ok :: "server_db \<Rightarrow> bool" where
  "homes_ok db \<longleftrightarrow> (\<forall>a \<in> set (db_accounts db).
     owns (a_primary_doc_id a) (a_id a) db \<and>
     (\<forall>m \<in> set (db_members db). m_doc m = a_primary_doc_id a \<longrightarrow>
        m_account m = a_id a \<and>
        (a_recovery_auth_hash a \<noteq> None \<longrightarrow>
           m_recovery_wrapped_dek m \<noteq> None \<and> m_recovery_wrapped_dek_nonce m \<noteq> None)))"

definition invites_ok :: "server_db \<Rightarrow> bool" where
  "invites_ok db \<longleftrightarrow> (\<forall>i \<in> set (db_invites db).
     owns (i_doc i) (i_issued_by i) db \<and>
     (\<forall>a \<in> set (db_accounts db). i_doc i \<noteq> a_primary_doc_id a))"

definition acct_inv :: "server_db \<Rightarrow> bool" where
  "acct_inv db \<longleftrightarrow> keys_ok db \<and> refs_ok db \<and> roles_ok db \<and> owners_ok db \<and> homes_ok db \<and> invites_ok db"

lemma acct_invD:
  assumes "acct_inv db"
  shows "keys_ok db" "refs_ok db" "roles_ok db" "owners_ok db" "homes_ok db" "invites_ok db"
  using assms by (simp_all add: acct_inv_def)

lemma list_ex_key: "list_ex (\<lambda>x. g x = v) xs \<longleftrightarrow> v \<in> g ` set xs"
  by (auto simp: list_ex_iff)

lemma has_account_iff: "has_account acc db \<longleftrightarrow> acc \<in> a_id ` set (db_accounts db)"
  by (auto simp: has_account_def list_ex_iff)

lemma refs_okD:
  assumes "refs_ok db"
  shows "a \<in> set (db_accounts db) \<Longrightarrow> a_primary_doc_id a \<in> set (db_docs db)"
    "m \<in> set (db_members db) \<Longrightarrow> m_doc m \<in> set (db_docs db)"
    "m \<in> set (db_members db) \<Longrightarrow> m_account m \<in> a_id ` set (db_accounts db)"
    "i \<in> set (db_invites db) \<Longrightarrow> i_doc i \<in> set (db_docs db)"
    "i \<in> set (db_invites db) \<Longrightarrow> i_issued_by i \<in> a_id ` set (db_accounts db)"
    "i \<in> set (db_invites db) \<Longrightarrow> i_consumed_by i = Some c \<Longrightarrow> c \<in> a_id ` set (db_accounts db)"
    "r \<in> set (db_recovery db) \<Longrightarrow> rs_account r \<in> a_id ` set (db_accounts db)"
    "d \<in> set (db_devices db) \<Longrightarrow> d_account d \<in> a_id ` set (db_accounts db)"
    "sync_refs db"
  using assms unfolding refs_ok_def by blast+

lemma sync_refsD:
  assumes "sync_refs db"
  shows "db_frontiers db (dev, doc) = Some n \<Longrightarrow> dev \<in> d_id ` set (db_devices db)"
    "db_frontiers db (dev, doc) = Some n \<Longrightarrow> doc \<in> set (db_docs db)"
    "db_sequences db doc = Some q \<Longrightarrow> doc \<in> set (db_docs db)"
    "u \<in> set (db_updates db) \<Longrightarrow> u_doc u \<in> set (db_docs db)"
    "s \<in> set (db_snapshots db) \<Longrightarrow> s_doc s \<in> set (db_docs db)"
  using assms by (auto simp: sync_refs_def dom_def subset_iff image_subset_iff)

lemma homes_okD:
  assumes "homes_ok db" "a \<in> set (db_accounts db)"
  shows "owns (a_primary_doc_id a) (a_id a) db"
    "m \<in> set (db_members db) \<Longrightarrow> m_doc m = a_primary_doc_id a \<Longrightarrow> m_account m = a_id a"
    "m \<in> set (db_members db) \<Longrightarrow> m_doc m = a_primary_doc_id a \<Longrightarrow> a_recovery_auth_hash a \<noteq> None \<Longrightarrow>
       m_recovery_wrapped_dek m \<noteq> None \<and> m_recovery_wrapped_dek_nonce m \<noteq> None"
  using assms unfolding homes_ok_def by blast+

lemma owns_member: "refs_ok db \<Longrightarrow> owns doc acc db \<Longrightarrow> doc \<in> set (db_docs db) \<and> acc \<in> a_id ` set (db_accounts db)"
  unfolding owns_def by (auto dest: refs_okD(2,3))

lemma length_filter_pos: "length (filter P xs) > 0 \<longleftrightarrow> (\<exists>x \<in> set xs. P x)"
  by (auto simp: filter_empty_conv)

lemma is_active_owner_iff:
  assumes "roles_ok db"
  shows "is_active_owner doc acc db \<longleftrightarrow> owns doc acc db"
  unfolding is_active_owner_def length_filter_pos active_def owns_def
  using assms by (intro bex_cong) (auto simp: roles_ok_def)

text \<open>The parts only depend on the tables they mention.\<close>

lemma inv_parts_cong:
  assumes "db_docs db' = db_docs db" "db_accounts db' = db_accounts db" "db_members db' = db_members db"
    "db_invites db' = db_invites db"
  shows "roles_ok db' = roles_ok db" "owners_ok db' = owners_ok db" "homes_ok db' = homes_ok db"
    "invites_ok db' = invites_ok db" "owns doc acc db' = owns doc acc db"
  unfolding roles_ok_def owners_ok_def homes_ok_def invites_ok_def owns_def assms by (rule refl)+

lemma acct_inv_cong:
  assumes "db_docs db' = db_docs db" "db_accounts db' = db_accounts db" "db_members db' = db_members db"
    "db_invites db' = db_invites db" "keys_ok db'" "refs_ok db'" "acct_inv db"
  shows "acct_inv db'"
  using assms(5-7) inv_parts_cong [OF assms(1-4)] by (simp add: acct_inv_def)

section \<open>Sync queries\<close>

text \<open>The tables no query of \<open>sync/queries.rs\<close> writes.\<close>

definition same_accounts :: "server_db \<Rightarrow> server_db \<Rightarrow> bool" where
  "same_accounts db db' \<longleftrightarrow>
     db_docs db' = db_docs db \<and> db_accounts db' = db_accounts db \<and> db_members db' = db_members db \<and>
     db_invites db' = db_invites db \<and> db_recovery db' = db_recovery db \<and> db_devices db' = db_devices db"

lemma sync_refs_update:
  assumes "sync_refs db"
  shows "doc \<in> set (db_docs db) \<Longrightarrow> sync_refs (db\<lparr>db_sequences := (db_sequences db)(doc \<mapsto> q)\<rparr>)"
    "u_doc u \<in> set (db_docs db) \<Longrightarrow> sync_refs (db\<lparr>db_updates := db_updates db @ [u]\<rparr>)"
    "dev \<in> d_id ` set (db_devices db) \<Longrightarrow> doc \<in> set (db_docs db) \<Longrightarrow>
       sync_refs (db\<lparr>db_frontiers := (db_frontiers db)((dev, doc) \<mapsto> n)\<rparr>)"
    "s_doc s \<in> set (db_docs db) \<Longrightarrow>
       sync_refs (db\<lparr>db_snapshots := db_snapshots db @ [s], db_snapshot_rowid := k\<rparr>)"
    "sync_refs (db\<lparr>db_updates := filter P (db_updates db)\<rparr>)"
  using assms by (simp_all add: sync_refs_def image_subset_iff)

lemma insert_loop_sync:
  assumes "insert_loop doc dev ps acc db = Inr (r, db')" "sync_refs db"
  shows "same_accounts db db' \<and> sync_refs db'"
  using assms
proof (induction ps arbitrary: acc db)
  case Nil
  then show ?case by (simp add: same_accounts_def)
next
  case (Cons p ps)
  show ?case
  proof (cases "find_push doc dev (pb_push_id p) db")
    case None
    obtain seq epoch db1 where r: "reserve_seq doc db = Inr ((seq, epoch), db1)"
      using Cons.prems(1) None by (auto split: sum.splits)
    obtain db2 where i: "insert_update_row \<lparr>u_doc = doc, u_seq = seq, u_epoch = epoch, u_device = dev,
        u_push = pb_push_id p, u_blob = pb_blob p\<rparr> db1 = Inr db2"
      using Cons.prems(1) None r by (auto split: sum.splits)
    have 1: "same_accounts db db1 \<and> sync_refs db1"
      using r Cons.prems(2)
      by (auto simp: reserve_seq_def same_accounts_def Let_def intro: sync_refs_update
          split: if_splits prod.splits)
    have 2: "same_accounts db1 db2 \<and> sync_refs db2"
      using i 1 by (auto simp: insert_update_row_def same_accounts_def intro!: sync_refs_update split: if_splits)
    from Cons.IH [of _ db2] Cons.prems(1) None r i 1 2 show ?thesis
      by (auto simp: same_accounts_def)
  qed (use Cons in auto)
qed

lemma same_accounts_refl: "same_accounts db db"
  by (simp add: same_accounts_def)

lemma sync_queries:
  assumes "sync_refs db"
  shows "insert_updates doc dev ps db = Inr (r, db') \<Longrightarrow> same_accounts db db' \<and> sync_refs db'"
    "advance_last_acked_seq dev doc n db = Inr db' \<Longrightarrow> same_accounts db db' \<and> sync_refs db'"
    "insert_snapshot doc up fl fr vv b db = Inr (q, db') \<Longrightarrow> same_accounts db db' \<and> sync_refs db'"
    "same_accounts db (snd (compact_doc doc db)) \<and> sync_refs (snd (compact_doc doc db))"
proof -
  show "insert_updates doc dev ps db = Inr (r, db') \<Longrightarrow> same_accounts db db' \<and> sync_refs db'"
    unfolding insert_updates_def using insert_loop_sync [OF _ assms] same_accounts_refl assms
    by (simp split: if_split_asm)
  show "advance_last_acked_seq dev doc n db = Inr db' \<Longrightarrow> same_accounts db db' \<and> sync_refs db'"
    unfolding advance_last_acked_seq_def using assms sync_refs_update(3) [OF assms, of dev doc "as_i64 n"]
    by (simp add: same_accounts_def split: option.splits if_split_asm) auto
  show "insert_snapshot doc up fl fr vv b db = Inr (q, db') \<Longrightarrow> same_accounts db db' \<and> sync_refs db'"
    by (drule insert_snapshot_cases, elim disjE exE conjE)
      (use assms in \<open>simp_all add: same_accounts_def sync_refs_update\<close>)
  show "same_accounts db (snd (compact_doc doc db)) \<and> sync_refs (snd (compact_doc doc db))"
    unfolding compact_doc_def using assms sync_refs_update(5) [OF assms]
    by (simp add: same_accounts_def split: option.split)
qed

lemma run_db_sync:
  assumes "sync_refs db"
  shows "same_accounts db (run_db c db) \<and> sync_refs (run_db c db)"
  using sync_queries [OF assms] same_accounts_refl assms
  by (cases c) (simp_all split: sum.split prod.split)

lemma run_db_acct_inv:
  assumes "acct_inv db"
  shows "acct_inv (run_db c db)"
proof -
  have r: "sync_refs db" using acct_invD(2) [OF assms] by (rule refs_okD)
  from run_db_sync [OF this, of c] have s: "same_accounts db (run_db c db)" "sync_refs (run_db c db)" by simp_all
  show ?thesis
  proof (rule acct_inv_cong [OF _ _ _ _ _ _ assms])
    show "keys_ok (run_db c db)" using acct_invD(1) [OF assms] s(1) by (simp add: keys_ok_def same_accounts_def)
    show "refs_ok (run_db c db)" using acct_invD(2) [OF assms] s by (simp add: refs_ok_def same_accounts_def)
  qed (use s(1) in \<open>simp_all add: same_accounts_def\<close>)
qed

section \<open>Signup and new docs\<close>

lemma owns_snoc:
  "db_members db' = db_members db @ [m] \<Longrightarrow>
     owns d x db' \<longleftrightarrow> owns d x db \<or> (m_doc m = d \<and> m_account m = x \<and> m_role m = role_as_str Owner)"
  by (auto simp: owns_def)

lemma roles_snoc:
  "db_members db' = db_members db @ [m] \<Longrightarrow>
     roles_ok db' \<longleftrightarrow> roles_ok db \<and> role_parse (m_role m) \<noteq> None \<and>
       (m_role m = role_as_str Owner \<longrightarrow> m_removed_at m = None)"
  by (auto simp: roles_ok_def)

lemma create_account_cases:
  assumes "create_account acc dev minted now n db = Inr (c, db')"
  shows "\<exists>doc. doc = (case na_primary_doc_id n of None \<Rightarrow> minted | Some d \<Rightarrow> d) \<and>
    c = \<lparr>ca_account_id = acc, ca_device_id = dev, ca_primary_doc_id = doc\<rparr> \<and>
    doc \<notin> set (db_docs db) \<and> acc \<notin> a_id ` set (db_accounts db) \<and>
    na_email n \<notin> a_email ` set (db_accounts db) \<and> dev \<notin> d_id ` set (db_devices db) \<and>
    na_email n = sql_lower (sql_trim (na_email n)) \<and>
    db' = db\<lparr>db_docs := db_docs db @ [doc],
             db_accounts := db_accounts db @ [new_account_row acc doc n],
             db_members := db_members db @ [home_member_row acc doc now n],
             db_devices := db_devices db @ [new_device_row dev acc (na_device_name n) (na_device_kind n)
               (na_device_token_hash n) now]\<rparr>"
  using assms
  by (simp add: create_account_def query_defs insert_doc_def insert_account_row_def insert_member_row_def
      insert_device_row_def has_account_def row_simps list_ex_key Let_def
      split: if_split_asm sum.split_asm option.splits)

text \<open>The recovery columns a signup writes go together.\<close>

definition recovery_paired :: "new_account \<Rightarrow> bool" where
  "recovery_paired n \<longleftrightarrow>
     (na_recovery_auth_hash n \<noteq> None \<longrightarrow>
        na_recovery_wrapped_dek n \<noteq> None \<and> na_recovery_wrapped_dek_nonce n \<noteq> None)"

lemma create_account_inv:
  assumes i: "acct_inv db" and c: "create_account acc dev minted now n db = Inr (c, db')"
    and n: "recovery_paired n"
  shows "acct_inv db'"
proof -
  obtain doc where fresh: "doc \<notin> set (db_docs db)" "acc \<notin> a_id ` set (db_accounts db)"
      "na_email n \<notin> a_email ` set (db_accounts db)" "dev \<notin> d_id ` set (db_devices db)"
    and db': "db' = db\<lparr>db_docs := db_docs db @ [doc],
             db_accounts := db_accounts db @ [new_account_row acc doc n],
             db_members := db_members db @ [home_member_row acc doc now n],
             db_devices := db_devices db @ [new_device_row dev acc (na_device_name n) (na_device_kind n)
               (na_device_token_hash n) now]\<rparr>"
    using create_account_cases [OF c] by blast
  have f: "db_docs db' = db_docs db @ [doc]" "db_accounts db' = db_accounts db @ [new_account_row acc doc n]"
      "db_members db' = db_members db @ [home_member_row acc doc now n]"
      "db_devices db' = db_devices db @ [new_device_row dev acc (na_device_name n) (na_device_kind n)
         (na_device_token_hash n) now]"
      "db_invites db' = db_invites db" "db_recovery db' = db_recovery db" "db_frontiers db' = db_frontiers db"
      "db_sequences db' = db_sequences db" "db_updates db' = db_updates db" "db_snapshots db' = db_snapshots db"
    unfolding db' by simp_all
  note I = acct_invD [OF i] and R = refs_okD [OF acct_invD(2) [OF i]]
  have nm: "m_doc m \<noteq> doc" "m_account m \<noteq> acc" if "m \<in> set (db_members db)" for m
    using R(2,3) [OF that] fresh by auto
  have ow: "owns d x db' \<longleftrightarrow> owns d x db \<or> (d = doc \<and> x = acc)" for d x
    unfolding owns_snoc [OF f(3)] by (auto simp: row_simps)
  have nd: "\<not> owns doc x db" for x using nm unfolding owns_def by blast
  have "keys_ok db'"
    using I(1) fresh nm unfolding keys_ok_def f by (auto simp: row_simps)
  moreover have "refs_ok db'"
    using I(2) unfolding refs_ok_def sync_refs_def f by (auto simp: row_simps)
  moreover have "roles_ok db'"
    using I(3) unfolding roles_snoc [OF f(3)] by (simp add: row_simps)
  moreover have "owners_ok db'"
    using I(4) nd unfolding owners_ok_def ow f by auto
  moreover have "homes_ok db'"
  proof -
    have "a_primary_doc_id a \<noteq> doc" if "a \<in> set (db_accounts db)" for a using R(1) [OF that] fresh by auto
    then show ?thesis using I(5) n nm unfolding homes_ok_def ow f recovery_paired_def
      by (auto simp: row_simps)
  qed
  moreover have "invites_ok db'"
    using I(6) R(4) fresh(1) unfolding invites_ok_def ow f by (auto simp: row_simps)
  ultimately show ?thesis by (simp add: acct_inv_def)
qed

lemma create_doc_cases:
  assumes "create_doc doc now acc n db = Inr (r, db')"
  shows "doc \<notin> set (db_docs db) \<and> acc \<in> a_id ` set (db_accounts db) \<and>
    db' = db\<lparr>db_docs := db_docs db @ [doc], db_members := db_members db @
      [plain_member_row doc acc Owner (nd_wrapped_dek n) (nd_wrapped_dek_nonce n) now]\<rparr>"
  using assms
  by (simp add: create_doc_def query_defs insert_doc_def insert_member_row_def has_account_def row_simps
      list_ex_key Let_def split: if_split_asm sum.split_asm) (elim conjE, simp)

lemma create_doc_inv:
  assumes i: "acct_inv db" and c: "create_doc doc now acc n db = Inr (r, db')"
  shows "acct_inv db'"
proof -
  define m where "m = plain_member_row doc acc Owner (nd_wrapped_dek n) (nd_wrapped_dek_nonce n) now"
  have fresh: "doc \<notin> set (db_docs db)" "acc \<in> a_id ` set (db_accounts db)"
    and db': "db' = db\<lparr>db_docs := db_docs db @ [doc], db_members := db_members db @ [m]\<rparr>"
    using create_doc_cases [OF c] by (simp_all add: m_def)
  have f: "db_docs db' = db_docs db @ [doc]" "db_accounts db' = db_accounts db"
      "db_members db' = db_members db @ [m]" "db_devices db' = db_devices db"
      "db_invites db' = db_invites db" "db_recovery db' = db_recovery db" "db_frontiers db' = db_frontiers db"
      "db_sequences db' = db_sequences db" "db_updates db' = db_updates db" "db_snapshots db' = db_snapshots db"
    unfolding db' by simp_all
  have m: "m_doc m = doc" "m_account m = acc" "m_role m = role_as_str Owner" "m_removed_at m = None"
    by (simp_all add: m_def row_simps)
  note I = acct_invD [OF i] and R = refs_okD [OF acct_invD(2) [OF i]]
  have nm: "m_doc x \<noteq> doc" if "x \<in> set (db_members db)" for x using R(2) [OF that] fresh by auto
  have ow: "owns d x db' \<longleftrightarrow> owns d x db \<or> (d = doc \<and> x = acc)" for d x
    unfolding owns_snoc [OF f(3)] by (auto simp: m)
  have nd: "\<not> owns doc x db" for x using nm unfolding owns_def by blast
  have "keys_ok db'" using I(1) fresh nm unfolding keys_ok_def f by (auto simp: m)
  moreover have "refs_ok db'" using I(2) fresh(2) unfolding refs_ok_def sync_refs_def f by (auto simp: m)
  moreover have "roles_ok db'" using I(3) unfolding roles_snoc [OF f(3)] by (simp add: m)
  moreover have "owners_ok db'" using I(4) nd unfolding owners_ok_def ow f by auto
  moreover have "homes_ok db'"
  proof -
    have "a_primary_doc_id a \<noteq> doc" if "a \<in> set (db_accounts db)" for a using R(1) [OF that] fresh by auto
    then show ?thesis using I(5) unfolding homes_ok_def ow f by (auto simp: m)
  qed
  moreover have "invites_ok db'" using I(6) unfolding invites_ok_def ow f by auto
  ultimately show ?thesis by (simp add: acct_inv_def)
qed

section \<open>Deletions\<close>

text \<open>The tables without the accounts \<open>A\<close> and the docs \<open>D\<close>.\<close>

definition forget_consumer :: "uuid set \<Rightarrow> invite_row \<Rightarrow> invite_row" where
  "forget_consumer A i = (if i_consumed_by i \<in> Some ` A then i\<lparr>i_consumed_by := None\<rparr> else i)"

definition erased :: "uuid set \<Rightarrow> uuid set \<Rightarrow> server_db \<Rightarrow> server_db" where
  "erased A D db = db\<lparr>
     db_docs := filter (\<lambda>d. d \<notin> D) (db_docs db),
     db_accounts := filter (\<lambda>a. a_id a \<notin> A) (db_accounts db),
     db_members := filter (\<lambda>m. m_doc m \<notin> D \<and> m_account m \<notin> A) (db_members db),
     db_invites := map (forget_consumer A)
       (filter (\<lambda>i. i_doc i \<notin> D \<and> i_issued_by i \<notin> A) (db_invites db)),
     db_recovery := filter (\<lambda>r. rs_account r \<notin> A) (db_recovery db),
     db_devices := filter (\<lambda>d. d_account d \<notin> A) (db_devices db),
     db_frontiers := (\<lambda>(dev, doc). if doc \<in> D \<or> dev \<in> d_id ` {d \<in> set (db_devices db). d_account d \<in> A}
                                  then None else db_frontiers db (dev, doc)),
     db_sequences := (\<lambda>d. if d \<in> D then None else db_sequences db d),
     db_updates := filter (\<lambda>u. u_doc u \<notin> D) (db_updates db),
     db_snapshots := filter (\<lambda>s. s_doc s \<notin> D) (db_snapshots db)\<rparr>"

lemma forget_consumer_fields [row_simps]:
  "i_id (forget_consumer A i) = i_id i" "i_doc (forget_consumer A i) = i_doc i"
  "i_issued_by (forget_consumer A i) = i_issued_by i"
  "i_consumed_by (forget_consumer A i) = (if i_consumed_by i \<in> Some ` A then None else i_consumed_by i)"
  by (simp_all add: forget_consumer_def)

lemma erased_fields:
  "db_docs (erased A D db) = filter (\<lambda>d. d \<notin> D) (db_docs db)"
  "db_accounts (erased A D db) = filter (\<lambda>a. a_id a \<notin> A) (db_accounts db)"
  "db_members (erased A D db) = filter (\<lambda>m. m_doc m \<notin> D \<and> m_account m \<notin> A) (db_members db)"
  "db_invites (erased A D db) = map (forget_consumer A)
     (filter (\<lambda>i. i_doc i \<notin> D \<and> i_issued_by i \<notin> A) (db_invites db))"
  "db_recovery (erased A D db) = filter (\<lambda>r. rs_account r \<notin> A) (db_recovery db)"
  "db_devices (erased A D db) = filter (\<lambda>d. d_account d \<notin> A) (db_devices db)"
  "db_frontiers (erased A D db) (dev, doc) =
     (if doc \<in> D \<or> dev \<in> d_id ` {d \<in> set (db_devices db). d_account d \<in> A} then None
      else db_frontiers db (dev, doc))"
  "db_sequences (erased A D db) doc = (if doc \<in> D then None else db_sequences db doc)"
  "db_updates (erased A D db) = filter (\<lambda>u. u_doc u \<notin> D) (db_updates db)"
  "db_snapshots (erased A D db) = filter (\<lambda>s. s_doc s \<notin> D) (db_snapshots db)"
  "db_snapshot_rowid (erased A D db) = db_snapshot_rowid db"
  by (simp_all add: erased_def)

lemma owns_erased: "owns d x (erased A D db) \<longleftrightarrow> owns d x db \<and> d \<notin> D \<and> x \<notin> A"
  by (auto simp: owns_def erased_fields)

lemma erased_inv:
  assumes i: "acct_inv db"
    and own: "\<And>doc acc. owns doc acc db \<Longrightarrow> acc \<in> A \<Longrightarrow> doc \<in> D"
    and home: "\<And>a. a \<in> set (db_accounts db) \<Longrightarrow> a_primary_doc_id a \<in> D \<Longrightarrow> a_id a \<in> A"
  shows "acct_inv (erased A D db)"
proof -
  note I = acct_invD [OF i] and R = refs_okD [OF acct_invD(2) [OF i]]
  have acc: "x \<in> a_id ` set (db_accounts (erased A D db))"
    if "x \<in> a_id ` set (db_accounts db)" "x \<notin> A" for x
    using that by (auto simp: erased_fields)
  have keys: "keys_ok (erased A D db)"
    using I(1) unfolding keys_ok_def erased_fields by (simp add: o_def row_simps distinct_map_filter)
  have "sync_refs (erased A D db)"
  proof -
    have "fst p \<in> d_id ` set (db_devices (erased A D db)) \<and> snd p \<in> set (db_docs (erased A D db))"
      if "p \<in> dom (db_frontiers (erased A D db))" for p
    proof -
      obtain dev doc where p: "p = (dev, doc)" by (cases p)
      with that obtain n where "db_frontiers (erased A D db) (dev, doc) = Some n" by (auto dest: domD)
      then have n: "doc \<notin> D" "dev \<notin> d_id ` {d \<in> set (db_devices db). d_account d \<in> A}"
          "db_frontiers db (dev, doc) = Some n"
        by (simp_all add: erased_fields split: if_split_asm)
      from sync_refsD(1,2) [OF R(9) n(3)] n(1,2) show ?thesis by (auto simp: p erased_fields)
    qed
    moreover have "dom (db_sequences (erased A D db)) \<subseteq> set (db_docs (erased A D db))"
      using sync_refsD(3) [OF R(9)] by (auto simp: erased_fields split: if_split_asm)
    ultimately show ?thesis using sync_refsD(4,5) [OF R(9)] by (auto simp: sync_refs_def erased_fields)
  qed
  moreover have "Some c \<in> Some ` A \<longleftrightarrow> c \<in> A" for c by auto
  ultimately have "refs_ok (erased A D db)"
    using R(1-8) home acc unfolding refs_ok_def by (auto simp: erased_fields row_simps)
  moreover have "roles_ok (erased A D db)" using I(3) by (simp add: roles_ok_def erased_fields)
  moreover have "owners_ok (erased A D db)"
    using I(4) own unfolding owners_ok_def owns_erased erased_fields set_filter by blast
  moreover have "homes_ok (erased A D db)"
    using I(5) home unfolding homes_ok_def owns_erased by (auto simp: erased_fields)
  moreover have "invites_ok (erased A D db)"
    using I(6) unfolding invites_ok_def owns_erased by (auto simp: erased_fields row_simps)
  ultimately show ?thesis using keys by (simp add: acct_inv_def)
qed

lemma if_None_None: "(if P then None else if Q then None else x) = (if Q \<or> P then None else x)"
  by simp

lemma purge_rows_under_docs:
  "qfor purge_rows_under_doc ds db = Inr ((), db\<lparr>
     db_updates := filter (\<lambda>u. u_doc u \<notin> set ds) (db_updates db),
     db_snapshots := filter (\<lambda>s. s_doc s \<notin> set ds) (db_snapshots db),
     db_frontiers := (\<lambda>p. if snd p \<in> set ds then None else db_frontiers db p),
     db_sequences := (\<lambda>d. if d \<in> set ds then None else db_sequences db d),
     db_invites := filter (\<lambda>i. i_doc i \<notin> set ds) (db_invites db),
     db_members := filter (\<lambda>m. m_doc m \<notin> set ds) (db_members db)\<rparr>)"
proof (induction ds arbitrary: db)
  case Nil
  then show ?case by (simp add: query_defs)
next
  case (Cons d ds)
  then show ?case
    by (simp add: purge_rows_under_doc_def query_defs conj_commute case_prod_beta' fun_upd_def if_None_None cong: if_cong)
qed

lemma delete_doc_rows:
  assumes "\<forall>d \<in> set ds. \<not> doc_referenced d db"
  shows "qfor delete_doc_row ds db = Inr ((), db\<lparr>db_docs := filter (\<lambda>d. d \<notin> set ds) (db_docs db)\<rparr>)"
  using assms
proof (induction ds arbitrary: db)
  case Nil
  then show ?case by (simp add: query_defs)
next
  case (Cons d ds)
  have "doc_referenced x (db\<lparr>db_docs := y\<rparr>) = doc_referenced x db" for x y by (simp add: doc_referenced_def)
  with Cons show ?case by (simp add: query_defs delete_doc_row_def conj_commute)
qed

lemma erased_doc:
  "erased {} {doc} db = db\<lparr>db_docs := filter (\<lambda>d. d \<noteq> doc) (db_docs db),
     db_updates := filter (\<lambda>u. u_doc u \<noteq> doc) (db_updates db),
     db_snapshots := filter (\<lambda>s. s_doc s \<noteq> doc) (db_snapshots db),
     db_frontiers := (\<lambda>p. if snd p = doc then None else db_frontiers db p),
     db_sequences := (\<lambda>d. if d = doc then None else db_sequences db d),
     db_invites := filter (\<lambda>i. i_doc i \<noteq> doc) (db_invites db),
     db_members := filter (\<lambda>m. m_doc m \<noteq> doc) (db_members db)\<rparr>"
proof -
  have "forget_consumer {} = id" by (simp add: fun_eq_iff forget_consumer_def)
  then show ?thesis by (intro server_db.equality) (simp_all add: erased_def case_prod_beta' cong: if_cong)
qed

text \<open>Deleting a doc: for its owner, unless it is somebody's Home, which the foreign key refuses.\<close>

lemma delete_doc_eq:
  "delete_doc acc doc db =
     (if \<not> is_active_owner doc acc db then Inr (DeleteNotOwner, db)
      else if doc \<in> set (db_docs db) \<and> doc \<in> a_primary_doc_id ` set (db_accounts db) then Inl DbForeignKey
      else Inr (Deleted, erased {} {doc} db))"
proof -
  have q: "purge_rows_under_doc doc db = Inr ((), (erased {} {doc} db)\<lparr>db_docs := db_docs db\<rparr>)"
    by (simp add: purge_rows_under_doc_def query_defs erased_doc case_prod_beta' fun_upd_def cong: if_cong)
  have "doc_referenced doc ((erased {} {doc} db)\<lparr>db_docs := db_docs db\<rparr>) \<longleftrightarrow>
      doc \<in> a_primary_doc_id ` set (db_accounts db)"
    by (auto simp: doc_referenced_def erased_doc list_ex_iff)
  moreover have "(erased {} {doc} db)\<lparr>db_docs := filter (\<lambda>d. d \<noteq> doc) (db_docs db)\<rparr> = erased {} {doc} db"
    by (simp add: erased_doc)
  ultimately show ?thesis
    by (simp add: delete_doc_def purge_doc_rows_def qbind_def qselect_def qreturn_def q delete_doc_row_def)
qed

lemma delete_doc_inv:
  assumes i: "acct_inv db" and d: "delete_doc acc doc db = Inr (r, db')"
  shows "acct_inv db'"
proof (cases "r = Deleted")
  case True
  with d have o: "is_active_owner doc acc db" and f: "\<not> (doc \<in> set (db_docs db) \<and> doc \<in> a_primary_doc_id ` set (db_accounts db))"
    and db': "db' = erased {} {doc} db"
    by (simp_all add: delete_doc_eq split: if_split_asm)
  have "doc \<in> set (db_docs db)"
    using o owns_member [OF acct_invD(2) [OF i]] is_active_owner_iff [OF acct_invD(3) [OF i]] by blast
  with f show ?thesis unfolding db' by (intro erased_inv [OF i]) auto
next
  case False
  with d i show ?thesis by (simp add: delete_doc_eq split: if_split_asm)
qed

text \<open>Deleting an account never fails, and drops exactly the account and the docs it owns.\<close>

lemma delete_account_statements_eq:
  "delete_account_statements acc db = Inr ((), db\<lparr>
     db_accounts := filter (\<lambda>a. a_id a \<noteq> acc) (db_accounts db),
     db_members := filter (\<lambda>m. m_account m \<noteq> acc) (db_members db),
     db_invites := map (forget_consumer {acc}) (filter (\<lambda>i. i_issued_by i \<noteq> acc) (db_invites db)),
     db_recovery := filter (\<lambda>r. rs_account r \<noteq> acc) (db_recovery db),
     db_devices := filter (\<lambda>d. d_account d \<noteq> acc) (db_devices db),
     db_frontiers := (\<lambda>(dev, doc). if dev \<in> d_id ` {d \<in> set (db_devices db). d_account d = acc}
                                  then None else db_frontiers db (dev, doc))\<rparr>)"
proof -
  have fc: "forget_consumer {acc} = (\<lambda>i. if i_consumed_by i = Some acc then i\<lparr>i_consumed_by := None\<rparr> else i)"
    by (simp add: fun_eq_iff forget_consumer_def)
  have "\<not> account_referenced acc (db\<lparr>
     db_members := filter (\<lambda>m. m_account m \<noteq> acc) (db_members db),
     db_invites := map (forget_consumer {acc}) (filter (\<lambda>i. i_issued_by i \<noteq> acc) (db_invites db)),
     db_recovery := filter (\<lambda>r. rs_account r \<noteq> acc) (db_recovery db),
     db_devices := filter (\<lambda>d. d_account d \<noteq> acc) (db_devices db), db_frontiers := fr\<rparr>)" for fr
    by (simp add: account_referenced_def list_ex_iff row_simps)
  then show ?thesis
    by (simp add: delete_account_statements_def query_defs delete_devices_def delete_account_row_def
        fc [symmetric] Let_def cong: if_cong)
qed

lemma home_owner:
  assumes h: "homes_ok db" and o: "owns (a_primary_doc_id a) acc db" and a: "a \<in> set (db_accounts db)"
  shows "a_id a = acc"
proof -
  from o obtain m where "m \<in> set (db_members db)" "m_doc m = a_primary_doc_id a" "m_account m = acc"
    unfolding owns_def by blast
  with homes_okD(2) [OF h a] show ?thesis by simp
qed

lemma delete_account_eq:
  assumes i: "acct_inv db"
  shows "delete_account acc db = Inr (account_docs acc db, erased {acc} {doc. owns doc acc db} db)"
proof -
  define ds where "ds = purged_docs (account_docs acc db)"
  have ds: "set ds = {doc. owns doc acc db}"
    using acct_invD(3) [OF i] by (auto simp: ds_def account_docs_def Let_def owns_def active_def roles_ok_def)
  obtain db1 where p: "qfor purge_rows_under_doc ds db = Inr ((), db1)" using purge_rows_under_docs by blast
  obtain db2 where s: "delete_account_statements acc db1 = Inr ((), db2)"
    using delete_account_statements_eq by blast
  have e: "db2\<lparr>db_docs := filter (\<lambda>d. d \<notin> set ds) (db_docs db2)\<rparr> = erased {acc} (set ds) db"
    unfolding s [unfolded delete_account_statements_eq, simplified, symmetric]
      p [unfolded purge_rows_under_docs, simplified, symmetric] erased_def
    by (simp add: case_prod_beta' if_None_None conj_commute cong: if_cong)
  have "\<not> doc_referenced d (erased {acc} (set ds) db)" if d: "d \<in> set ds" for d
  proof -
    have "a_primary_doc_id a \<noteq> d" if "a \<in> set (db_accounts db)" "a_id a \<noteq> acc" for a
      using home_owner [OF acct_invD(5) [OF i] _ that(1)] that(2) d ds by auto
    with d show ?thesis by (simp add: doc_referenced_def erased_fields list_ex_iff row_simps) auto
  qed
  moreover have "doc_referenced d (db2\<lparr>db_docs := x\<rparr>) = doc_referenced d db2" for d x
    by (simp add: doc_referenced_def)
  ultimately have "\<forall>d \<in> set ds. \<not> doc_referenced d db2" unfolding e [symmetric] by simp
  from delete_doc_rows [OF this] show ?thesis
    unfolding ds [symmetric]
    by (simp add: delete_account_def qbind_def qselect_def qreturn_def ds_def [symmetric] p s e)
qed

lemma delete_account_inv: "acct_inv db \<Longrightarrow> acct_inv (erased {acc} {doc. owns doc acc db} db)"
  by (rule erased_inv) (auto dest: home_owner [OF acct_invD(5)])

section \<open>Passwords\<close>

lemma filter_unique_key:
  assumes d: "distinct (map g xs)" and x: "x \<in> set xs" "P x"
    and u: "\<And>y. y \<in> set xs \<Longrightarrow> P y \<Longrightarrow> g y = g x"
  shows "filter P xs = [x]"
proof -
  have "inj_on g (set xs)" using d by (simp add: distinct_map)
  then have "set (filter P xs) = {x}" using x u by (auto dest: inj_onD)
  moreover have "distinct (filter P xs)" using d by (simp add: distinct_map)
  ultimately show ?thesis using distinct_card [of "filter P xs"]
    by (cases "filter P xs") (auto simp: subset_singleton_iff)
qed

lemma find_unique_key:
  assumes "distinct (map g xs)" "x \<in> set xs" "g x = k"
  shows "find (\<lambda>y. g y = k) xs = Some x"
proof (cases "find (\<lambda>y. g y = k) xs")
  case None
  with assms show ?thesis by (auto simp: find_None_iff)
next
  case (Some y)
  then have "y \<in> set xs" "g y = k" by (auto simp: find_Some_iff)
  with assms Some show ?thesis by (auto simp: distinct_map dest: inj_onD)
qed

lemma update_wrap_ok:
  assumes k: "keys_ok db" and m: "m \<in> set (db_members db)" "m_doc m = dk_doc_id key" "m_account m = acc"
    "m_removed_at m = None"
  shows "update_wrap acc key db = Inr ((), db\<lparr>db_members := map (set_wrap acc key) (db_members db)\<rparr>)"
proof -
  have "filter (\<lambda>x. m_doc x = dk_doc_id key \<and> m_account x = acc \<and> active x) (db_members db) = [m]"
    using k m unfolding keys_ok_def by (intro filter_unique_key [where g = "\<lambda>m. (m_doc m, m_account m)"]) (auto simp: active_def)
  then show ?thesis by (simp add: update_wrap_def)
qed

lemma one_key_iff: "set [p] \<noteq> set got \<or> length (remdups got) \<noteq> length got \<longleftrightarrow> got \<noteq> [p]"
proof
  assume "got \<noteq> [p]"
  show "set [p] \<noteq> set got \<or> length (remdups got) \<noteq> length got"
  proof (rule ccontr)
    assume "\<not> ?thesis"
    then have s: "set got = {p}" "distinct got" by (auto simp: length_remdups_eq)
    then have "length got = 1" using distinct_card [of got] by simp
    with s \<open>got \<noteq> [p]\<close> show False by (cases got) auto
  qed
qed auto

lemma apply_password_update_eq:
  assumes i: "acct_inv db" and a: "a \<in> set (db_accounts db)" "a_id a = acc"
  shows "apply_password_update acc u db =
    (if map dk_doc_id (pu_doc_keys u) = [a_primary_doc_id a]
     then Inr (Updated, db\<lparr>db_accounts := map (set_password acc u) (db_accounts db),
                           db_members := map (set_wrap acc (hd (pu_doc_keys u))) (db_members db)\<rparr>)
     else Inr (DocKeysMismatch [a_primary_doc_id a] (map dk_doc_id (pu_doc_keys u)), db))"
proof (cases "map dk_doc_id (pu_doc_keys u) = [a_primary_doc_id a]")
  case True
  then obtain k where k: "pu_doc_keys u = [k]" "dk_doc_id k = a_primary_doc_id a" by auto
  let ?db = "db\<lparr>db_accounts := map (set_password acc u) (db_accounts db)\<rparr>"
  obtain m where m: "m \<in> set (db_members db)" "m_doc m = a_primary_doc_id a" "m_account m = acc"
      "m_role m = role_as_str Owner"
    using homes_okD(1) [OF acct_invD(5) [OF i] a(1)] a(2) unfolding owns_def by auto
  have "m_removed_at m = None" using acct_invD(3) [OF i] m(1,4) by (simp add: roles_ok_def)
  moreover have "keys_ok ?db"
    using acct_invD(1) [OF i] by (simp add: keys_ok_def o_def row_simps)
  ultimately have "update_wrap acc k ?db = Inr ((), ?db\<lparr>db_members := map (set_wrap acc k) (db_members ?db)\<rparr>)"
    using m k(2) by (intro update_wrap_ok [where m = m]) simp_all
  moreover have "find (\<lambda>a. a_id a = acc) (db_accounts db) = Some a"
    using acct_invD(1) [OF i] a by (intro find_unique_key) (simp_all add: keys_ok_def)
  ultimately show ?thesis by (simp add: apply_password_update_def query_defs k Let_def)
next
  case False
  have "find (\<lambda>a. a_id a = acc) (db_accounts db) = Some a"
    using acct_invD(1) [OF i] a by (intro find_unique_key) (simp_all add: keys_ok_def)
  with False show ?thesis unfolding apply_password_update_def Let_def one_key_iff by simp
qed

lemma mapped_rows_inv:
  assumes i: "acct_inv db"
    and f: "\<And>a. a_id (f a) = a_id a \<and> a_email (f a) = a_email a \<and> a_primary_doc_id (f a) = a_primary_doc_id a \<and>
      a_recovery_auth_hash (f a) = a_recovery_auth_hash a"
    and g: "\<And>m. m_doc (g m) = m_doc m \<and> m_account (g m) = m_account m \<and> m_role (g m) = m_role m \<and>
      m_removed_at (g m) = m_removed_at m \<and> m_recovery_wrapped_dek (g m) = m_recovery_wrapped_dek m \<and>
      m_recovery_wrapped_dek_nonce (g m) = m_recovery_wrapped_dek_nonce m"
  shows "acct_inv (db\<lparr>db_accounts := map f (db_accounts db), db_members := map g (db_members db)\<rparr>)"
proof -
  let ?db = "db\<lparr>db_accounts := map f (db_accounts db), db_members := map g (db_members db)\<rparr>"
  note I = acct_invD [OF i]
  have ow: "owns d x ?db \<longleftrightarrow> owns d x db" for d x by (simp add: owns_def g)
  have id: "a_id ` f ` S = a_id ` S" for S by (simp add: image_image f)
  have "keys_ok ?db" using I(1) by (simp add: keys_ok_def o_def f g)
  moreover have "refs_ok ?db" using I(2) by (simp add: refs_ok_def sync_refs_def f g id)
  moreover have "roles_ok ?db" using I(3) by (simp add: roles_ok_def g)
  moreover have "owners_ok ?db" using I(4) by (simp add: owners_ok_def ow)
  moreover have "homes_ok ?db" using I(5) unfolding homes_ok_def ow by (simp add: f g)
  moreover have "invites_ok ?db" using I(6) unfolding invites_ok_def ow by (simp add: f)
  ultimately show ?thesis by (simp add: acct_inv_def)
qed

section \<open>Devices and recovery sessions\<close>

lemma create_device_cases:
  assumes "create_device dev now acc name kind h db = Inr (r, db')"
  shows "dev \<notin> d_id ` set (db_devices db) \<and> acc \<in> a_id ` set (db_accounts db) \<and> r = dev \<and>
    db' = db\<lparr>db_devices := db_devices db @ [new_device_row dev acc name kind h now]\<rparr>"
  using assms
  by (simp add: create_device_def query_defs insert_device_row_def has_account_def row_simps list_ex_key
      split: if_split_asm) (elim conjE, simp)

lemma create_device_inv:
  assumes i: "acct_inv db" and c: "create_device dev now acc name kind h db = Inr (r, db')"
  shows "acct_inv db'"
proof -
  note I = acct_invD [OF i]
  have db': "db' = db\<lparr>db_devices := db_devices db @ [new_device_row dev acc name kind h now]\<rparr>"
    and fresh: "dev \<notin> d_id ` set (db_devices db)" "acc \<in> a_id ` set (db_accounts db)"
    using create_device_cases [OF c] by simp_all
  show ?thesis
  proof (rule acct_inv_cong [OF _ _ _ _ _ _ i])
    show "keys_ok db'" using I(1) fresh unfolding db' by (simp add: keys_ok_def row_simps)
    show "refs_ok db'" using I(2) fresh unfolding db' by (simp add: refs_ok_def sync_refs_def row_simps)
  qed (simp_all add: db')
qed

lemma delete_devices_inv:
  assumes i: "acct_inv db" and d: "delete_devices P db = Inr (n, db')"
  shows "acct_inv db'"
proof -
  note I = acct_invD [OF i]
  have db': "db' = db\<lparr>db_devices := filter (\<lambda>d. \<not> P d) (db_devices db),
      db_frontiers := (\<lambda>(dev, doc). if dev \<in> d_id ` set (filter P (db_devices db)) then None
        else db_frontiers db (dev, doc))\<rparr>"
    using d by (simp add: delete_devices_def Let_def)
  have "sync_refs db'"
  proof -
    have "fst p \<in> d_id ` set (db_devices db') \<and> snd p \<in> set (db_docs db')" if "p \<in> dom (db_frontiers db')" for p
    proof -
      obtain dev doc where p: "p = (dev, doc)" by (cases p)
      with that obtain k where "db_frontiers db' (dev, doc) = Some k" by (auto dest: domD)
      then have k: "dev \<notin> d_id ` set (filter P (db_devices db))" "db_frontiers db (dev, doc) = Some k"
        by (simp_all add: db' split: if_split_asm)
      from sync_refsD(1,2) [OF refs_okD(9) [OF I(2)] k(2)] k(1) show ?thesis by (auto simp: p db')
    qed
    with refs_okD(9) [OF I(2)] show ?thesis by (simp add: sync_refs_def db')
  qed
  show ?thesis
  proof (rule acct_inv_cong [OF _ _ _ _ _ _ i])
    show "keys_ok db'" using I(1) unfolding db' by (simp add: keys_ok_def distinct_map_filter)
    show "refs_ok db'" using I(2) \<open>sync_refs db'\<close> by (simp add: refs_ok_def db')
  qed (simp_all add: db')
qed

lemma mapped_devices_inv:
  assumes i: "acct_inv db" and f: "\<And>d. d_id (f d) = d_id d \<and> d_account (f d) = d_account d"
  shows "acct_inv (db\<lparr>db_devices := map f (db_devices db)\<rparr>)"
proof -
  let ?db = "db\<lparr>db_devices := map f (db_devices db)\<rparr>"
  note I = acct_invD [OF i]
  have id: "d_id ` f ` S = d_id ` S" for S by (simp add: image_image f)
  show ?thesis
  proof (rule acct_inv_cong [OF _ _ _ _ _ _ i])
    show "keys_ok ?db" using I(1) by (simp add: keys_ok_def o_def f)
    show "refs_ok ?db" using I(2) by (simp add: refs_ok_def sync_refs_def f id)
  qed simp_all
qed

lemma recovery_inv:
  assumes i: "acct_inv db" and d: "distinct (map rs_token_hash rs)"
    and a: "\<And>r. r \<in> set rs \<Longrightarrow> rs_account r \<in> a_id ` set (db_accounts db)"
  shows "acct_inv (db\<lparr>db_recovery := rs\<rparr>)"
proof (rule acct_inv_cong [OF _ _ _ _ _ _ i])
  show "keys_ok (db\<lparr>db_recovery := rs\<rparr>)" using acct_invD(1) [OF i] d by (simp add: keys_ok_def)
  show "refs_ok (db\<lparr>db_recovery := rs\<rparr>)" using acct_invD(2) [OF i] a by (simp add: refs_ok_def sync_refs_def)
qed simp_all

lemma create_recovery_session_inv:
  assumes i: "acct_inv db" and c: "create_recovery_session now acc h ttl db = Inr (u, db')"
  shows "acct_inv db'"
proof -
  let ?r = "\<lparr>rs_token_hash = h, rs_account = acc, rs_expires_at = now + ttl, rs_consumed_at = None\<rparr>"
  have "h \<notin> rs_token_hash ` set (db_recovery db)" "acc \<in> a_id ` set (db_accounts db)"
      "db' = db\<lparr>db_recovery := db_recovery db @ [?r]\<rparr>"
    using c by (simp_all add: create_recovery_session_def insert_recovery_row_def has_account_def list_ex_key
        split: if_split_asm)
  moreover have "distinct (map rs_token_hash (db_recovery db))"
    using acct_invD(1) [OF i] by (simp add: keys_ok_def)
  ultimately show ?thesis
    using refs_okD(7) [OF acct_invD(2) [OF i]] by (auto intro!: recovery_inv [OF i])
qed

section \<open>Passwords, resets\<close>

lemma password_update_inv:
  "acct_inv db \<Longrightarrow> acct_inv (db\<lparr>db_accounts := map (set_password acc u) (db_accounts db),
     db_members := map (set_wrap acc k) (db_members db)\<rparr>)"
  by (rule mapped_rows_inv) (simp_all add: row_simps)

lemma find_account:
  assumes "acct_inv db" "find (\<lambda>a. a_id a = acc) (db_accounts db) = Some a"
  shows "a \<in> set (db_accounts db)" "a_id a = acc"
  using assms(2) by (auto simp: find_Some_iff)

lemma apply_password_update_inv:
  assumes i: "acct_inv db" and u: "apply_password_update acc u db = Inr (r, db')"
  shows "acct_inv db'"
proof -
  obtain a where a: "find (\<lambda>a. a_id a = acc) (db_accounts db) = Some a"
    using u by (auto simp: apply_password_update_def split: option.split_asm)
  show ?thesis
    using u password_update_inv [OF i] i unfolding apply_password_update_eq [OF i find_account [OF i a]]
    by (auto split: if_split_asm)
qed

lemma update_password_inv:
  assumes i: "acct_inv db" and u: "update_password acc u db = Inr (r, db')"
  shows "acct_inv db'"
  using u apply_password_update_inv [OF i] i
  by (auto simp: update_password_def split: sum.split_asm prod.split_asm if_split_asm)

lemma reset_password_inv:
  assumes i: "acct_inv db" and u: "reset_password_with_recovery_session now h u db = Inr (r, db')"
  shows "acct_inv db'"
proof (cases "\<exists>db1. db' = db1\<lparr>db_recovery := map (consume_session h now) (db_recovery db1)\<rparr> \<and> acct_inv db1")
  case True
  then obtain db1 where d: "db' = db1\<lparr>db_recovery := map (consume_session h now) (db_recovery db1)\<rparr>"
    and i1: "acct_inv db1" by blast
  from acct_invD(1) [OF i1] refs_okD(7) [OF acct_invD(2) [OF i1]] show ?thesis
    unfolding d by (intro recovery_inv [OF i1]) (auto simp: keys_ok_def o_def row_simps)
next
  case False
  have "db' = db"
    using u False apply_password_update_inv [OF i]
    by (auto simp: reset_password_with_recovery_session_def
        split: option.split_asm if_split_asm sum.split_asm prod.split_asm password_update_outcome.split_asm)
  with i show ?thesis by simp
qed

end
