(* ===== verification/Invites_Inv.thy ===== *)
theory Invites_Inv
  imports Accounts_Inv
begin

text \<open>
  What the invite and member queries of \<open>server/src/auth/invites.rs\<close> do to the tables, case by
  case, and that each keeps the invariants of \<^theory_text>\<open>Accounts_Inv\<close>.
\<close>

section \<open>Invites\<close>

lemma invites_inv:
  assumes i: "acct_inv db"
    and k: "distinct (map i_id is)"
    and r: "\<And>j. j \<in> set is \<Longrightarrow> owns (i_doc j) (i_issued_by j) db \<and> (\<forall>a \<in> set (db_accounts db). i_doc j \<noteq> a_primary_doc_id a) \<and>
      (\<forall>c. i_consumed_by j = Some c \<longrightarrow> c \<in> a_id ` set (db_accounts db))"
  shows "acct_inv (db\<lparr>db_invites := is\<rparr>)"
proof -
  let ?db = "db\<lparr>db_invites := is\<rparr>"
  note I = acct_invD [OF i]
  have ow: "owns d x ?db \<longleftrightarrow> owns d x db" for d x by (simp add: owns_def)
  have "keys_ok ?db" using I(1) k by (simp add: keys_ok_def)
  moreover have "refs_ok ?db"
  proof -
    have "i_doc j \<in> set (db_docs db) \<and> i_issued_by j \<in> a_id ` set (db_accounts db)" if "j \<in> set is" for j
      using r [OF that] owns_member [OF I(2)] by blast
    with I(2) r show ?thesis by (simp add: refs_ok_def sync_refs_def)
  qed
  moreover have "roles_ok ?db" using I(3) by (simp add: roles_ok_def)
  moreover have "owners_ok ?db" using I(4) by (simp add: owners_ok_def ow)
  moreover have "homes_ok ?db" using I(5) unfolding homes_ok_def ow by simp
  moreover have "invites_ok ?db" using r unfolding invites_ok_def ow by simp
  ultimately show ?thesis by (simp add: acct_inv_def)
qed

lemma invite_facts:
  assumes "acct_inv db" "j \<in> set (db_invites db)"
  shows "owns (i_doc j) (i_issued_by j) db \<and> (\<forall>a \<in> set (db_accounts db). i_doc j \<noteq> a_primary_doc_id a) \<and>
      (\<forall>c. i_consumed_by j = Some c \<longrightarrow> c \<in> a_id ` set (db_accounts db))"
  using acct_invD(6) [OF assms(1)] refs_okD(6) [OF acct_invD(2) [OF assms(1)] assms(2)] assms(2)
  by (auto simp: invites_ok_def)

lemma create_invite_cases:
  assumes "create_invite now acc doc n db = Inr (r, db')"
  shows "db' = db \<or> (is_active_owner doc acc db \<and> ni_id n \<notin> i_id ` set (db_invites db) \<and>
    r = InviteCreated (now + ni_ttl_millis n) \<and> db' = db\<lparr>db_invites := db_invites db @ [new_invite_row now acc doc n]\<rparr>)"
  using assms
  by (simp add: create_invite_def query_defs insert_invite_row_def row_simps list_ex_key split: if_split_asm)

lemma create_invite_inv:
  assumes i: "acct_inv db" and c: "create_invite now acc doc n db = Inr (r, db')"
    and h: "\<And>a. a \<in> set (db_accounts db) \<Longrightarrow> a_id a = acc \<Longrightarrow> a_primary_doc_id a \<noteq> doc"
  shows "acct_inv db'"
  using create_invite_cases [OF c]
proof (elim disjE conjE)
  assume o: "is_active_owner doc acc db" and f: "ni_id n \<notin> i_id ` set (db_invites db)"
    and db': "db' = db\<lparr>db_invites := db_invites db @ [new_invite_row now acc doc n]\<rparr>"
  have o: "owns doc acc db" using o is_active_owner_iff [OF acct_invD(3) [OF i]] by simp
  have "a_primary_doc_id a \<noteq> doc" if "a \<in> set (db_accounts db)" for a
    using h [OF that] home_owner [OF acct_invD(5) [OF i] _ that] o by auto
  then have "\<forall>a \<in> set (db_accounts db). doc \<noteq> a_primary_doc_id a" by blast
  then show ?thesis
    unfolding db' using f o invite_facts [OF i] acct_invD(1) [OF i]
    by (intro invites_inv [OF i]) (auto simp: keys_ok_def row_simps)
qed (use i in simp)

lemma revoke_invite_inv:
  assumes i: "acct_inv db" and c: "revoke_invite acc doc iid db = Inr (r, db')"
  shows "acct_inv db'"
proof -
  have "db' = db \<or> db' = db\<lparr>db_invites := filter (\<lambda>i. \<not> (i_id i = iid \<and> i_doc i = doc)) (db_invites db)\<rparr>"
    using c by (simp add: revoke_invite_def query_defs split: if_split_asm) 
  then show ?thesis
  proof
    assume db': "db' = db\<lparr>db_invites := filter (\<lambda>i. \<not> (i_id i = iid \<and> i_doc i = doc)) (db_invites db)\<rparr>"
    show ?thesis unfolding db' using invite_facts [OF i] acct_invD(1) [OF i]
      by (intro invites_inv [OF i]) (auto simp: keys_ok_def distinct_map_filter)
  qed (use i in simp)
qed

text \<open>A member row added to, or changed within, a doc that is nobody's Home.\<close>

lemma add_member_inv:
  assumes i: "acct_inv db" and m: "m_doc m \<in> set (db_docs db)" "m_account m \<in> a_id ` set (db_accounts db)"
      "m_role m = role_as_str Member" "\<And>a. a \<in> set (db_accounts db) \<Longrightarrow> m_doc m \<noteq> a_primary_doc_id a"
      "\<not> list_ex (\<lambda>x. m_doc x = m_doc m \<and> m_account x = m_account m) (db_members db)"
  shows "acct_inv (db\<lparr>db_members := db_members db @ [m]\<rparr>)"
proof -
  let ?db = "db\<lparr>db_members := db_members db @ [m]\<rparr>"
  note I = acct_invD [OF i]
  have s: "db_members ?db = db_members db @ [m]" by simp
  have ow: "owns d x ?db \<longleftrightarrow> owns d x db" for d x unfolding owns_snoc [OF s] using m(3) by simp
  have "keys_ok ?db" using I(1) m(5) by (auto simp: keys_ok_def list_ex_iff)
  moreover have "refs_ok ?db" using I(2) m by (simp add: refs_ok_def sync_refs_def)
  moreover have "roles_ok ?db" using I(3) m(3) unfolding roles_snoc [OF s] by simp
  moreover have "owners_ok ?db" using I(4) by (simp add: owners_ok_def ow)
  moreover have "homes_ok ?db" using I(5) m(4) unfolding homes_ok_def ow by simp
  moreover have "invites_ok ?db" using I(6) unfolding invites_ok_def ow by simp
  ultimately show ?thesis by (simp add: acct_inv_def)
qed

lemma change_members_inv:
  assumes i: "acct_inv db" and f: "\<And>m. m_doc (f m) = m_doc m \<and> m_account (f m) = m_account m"
    and o: "\<And>m. m \<in> set (db_members db) \<Longrightarrow> m_role m = role_as_str Owner \<Longrightarrow> f m = m"
    and n: "\<And>m. m \<in> set (db_members db) \<Longrightarrow> m_role m \<noteq> role_as_str Owner \<Longrightarrow> m_role (f m) = role_as_str Member"
  shows "acct_inv (db\<lparr>db_members := map f (db_members db)\<rparr>)"
proof -
  let ?db = "db\<lparr>db_members := map f (db_members db)\<rparr>"
  note I = acct_invD [OF i]
  have r: "m_role (f m) = role_as_str Owner \<longleftrightarrow> m_role m = role_as_str Owner" if "m \<in> set (db_members db)" for m
    using o [OF that] n [OF that] by (cases "m_role m = role_as_str Owner") auto
  have ow: "owns d x ?db \<longleftrightarrow> owns d x db" for d x using r by (auto simp: owns_def f)
  have "keys_ok ?db" using I(1) by (simp add: keys_ok_def o_def f)
  moreover have "refs_ok ?db" using I(2) by (simp add: refs_ok_def sync_refs_def f)
  moreover have "roles_ok ?db"
  proof -
    have "role_parse (m_role (f m)) \<noteq> None \<and> (m_role (f m) = role_as_str Owner \<longrightarrow> m_removed_at (f m) = None)"
      if "m \<in> set (db_members db)" for m
      using I(3) o [OF that] n [OF that] that unfolding roles_ok_def
      by (cases "m_role m = role_as_str Owner") auto
    then show ?thesis by (simp add: roles_ok_def)
  qed
  moreover have "owners_ok ?db" using I(4) by (simp add: owners_ok_def ow)
  moreover have "homes_ok ?db"
  proof -
    have "f m = m" if a: "a \<in> set (db_accounts db)" and m: "m \<in> set (db_members db)" "m_doc m = a_primary_doc_id a" for a m
    proof -
      obtain x where x: "x \<in> set (db_members db)" "m_doc x = m_doc m" "m_account x = a_id a" "m_role x = role_as_str Owner"
        using homes_okD(1) [OF I(5) a] m(2) unfolding owns_def by auto
      have "m_account m = a_id a" using homes_okD(2) [OF I(5) a m] .
      then have "x = m" using I(1) x m(1) unfolding keys_ok_def distinct_map
        by (auto dest!: inj_onD [where x = x and y = m])
      with x(4) o [OF m(1)] show ?thesis by simp
    qed
    then show ?thesis using I(5) unfolding homes_ok_def ow by (simp add: f)
  qed
  moreover have "invites_ok ?db" using I(6) unfolding invites_ok_def ow by simp
  ultimately show ?thesis by (simp add: acct_inv_def)
qed

lemma role_cases:
  assumes "roles_ok db" "m \<in> set (db_members db)" "m_role m \<noteq> role_as_str Owner"
  shows "m_role m = role_as_str Member"
proof -
  obtain x where "m_role m = role_as_str x" using assms(1,2) by (auto simp: roles_ok_def role_parse_iff)
  with assms(3) show ?thesis by (cases x) simp_all
qed

lemma remove_member_cases:
  assumes "remove_member now caller doc target db = Inr (out, db')"
  shows "(out \<noteq> Removed \<and> db' = db) \<or> (out = Removed \<and> active_role doc caller db = Some Owner \<and> caller \<noteq> target \<and>
    active_role doc target db \<noteq> None \<and>
    db' = db\<lparr>db_members := map (stamp_removed doc target now) (db_members db)\<rparr>)"
proof -
  define st where "st = db\<lparr>db_members := map (stamp_removed doc target now) (db_members db)\<rparr>"
  show ?thesis using assms unfolding st_def [symmetric] remove_member_def
    by (simp split: option.split_asm if_split_asm member_role.split_asm)
qed

lemma active_role_owner: "active_role doc acc db = Some Owner \<Longrightarrow> owns doc acc db"
  by (auto simp: active_role_def owns_def role_parse_iff find_Some_iff split: option.split_asm)

lemma remove_member_inv:
  assumes i: "acct_inv db" and r: "remove_member now caller doc target db = Inr (out, db')"
  shows "acct_inv db'"
  using remove_member_cases [OF r]
proof (elim disjE conjE)
  assume c: "active_role doc caller db = Some Owner" "caller \<noteq> target"
    and db': "db' = db\<lparr>db_members := map (stamp_removed doc target now) (db_members db)\<rparr>"
  show ?thesis unfolding db'
  proof (rule change_members_inv [OF i])
    fix m assume m: "m \<in> set (db_members db)"
    show "stamp_removed doc target now m = m" if o: "m_role m = role_as_str Owner"
    proof (rule ccontr)
      assume "stamp_removed doc target now m \<noteq> m"
      then have "owns doc target db" using m o by (auto simp: stamp_removed_def owns_def split: if_split_asm)
      with active_role_owner [OF c(1)] acct_invD(4) [OF i] c(2) show False unfolding owners_ok_def by blast
    qed
    show "m_role (stamp_removed doc target now m) = role_as_str Member" if o: "m_role m \<noteq> role_as_str Owner"
      using role_cases [OF acct_invD(3) [OF i] m o] by (simp add: row_simps)
  qed (simp add: row_simps)
qed (use i in simp)

lemma accept_invite_cases:
  assumes "accept_invite now acc iid wrap db = Inr (r, db')"
  shows "((\<forall>d. r \<noteq> Joined d) \<and> db' = db) \<or>
    (\<exists>j. find (\<lambda>i. i_id i = iid) (db_invites db) = Some j \<and> i_consumed_at j = None \<and> now \<le> i_expires_at j \<and>
       r = Joined (i_doc j) \<and> acc \<in> a_id ` set (db_accounts db) \<and>
       (find (\<lambda>m. m_doc m = i_doc j \<and> m_account m = acc) (db_members db) = None \<and>
        db' = db\<lparr>db_members := db_members db @ [plain_member_row (i_doc j) acc Member (aw_wrapped_dek wrap)
                  (aw_wrapped_dek_nonce wrap) now],
                db_invites := map (consume_invite iid acc now) (db_invites db)\<rparr> \<or>
        (\<exists>m. find (\<lambda>m. m_doc m = i_doc j \<and> m_account m = acc) (db_members db) = Some m \<and> m_removed_at m \<noteq> None) \<and>
        db' = db\<lparr>db_members := map (rejoin (i_doc j) acc wrap now) (db_members db),
                db_invites := map (consume_invite iid acc now) (db_invites db)\<rparr>))"
proof (cases "find (\<lambda>i. i_id i = iid) (db_invites db)")
  case None
  with assms show ?thesis by (simp add: accept_invite_def)
next
  case (Some j)
  then have ex: "iid \<in> i_id ` set (db_invites db)" by (auto simp: find_Some_iff)
  define A where "A = db\<lparr>db_members := db_members db @ [plain_member_row (i_doc j) acc Member (aw_wrapped_dek wrap)
      (aw_wrapped_dek_nonce wrap) now], db_invites := map (consume_invite iid acc now) (db_invites db)\<rparr>"
  define B where "B = db\<lparr>db_members := map (rejoin (i_doc j) acc wrap now) (db_members db),
      db_invites := map (consume_invite iid acc now) (db_invites db)\<rparr>"
  have j: "accept_invite now acc iid wrap db =
    (if i_consumed_at j \<noteq> None then Inr (AcceptConsumed, db)
     else if i_expires_at j < now then Inr (AcceptExpired, db)
     else case find (\<lambda>m. m_doc m = i_doc j \<and> m_account m = acc) (db_members db) of
            None \<Rightarrow>
              if i_doc j \<notin> set (db_docs db) \<or> acc \<notin> a_id ` set (db_accounts db) then Inl DbForeignKey
              else Inr (Joined (i_doc j), A)
          | Some m \<Rightarrow>
              if m_removed_at m = None then Inr (AlreadyMember (i_doc j), db)
              else if acc \<notin> a_id ` set (db_accounts db) then Inl DbForeignKey
              else Inr (Joined (i_doc j), B))"
  proof (cases "find (\<lambda>m. m_doc m = i_doc j \<and> m_account m = acc) (db_members db)")
    case None
    then have "\<not> list_ex (\<lambda>m. m_doc m = i_doc j \<and> m_account m = acc) (db_members db)"
      by (auto simp: find_None_iff list_ex_iff)
    with ex None show ?thesis
      by (simp add: accept_invite_def Some query_defs update_consumed_def insert_member_row_def has_account_def
          list_ex_key row_simps Let_def A_def)
  next
    case (Some m)
    with ex show ?thesis
      by (simp add: accept_invite_def \<open>find (\<lambda>i. i_id i = iid) (db_invites db) = Some j\<close> query_defs
          update_consumed_def has_account_def list_ex_key Let_def B_def split: option.split)
  qed
  have "((\<forall>d. r \<noteq> Joined d) \<and> db' = db) \<or>
      (i_consumed_at j = None \<and> now \<le> i_expires_at j \<and> r = Joined (i_doc j) \<and> acc \<in> a_id ` set (db_accounts db) \<and>
       (find (\<lambda>m. m_doc m = i_doc j \<and> m_account m = acc) (db_members db) = None \<and> db' = A \<or>
        (\<exists>m. find (\<lambda>m. m_doc m = i_doc j \<and> m_account m = acc) (db_members db) = Some m \<and> m_removed_at m \<noteq> None) \<and>
        db' = B))"
    using assms unfolding j by (simp split: if_split_asm option.split_asm) auto
  with Some show ?thesis unfolding A_def B_def by blast
qed

lemma consume_invite_inv:
  assumes i: "acct_inv db" and a: "acc \<in> a_id ` set (db_accounts db)"
  shows "acct_inv (db\<lparr>db_invites := map (consume_invite iid acc now) (db_invites db)\<rparr>)"
proof (rule invites_inv [OF i])
  show "distinct (map i_id (map (consume_invite iid acc now) (db_invites db)))"
    using acct_invD(1) [OF i] by (simp add: keys_ok_def o_def row_simps)
  fix j assume "j \<in> set (map (consume_invite iid acc now) (db_invites db))"
  then obtain x where x: "x \<in> set (db_invites db)" "j = consume_invite iid acc now x" by auto
  show "owns (i_doc j) (i_issued_by j) db \<and> (\<forall>a \<in> set (db_accounts db). i_doc j \<noteq> a_primary_doc_id a) \<and>
      (\<forall>c. i_consumed_by j = Some c \<longrightarrow> c \<in> a_id ` set (db_accounts db))"
    using invite_facts [OF i x(1)] a unfolding x(2) row_simps by (simp add: consume_invite_def)
qed

lemma accept_invite_inv:
  assumes i: "acct_inv db" and r: "accept_invite now acc iid wrap db = Inr (out, db')"
  shows "acct_inv db'"
  using accept_invite_cases [OF r]
proof (elim disjE exE conjE)
  fix j assume j: "find (\<lambda>i. i_id i = iid) (db_invites db) = Some j" and a: "acc \<in> a_id ` set (db_accounts db)"
    and n: "find (\<lambda>m. m_doc m = i_doc j \<and> m_account m = acc) (db_members db) = None"
    and db': "db' = db\<lparr>db_members := db_members db @ [plain_member_row (i_doc j) acc Member (aw_wrapped_dek wrap)
                  (aw_wrapped_dek_nonce wrap) now],
                db_invites := map (consume_invite iid acc now) (db_invites db)\<rparr>"
  have j': "j \<in> set (db_invites db)" using j by (auto simp: find_Some_iff)
  have "acct_inv (db\<lparr>db_members := db_members db @ [plain_member_row (i_doc j) acc Member (aw_wrapped_dek wrap)
                  (aw_wrapped_dek_nonce wrap) now]\<rparr>)" (is "acct_inv ?db")
    using invite_facts [OF i j'] a n refs_okD(4) [OF acct_invD(2) [OF i] j']
    by (intro add_member_inv [OF i]) (auto simp: row_simps find_None_iff list_ex_iff)
  from consume_invite_inv [OF this, of acc iid now] a show ?thesis unfolding db' by simp
next
  fix j m assume a: "acc \<in> a_id ` set (db_accounts db)"
    and m: "find (\<lambda>m. m_doc m = i_doc j \<and> m_account m = acc) (db_members db) = Some m" "m_removed_at m \<noteq> None"
    and db': "db' = db\<lparr>db_members := map (rejoin (i_doc j) acc wrap now) (db_members db),
                db_invites := map (consume_invite iid acc now) (db_invites db)\<rparr>"
  have m': "m \<in> set (db_members db)" "m_doc m = i_doc j" "m_account m = acc" using m by (auto simp: find_Some_iff)
  have only: "x = m" if "x \<in> set (db_members db)" "m_doc x = i_doc j" "m_account x = acc" for x
    using acct_invD(1) [OF i] that m' unfolding keys_ok_def distinct_map
    by (auto dest!: inj_onD [where x = x and y = m])
  have "acct_inv (db\<lparr>db_members := map (rejoin (i_doc j) acc wrap now) (db_members db)\<rparr>)"
  proof (rule change_members_inv [OF i])
    fix x assume x: "x \<in> set (db_members db)"
    show "rejoin (i_doc j) acc wrap now x = x" if "m_role x = role_as_str Owner"
    proof -
      have "m_removed_at x = None" using acct_invD(3) [OF i] x that by (simp add: roles_ok_def)
      with only [OF x] m(2) show ?thesis by (auto simp: rejoin_def)
    qed
    show "m_role (rejoin (i_doc j) acc wrap now x) = role_as_str Member" if "m_role x \<noteq> role_as_str Owner"
      using role_cases [OF acct_invD(3) [OF i] x that] by (simp add: rejoin_def)
  qed (simp add: row_simps)
  from consume_invite_inv [OF this, of acc iid now] a show ?thesis unfolding db' by simp
qed (use i in simp)

end
