(* ===== verification/Server_Calls.thy ===== *)
theory Server_Calls
  imports Invites_Inv
begin

text \<open>
  Every query that writes the server's tables as a call, run one after the other by the single
  connection of \<open>server/src/db.rs\<close>, from the empty tables of the migration; and what holds in every
  state they reach. A call that fails leaves the tables as they were. Two calls are only made
  by routes that have checked something first, which is \<open>allowed\<close>: a signup posts its recovery
  wrap together with the recovery secret, and an invite is not asked for on the caller's Home.
\<close>

section \<open>Calls\<close>

datatype server_call =
    SyncCall db_call
  | CreateAccount uuid uuid uuid int new_account
  | CreateDoc uuid int uuid new_doc
  | DeleteDoc uuid uuid
  | DeleteAccount uuid
  | UpdatePassword uuid password_update
  | ResetPassword int bytes password_update
  | CreateDevice uuid int uuid str str bytes
  | RevokeDevice uuid uuid
  | RenameDevice uuid uuid str
  | TouchDevice int uuid "str option"
  | CreateRecoverySession int uuid bytes int
  | CreateInvite int uuid uuid new_invite
  | RevokeInvite uuid uuid bytes
  | AcceptInvite int uuid bytes accept_wrap
  | RemoveMember int uuid uuid uuid

definition left_by :: "server_db \<Rightarrow> 'e + ('a \<times> server_db) \<Rightarrow> server_db" where
  "left_by db r = (case r of Inl _ \<Rightarrow> db | Inr (_, db') \<Rightarrow> db')"

fun run_call :: "server_call \<Rightarrow> server_db \<Rightarrow> server_db" where
  "run_call (SyncCall c) db = run_db c db"
| "run_call (CreateAccount acc dev doc now n) db = left_by db (create_account acc dev doc now n db)"
| "run_call (CreateDoc doc now acc n) db = left_by db (create_doc doc now acc n db)"
| "run_call (DeleteDoc acc doc) db = left_by db (delete_doc acc doc db)"
| "run_call (DeleteAccount acc) db = left_by db (delete_account acc db)"
| "run_call (UpdatePassword acc u) db = left_by db (update_password acc u db)"
| "run_call (ResetPassword now h u) db = left_by db (reset_password_with_recovery_session now h u db)"
| "run_call (CreateDevice dev now acc name kind h) db = left_by db (create_device dev now acc name kind h db)"
| "run_call (RevokeDevice acc dev) db = left_by db (revoke_device acc dev db)"
| "run_call (RenameDevice acc dev name) db = left_by db (rename_device acc dev name db)"
| "run_call (TouchDevice now dev ip) db = left_by db (touch_device_last_seen now dev ip db)"
| "run_call (CreateRecoverySession now acc h ttl) db = left_by db (create_recovery_session now acc h ttl db)"
| "run_call (CreateInvite now acc doc n) db = left_by db (create_invite now acc doc n db)"
| "run_call (RevokeInvite acc doc iid) db = left_by db (revoke_invite acc doc iid db)"
| "run_call (AcceptInvite now acc iid w) db = left_by db (accept_invite now acc iid w db)"
| "run_call (RemoveMember now caller doc target) db = left_by db (remove_member now caller doc target db)"

fun allowed :: "server_call \<Rightarrow> server_db \<Rightarrow> bool" where
  "allowed (CreateAccount acc dev doc now n) db = recovery_paired n"
| "allowed (CreateInvite now acc doc n) db =
     (\<forall>a \<in> set (db_accounts db). a_id a = acc \<longrightarrow> a_primary_doc_id a \<noteq> doc)"
| "allowed _ db = True"

inductive server_reach :: "server_db \<Rightarrow> bool" where
  migrated: "server_reach (empty_db [] [] [])"
| call: "server_reach db \<Longrightarrow> allowed c db \<Longrightarrow> server_reach (run_call c db)"

lemma left_by_inv:
  assumes "I db" "\<And>x db'. r = Inr (x, db') \<Longrightarrow> I db'"
  shows "I (left_by db r)"
  using assms by (simp add: left_by_def split: sum.split prod.split)

lemma revoke_device_inv:
  assumes i: "acct_inv db" and r: "revoke_device acc dev db = Inr (x, db')"
  shows "acct_inv db'"
proof -
  obtain n where "delete_devices (\<lambda>d. d_id d = dev \<and> d_account d = acc) db = Inr (n, db')"
    using r by (simp add: revoke_device_def query_defs split: sum.split_asm prod.split_asm)
  then show ?thesis by (rule delete_devices_inv [OF i])
qed

lemma run_call_acct_inv:
  assumes i: "acct_inv db" and a: "allowed c db"
  shows "acct_inv (run_call c db)"
proof -
  note L = left_by_inv [where I = acct_inv, OF i]
  show ?thesis
  proof (cases c)
    case (SyncCall c')
    then show ?thesis using run_db_acct_inv [OF i] by simp
  next
    case (CreateAccount acc dev doc now n)
    with a have "recovery_paired n" by simp
    then show ?thesis unfolding CreateAccount run_call.simps by (intro L) (rule create_account_inv [OF i])
  next
    case (DeleteAccount acc)
    then show ?thesis using delete_account_inv [OF i] by (simp add: delete_account_eq [OF i] left_by_def)
  next
    case (RenameDevice acc dev name)
    show ?thesis unfolding RenameDevice run_call.simps rename_device_def left_by_def sum.case prod.case
      by (rule mapped_devices_inv [OF i]) simp
  next
    case (TouchDevice now dev ip)
    show ?thesis unfolding TouchDevice run_call.simps touch_device_last_seen_def qexec_def left_by_def sum.case prod.case
      by (rule mapped_devices_inv [OF i]) simp
  next
    case (CreateInvite now acc doc n)
    with a have "\<And>a. a \<in> set (db_accounts db) \<Longrightarrow> a_id a = acc \<Longrightarrow> a_primary_doc_id a \<noteq> doc" by simp
    then show ?thesis unfolding CreateInvite run_call.simps by (intro L) (rule create_invite_inv [OF i])
  next
    case (CreateDoc doc now acc n)
    show ?thesis unfolding CreateDoc run_call.simps by (intro L) (rule create_doc_inv [OF i])
  next
    case (DeleteDoc acc doc)
    show ?thesis unfolding DeleteDoc run_call.simps by (intro L) (rule delete_doc_inv [OF i])
  next
    case (UpdatePassword acc u)
    show ?thesis unfolding UpdatePassword run_call.simps by (intro L) (rule update_password_inv [OF i])
  next
    case (ResetPassword now h u)
    show ?thesis unfolding ResetPassword run_call.simps by (intro L) (rule reset_password_inv [OF i])
  next
    case (CreateDevice dev now acc name kind h)
    show ?thesis unfolding CreateDevice run_call.simps by (intro L) (rule create_device_inv [OF i])
  next
    case (CreateRecoverySession now acc h ttl)
    show ?thesis unfolding CreateRecoverySession run_call.simps by (intro L) (rule create_recovery_session_inv [OF i])
  next
    case (RevokeInvite acc doc iid)
    show ?thesis unfolding RevokeInvite run_call.simps by (intro L) (rule revoke_invite_inv [OF i])
  next
    case (AcceptInvite now acc iid w)
    show ?thesis unfolding AcceptInvite run_call.simps by (intro L) (rule accept_invite_inv [OF i])
  next
    case (RemoveMember now caller doc target)
    show ?thesis unfolding RemoveMember run_call.simps by (intro L) (rule remove_member_inv [OF i])
  next
    case (RevokeDevice acc dev)
    show ?thesis unfolding RevokeDevice run_call.simps by (intro L) (rule revoke_device_inv [OF i])
  qed
qed

lemma empty_acct_inv: "acct_inv (empty_db [] [] [])"
  by (simp add: acct_inv_def keys_ok_def refs_ok_def sync_refs_def roles_ok_def owners_ok_def homes_ok_def
      invites_ok_def owns_def empty_db_def)

lemma reach_acct_inv: "server_reach db \<Longrightarrow> acct_inv db"
  by (induction rule: server_reach.induct) (simp_all add: empty_acct_inv run_call_acct_inv)

section \<open>The update stream and the snapshots\<close>

definition same_stream :: "server_db \<Rightarrow> server_db \<Rightarrow> bool" where
  "same_stream db db' \<longleftrightarrow>
     db_updates db' = db_updates db \<and> db_sequences db' = db_sequences db \<and>
     db_snapshots db' = db_snapshots db \<and> db_snapshot_rowid db' = db_snapshot_rowid db"

lemma same_stream_refl [simp]: "same_stream db db"
  by (simp add: same_stream_def)

lemma same_stream_inv:
  assumes "same_stream db db'"
  shows "stream_inv db' = stream_inv db" "snap_inv db' = snap_inv db"
  using assms
  by (simp_all add: same_stream_def stream_inv_def dense_stream_def doc_rows_def next_seq_of_def snap_inv_def doc_snaps_def)

lemma erased_stream_inv:
  assumes "stream_inv db"
  shows "stream_inv (erased A D db)"
proof -
  have "dense_stream doc (erased A D db)" for doc
  proof (cases "doc \<in> D")
    case True
    then have "doc_rows doc (erased A D db) = []" "next_seq_of doc (erased A D db) = 1"
      by (auto simp: doc_rows_def next_seq_of_def erased_fields filter_empty_conv)
    then show ?thesis by (simp add: dense_stream_def) (rule exI [of _ 0], simp)
  next
    case False
    then have "doc_rows doc (erased A D db) = doc_rows doc db"
      by (auto simp: doc_rows_def erased_fields intro: filter_cong)
    with False assms show ?thesis by (simp add: stream_inv_def dense_stream_def next_seq_of_def erased_fields)
  qed
  then show ?thesis by (simp add: stream_inv_def)
qed

lemma erased_snap_inv:
  assumes "snap_inv db"
  shows "snap_inv (erased A D db)"
proof -
  have "doc_snaps doc (erased A D db) = (if doc \<in> D then [] else doc_snaps doc db)" for doc
    by (auto simp: doc_snaps_def erased_fields filter_empty_conv intro: filter_cong)
  then have "linked_from None (doc_snaps doc (erased A D db))" for doc
    using assms by (simp add: snap_inv_def)
  with assms show ?thesis
    by (auto simp: snap_inv_def erased_fields sorted_wrt_map intro: sorted_wrt_filter)
qed

lemma account_queries_stream:
  "create_account acc dev doc now n db = Inr (x1, db') \<Longrightarrow> same_stream db db'"
  "create_doc doc now acc nd db = Inr (x2, db') \<Longrightarrow> same_stream db db'"
  "create_device dev now acc name kind h db = Inr (x3, db') \<Longrightarrow> same_stream db db'"
  "revoke_device acc dev db = Inr (x4, db') \<Longrightarrow> same_stream db db'"
  "rename_device acc dev name db = Inr (x5, db') \<Longrightarrow> same_stream db db'"
  "touch_device_last_seen now dev ip db = Inr (x6, db') \<Longrightarrow> same_stream db db'"
  "create_recovery_session now acc h ttl db = Inr (x7, db') \<Longrightarrow> same_stream db db'"
  "create_invite now acc doc ni db = Inr (x8, db') \<Longrightarrow> same_stream db db'"
  "revoke_invite acc doc iid db = Inr (x9, db') \<Longrightarrow> same_stream db db'"
  "accept_invite now acc iid w db = Inr (x10, db') \<Longrightarrow> same_stream db db'"
  "remove_member now caller doc target db = Inr (x11, db') \<Longrightarrow> same_stream db db'"
proof -
  show "create_account acc dev doc now n db = Inr (x1, db') \<Longrightarrow> same_stream db db'"
    by (drule create_account_cases) (elim exE conjE, simp add: same_stream_def)
  show "create_doc doc now acc nd db = Inr (x2, db') \<Longrightarrow> same_stream db db'"
    by (drule create_doc_cases) (simp add: same_stream_def)
  show "create_device dev now acc name kind h db = Inr (x3, db') \<Longrightarrow> same_stream db db'"
    by (drule create_device_cases) (simp add: same_stream_def)
  show "create_invite now acc doc ni db = Inr (x8, db') \<Longrightarrow> same_stream db db'"
    by (drule create_invite_cases) (elim disjE conjE, simp_all add: same_stream_def)
  show "accept_invite now acc iid w db = Inr (x10, db') \<Longrightarrow> same_stream db db'"
    by (drule accept_invite_cases) (elim disjE exE conjE, simp_all add: same_stream_def)
  show "remove_member now caller doc target db = Inr (x11, db') \<Longrightarrow> same_stream db db'"
    by (drule remove_member_cases) (elim disjE conjE, simp_all add: same_stream_def)
  show "revoke_invite acc doc iid db = Inr (x9, db') \<Longrightarrow> same_stream db db'"
    by (simp add: revoke_invite_def query_defs same_stream_def split: if_split_asm) (elim conjE, hypsubst, simp)
  show "revoke_device acc dev db = Inr (x4, db') \<Longrightarrow> same_stream db db'"
    by (simp add: revoke_device_def query_defs delete_devices_def Let_def same_stream_def) (elim conjE, hypsubst, simp)
  show "rename_device acc dev name db = Inr (x5, db') \<Longrightarrow> same_stream db db'"
    by (simp add: rename_device_def same_stream_def) (elim conjE, hypsubst, simp)
  show "touch_device_last_seen now dev ip db = Inr (x6, db') \<Longrightarrow> same_stream db db'"
    by (simp add: touch_device_last_seen_def query_defs same_stream_def) (hypsubst, simp)
  show "create_recovery_session now acc h ttl db = Inr (x7, db') \<Longrightarrow> same_stream db db'"
    by (simp add: create_recovery_session_def insert_recovery_row_def same_stream_def split: if_split_asm)
      (hypsubst, simp)
qed

lemma password_queries_stream:
  assumes i: "acct_inv db"
  shows "apply_password_update acc u db = Inr (x, db') \<Longrightarrow> same_stream db db'"
    "update_password acc u db = Inr (x, db') \<Longrightarrow> same_stream db db'"
    "reset_password_with_recovery_session now h u db = Inr (y, db') \<Longrightarrow> same_stream db db'"
proof -
  show a: "same_stream db db'" if u: "apply_password_update acc u db = Inr (x, db')" for acc x db'
  proof -
    obtain a where a: "find (\<lambda>a. a_id a = acc) (db_accounts db) = Some a"
      using u by (auto simp: apply_password_update_def split: option.split_asm)
    show ?thesis using u unfolding apply_password_update_eq [OF i find_account [OF i a]]
      by (simp add: same_stream_def split: if_split_asm) (elim conjE, hypsubst, simp)+
  qed
  show "update_password acc u db = Inr (x, db') \<Longrightarrow> same_stream db db'"
    using a by (auto simp: update_password_def split: sum.split_asm prod.split_asm if_split_asm)
  show "reset_password_with_recovery_session now h u db = Inr (y, db') \<Longrightarrow> same_stream db db'"
    using a by (auto simp: reset_password_with_recovery_session_def same_stream_def
        split: option.split_asm if_split_asm sum.split_asm prod.split_asm password_update_outcome.split_asm)
qed

lemma left_by_stream:
  assumes "stream_inv db" "snap_inv db" "\<And>x db'. r = Inr (x, db') \<Longrightarrow> same_stream db db'"
  shows "stream_inv (left_by db r) \<and> snap_inv (left_by db r)"
  using assms same_stream_inv by (auto simp: left_by_def split: sum.split)

lemma run_call_stream:
  assumes i: "acct_inv db" and s: "stream_inv db" "snap_inv db"
  shows "stream_inv (run_call c db) \<and> snap_inv (run_call c db)"
proof (cases c)
  case (SyncCall c')
  then show ?thesis using run_db_stream_inv run_db_snap_inv s by simp
next
  case (DeleteDoc acc doc)
  then show ?thesis using erased_stream_inv erased_snap_inv s by (simp add: delete_doc_eq left_by_def)
next
  case (DeleteAccount acc)
  then show ?thesis using erased_stream_inv erased_snap_inv s by (simp add: delete_account_eq [OF i] left_by_def)
qed (hypsubst, unfold run_call.simps, rule left_by_stream [OF s],
    erule account_queries_stream password_queries_stream [OF i])+

lemma empty_stream: "stream_inv (empty_db [] [] [])" "snap_inv (empty_db [] [] [])"
  by (rule empty_db_stream_inv, rule empty_db_snap_inv)

lemma reach_inv: "server_reach db \<Longrightarrow> acct_inv db \<and> stream_inv db \<and> snap_inv db"
proof (induction rule: server_reach.induct)
  case (call db c)
  with run_call_acct_inv run_call_stream show ?case by blast
qed (simp add: empty_acct_inv empty_stream)

section \<open>Runs\<close>

fun runs_allowed :: "server_call list \<Rightarrow> server_db \<Rightarrow> bool" where
  "runs_allowed [] db = True"
| "runs_allowed (c # cs) db = (allowed c db \<and> runs_allowed cs (run_call c db))"

lemma reach_run: "server_reach db \<Longrightarrow> runs_allowed cs db \<Longrightarrow> server_reach (fold run_call cs db)"
  by (induction cs arbitrary: db) (auto intro: server_reach.call)

lemma run_keeps:
  assumes "server_reach db" "runs_allowed cs db" "I db"
    and "\<And>c db. server_reach db \<Longrightarrow> allowed c db \<Longrightarrow> c \<in> set cs \<Longrightarrow> I db \<Longrightarrow> I (run_call c db)"
  shows "I (fold run_call cs db)"
  using assms by (induction cs arbitrary: db) (auto intro: server_reach.call)

end
