(* ===== verification/Server_Access.thy ===== *)
theory Server_Access
  imports Server_Calls
begin

text \<open>
  Who may reach what on the server, in every state its queries can reach: tables that stay
  consistent, Home docs that stay private, memberships that only an owner's open invite gives,
  invites and recovery sessions that work once, and account deletion that leaves nothing.
\<close>

section \<open>Owners\<close>

lemma ownsI: "m \<in> set (db_members db) \<Longrightarrow> m_role m = role_as_str Owner \<Longrightarrow> owns (m_doc m) (m_account m) db"
  unfolding owns_def by blast

lemma owner_active:
  "acct_inv db \<Longrightarrow> m \<in> set (db_members db) \<Longrightarrow> m_role m = role_as_str Owner \<Longrightarrow> m_removed_at m = None"
  by (drule acct_invD(3)) (simp add: roles_ok_def)

lemma owner_unique: "acct_inv db \<Longrightarrow> owns doc x db \<Longrightarrow> owns doc y db \<Longrightarrow> x = y"
  by (drule acct_invD(4)) (simp add: owners_ok_def)

lemma member_keys: "acct_inv db \<Longrightarrow> distinct (map (\<lambda>m. (m_doc m, m_account m)) (db_members db))"
  by (drule acct_invD(1)) (simp add: keys_ok_def)

lemma owner_count_one:
  assumes i: "acct_inv db" and d: "doc \<in> set (db_docs db)"
  shows "owner_count doc db = 1"
proof -
  obtain acc where "owns doc acc db" using acct_invD(4) [OF i] d by (auto simp: owners_ok_def)
  then obtain m where m: "m \<in> set (db_members db)" "m_doc m = doc" "m_role m = role_as_str Owner"
    unfolding owns_def by blast
  have "filter (\<lambda>m. m_doc m = doc \<and> m_role m = role_as_str Owner \<and> active m) (db_members db) = [m]"
  proof (rule filter_unique_key [OF member_keys [OF i] m(1)])
    show "m_doc m = doc \<and> m_role m = role_as_str Owner \<and> active m"
      using m owner_active [OF i m(1,3)] by (simp add: active_def)
    fix x assume x: "x \<in> set (db_members db)" "m_doc x = doc \<and> m_role x = role_as_str Owner \<and> active x"
    show "(m_doc x, m_account x) = (m_doc m, m_account m)"
      using owner_unique [OF i] ownsI [OF x(1)] ownsI [OF m(1,3)] m(2) x(2) by simp
  qed
  then show ?thesis by (simp add: owner_count_def)
qed

lemma home_rows:
  assumes i: "acct_inv db" and a: "a \<in> set (db_accounts db)"
  obtains m where "filter (\<lambda>m. m_doc m = a_primary_doc_id a) (db_members db) = [m]" "m_account m = a_id a"
    "m_role m = role_as_str Owner" "active m"
proof -
  note h = acct_invD(5) [OF i]
  obtain m where m: "m \<in> set (db_members db)" "m_doc m = a_primary_doc_id a" "m_account m = a_id a"
      "m_role m = role_as_str Owner"
    using homes_okD(1) [OF h a] unfolding owns_def by blast
  moreover have "filter (\<lambda>m. m_doc m = a_primary_doc_id a) (db_members db) = [m]"
    using m homes_okD(2) [OF h a] by (intro filter_unique_key [OF member_keys [OF i]]) simp_all
  ultimately show ?thesis using that owner_active [OF i m(1,4)] by (simp add: active_def)
qed

section \<open>Active memberships\<close>

definition actives :: "server_db \<Rightarrow> (uuid \<times> uuid) set" where
  "actives db = (\<lambda>m. (m_doc m, m_account m)) ` {m \<in> set (db_members db). m_removed_at m = None}"

lemma is_member_actives: "is_member doc acc db \<longleftrightarrow> (doc, acc) \<in> actives db"
  by (auto simp: is_member_iff actives_def)

lemma actives_erased: "actives (erased A D db) \<subseteq> actives db"
  by (auto simp: actives_def erased_fields)

lemma actives_map:
  assumes "db_members db' = map f (db_members db)" "\<And>m. m_doc (f m) = m_doc m \<and> m_account (f m) = m_account m"
    "\<And>m. m_removed_at (f m) = None \<Longrightarrow> m_removed_at m = None"
  shows "actives db' \<subseteq> actives db"
  using assms(2,3) unfolding actives_def assms(1) by (auto simp: image_iff)

lemma actives_same: "db_members db' = db_members db \<Longrightarrow> actives db' \<subseteq> actives db"
  by (simp add: actives_def)

lemma quiet_queries_actives:
  "create_device dev now acc name kind h db = Inr (x1, db') \<Longrightarrow> actives db' \<subseteq> actives db"
  "revoke_device acc dev db = Inr (x2, db') \<Longrightarrow> actives db' \<subseteq> actives db"
  "rename_device acc dev name db = Inr (x3, db') \<Longrightarrow> actives db' \<subseteq> actives db"
  "touch_device_last_seen now dev ip db = Inr (x4, db') \<Longrightarrow> actives db' \<subseteq> actives db"
  "create_recovery_session now acc h ttl db = Inr (x5, db') \<Longrightarrow> actives db' \<subseteq> actives db"
  "create_invite now acc doc ni db = Inr (x6, db') \<Longrightarrow> actives db' \<subseteq> actives db"
  "revoke_invite acc doc iid db = Inr (x7, db') \<Longrightarrow> actives db' \<subseteq> actives db"
proof -
  show "create_device dev now acc name kind h db = Inr (x1, db') \<Longrightarrow> actives db' \<subseteq> actives db"
    by (drule create_device_cases) (simp add: actives_same)
  show "revoke_device acc dev db = Inr (x2, db') \<Longrightarrow> actives db' \<subseteq> actives db"
    by (simp add: revoke_device_def query_defs delete_devices_def Let_def)
      (elim conjE, hypsubst, simp add: actives_same)
  show "rename_device acc dev name db = Inr (x3, db') \<Longrightarrow> actives db' \<subseteq> actives db"
    by (simp add: rename_device_def) (elim conjE, hypsubst, simp add: actives_same)
  show "touch_device_last_seen now dev ip db = Inr (x4, db') \<Longrightarrow> actives db' \<subseteq> actives db"
    by (simp add: touch_device_last_seen_def query_defs) (hypsubst, simp add: actives_same)
  show "create_recovery_session now acc h ttl db = Inr (x5, db') \<Longrightarrow> actives db' \<subseteq> actives db"
    by (simp add: create_recovery_session_def insert_recovery_row_def split: if_split_asm)
      (hypsubst, simp add: actives_same)
  show "create_invite now acc doc ni db = Inr (x6, db') \<Longrightarrow> actives db' \<subseteq> actives db"
    by (drule create_invite_cases) (elim disjE conjE, simp_all add: actives_same)
  show "revoke_invite acc doc iid db = Inr (x7, db') \<Longrightarrow> actives db' \<subseteq> actives db"
    by (simp add: revoke_invite_def query_defs split: if_split_asm) (elim conjE, hypsubst, simp add: actives_same)
qed

lemma password_queries_actives:
  assumes i: "acct_inv db"
  shows "update_password acc u db = Inr (x, db') \<Longrightarrow> actives db' \<subseteq> actives db"
    "reset_password_with_recovery_session now h u db = Inr (y, db') \<Longrightarrow> actives db' \<subseteq> actives db"
proof -
  have a: "actives db' \<subseteq> actives db" if u: "apply_password_update acc u db = Inr (x, db')" for acc x db'
  proof -
    obtain a where a: "find (\<lambda>a. a_id a = acc) (db_accounts db) = Some a"
      using u by (auto simp: apply_password_update_def split: option.split_asm)
    have "db' = db \<or> db_members db' = map (set_wrap acc (hd (pu_doc_keys u))) (db_members db)"
      using u unfolding apply_password_update_eq [OF i find_account [OF i a]]
      by (simp split: if_split_asm) (elim conjE, hypsubst, simp)
    then show ?thesis by (auto dest: actives_map [where f = "set_wrap acc (hd (pu_doc_keys u))"] simp: row_simps)
  qed
  show "update_password acc u db = Inr (x, db') \<Longrightarrow> actives db' \<subseteq> actives db"
    using a by (auto simp: update_password_def split: sum.split_asm prod.split_asm if_split_asm)
  have r: "actives (d\<lparr>db_recovery := q\<rparr>) = actives d" for d q by (simp add: actives_def)
  show "reset_password_with_recovery_session now h u db = Inr (y, db') \<Longrightarrow> actives db' \<subseteq> actives db"
    by (auto simp: reset_password_with_recovery_session_def r dest: a [THEN subsetD]
        split: option.split_asm if_split_asm sum.split_asm prod.split_asm password_update_outcome.split_asm)
qed

lemma remove_member_actives:
  assumes "remove_member now caller doc target db = Inr (x, db')"
  shows "actives db' \<subseteq> actives db"
  using remove_member_cases [OF assms]
proof (elim disjE conjE)
  assume "db' = db\<lparr>db_members := map (stamp_removed doc target now) (db_members db)\<rparr>"
  then show ?thesis
    by (intro actives_map [where f = "stamp_removed doc target now"])
      (auto simp: row_simps stamp_removed_def split: if_split_asm)
qed simp

lemma left_by_subset:
  assumes "\<And>x db'. r = Inr (x, db') \<Longrightarrow> F db' \<subseteq> F db"
  shows "F (left_by db r) \<subseteq> F db"
  using assms by (simp add: left_by_def split: sum.split)

text \<open>The calls that may make somebody a member.\<close>

fun admits :: "server_call \<Rightarrow> bool" where
  "admits (CreateAccount acc dev doc now n) = True"
| "admits (CreateDoc doc now acc n) = True"
| "admits (AcceptInvite now acc iid w) = True"
| "admits _ = False"

lemma quiet_call_actives:
  assumes i: "acct_inv db" and "\<not> admits c"
  shows "actives (run_call c db) \<subseteq> actives db"
proof (cases c)
  case (SyncCall c')
  have "db_members (run_db c' db) = db_members db"
    using run_db_sync [OF refs_okD(9) [OF acct_invD(2) [OF i]], of c'] by (simp add: same_accounts_def)
  with SyncCall show ?thesis by (simp add: actives_same)
next
  case (DeleteDoc acc doc)
  then show ?thesis using actives_erased by (simp add: delete_doc_eq left_by_def)
next
  case (DeleteAccount acc)
  then show ?thesis using actives_erased by (simp add: delete_account_eq [OF i] left_by_def)
next
  case (CreateAccount acc dev doc now n)
  with assms(2) show ?thesis by simp
next
  case (CreateDoc doc now acc n)
  with assms(2) show ?thesis by simp
next
  case (AcceptInvite now acc iid w)
  with assms(2) show ?thesis by simp
qed (hypsubst, unfold run_call.simps, rule left_by_subset [where F = actives],
    erule quiet_queries_actives password_queries_actives [OF i] remove_member_actives)+

section \<open>Single-use tokens\<close>

text \<open>The invites and the recovery sessions nobody has used.\<close>

definition unused :: "server_db \<Rightarrow> (bytes + bytes) set" where
  "unused db = Inl ` i_id ` {i \<in> set (db_invites db). i_consumed_at i = None} \<union>
     Inr ` rs_token_hash ` {r \<in> set (db_recovery db). rs_consumed_at r = None}"

lemma unused_same: "db_invites db' = db_invites db \<Longrightarrow> db_recovery db' = db_recovery db \<Longrightarrow> unused db' \<subseteq> unused db"
  by (simp add: unused_def)

lemma unused_erased: "unused (erased A D db) \<subseteq> unused db"
  by (auto simp: unused_def erased_fields forget_consumer_def)

lemma quiet_queries_unused:
  "create_account acc dev doc now n db = Inr (x1, db') \<Longrightarrow> unused db' \<subseteq> unused db"
  "create_doc doc now acc nd db = Inr (x2, db') \<Longrightarrow> unused db' \<subseteq> unused db"
  "create_device dev now acc name kind h db = Inr (x3, db') \<Longrightarrow> unused db' \<subseteq> unused db"
  "revoke_device acc dev db = Inr (x4, db') \<Longrightarrow> unused db' \<subseteq> unused db"
  "rename_device acc dev name db = Inr (x5, db') \<Longrightarrow> unused db' \<subseteq> unused db"
  "touch_device_last_seen now dev ip db = Inr (x6, db') \<Longrightarrow> unused db' \<subseteq> unused db"
  "revoke_invite acc doc iid db = Inr (x7, db') \<Longrightarrow> unused db' \<subseteq> unused db"
  "remove_member now caller doc target db = Inr (x8, db') \<Longrightarrow> unused db' \<subseteq> unused db"
proof -
  show "create_account acc dev doc now n db = Inr (x1, db') \<Longrightarrow> unused db' \<subseteq> unused db"
    by (drule create_account_cases) (elim exE conjE, simp add: unused_same)
  show "create_doc doc now acc nd db = Inr (x2, db') \<Longrightarrow> unused db' \<subseteq> unused db"
    by (drule create_doc_cases) (simp add: unused_same)
  show "create_device dev now acc name kind h db = Inr (x3, db') \<Longrightarrow> unused db' \<subseteq> unused db"
    by (drule create_device_cases) (simp add: unused_same)
  show "revoke_device acc dev db = Inr (x4, db') \<Longrightarrow> unused db' \<subseteq> unused db"
    by (simp add: revoke_device_def query_defs delete_devices_def Let_def)
      (elim conjE, hypsubst, simp add: unused_same)
  show "rename_device acc dev name db = Inr (x5, db') \<Longrightarrow> unused db' \<subseteq> unused db"
    by (simp add: rename_device_def) (elim conjE, hypsubst, simp add: unused_same)
  show "touch_device_last_seen now dev ip db = Inr (x6, db') \<Longrightarrow> unused db' \<subseteq> unused db"
    by (simp add: touch_device_last_seen_def query_defs) (hypsubst, simp add: unused_same)
  show "revoke_invite acc doc iid db = Inr (x7, db') \<Longrightarrow> unused db' \<subseteq> unused db"
    by (simp add: revoke_invite_def query_defs split: if_split_asm) (elim conjE, hypsubst, auto simp: unused_def)
  show "remove_member now caller doc target db = Inr (x8, db') \<Longrightarrow> unused db' \<subseteq> unused db"
    by (drule remove_member_cases) (elim disjE conjE, simp_all add: unused_same)
qed

lemma sum_shrink:
  "A' \<subseteq> A - {x} \<Longrightarrow> Inl ` A' \<union> Inr ` B \<subseteq> Inl ` A \<union> Inr ` B - {Inl x}"
  "B' \<subseteq> B - {y} \<Longrightarrow> Inl ` A \<union> Inr ` B' \<subseteq> Inl ` A \<union> Inr ` B - {Inr y}"
  by auto

lemma unused_consumed_invite:
  assumes "db_invites db' = map (consume_invite iid acc now) (db_invites db)" "db_recovery db' = db_recovery db"
  shows "unused db' \<subseteq> unused db - {Inl iid}"
proof -
  have "i_id ` {i \<in> consume_invite iid acc now ` S. i_consumed_at i = None} \<subseteq>
      i_id ` {i \<in> S. i_consumed_at i = None} - {iid}" for S
  proof
    fix y assume "y \<in> i_id ` {i \<in> consume_invite iid acc now ` S. i_consumed_at i = None}"
    then obtain x where "x \<in> S" "y = i_id (consume_invite iid acc now x)"
      "i_consumed_at (consume_invite iid acc now x) = None" by blast
    then show "y \<in> i_id ` {i \<in> S. i_consumed_at i = None} - {iid}"
      by (cases "i_id x = iid") (simp_all add: consume_invite_def)
  qed
  then show ?thesis unfolding unused_def assms set_map by (rule sum_shrink)
qed

lemma unused_consumed_session:
  assumes "db_recovery db' = map (consume_session h now) (db_recovery db)" "db_invites db' = db_invites db"
  shows "unused db' \<subseteq> unused db - {Inr h}"
proof -
  have "rs_token_hash ` {r \<in> consume_session h now ` S. rs_consumed_at r = None} \<subseteq>
      rs_token_hash ` {r \<in> S. rs_consumed_at r = None} - {h}" for S
  proof
    fix y assume "y \<in> rs_token_hash ` {r \<in> consume_session h now ` S. rs_consumed_at r = None}"
    then obtain x where "x \<in> S" "y = rs_token_hash (consume_session h now x)"
      "rs_consumed_at (consume_session h now x) = None" by blast
    then show "y \<in> rs_token_hash ` {r \<in> S. rs_consumed_at r = None} - {h}"
      by (cases "rs_token_hash x = h") (simp_all add: consume_session_def)
  qed
  then show ?thesis unfolding unused_def assms set_map by (rule sum_shrink)
qed

lemma accept_invite_unused:
  assumes "accept_invite now acc iid w db = Inr (r, db')"
  shows "unused db' \<subseteq> unused db" "r = Joined d \<Longrightarrow> Inl iid \<notin> unused db'"
proof -
  have "db' = db \<and> (\<forall>d. r \<noteq> Joined d) \<or>
      db_invites db' = map (consume_invite iid acc now) (db_invites db) \<and> db_recovery db' = db_recovery db"
    using accept_invite_cases [OF assms] by (elim disjE exE conjE) simp_all
  then have c: "db' = db \<and> (\<forall>d. r \<noteq> Joined d) \<or> unused db' \<subseteq> unused db - {Inl iid}"
    using unused_consumed_invite by blast
  then show "unused db' \<subseteq> unused db" by blast
  show "Inl iid \<notin> unused db'" if "r = Joined d" using c that by blast
qed

lemma password_queries_unused:
  assumes i: "acct_inv db"
  shows "update_password acc u db = Inr (x, db') \<Longrightarrow> unused db' \<subseteq> unused db"
    "reset_password_with_recovery_session now h u db = Inr (y, db') \<Longrightarrow> unused db' \<subseteq> unused db"
    "reset_password_with_recovery_session now h u db = Inr (ResetUpdated a, db') \<Longrightarrow> Inr h \<notin> unused db'"
proof -
  have a: "db_invites db' = db_invites db \<and> db_recovery db' = db_recovery db"
    if u: "apply_password_update acc u db = Inr (x, db')" for acc x db'
  proof -
    obtain a where a: "find (\<lambda>a. a_id a = acc) (db_accounts db) = Some a"
      using u by (auto simp: apply_password_update_def split: option.split_asm)
    show ?thesis using u unfolding apply_password_update_eq [OF i find_account [OF i a]]
      by (simp split: if_split_asm) (elim conjE, hypsubst, simp)
  qed
  show "unused db' \<subseteq> unused db" if "update_password acc u db = Inr (x, db')"
  proof -
    have "db_invites db' = db_invites db \<and> db_recovery db' = db_recovery db"
      using that a by (auto simp: update_password_def split: sum.split_asm prod.split_asm if_split_asm)
    then show ?thesis by (simp add: unused_same)
  qed
  have c: "db' = db \<and> (\<forall>a. y \<noteq> ResetUpdated a) \<or> unused db' \<subseteq> unused db - {Inr h}"
    if "reset_password_with_recovery_session now h u db = Inr (y, db')" for y db'
  proof -
    have "db' = db \<and> (\<forall>a. y \<noteq> ResetUpdated a) \<or>
        db_recovery db' = map (consume_session h now) (db_recovery db) \<and> db_invites db' = db_invites db"
      using that a by (auto simp: reset_password_with_recovery_session_def
          split: option.split_asm if_split_asm sum.split_asm prod.split_asm password_update_outcome.split_asm)
    then show ?thesis by (auto dest: unused_consumed_session)
  qed
  show "reset_password_with_recovery_session now h u db = Inr (y, db') \<Longrightarrow> unused db' \<subseteq> unused db"
    by (drule c) blast
  show "reset_password_with_recovery_session now h u db = Inr (ResetUpdated a, db') \<Longrightarrow> Inr h \<notin> unused db'"
    by (drule c) blast
qed

text \<open>The token a call issues.\<close>

fun issues :: "server_call \<Rightarrow> (bytes + bytes) option" where
  "issues (CreateInvite now acc doc n) = Some (Inl (ni_id n))"
| "issues (CreateRecoverySession now acc h ttl) = Some (Inr h)"
| "issues _ = None"

lemma call_unused:
  assumes i: "acct_inv db" and t: "t \<notin> unused db" "issues c \<noteq> Some t"
  shows "t \<notin> unused (run_call c db)"
proof -
  have q: "issues c = None \<Longrightarrow> unused (run_call c db) \<subseteq> unused db"
  proof (cases c)
    case (SyncCall c')
    then show ?thesis
      using run_db_sync [OF refs_okD(9) [OF acct_invD(2) [OF i]], of c'] by (simp add: same_accounts_def unused_same)
  next
    case (DeleteDoc acc doc)
    then show ?thesis using unused_erased by (simp add: delete_doc_eq left_by_def)
  next
    case (DeleteAccount acc)
    then show ?thesis using unused_erased by (simp add: delete_account_eq [OF i] left_by_def)
  next
    case (CreateInvite now acc doc n)
    then show "issues c = None \<Longrightarrow> ?thesis" by simp
  next
    case (CreateRecoverySession now acc h ttl)
    then show "issues c = None \<Longrightarrow> ?thesis" by simp
  qed (hypsubst, unfold run_call.simps, rule left_by_subset [where F = unused],
      erule quiet_queries_unused password_queries_unused(1,2) [OF i] accept_invite_unused(1))+
  show ?thesis
  proof (cases c)
    case (CreateInvite now acc doc n)
    have "unused db' \<subseteq> insert (Inl (ni_id n)) (unused db)" if "create_invite now acc doc n db = Inr (r, db')" for r db'
      using create_invite_cases [OF that]
      by (elim disjE conjE) (auto simp: unused_def new_invite_row_def)
    with t CreateInvite show ?thesis by (auto simp: left_by_def split: sum.split)
  next
    case (CreateRecoverySession now acc h ttl)
    have "unused db' \<subseteq> insert (Inr h) (unused db)" if "create_recovery_session now acc h ttl db = Inr (r, db')" for r db'
      using that by (auto simp: create_recovery_session_def insert_recovery_row_def unused_def split: if_split_asm)
    with t CreateRecoverySession show ?thesis by (auto simp: left_by_def split: sum.split)
  qed (use q t in auto)
qed

lemma run_unused:
  assumes "server_reach db" "runs_allowed cs db" "t \<notin> unused db" "\<And>c. c \<in> set cs \<Longrightarrow> issues c \<noteq> Some t"
  shows "t \<notin> unused (fold run_call cs db)"
  by (rule run_keeps [where I = "\<lambda>db. t \<notin> unused db", OF assms(1-3)])
    (use assms(4) reach_acct_inv call_unused in blast)

lemma accept_invite_actives:
  assumes "accept_invite now acc iid w db = Inr (r, db')" "(d, a) \<in> actives db'" "(d, a) \<notin> actives db"
  shows "\<exists>j. find (\<lambda>i. i_id i = iid) (db_invites db) = Some j \<and> i_consumed_at j = None \<and> now \<le> i_expires_at j \<and>
    d = i_doc j \<and> a = acc"
  using accept_invite_cases [OF assms(1)]
proof (elim disjE exE conjE)
  assume "db' = db"
  with assms(2,3) show ?thesis by simp
next
  fix j assume j: "find (\<lambda>i. i_id i = iid) (db_invites db) = Some j" "i_consumed_at j = None" "now \<le> i_expires_at j"
    and db': "db' = db\<lparr>db_members := db_members db @ [plain_member_row (i_doc j) acc Member (aw_wrapped_dek w)
                  (aw_wrapped_dek_nonce w) now],
                db_invites := map (consume_invite iid acc now) (db_invites db)\<rparr>"
  have "actives db' \<subseteq> insert (i_doc j, acc) (actives db)" unfolding db' by (auto simp: actives_def row_simps)
  with assms(2,3) j show ?thesis by blast
next
  fix j m assume j: "find (\<lambda>i. i_id i = iid) (db_invites db) = Some j" "i_consumed_at j = None" "now \<le> i_expires_at j"
    and db': "db' = db\<lparr>db_members := map (rejoin (i_doc j) acc w now) (db_members db),
                db_invites := map (consume_invite iid acc now) (db_invites db)\<rparr>"
  obtain x where x: "x \<in> set (db_members db)" "(d, a) = (m_doc x, m_account x)"
      "m_removed_at (rejoin (i_doc j) acc w now x) = None"
    using assms(2) unfolding db' actives_def by (auto simp: row_simps)
  with assms(3) have "d = i_doc j \<and> a = acc" by (auto simp: rejoin_def actives_def split: if_split_asm)
  with j show ?thesis by blast
qed

lemma account_docs_sets:
  assumes i: "acct_inv db"
  shows "set (purged_docs (account_docs acc db)) = {doc. is_active_owner doc acc db}"
    "set (left_docs (account_docs acc db)) = {doc. is_member doc acc db \<and> \<not> is_active_owner doc acc db}"
proof -
  have o: "is_active_owner doc acc db \<longleftrightarrow> (\<exists>m \<in> set (db_members db).
      m_doc m = doc \<and> m_account m = acc \<and> m_role m = role_as_str Owner \<and> active m)" for doc
    by (simp only: is_active_owner_def length_filter_pos)
  show "set (purged_docs (account_docs acc db)) = {doc. is_active_owner doc acc db}"
    unfolding o by (auto simp: account_docs_def Let_def)
  have k: "m = x" if "m \<in> set (db_members db)" "x \<in> set (db_members db)" "m_doc m = m_doc x" "m_account m = m_account x" for m x
    using member_keys [OF i] that unfolding distinct_map by (auto dest!: inj_onD [where x = m and y = x])
  show "set (left_docs (account_docs acc db)) = {doc. is_member doc acc db \<and> \<not> is_active_owner doc acc db}" (is "?L = ?R")
  proof
    show "?L \<subseteq> ?R"
    proof
      fix doc assume "doc \<in> ?L"
      then obtain m where m: "m \<in> set (db_members db)" "m_doc m = doc" "m_account m = acc" "active m"
          "m_role m \<noteq> role_as_str Owner" by (auto simp: account_docs_def Let_def)
      have "\<not> is_active_owner doc acc db" unfolding o using k [OF m(1)] m by blast
      with m show "doc \<in> ?R" by (auto simp: is_member_iff active_def)
    qed
    show "?R \<subseteq> ?L" unfolding o by (auto simp: is_member_iff active_def account_docs_def Let_def)
  qed
qed

section \<open>Properties\<close>

definition demo_signup :: "str \<Rightarrow> new_account" where
  "demo_signup email =
     \<lparr>na_email = email, na_password_hash = [1], na_password_salt = [2],
      na_kdf_params = \<lparr>kdf_m_kib = 65536, kdf_t = 3, kdf_p = 1\<rparr>, na_wrapped_dek = [3], na_wrapped_dek_nonce = [4],
      na_recovery_salt = Some [5], na_recovery_auth_hash = Some [6], na_recovery_wrapped_dek = Some [7],
      na_recovery_wrapped_dek_nonce = Some [8], na_device_name = [109], na_device_kind = [119],
      na_device_token_hash = [9], na_primary_doc_id = None\<rparr>"

definition demo_invite :: new_invite where
  "demo_invite = \<lparr>ni_id = [42], ni_wrapped_dek = [1], ni_wrapped_dek_nonce = [2], ni_ttl_millis = 1000\<rparr>"

text \<open>Two accounts, Homes 7 and 8; account 1 owns doc 9 and has shared it with account 2.\<close>

definition demo_shared :: "server_call list" where
  "demo_shared =
     [CreateAccount 1 11 7 0 (demo_signup [97]), CreateAccount 2 12 8 1 (demo_signup [98]),
      CreateDoc 9 2 1 \<lparr>nd_wrapped_dek = [1], nd_wrapped_dek_nonce = [2]\<rparr>, CreateInvite 3 1 9 demo_invite]"

definition demo_accept :: server_call where
  "demo_accept = AcceptInvite 4 2 [42] \<lparr>aw_wrapped_dek = [1], aw_wrapped_dek_nonce = [2]\<rparr>"

definition demo_server :: server_db where
  "demo_server = fold run_call demo_shared (empty_db [] [] [])"

lemma demo_reach: "server_reach demo_server"
proof -
  have "runs_allowed demo_shared (empty_db [] [] [])" by code_simp
  from reach_run [OF server_reach.migrated this] show ?thesis by (simp add: demo_server_def)
qed

text \<open>
  C5: in every state the server's queries reach from the empty schema, keys are unique, every
  reference resolves, the updates of every doc are dense and its snapshots linked, and every doc
  has exactly one active owner.
\<close>

theorem tables_stay_consistent:
  assumes "server_reach db"
  shows "keys_ok db \<and> refs_ok db \<and> dense_stream doc db \<and> linked_from None (doc_snaps doc db) \<and>
    (doc \<in> set (db_docs db) \<longrightarrow> owner_count doc db = 1)"
  using reach_inv [OF assms] owner_count_one
  by (simp add: acct_inv_def stream_inv_def snap_inv_def)

theorem tables_stay_consistent_witness:
  "keys_ok demo_server \<and> refs_ok demo_server \<and> owner_count 9 demo_server = 1"
proof -
  have "list_ex (\<lambda>d. d = 9) (db_docs demo_server)" by code_simp
  then show ?thesis using tables_stay_consistent [OF demo_reach, of 9] by (simp add: list_ex_iff)
qed

text \<open>
  C3: the Home doc of an account is private: in every reachable state its only membership is the
  account's own active owner row, and no invite to it exists.
\<close>

theorem home_is_private:
  assumes "server_reach db" and "a \<in> set (db_accounts db)"
  shows "(\<exists>m. filter (\<lambda>m. m_doc m = a_primary_doc_id a) (db_members db) = [m] \<and> m_account m = a_id a \<and>
      m_role m = role_as_str Owner \<and> active m) \<and>
    (\<forall>i \<in> set (db_invites db). i_doc i \<noteq> a_primary_doc_id a)"
proof -
  note i = reach_acct_inv [OF assms(1)]
  from home_rows [OF i assms(2)] acct_invD(6) [OF i] assms(2) show ?thesis
    unfolding invites_ok_def by metis
qed

theorem home_is_private_witness:
  "\<exists>a m. a \<in> set (db_accounts demo_server) \<and> a_id a = 1 \<and>
     filter (\<lambda>m. m_doc m = a_primary_doc_id a) (db_members demo_server) = [m] \<and> m_account m = 1"
proof -
  have "list_ex (\<lambda>a. a_id a = 1) (db_accounts demo_server)" by code_simp
  then obtain a where a: "a \<in> set (db_accounts demo_server)" "a_id a = 1" by (auto simp: list_ex_iff)
  with home_is_private [OF demo_reach a(1)] show ?thesis by auto
qed

text \<open>
  C35: nobody becomes a member of a doc but by creating it or by accepting an invite to it that is
  unused and unexpired and whose issuer is the doc's active owner.
\<close>

theorem membership_needs_invite:
  assumes "server_reach db" and "\<not> is_member doc acc db" and "is_member doc acc (run_call c db)"
  shows "(doc \<notin> set (db_docs db) \<and>
      ((\<exists>dev minted now n. c = CreateAccount acc dev minted now n) \<or> (\<exists>now n. c = CreateDoc doc now acc n))) \<or>
    (\<exists>now iid w j. c = AcceptInvite now acc iid w \<and> j \<in> set (db_invites db) \<and> i_id j = iid \<and> i_doc j = doc \<and>
       i_consumed_at j = None \<and> now \<le> i_expires_at j \<and> is_active_owner doc (i_issued_by j) db)"
proof -
  note i = reach_acct_inv [OF assms(1)]
  have n: "(doc, acc) \<notin> actives db" "(doc, acc) \<in> actives (run_call c db)"
    using assms(2,3) by (simp_all add: is_member_actives)
  then have "admits c" using quiet_call_actives [OF i] by blast
  then show ?thesis
  proof (cases c rule: admits.cases)
    case (1 acc' dev minted now m)
    with n obtain x db' where r: "create_account acc' dev minted now m db = Inr (x, db')" "(doc, acc) \<in> actives db'"
      by (auto simp: left_by_def split: sum.split_asm)
    from create_account_cases [OF r(1)] r(2) n(1) 1 show ?thesis
      by (elim exE conjE) (auto simp: actives_def row_simps)
  next
    case (2 doc' now acc' m)
    with n obtain x db' where r: "create_doc doc' now acc' m db = Inr (x, db')" "(doc, acc) \<in> actives db'"
      by (auto simp: left_by_def split: sum.split_asm)
    from create_doc_cases [OF r(1)] r(2) n(1) 2 show ?thesis by (auto simp: actives_def row_simps)
  next
    case (3 now acc' iid w)
    with n obtain x db' where r: "accept_invite now acc' iid w db = Inr (x, db')" "(doc, acc) \<in> actives db'"
      by (auto simp: left_by_def split: sum.split_asm)
    from accept_invite_actives [OF r n(1)] obtain j where
      j: "find (\<lambda>i. i_id i = iid) (db_invites db) = Some j" "i_consumed_at j = None" "now \<le> i_expires_at j"
        "doc = i_doc j" "acc = acc'" by blast
    have "j \<in> set (db_invites db)" "i_id j = iid" using j(1) by (auto simp: find_Some_iff)
    moreover from invite_facts [OF i this(1)] have "is_active_owner (i_doc j) (i_issued_by j) db"
      by (simp add: is_active_owner_iff [OF acct_invD(3) [OF i]])
    ultimately show ?thesis using 3 j by blast
  qed auto
qed

theorem membership_needs_invite_witness:
  "is_member 9 2 (run_call demo_accept demo_server) \<and>
     (\<exists>j \<in> set (db_invites demo_server). i_id j = [42] \<and> i_consumed_at j = None \<and>
        is_active_owner 9 (i_issued_by j) demo_server)"
proof -
  have m: "\<not> is_member 9 2 demo_server" "is_member 9 2 (run_call demo_accept demo_server)" by code_simp+
  from membership_needs_invite [OF demo_reach m] m show ?thesis by (auto simp: demo_accept_def)
qed

text \<open>
  An invite admits one account. Once somebody has joined with it, whatever happens next
  (short of issuing an invite with the same id), accepting it again is refused and changes nothing.
\<close>

theorem invite_admits_one:
  assumes "server_reach db" and "accept_invite now acc iid w db = Inr (Joined doc, db')"
    and "runs_allowed cs db'" and "\<forall>c \<in> set cs. issues c \<noteq> Some (Inl iid)" and "db2 = fold run_call cs db'"
  shows "accept_invite now2 acc2 iid w2 db2 = Inr (AcceptConsumed, db2) \<or>
    accept_invite now2 acc2 iid w2 db2 = Inr (AcceptNotFound, db2)"
proof -
  have "run_call (AcceptInvite now acc iid w) db = db'" using assms(2) by (simp add: left_by_def)
  with server_reach.call [OF assms(1), of "AcceptInvite now acc iid w"] have "server_reach db'" by simp
  from run_unused [OF this assms(3) accept_invite_unused(2) [OF assms(2) refl]] assms(4)
  have "Inl iid \<notin> unused db2" unfolding assms(5) by blast
  then show ?thesis
    by (auto simp: accept_invite_def unused_def find_Some_iff split: option.split)
qed

theorem invite_admits_one_witness:
  "\<exists>db'. accept_invite 4 2 [42] \<lparr>aw_wrapped_dek = [1], aw_wrapped_dek_nonce = [2]\<rparr> demo_server = Inr (Joined 9, db') \<and>
     (\<exists>r. accept_invite 6 1 [42] \<lparr>aw_wrapped_dek = [1], aw_wrapped_dek_nonce = [2]\<rparr> (run_call (RemoveMember 5 1 9 2) db') =
        Inr (r, run_call (RemoveMember 5 1 9 2) db') \<and> r \<noteq> Joined 9)"
proof -
  let ?w = "\<lparr>aw_wrapped_dek = [1], aw_wrapped_dek_nonce = [2]\<rparr>"
  have "map_sum id fst (accept_invite 4 2 [42] ?w demo_server) = Inr (Joined 9)" by code_simp
  then obtain db' where d: "accept_invite 4 2 [42] ?w demo_server = Inr (Joined 9, db')"
    by (cases "accept_invite 4 2 [42] ?w demo_server") auto
  from invite_admits_one [OF demo_reach d, of "[RemoveMember 5 1 9 2]" _ 6 1 ?w] show ?thesis
    using d by auto
qed

text \<open>
  A recovery session resets the password once: whatever happens after a reset (short of issuing
  a session with the same token), using the session again is refused and changes nothing.
\<close>

theorem recovery_session_works_once:
  assumes "server_reach db" and "reset_password_with_recovery_session now h u db = Inr (ResetUpdated acc, db')"
    and "runs_allowed cs db'" and "\<forall>c \<in> set cs. issues c \<noteq> Some (Inr h)" and "db2 = fold run_call cs db'"
  shows "reset_password_with_recovery_session now2 h u2 db2 = Inr (SessionInvalid, db2)"
proof -
  have "run_call (ResetPassword now h u) db = db'" using assms(2) by (simp add: left_by_def)
  with server_reach.call [OF assms(1), of "ResetPassword now h u"] have "server_reach db'" by simp
  from run_unused [OF this assms(3) password_queries_unused(3) [OF reach_acct_inv [OF assms(1)] assms(2)]] assms(4)
  have "Inr h \<notin> unused db2" unfolding assms(5) by blast
  then show ?thesis
    by (auto simp: reset_password_with_recovery_session_def unused_def find_Some_iff split: option.split)
qed

definition demo_reset :: password_update where
  "demo_reset = \<lparr>pu_password_hash = [21], pu_password_salt = [22],
     pu_kdf_params = \<lparr>kdf_m_kib = 65536, kdf_t = 3, kdf_p = 1\<rparr>,
     pu_doc_keys = [\<lparr>dk_doc_id = 7, dk_wrapped_dek = [23], dk_wrapped_dek_nonce = [24]\<rparr>]\<rparr>"

theorem recovery_session_works_once_witness:
  "\<exists>db'. reset_password_with_recovery_session 5 [50] demo_reset
       (run_call (CreateRecoverySession 4 1 [50] 1000) demo_server) = Inr (ResetUpdated 1, db') \<and>
     reset_password_with_recovery_session 6 [50] demo_reset db' = Inr (SessionInvalid, db')"
proof -
  let ?db = "run_call (CreateRecoverySession 4 1 [50] 1000) demo_server"
  have r: "server_reach ?db" by (rule server_reach.call [OF demo_reach]) simp
  have "map_sum id fst (reset_password_with_recovery_session 5 [50] demo_reset ?db) = Inr (ResetUpdated 1)" by code_simp
  then obtain db' where d: "reset_password_with_recovery_session 5 [50] demo_reset ?db = Inr (ResetUpdated 1, db')"
    by (cases "reset_password_with_recovery_session 5 [50] demo_reset ?db") auto
  from recovery_session_works_once [OF r d, of "[]" db' 6 demo_reset] d show ?thesis by simp
qed

text \<open>
  C36: deleting an account never fails. It purges the docs the account owns and leaves the others;
  afterwards no row of any table names the account or a purged doc, and the updates, snapshots and
  other members of every other doc are what they were.
\<close>

theorem account_deletion_is_complete:
  assumes "server_reach db"
  shows "\<exists>out db'. delete_account acc db = Inr (out, db') \<and> server_reach db' \<and>
    set (purged_docs out) = {doc. is_active_owner doc acc db} \<and>
    set (left_docs out) = {doc. is_member doc acc db \<and> \<not> is_active_owner doc acc db} \<and>
    \<not> has_account acc db' \<and> \<not> account_referenced acc db' \<and>
    (\<forall>doc \<in> set (purged_docs out). doc \<notin> set (db_docs db') \<and> \<not> doc_referenced doc db') \<and>
    (\<forall>doc. doc \<notin> set (purged_docs out) \<longrightarrow> doc_rows doc db' = doc_rows doc db \<and>
       doc_snaps doc db' = doc_snaps doc db \<and> (\<forall>x. x \<noteq> acc \<longrightarrow> is_member doc x db' = is_member doc x db))"
proof -
  note i = reach_acct_inv [OF assms]
  let ?out = "account_docs acc db" and ?db = "erased {acc} {doc. owns doc acc db} db"
  have e: "delete_account acc db = Inr (?out, ?db)" by (rule delete_account_eq [OF i])
  have r: "server_reach ?db"
    using server_reach.call [OF assms, of "DeleteAccount acc"] e by (simp add: left_by_def)
  have p: "set (purged_docs ?out) = {doc. owns doc acc db}"
    using account_docs_sets(1) [OF i] is_active_owner_iff [OF acct_invD(3) [OF i]] by simp
  have "\<not> has_account acc ?db" "\<not> account_referenced acc ?db"
    by (simp_all add: has_account_def account_referenced_def erased_fields list_ex_iff row_simps)
  moreover have "doc \<notin> set (db_docs ?db) \<and> \<not> doc_referenced doc ?db" if "owns doc acc db" for doc
  proof -
    have "a_primary_doc_id a \<noteq> doc" if "a \<in> set (db_accounts ?db)" for a
      using refs_okD(1) [OF acct_invD(2) [OF reach_acct_inv [OF r]] that] \<open>owns doc acc db\<close>
      by (auto simp: erased_fields)
    with that show ?thesis by (auto simp: doc_referenced_def list_ex_iff erased_fields row_simps)
  qed
  moreover have "doc_rows doc ?db = doc_rows doc db \<and> doc_snaps doc ?db = doc_snaps doc db \<and>
      (\<forall>x. x \<noteq> acc \<longrightarrow> is_member doc x ?db = is_member doc x db)" if "\<not> owns doc acc db" for doc
    using that by (auto simp: doc_rows_def doc_snaps_def is_member_iff erased_fields intro: filter_cong)
  ultimately show ?thesis using e r account_docs_sets [OF i] p by auto
qed

theorem account_deletion_is_complete_witness:
  "\<exists>out db'. delete_account 1 (run_call demo_accept demo_server) = Inr (out, db') \<and>
     set (purged_docs out) = {7, 9} \<and> \<not> has_account 1 db' \<and> \<not> doc_referenced 9 db'"
proof -
  let ?db = "run_call demo_accept demo_server"
  have r: "server_reach ?db" by (rule server_reach.call [OF demo_reach]) (simp add: demo_accept_def)
  obtain out db' where d: "delete_account 1 ?db = Inr (out, db')" "\<not> has_account 1 db'"
      "\<forall>doc \<in> set (purged_docs out). doc \<notin> set (db_docs db') \<and> \<not> doc_referenced doc db'"
    using account_deletion_is_complete [OF r, of 1] by metis
  have "map_sum id (purged_docs \<circ> fst) (delete_account 1 ?db) = Inr [7, 9]" by code_simp
  then have p: "purged_docs out = [7, 9]" unfolding d(1) by simp
  with d show ?thesis by (intro exI [of _ out] exI [of _ db']) simp
qed

text \<open>The owner of doc 9 removes the member that joined it.\<close>

lemma demo_removed: "map_sum id fst (remove_member 6 1 9 2 (run_call demo_accept demo_server)) = Inr Removed"
  by code_simp

end
