(* ===== verification/Http_Serve.thy ===== *)
theory Http_Serve
  imports Http_Routes Server_Access
begin

text \<open>
  The router of \<open>server/src/http/mod.rs\<close> over the routes of \<^theory_text>\<open>Http_Routes\<close>, and the
  invariant every request keeps. The proofs go through a small Hoare logic for routes: in
  \<open>route_ok P m Q\<close> a route started in \<open>P\<close> either refuses the request with an error that is not an
  internal one, or answers and leaves \<open>Q\<close>.
\<close>

section \<open>The router\<close>

text \<open>
  The requests behind \<open>DeviceAuth\<close>, then all of them. Ids and tokens a handler mints and the
  clock it reads come with the request.
\<close>

datatype auth_request =
    Logout
  | AccountDelete bytes
  | PasswordChange bytes new_password
  | DevicesList
  | DevicesRegister uuid bytes int device_registration
  | DevicesRename str str
  | DevicesRevoke str
  | DocsList
  | DocsCreate uuid int new_doc
  | DocsDelete str
  | InvitesList str
  | InvitesCreate int str create_invite_request
  | InvitesRevoke str str
  | InvitesAccept int str accept_wrap
  | MembersList str
  | MembersRemove int str str

datatype http_request =
    Signup uuid uuid uuid bytes int signup_request
  | Prelogin str
  | Login uuid bytes int str bytes "device_registration option"
  | Recover bytes int str bytes
  | PasswordReset uuid bytes int int str new_password device_registration
  | InvitesFetch int str
  | WithDevice int http_headers auth_request

definition rvoid :: "'a route \<Rightarrow> unit route" where
  "rvoid m = rbind m (\<lambda>_. rreturn ())"

fun serve_device :: "web_env \<Rightarrow> device_lookup \<Rightarrow> auth_request \<Rightarrow> unit route" where
  "serve_device E l Logout = rvoid (logout E l)"
| "serve_device E l (AccountDelete secret) = rvoid (delete_account_route E l secret)"
| "serve_device E l (PasswordChange secret p) = password_change E l secret p"
| "serve_device E l DevicesList = rvoid (devices_list l)"
| "serve_device E l (DevicesRegister dev token now reg) = rvoid (devices_register E dev token now l reg)"
| "serve_device E l (DevicesRename dev name) = devices_rename E l dev name"
| "serve_device E l (DevicesRevoke dev) = devices_revoke E l dev"
| "serve_device E l DocsList = rvoid (docs_list l)"
| "serve_device E l (DocsCreate doc now n) = rvoid (docs_create doc now l n)"
| "serve_device E l (DocsDelete doc) = docs_delete E l doc"
| "serve_device E l (InvitesList doc) = rvoid (invites_list E l doc)"
| "serve_device E l (InvitesCreate now doc req) = rvoid (invites_create E now l doc req)"
| "serve_device E l (InvitesRevoke doc iid) = invites_revoke E l doc iid"
| "serve_device E l (InvitesAccept now iid w) = rvoid (invites_accept E now l iid w)"
| "serve_device E l (MembersList doc) = rvoid (members_list E l doc)"
| "serve_device E l (MembersRemove now doc acc) = remove_member_route E now l doc acc"

fun serve :: "web_env \<Rightarrow> http_request \<Rightarrow> unit route" where
  "serve E (Signup acc dev doc token now req) = rvoid (signup E acc dev doc token now req)"
| "serve E (Prelogin email) = rvoid (prelogin E email)"
| "serve E (Login dev token now email secret reg) = rvoid (login E dev token now email secret reg)"
| "serve E (Recover token now email secret) = rvoid (recover E token now email secret)"
| "serve E (PasswordReset dev token now later session p reg) =
     rvoid (password_reset E dev token now later session p reg)"
| "serve E (InvitesFetch now iid) = rvoid (invites_fetch E now iid)"
| "serve E (WithDevice now h r) = rbind (device_auth E now h) (\<lambda>l. serve_device E l r)"

text \<open>What a request mints does not collide with what is stored.\<close>

fun fresh_for :: "web_env \<Rightarrow> http_request \<Rightarrow> server_db \<Rightarrow> bool" where
  "fresh_for E (Signup acc dev doc token now req) db \<longleftrightarrow>
     acc \<notin> a_id ` set (db_accounts db) \<and> dev \<notin> d_id ` set (db_devices db)"
| "fresh_for E (Login dev token now email secret reg) db \<longleftrightarrow> dev \<notin> d_id ` set (db_devices db)"
| "fresh_for E (Recover token now email secret) db \<longleftrightarrow> we_sha256 E token \<notin> rs_token_hash ` set (db_recovery db)"
| "fresh_for E (PasswordReset dev token now later session p reg) db \<longleftrightarrow> dev \<notin> d_id ` set (db_devices db)"
| "fresh_for E (WithDevice now h (DevicesRegister dev token later reg)) db \<longleftrightarrow> dev \<notin> d_id ` set (db_devices db)"
| "fresh_for E (WithDevice now h (DocsCreate doc later n)) db \<longleftrightarrow> doc \<notin> set (db_docs db)"
| "fresh_for E _ db \<longleftrightarrow> True"

text \<open>
  \<open>str::to_lowercase\<close>: no ASCII capital is left, and no space appears at an end that had none.
\<close>

definition lowercase_ok :: "web_env \<Rightarrow> bool" where
  "lowercase_ok E \<longleftrightarrow> (\<forall>s. sql_lower (we_lowercase E s) = we_lowercase E s \<and>
     (trim s = s \<longrightarrow> sql_trim (we_lowercase E s) = we_lowercase E s))"

section \<open>Triples\<close>

definition app_ok :: "app_state \<Rightarrow> bool" where
  "app_ok s \<longleftrightarrow> server_reach (as_db s) \<and> sess_inv (as_sessions s)"

fun internal :: "api_error \<Rightarrow> bool" where
  "internal (Internal c) = True"
| "internal _ = False"

definition route_ok :: "(app_state \<Rightarrow> bool) \<Rightarrow> 'a route \<Rightarrow> ('a \<Rightarrow> app_state \<Rightarrow> bool) \<Rightarrow> bool" where
  "route_ok P m Q \<longleftrightarrow> (\<forall>s. P s \<longrightarrow>
     (case m s of (Inl e, s') \<Rightarrow> \<not> internal e \<and> app_ok s' | (Inr x, s') \<Rightarrow> Q x s'))"

lemma rok_return: "(\<And>s. P s \<Longrightarrow> Q x s) \<Longrightarrow> route_ok P (rreturn x) Q"
  by (simp add: route_ok_def rreturn_def)

lemma rok_fail: "\<not> internal e \<Longrightarrow> (\<And>s. P s \<Longrightarrow> app_ok s) \<Longrightarrow> route_ok P (rfail e) Q"
  by (simp add: route_ok_def rfail_def)

lemma rok_bind:
  assumes "route_ok P m R" "\<And>x. route_ok (R x) (f x) Q"
  shows "route_ok P (rbind m f) Q"
  unfolding route_ok_def
proof (intro allI impI)
  fix s assume "P s"
  with assms(1) have m: "case m s of (Inl e, s') \<Rightarrow> \<not> internal e \<and> app_ok s' | (Inr x, s') \<Rightarrow> R x s'"
    by (simp add: route_ok_def)
  show "case rbind m f s of (Inl e, s') \<Rightarrow> \<not> internal e \<and> app_ok s' | (Inr x, s') \<Rightarrow> Q x s'"
  proof (cases "m s")
    case (Pair r s')
    with m assms(2) show ?thesis by (cases r) (auto simp: rbind_def route_ok_def)
  qed
qed

lemma rok_some:
  assumes "\<not> internal e" "\<And>s. P s \<Longrightarrow> app_ok s" "\<And>y. x = Some y \<Longrightarrow> route_ok P (f y) Q"
  shows "route_ok P (rbind (rsome e x) f) Q"
  using assms by (cases x) (simp_all add: rsome_def rbind_def route_ok_def rfail_def rreturn_def)

lemma rok_ensure:
  assumes "\<not> internal e" "\<And>s. P s \<Longrightarrow> app_ok s" "b \<Longrightarrow> route_ok P k Q"
  shows "route_ok P (rthen (rensure b e) k) Q"
  using assms by (cases b) (simp_all add: rensure_def rbind_def route_ok_def rfail_def rreturn_def)

lemma rok_ensure_last:
  assumes "\<not> internal e" "\<And>s. P s \<Longrightarrow> app_ok s" "\<And>s. b \<Longrightarrow> P s \<Longrightarrow> Q () s"
  shows "route_ok P (rensure b e) Q"
  using assms by (simp add: rensure_def rok_return rok_fail)

lemma rok_query:
  assumes "\<And>s. P s \<Longrightarrow> \<exists>x db. q (as_db s) = Inr (x, db) \<and> Q x (s\<lparr>as_db := db\<rparr>)"
  shows "route_ok P (rquery q) Q"
  using assms by (fastforce simp: route_ok_def rquery_def)

lemma rok_sessions:
  assumes "\<And>s. P s \<Longrightarrow> Q (fst (f (as_sessions s))) (s\<lparr>as_sessions := snd (f (as_sessions s))\<rparr>)"
  shows "route_ok P (rsessions f) Q"
  using assms by (simp add: route_ok_def rsessions_def split_beta Let_def)

lemma rok_void: "route_ok P m (\<lambda>_. app_ok) \<Longrightarrow> route_ok P (rvoid m) (\<lambda>_. app_ok)"
  unfolding rvoid_def by (erule rok_bind) (rule rok_return)

lemma rok_weaken: "route_ok R m Q \<Longrightarrow> (\<And>s. P s \<Longrightarrow> R s) \<Longrightarrow> route_ok P m Q"
  by (simp add: route_ok_def)

text \<open>A query that reads, and a call of \<^theory_text>\<open>Server_Calls\<close> that does not fail.\<close>

lemma rok_select:
  assumes "\<And>s x. P s \<Longrightarrow> x = v (as_db s) \<Longrightarrow> Q x s"
  shows "route_ok P (rquery (qselect v)) Q"
  using assms by (intro rok_query) (simp add: qselect_def)

lemma rok_call:
  assumes ok: "\<And>s. P s \<Longrightarrow> app_ok s"
    and run: "\<And>s. P s \<Longrightarrow> allowed c (as_db s) \<and> run_call c (as_db s) = left_by (as_db s) (q (as_db s))"
    and total: "\<And>s. P s \<Longrightarrow> \<exists>r. q (as_db s) = Inr r"
    and post: "\<And>s x db. P s \<Longrightarrow> q (as_db s) = Inr (x, db) \<Longrightarrow> app_ok (s\<lparr>as_db := db\<rparr>) \<Longrightarrow> Q x (s\<lparr>as_db := db\<rparr>)"
  shows "route_ok P (rquery q) Q"
proof (rule rok_query)
  fix s assume P: "P s"
  from total [OF P] obtain x db where q: "q (as_db s) = Inr (x, db)" by (metis surj_pair)
  have "server_reach (as_db s)" "sess_inv (as_sessions s)" using ok [OF P] by (simp_all add: app_ok_def)
  with run [OF P] q have "app_ok (s\<lparr>as_db := db\<rparr>)"
    using server_reach.call [of "as_db s" c] by (simp add: app_ok_def left_by_def)
  with post [OF P q] q show "\<exists>x db. q (as_db s) = Inr (x, db) \<and> Q x (s\<lparr>as_db := db\<rparr>)" by blast
qed

end
