(* ===== verification/Http_Total.thy ===== *)
theory Http_Total
  imports Http_Serve
begin

text \<open>
  On tables that satisfy the invariant, the queries behind the HTTP routes do not fail: every
  constraint the schema checks holds, provided minted ids and tokens do not collide. From this,
  each route keeps the invariant and answers no internal error.
\<close>

section \<open>Queries\<close>

lemma collect_rows_ok:
  assumes "\<And>x. x \<in> set xs \<Longrightarrow> \<exists>y. f x = Inr y"
  shows "collect_rows f xs db = Inr (map (\<lambda>x. projr (f x)) xs, db)"
  using assms
proof (induction xs)
  case (Cons x xs)
  then obtain y where "f x = Inr y" by auto
  with Cons show ?case by (simp add: query_defs)
qed (simp add: query_defs)

lemma role_parses: "acct_inv db \<Longrightarrow> m \<in> set (db_members db) \<Longrightarrow> \<exists>r. role_parse (m_role m) = Some r"
  by (drule acct_invD(3)) (auto simp: roles_ok_def)

definition membership_rows :: "uuid \<Rightarrow> server_db \<Rightarrow> member_row list" where
  "membership_rows acc db =
     sort_key m_added_at (sort_key m_doc (filter (\<lambda>m. m_account m = acc \<and> active m) (db_members db)))"

lemma list_memberships_ok:
  assumes i: "acct_inv db"
  shows "list_memberships acc db = Inr (map (\<lambda>m. projr (row_to_membership m)) (membership_rows acc db), db)"
proof -
  have "\<exists>y. row_to_membership m = Inr y" if "m \<in> set (membership_rows acc db)" for m
    using that role_parses [OF i, of m] by (auto simp: membership_rows_def row_to_membership_def)
  then show ?thesis
    by (simp add: list_memberships_def qbind_def qselect_def collect_rows_ok flip: membership_rows_def)
qed

lemma list_members_ok:
  assumes i: "acct_inv db"
  shows "\<exists>ms. list_members acc doc db = Inr (ms, db)"
proof -
  define rows where "rows = concat (map (\<lambda>m. map (\<lambda>a. (m, a_email a))
      (filter (\<lambda>a. a_id a = m_account m) (db_accounts db)))
    (sort_key m_added_at (sort_key m_account (filter (\<lambda>m. m_doc m = doc \<and> active m) (db_members db)))))"
  have "\<exists>y. to_listed_member p = Inr y" if "p \<in> set rows" for p
  proof -
    from that have "fst p \<in> set (db_members db)" by (auto simp: rows_def)
    from role_parses [OF i this] show ?thesis by (auto simp: to_listed_member_def)
  qed
  then show ?thesis
    by (simp add: list_members_def qbind_def qselect_def qreturn_def collect_rows_ok flip: rows_def)
qed

lemma account_facts:
  assumes "acct_inv db" "acc \<in> a_id ` set (db_accounts db)"
  obtains a where "a \<in> set (db_accounts db)" "a_id a = acc" "find (\<lambda>a. a_id a = acc) (db_accounts db) = Some a"
proof -
  obtain a where a: "a \<in> set (db_accounts db)" "a_id a = acc" using assms(2) by auto
  moreover have "find (\<lambda>a. a_id a = acc) (db_accounts db) = Some a"
    using acct_invD(1) [OF assms(1)] a by (intro find_unique_key) (simp_all add: keys_ok_def)
  ultimately show ?thesis by (rule that)
qed

lemma create_account_ok:
  assumes i: "acct_inv db" and f: "acc \<notin> a_id ` set (db_accounts db)" "dev \<notin> d_id ` set (db_devices db)"
    and e: "sql_lower (sql_trim (na_email n)) = na_email n"
  shows "create_account acc dev doc now n db \<noteq> Inl (CreateFailed x)"
proof -
  have "(d, acc) \<notin> (\<lambda>m. (m_doc m, m_account m)) ` set (db_members db)" for d
    using refs_okD [OF acct_invD(2) [OF i]] f(1) by auto
  then have "\<not> list_ex (\<lambda>m. m_doc m = d \<and> m_account m = acc) (db_members db)" for d
    by (auto simp: list_ex_iff)
  with f e show ?thesis
    by (simp add: create_account_def Let_def query_defs insert_doc_def insert_account_row_def insert_member_row_def
        insert_device_row_def has_account_def row_simps list_ex_key)
qed

lemma create_device_ok:
  "acc \<in> a_id ` set (db_accounts db) \<Longrightarrow> dev \<notin> d_id ` set (db_devices db) \<Longrightarrow>
     \<exists>r. create_device dev now acc name kind h db = Inr r"
  by (simp add: create_device_def query_defs insert_device_row_def has_account_def row_simps list_ex_key)

lemma create_doc_ok:
  assumes "acct_inv db" "acc \<in> a_id ` set (db_accounts db)" "doc \<notin> set (db_docs db)"
  shows "\<exists>r. create_doc doc now acc n db = Inr r"
proof -
  have "\<not> list_ex (\<lambda>m. m_doc m = doc \<and> m_account m = acc) (db_members db)"
    using refs_okD [OF acct_invD(2) [OF assms(1)]] assms(3) by (auto simp: list_ex_iff)
  with assms show ?thesis
    by (simp add: create_doc_def query_defs insert_doc_def insert_member_row_def has_account_def row_simps list_ex_key)
qed

lemma create_recovery_session_ok:
  "acc \<in> a_id ` set (db_accounts db) \<Longrightarrow> h \<notin> rs_token_hash ` set (db_recovery db) \<Longrightarrow>
     \<exists>r. create_recovery_session now acc h ttl db = Inr r"
  by (simp add: create_recovery_session_def insert_recovery_row_def has_account_def list_ex_key)

lemma update_password_ok:
  assumes "acct_inv db" "acc \<in> a_id ` set (db_accounts db)"
  shows "\<exists>r. update_password acc u db = Inr r"
proof -
  obtain a where a: "a \<in> set (db_accounts db)" "a_id a = acc" using assms(2) by auto
  show ?thesis by (simp add: update_password_def apply_password_update_eq [OF assms(1) a])
qed

lemma reset_password_ok:
  assumes "acct_inv db"
  shows "\<exists>r. reset_password_with_recovery_session now h u db = Inr r"
proof (cases "find (\<lambda>r. rs_token_hash r = h) (db_recovery db)")
  case (Some r)
  then have "r \<in> set (db_recovery db)" by (auto simp: find_Some_iff)
  then obtain a where a: "a \<in> set (db_accounts db)" "a_id a = rs_account r"
    using acct_invD(2) [OF assms] by (auto simp: refs_ok_def)
  show ?thesis
    by (simp add: reset_password_with_recovery_session_def Some apply_password_update_eq [OF assms a])
qed (simp add: reset_password_with_recovery_session_def)

lemma reset_password_account:
  assumes "acct_inv db" "reset_password_with_recovery_session now h u db = Inr (ResetUpdated acc, db')"
  shows "acc \<in> a_id ` set (db_accounts db')" "db_devices db' = db_devices db"
proof -
  obtain r where r: "find (\<lambda>r. rs_token_hash r = h) (db_recovery db) = Some r"
    using assms(2) by (auto simp: reset_password_with_recovery_session_def split: option.split_asm)
  then have "r \<in> set (db_recovery db)" by (auto simp: find_Some_iff)
  then obtain a where a: "a \<in> set (db_accounts db)" "a_id a = rs_account r"
    using acct_invD(2) [OF assms(1)] by (auto simp: refs_ok_def)
  have "acc \<in> a_id ` set (db_accounts db') \<and> db_devices db' = db_devices db"
    using assms(2) a r unfolding reset_password_with_recovery_session_def apply_password_update_eq [OF assms(1) a]
    by (simp add: apply_password_update_eq [OF assms(1) a] split: if_split_asm)
      (elim conjE, hypsubst, simp add: image_image row_simps)
  then show "acc \<in> a_id ` set (db_accounts db')" "db_devices db' = db_devices db" by simp_all
qed

lemma create_invite_ok:
  assumes "acct_inv db"
  shows "\<exists>r. create_invite now acc doc n db = Inr r"
proof -
  have "is_active_owner doc acc db \<Longrightarrow> doc \<in> set (db_docs db) \<and> acc \<in> a_id ` set (db_accounts db)"
    using owns_member [OF acct_invD(2) [OF assms]] is_active_owner_iff [OF acct_invD(3) [OF assms]] by simp
  then show ?thesis
    by (auto simp: create_invite_def query_defs insert_invite_row_def has_account_def row_simps list_ex_key
        filter_empty_conv)
qed

lemma accept_invite_ok:
  assumes "acct_inv db" "acc \<in> a_id ` set (db_accounts db)"
  shows "\<exists>r. accept_invite now acc iid w db = Inr r"
proof (cases "find (\<lambda>i. i_id i = iid) (db_invites db)")
  case (Some j)
  then have "i_doc j \<in> set (db_docs db)"
    using acct_invD(2) [OF assms(1)] by (auto simp: refs_ok_def find_Some_iff)
  moreover have "find (\<lambda>m. m_doc m = d \<and> m_account m = acc) (db_members db) = None \<Longrightarrow>
      \<not> list_ex (\<lambda>m. m_doc m = d \<and> m_account m = acc) (db_members db)" for d
    by (auto simp: find_None_iff list_ex_iff)
  ultimately show ?thesis using assms(2)
    by (auto simp: accept_invite_def Some query_defs update_consumed_def insert_member_row_def has_account_def
        list_ex_key row_simps Let_def split: option.split)
qed (simp add: accept_invite_def)

section \<open>The device of a request\<close>

definition lookup_ok :: "device_lookup \<Rightarrow> server_db \<Rightarrow> bool" where
  "lookup_ok l db \<longleftrightarrow>
     (\<exists>a \<in> set (db_accounts db). a_id a = dl_account_id l \<and> a_primary_doc_id a = dl_primary_doc_id l)"

definition authed :: "device_lookup \<Rightarrow> app_state \<Rightarrow> bool" where
  "authed l s \<longleftrightarrow> app_ok s \<and> lookup_ok l (as_db s)"

lemma authedD:
  assumes "authed l s"
  shows "app_ok s" "acct_inv (as_db s)" "dl_account_id l \<in> a_id ` set (db_accounts (as_db s))"
    "\<And>a. a \<in> set (db_accounts (as_db s)) \<Longrightarrow> a_id a = dl_account_id l \<Longrightarrow> a_primary_doc_id a = dl_primary_doc_id l"
proof -
  show ok: "app_ok s" using assms by (simp add: authed_def)
  then show i: "acct_inv (as_db s)" by (simp add: app_ok_def reach_acct_inv)
  obtain b where b: "b \<in> set (db_accounts (as_db s))" "a_id b = dl_account_id l" "a_primary_doc_id b = dl_primary_doc_id l"
    using assms by (auto simp: authed_def lookup_ok_def)
  then show "dl_account_id l \<in> a_id ` set (db_accounts (as_db s))" by force
  fix a assume "a \<in> set (db_accounts (as_db s))" "a_id a = dl_account_id l"
  moreover have "inj_on a_id (set (db_accounts (as_db s)))"
    using acct_invD(1) [OF i] by (simp add: keys_ok_def distinct_map)
  ultimately have "a = b" using b by (simp add: inj_onD)
  with b(3) show "a_primary_doc_id a = dl_primary_doc_id l" by simp
qed

lemma find_device_lookup:
  assumes "find_device_by_token_hash h db = Inr (Some l, db')"
  shows "lookup_ok l db \<and> db' = db"
proof -
  define ls where "ls = concat (map (\<lambda>d. map (\<lambda>a. \<lparr>dl_account_id = d_account d, dl_device_id = d_id d,
        dl_primary_doc_id = a_primary_doc_id a, dl_email = a_email a\<rparr>)
      (filter (\<lambda>a. a_id a = d_account d) (db_accounts db)))
    (filter (\<lambda>d. d_token_hash d = h) (db_devices db)))"
  have "l \<in> set ls \<and> db' = db" using assms
    by (cases ls) (auto simp: find_device_by_token_hash_def qselect_def ls_def [symmetric])
  then show ?thesis by (auto simp: ls_def lookup_ok_def)
qed

lemma app_okD: "app_ok s \<Longrightarrow> acct_inv (as_db s)"
  by (simp add: app_ok_def reach_acct_inv)

lemma touch_app_ok:
  assumes "app_ok s" "touch_device_last_seen now dev ip (as_db s) = Inr (x, db)"
  shows "app_ok (s\<lparr>as_db := db\<rparr>)"
  using assms server_reach.call [of "as_db s" "TouchDevice now dev ip"] by (simp add: app_ok_def left_by_def)

lemma touch_device_fields:
  obtains db' where "touch_device_last_seen now dev ip db = Inr ((), db')"
    "db_accounts db' = db_accounts db" "db_docs db' = db_docs db"
    "d_id ` set (db_devices db') = d_id ` set (db_devices db)"
proof -
  obtain db' where t: "touch_device_last_seen now dev ip db = Inr ((), db')"
      "db_accounts db' = db_accounts db" "db_docs db' = db_docs db"
      "map d_id (db_devices db') = map d_id (db_devices db)"
    by (simp add: touch_device_last_seen_def qexec_def o_def if_distrib cong: if_cong)
  from arg_cong [OF t(4), where f = set] have "d_id ` set (db_devices db') = d_id ` set (db_devices db)" by simp
  with t(1-3) show ?thesis by (rule that)
qed

lemma rok_device_auth:
  "route_ok (\<lambda>s. app_ok s \<and> D = d_id ` set (db_devices (as_db s)) \<and> M = db_docs (as_db s)) (device_auth E now h)
     (\<lambda>l s. authed l s \<and> D = d_id ` set (db_devices (as_db s)) \<and> M = db_docs (as_db s))"
  (is "route_ok ?P _ ?Q")
proof -
  have touch: "route_ok (\<lambda>s. ?P s \<and> lookup_ok l (as_db s))
    (\<lambda>s. case rquery (touch_device_last_seen now (dl_device_id l) ip) s of (_, s') \<Rightarrow> (Inr l, s')) ?Q" for l ip
    unfolding route_ok_def
  proof (intro allI impI)
    fix s assume s: "?P s \<and> lookup_ok l (as_db s)"
    obtain db where t: "touch_device_last_seen now (dl_device_id l) ip (as_db s) = Inr ((), db)"
        "db_accounts db = db_accounts (as_db s)" "db_docs db = db_docs (as_db s)"
        "d_id ` set (db_devices db) = d_id ` set (db_devices (as_db s))"
      using touch_device_fields by metis
    from touch_app_ok [OF _ t(1)] s have "app_ok (s\<lparr>as_db := db\<rparr>)" by simp
    with s t show "case (case rquery (touch_device_last_seen now (dl_device_id l) ip) s of (_, s') \<Rightarrow> (Inr l, s')) of
        (Inl e, s') \<Rightarrow> \<not> internal e \<and> app_ok s' | (Inr x, s') \<Rightarrow> ?Q x s'"
      by (simp add: rquery_def authed_def lookup_ok_def)
  qed
  have find: "route_ok ?P (rquery (find_device_by_token_hash k))
      (\<lambda>r s. ?P s \<and> (\<forall>l. r = Some l \<longrightarrow> lookup_ok l (as_db s)))" for k
  proof (rule rok_query)
    fix s assume s: "?P s"
    obtain r where r: "find_device_by_token_hash k (as_db s) = Inr (r, as_db s)"
      by (simp add: find_device_by_token_hash_def qselect_def)
    moreover have "lookup_ok l (as_db s)" if "r = Some l" for l
      using find_device_lookup r that by blast
    ultimately show "\<exists>r db. find_device_by_token_hash k (as_db s) = Inr (r, db) \<and> ?P (s\<lparr>as_db := db\<rparr>) \<and>
        (\<forall>l. r = Some l \<longrightarrow> lookup_ok l (as_db (s\<lparr>as_db := db\<rparr>)))"
      using s by (intro exI [of _ r] exI [of _ "as_db s"]) simp
  qed
  show ?thesis unfolding device_auth_def Let_def
    by (intro rok_some rok_bind [OF find]) (auto intro: rok_weaken [OF touch])
qed

end
