(* ===== verification/Http_Inv.thy ===== *)
theory Http_Inv
  imports Http_Total
begin

text \<open>
  Every route of \<^theory_text>\<open>Http_Serve\<close> keeps the invariant of the application state and answers no
  internal error.
\<close>

lemmas rok = rok_some rok_ensure rok_void

lemma close_all_ok:
  assumes "\<And>d S. sess_inv S \<Longrightarrow> sess_inv (snd (f d S))"
  shows "route_ok app_ok (close_all f ds) (\<lambda>_. app_ok)"
proof (induction ds)
  case (Cons d ds)
  have "route_ok app_ok (rsessions (f d)) (\<lambda>_. app_ok)"
    by (rule rok_sessions) (simp add: app_ok_def assms)
  with Cons show ?case by (auto intro!: rok_bind [where R = "\<lambda>_. app_ok"] rok_return)
qed (simp add: rok_return)

text \<open>A call that cannot fail, after which only the invariant matters.\<close>

lemma rok_run:
  assumes "\<And>s. P s \<Longrightarrow> app_ok s"
    and "\<And>db. run_call c db = left_by db (q db)"
    and "\<And>s. P s \<Longrightarrow> allowed c (as_db s)"
    and "\<And>s. P s \<Longrightarrow> \<exists>r. q (as_db s) = Inr r"
  shows "route_ok P (rquery q) (\<lambda>_. app_ok)"
  by (rule rok_call [where c = c]) (use assms in auto)

lemma rok_read:
  assumes "\<And>s. P s \<Longrightarrow> app_ok s" "\<And>s. P s \<Longrightarrow> \<exists>x. q (as_db s) = Inr (x, as_db s)"
  shows "route_ok P (rquery q) (\<lambda>_. P)"
proof (rule rok_query)
  fix s assume "P s"
  moreover from assms(2) [OF this] obtain x where "q (as_db s) = Inr (x, as_db s)" by blast
  ultimately show "\<exists>x db. q (as_db s) = Inr (x, db) \<and> P (s\<lparr>as_db := db\<rparr>)"
    by (intro exI [of _ x] exI [of _ "as_db s"]) simp
qed

lemma find_account_some:
  assumes "find_account_by_id acc db = Inr (Some v, db')"
  shows "\<exists>a \<in> set (db_accounts db). v = row_to_account a \<and> av_id v = acc \<and> a_id a = acc"
  using assms by (auto simp: find_account_by_id_def qselect_def find_Some_iff row_to_account_def)

section \<open>Devices\<close>

lemma revoke_device_total: "\<exists>r. revoke_device acc dev db = Inr r"
  by (simp add: revoke_device_def query_defs delete_devices_def Let_def)

lemma logout_ok: "route_ok (authed l) (logout E l) (\<lambda>_. app_ok)"
proof -
  have "route_ok (authed l) (rquery (revoke_device (dl_account_id l) (dl_device_id l))) (\<lambda>_. app_ok)"
    by (rule rok_run [where c = "RevokeDevice (dl_account_id l) (dl_device_id l)"])
      (simp_all add: authedD(1) revoke_device_total del: split_paired_Ex)
  then show ?thesis unfolding logout_def by (rule rok_bind) (rule rok_return)
qed

lemma devices_list_ok: "route_ok (authed l) (devices_list l) (\<lambda>_. app_ok)"
  unfolding devices_list_def list_devices_def by (rule rok_select) (rule authedD)

lemma register_device_ok:
  assumes P: "\<And>s. P s \<Longrightarrow> app_ok s \<and> acc \<in> a_id ` set (db_accounts (as_db s)) \<and> dev \<notin> d_id ` set (db_devices (as_db s))"
  shows "route_ok P (register_device E dev token now acc no_name no_kind reg) (\<lambda>_. app_ok)"
proof -
  have "route_ok P (rquery (create_device dev now acc (dr_name reg) (dr_kind reg) (we_sha256 E token))) (\<lambda>_. app_ok)"
    by (rule rok_run [where c = "CreateDevice dev now acc (dr_name reg) (dr_kind reg) (we_sha256 E token)"])
      (use P create_device_ok in auto)
  then show ?thesis unfolding register_device_def
    by (intro rok_ensure) (use P in \<open>auto intro: rok_bind rok_return\<close>)
qed

lemma devices_register_ok:
  "route_ok (\<lambda>s. authed l s \<and> dev \<notin> d_id ` set (db_devices (as_db s))) (devices_register E dev token now l reg) (\<lambda>_. app_ok)"
  unfolding devices_register_def by (rule register_device_ok) (use authedD in blast)

lemma devices_revoke_ok: "route_ok (authed l) (devices_revoke E l dev) (\<lambda>_. app_ok)"
proof -
  have "route_ok (authed l) (rquery (revoke_device (dl_account_id l) d)) (\<lambda>_. app_ok)" for d
    by (rule rok_run [where c = "RevokeDevice (dl_account_id l) d"]) (simp_all add: authedD(1) revoke_device_total del: split_paired_Ex)
  then show ?thesis unfolding devices_revoke_def
    by (intro rok_some rok_bind rok_ensure_last) (simp_all add: authedD(1))
qed

lemma devices_rename_ok: "route_ok (authed l) (devices_rename E l dev name) (\<lambda>_. app_ok)"
proof -
  have "route_ok (authed l) (rquery (rename_device (dl_account_id l) d n)) (\<lambda>_. app_ok)" for d n
    by (rule rok_run [where c = "RenameDevice (dl_account_id l) d n"]) (simp_all add: authedD(1) rename_device_def)
  then show ?thesis unfolding devices_rename_def Let_def
    by (intro rok_some rok_ensure rok_bind rok_ensure_last) (simp_all add: authedD(1))
qed

section \<open>Docs\<close>

lemma docs_list_ok: "route_ok (authed l) (docs_list l) (\<lambda>_. app_ok)"
  unfolding docs_list_def
  by (rule rok_bind [OF rok_read rok_return]) (use authedD list_memberships_ok in blast)+

lemma docs_create_ok:
  "route_ok (\<lambda>s. authed l s \<and> doc \<notin> set (db_docs (as_db s))) (docs_create doc now l n) (\<lambda>_. app_ok)"
  unfolding docs_create_def
  by (intro rok_ensure rok_run [where c = "CreateDoc doc now (dl_account_id l) n"])
    (use authedD create_doc_ok in auto)

lemma delete_doc_ok:
  assumes a: "authed l s" and d: "doc \<noteq> dl_primary_doc_id l"
  shows "\<exists>r. delete_doc (dl_account_id l) doc (as_db s) = Inr r"
proof -
  note i = authedD(2) [OF a]
  have "doc \<notin> a_primary_doc_id ` set (db_accounts (as_db s))" if "is_active_owner doc (dl_account_id l) (as_db s)"
  proof
    assume "doc \<in> a_primary_doc_id ` set (db_accounts (as_db s))"
    then obtain x where x: "x \<in> set (db_accounts (as_db s))" "doc = a_primary_doc_id x" by auto
    have "owns doc (dl_account_id l) (as_db s)" using that is_active_owner_iff [OF acct_invD(3) [OF i]] by simp
    with owner_unique [OF i _ homes_okD(1) [OF acct_invD(5) [OF i] x(1)]] x(2)
    have "a_id x = dl_account_id l" by simp
    with authedD(4) [OF a x(1)] x(2) d show False by simp
  qed
  then show ?thesis by (simp add: delete_doc_eq)
qed

lemma docs_delete_ok: "route_ok (authed l) (docs_delete E l raw) (\<lambda>_. app_ok)"
proof -
  have c: "route_ok app_ok (rsessions (close_doc (we_frame E) doc dev reason)) (\<lambda>_. app_ok)" for doc dev reason
    by (rule rok_sessions) (simp add: app_ok_def sess_inv_close_doc)
  have "route_ok (authed l) (rquery (delete_doc (dl_account_id l) doc)) (\<lambda>_. app_ok)" if "doc \<noteq> dl_primary_doc_id l" for doc
    by (rule rok_run [where c = "DeleteDoc (dl_account_id l) doc"]) (use that authedD(1) delete_doc_ok in auto)
  then show ?thesis unfolding docs_delete_def
    by (intro rok_some rok_ensure rok_bind [where R = "\<lambda>_. app_ok"])
      (auto simp: authedD(1) split: delete_doc_outcome.split intro!: rok_fail rok_return rok_bind [OF c])
qed

section \<open>Invites and members\<close>

lemma rok_parse_doc_id:
  assumes "\<And>s. P s \<Longrightarrow> app_ok s" "\<And>doc. route_ok P (f doc) Q"
  shows "route_ok P (rbind (parse_doc_id E raw) f) Q"
  unfolding parse_doc_id_def by (rule rok_some) (use assms in auto)

lemma invites_list_ok: "route_ok (authed l) (invites_list E l raw) (\<lambda>_. app_ok)"
  unfolding invites_list_def list_invites_def
  by (intro rok_parse_doc_id rok_bind [where R = "\<lambda>_. app_ok"] rok_select rok_some rok_return) (simp_all add: authedD(1))

lemma invites_create_ok: "route_ok (authed l) (invites_create E now l raw req) (\<lambda>_. app_ok)"
proof -
  have "route_ok (authed l) (rquery (create_invite now (dl_account_id l) doc n)) (\<lambda>_. app_ok)"
    if "doc \<noteq> dl_primary_doc_id l" for doc n
    by (rule rok_run [where c = "CreateInvite now (dl_account_id l) doc n"])
      (use that authedD create_invite_ok in auto)
  then show ?thesis unfolding invites_create_def
    by (intro rok_parse_doc_id rok_some rok_ensure rok_bind [where R = "\<lambda>_. app_ok"])
      (auto simp: authedD(1) split: create_invite_outcome.split intro!: rok_fail rok_return)
qed

lemma revoke_invite_total: "\<exists>r. revoke_invite acc doc iid db = Inr r"
  by (simp add: revoke_invite_def query_defs del: split_paired_Ex)

lemma invites_revoke_ok: "route_ok (authed l) (invites_revoke E l raw iid) (\<lambda>_. app_ok)"
proof -
  have "route_ok (authed l) (rquery (revoke_invite (dl_account_id l) doc i)) (\<lambda>_. app_ok)" for doc i
    by (rule rok_run [where c = "RevokeInvite (dl_account_id l) doc i"])
      (simp_all add: authedD(1) revoke_invite_total del: split_paired_Ex)
  then show ?thesis unfolding invites_revoke_def
    by (intro rok_parse_doc_id rok_some rok_bind [where R = "\<lambda>_. app_ok"] rok_ensure_last) (simp_all add: authedD(1))
qed

lemma invites_fetch_ok: "route_ok app_ok (invites_fetch E now iid) (\<lambda>_. app_ok)"
  unfolding invites_fetch_def fetch_invite_def
  by (intro rok_some rok_bind [where R = "\<lambda>_. app_ok"] rok_select)
    (auto split: fetch_invite_outcome.split intro!: rok_fail rok_return)

lemma invites_accept_ok: "route_ok (authed l) (invites_accept E now l iid w) (\<lambda>_. app_ok)"
proof -
  have "route_ok (authed l) (rquery (accept_invite now (dl_account_id l) i w)) (\<lambda>_. app_ok)" for i
    by (rule rok_run [where c = "AcceptInvite now (dl_account_id l) i w"]) (use authedD accept_invite_ok in auto)
  then show ?thesis unfolding invites_accept_def
    by (intro rok_some rok_ensure rok_bind [where R = "\<lambda>_. app_ok"])
      (auto simp: authedD(1) split: accept_invite_outcome.split intro!: rok_fail rok_return)
qed

lemma members_list_ok: "route_ok (authed l) (members_list E l raw) (\<lambda>_. app_ok)"
proof -
  have "route_ok (authed l) (rquery (list_members (dl_account_id l) doc)) (\<lambda>_. authed l)" for doc
    by (rule rok_read) (use authedD list_members_ok in blast)+
  then show ?thesis unfolding members_list_def
    by (intro rok_parse_doc_id rok_bind)
      (auto simp: authedD(1) rsome_def split: option.split intro!: rok_fail rok_return)
qed

lemma remove_member_total: "\<exists>r. remove_member now caller doc target db = Inr r"
  by (simp add: remove_member_def split: option.split member_role.split)

lemma remove_member_route_ok: "route_ok (authed l) (remove_member_route E now l raw_doc raw_acc) (\<lambda>_. app_ok)"
proof -
  have c: "route_ok app_ok (rsessions (close_for_account (we_frame E) doc acc reason)) (\<lambda>_. app_ok)" for doc acc reason
    by (rule rok_sessions) (simp add: app_ok_def sess_inv_close_account)
  have "route_ok (authed l) (rquery (remove_member now (dl_account_id l) doc target)) (\<lambda>_. app_ok)" for doc target
    by (rule rok_run [where c = "RemoveMember now (dl_account_id l) doc target"])
      (simp_all add: authedD(1) remove_member_total del: split_paired_Ex)
  then show ?thesis unfolding remove_member_route_def
    by (intro rok_parse_doc_id rok_some rok_ensure rok_bind [where R = "\<lambda>_. app_ok"])
      (auto simp: authedD(1) split: remove_member_outcome.split intro!: rok_fail rok_return rok_bind [OF c])
qed

section \<open>Accounts\<close>

lemma find_by_id_rok:
  "route_ok (\<lambda>s. app_ok s \<and> R s) (rquery (find_account_by_id acc)) (\<lambda>r s. app_ok s \<and> R s \<and>
     (\<forall>v. r = Some v \<longrightarrow> av_id v = acc \<and> acc \<in> a_id ` set (db_accounts (as_db s))))"
  unfolding find_account_by_id_def by (rule rok_select) (auto simp: find_Some_iff row_to_account_def)

lemma find_by_email_rok:
  "route_ok (\<lambda>s. app_ok s \<and> R s) (rquery (find_account_by_email email)) (\<lambda>r s. app_ok s \<and> R s \<and>
     (\<forall>v. r = Some v \<longrightarrow> (\<exists>a \<in> set (db_accounts (as_db s)). v = row_to_account a)))"
  unfolding find_account_by_email_def by (rule rok_select) (auto simp: find_Some_iff)

lemma rok_parse_keys:
  assumes P: "\<And>s. P s \<Longrightarrow> app_ok s"
  shows "route_ok P (parse_doc_keys E ks) (\<lambda>_. P)"
proof (induction ks)
  case (Cons k ks)
  obtain d w n where "k = (d, w, n)" by (cases k) auto
  with Cons P show ?case
    by (auto split: option.split intro!: rok_fail rok_bind [where R = "\<lambda>_. P"] rok_return)
qed (simp add: rok_return)

lemma update_password_rok:
  assumes "\<And>s. P s \<Longrightarrow> app_ok s \<and> acc \<in> a_id ` set (db_accounts (as_db s))"
  shows "route_ok P (rquery (update_password acc u)) (\<lambda>_. app_ok)"
  by (rule rok_run [where c = "UpdatePassword acc u"]) (use assms app_okD update_password_ok in auto)

lemma password_change_ok: "route_ok (authed l) (password_change E l secret p) (\<lambda>_. app_ok)"
  unfolding password_change_def
  apply (rule rok_weaken [where R = "\<lambda>s. app_ok s \<and> True"])
   apply (rule rok_bind [OF find_by_id_rok])
   apply (intro rok_some rok_ensure)
       apply simp_all
  apply (rule rok_bind [OF rok_parse_keys], simp)
   apply (rule rok_bind [OF update_password_rok], force)
   apply (auto simp: authedD(1) doc_keys_mismatch_def split: password_update_outcome.split intro!: rok_fail rok_return)
  done

lemma delete_account_ok:
  assumes "\<And>s. P s \<Longrightarrow> app_ok s"
  shows "route_ok P (rquery (delete_account acc)) (\<lambda>_. app_ok)"
  by (rule rok_run [where c = "DeleteAccount acc"])
    (use assms app_okD delete_account_eq in \<open>auto intro!: exI\<close>)

lemma delete_account_route_ok: "route_ok (authed l) (delete_account_route E l secret) (\<lambda>_. app_ok)"
proof -
  have close: "route_ok app_ok (close_all (\<lambda>doc. close_doc (we_frame E) doc dev r) ds) (\<lambda>_. app_ok)"
    "route_ok app_ok (close_all (\<lambda>doc. close_for_account (we_frame E) doc acc r) ds) (\<lambda>_. app_ok)" for dev acc r ds
    by (rule close_all_ok, simp add: sess_inv_close_doc sess_inv_close_account)+
  have "route_ok (\<lambda>s. app_ok s \<and> True) (delete_account_route E l secret) (\<lambda>_. app_ok)"
    unfolding delete_account_route_def
    by (rule rok_bind [OF find_by_id_rok], intro rok_some rok_ensure rok_bind [OF delete_account_ok]
        rok_bind [OF close(1)] rok_bind [OF close(2)] rok_return) auto
  then show ?thesis by (rule rok_weaken) (simp add: authedD(1))
qed

lemma normalized_email:
  assumes "lowercase_ok E" "normalize_email E raw = Some email"
  shows "sql_lower (sql_trim email) = email"
  using assms trim_trim by (auto simp: lowercase_ok_def normalize_email_def Let_def split: if_split_asm)

lemma rcreate_account_ok:
  assumes "recovery_paired n" "sql_lower (sql_trim (na_email n)) = na_email n"
  shows "route_ok (\<lambda>s. app_ok s \<and> acc \<notin> a_id ` set (db_accounts (as_db s)) \<and> dev \<notin> d_id ` set (db_devices (as_db s)))
    (rcreate_account acc dev doc now n) (\<lambda>_. app_ok)"
  unfolding route_ok_def
proof (intro allI impI)
  fix s assume s: "app_ok s \<and> acc \<notin> a_id ` set (db_accounts (as_db s)) \<and> dev \<notin> d_id ` set (db_devices (as_db s))"
  let ?c = "CreateAccount acc dev doc now n"
  have r: "server_reach (run_call ?c (as_db s))" "sess_inv (as_sessions s)"
    using s assms(1) server_reach.call [of "as_db s" ?c] by (simp_all add: app_ok_def)
  show "case rcreate_account acc dev doc now n s of (Inl e, s') \<Rightarrow> \<not> internal e \<and> app_ok s' | (Inr x, s') \<Rightarrow> app_ok s'"
  proof (cases "create_account acc dev doc now n (as_db s)")
    case (Inl e)
    then have "\<not> internal (signup_error e)"
      using create_account_ok [OF app_okD _ _ assms(2)] s by (cases e) auto
    with Inl s show ?thesis by (simp add: rcreate_account_def)
  next
    case (Inr p)
    with r show ?thesis by (cases p) (simp add: rcreate_account_def app_ok_def left_by_def)
  qed
qed

lemma signup_ok:
  assumes E: "lowercase_ok E"
  shows "route_ok (\<lambda>s. app_ok s \<and> acc \<notin> a_id ` set (db_accounts (as_db s)) \<and> dev \<notin> d_id ` set (db_devices (as_db s)))
    (signup E acc dev doc token now req) (\<lambda>_. app_ok)" (is "route_ok ?P _ _")
proof -
  have parse: "route_ok ?P (parse_primary_doc_id E p) (\<lambda>_. ?P)" for p
    unfolding parse_primary_doc_id_def by (auto split: option.split intro!: rok_fail rok_return)
  have "route_ok ?P (rcreate_account acc dev doc now (signup_account E email primary token req)) (\<lambda>_. app_ok)"
    if "normalize_email E (su_email req) = Some email" for email primary
    by (rule rcreate_account_ok)
      (simp_all add: signup_account_def recovery_paired_def normalized_email [OF E that])
  then show ?thesis unfolding signup_def Let_def
    by (intro rok_some rok_ensure rok_bind [OF parse] rok_bind rok_return) auto
qed

lemma prelogin_ok: "route_ok app_ok (prelogin E email) (\<lambda>_. app_ok)"
proof -
  have "route_ok (\<lambda>s. app_ok s \<and> True) (prelogin E email) (\<lambda>_. app_ok)" unfolding prelogin_def
    by (intro rok_some rok_bind [OF find_by_email_rok] rok_return) auto
  then show ?thesis by simp
qed

lemma login_ok:
  "route_ok (\<lambda>s. app_ok s \<and> dev \<notin> d_id ` set (db_devices (as_db s))) (login E dev token now email secret reg) (\<lambda>_. app_ok)"
proof -
  have reg: "route_ok (\<lambda>s. app_ok s \<and> dev \<notin> d_id ` set (db_devices (as_db s)) \<and> (\<exists>a \<in> set (db_accounts (as_db s)). v = row_to_account a))
      (case reg of None \<Rightarrow> rreturn None | Some r \<Rightarrow> rbind (register_device E dev token now (av_id v) no_name no_kind r) (\<lambda>c. rreturn (Some c)))
      (\<lambda>_. app_ok)" for v no_name no_kind
    by (auto simp: row_to_account_def split: option.split intro!: rok_return rok_bind [OF register_device_ok])
  have "route_ok app_ok (rquery (list_memberships a)) (\<lambda>_. app_ok)" for a
    by (rule rok_read) (use app_okD list_memberships_ok in blast)+
  then show ?thesis unfolding login_def
    by (intro rok_some rok_ensure rok_bind [OF find_by_email_rok] rok_bind [OF rok_weaken [OF reg]] rok_bind rok_return) auto
qed

text \<open>The recovery wrap a reset needs: an enrolled account's Home row carries it.\<close>

lemma recovery_keys_present:
  assumes i: "acct_inv db" and a: "a \<in> set (db_accounts db)" "a_recovery_auth_hash a \<noteq> None"
  shows "List.map_filter recovery_key (filter (\<lambda>m. mr_doc_id m = a_primary_doc_id a)
    (map (\<lambda>m. projr (row_to_membership m)) (membership_rows (a_id a) db))) \<noteq> []"
proof -
  obtain m where m: "filter (\<lambda>m. m_doc m = a_primary_doc_id a) (db_members db) = [m]" "m_account m = a_id a"
      "m_role m = role_as_str Owner" "active m"
    using home_rows [OF i a(1)] by blast
  then have "m \<in> set (filter (\<lambda>m. m_doc m = a_primary_doc_id a) (db_members db))" by simp
  then have mm: "m \<in> set (db_members db)" "m_doc m = a_primary_doc_id a" by simp_all
  with m have in_rows: "m \<in> set (membership_rows (a_id a) db)" by (simp add: membership_rows_def)
  obtain w n where w: "m_recovery_wrapped_dek m = Some w" "m_recovery_wrapped_dek_nonce m = Some n"
    using acct_invD(5) [OF i] a mm unfolding homes_ok_def by blast
  define r where "r = projr (row_to_membership m)"
  have r: "mr_doc_id r = a_primary_doc_id a" "recovery_key r \<noteq> None"
    using mm(2) m(3) w by (simp_all add: r_def row_to_membership_def recovery_key_def del: role_as_str.simps)
  with in_rows have "r \<in> set (filter (\<lambda>m. mr_doc_id m = a_primary_doc_id a)
      (map (\<lambda>m. projr (row_to_membership m)) (membership_rows (a_id a) db)))"
    by (auto simp: r_def)
  with r(2) show ?thesis by (auto simp: List.map_filter_def filter_empty_conv)
qed

lemma recover_ok:
  "route_ok (\<lambda>s. app_ok s \<and> we_sha256 E token \<notin> rs_token_hash ` set (db_recovery (as_db s)))
    (recover E token now email secret) (\<lambda>_. app_ok)"
  (is "route_ok (\<lambda>s. app_ok s \<and> ?F s) _ _")
proof -
  let ?R = "\<lambda>v s. app_ok s \<and> ?F s \<and> (\<exists>a \<in> set (db_accounts (as_db s)). v = row_to_account a)"
  have rows: "route_ok (?R v) (rquery (list_memberships (av_id v))) (\<lambda>rows s. ?R v s \<and>
      List.map_filter recovery_key (filter (\<lambda>m. mr_doc_id m = av_primary_doc_id v) rows) \<noteq> [])"
    if "av_recovery_auth_hash v = Some h" for v h
  proof (rule rok_query)
    fix s assume s: "?R v s"
    then obtain a where a: "a \<in> set (db_accounts (as_db s))" "v = row_to_account a" by blast
    have i: "acct_inv (as_db s)" using s app_okD by blast
    from recovery_keys_present [OF i a(1)] that a(2) s show "\<exists>rows db. list_memberships (av_id v) (as_db s) = Inr (rows, db) \<and>
        ?R v (s\<lparr>as_db := db\<rparr>) \<and>
        List.map_filter recovery_key (filter (\<lambda>m. mr_doc_id m = av_primary_doc_id v) rows) \<noteq> []"
      by (simp add: list_memberships_ok [OF i] row_to_account_def)
  qed
  have session: "route_ok (?R v) (rquery (create_recovery_session now (av_id v) (we_sha256 E token) ttl)) (\<lambda>_. app_ok)" for v ttl
    by (rule rok_run [where c = "CreateRecoverySession now (av_id v) (we_sha256 E token) ttl"])
      (use create_recovery_session_ok in \<open>auto simp: row_to_account_def\<close>)
  have keys: "route_ok (\<lambda>s. ?R v s \<and> ks \<noteq> []) (rthen (rensure (ks \<noteq> []) e) k) (\<lambda>_. app_ok)"
    if "route_ok (?R v) k (\<lambda>_. app_ok)" for v ks e k
    using that by (cases "ks = []") (simp_all add: route_ok_def rensure_def rbind_def rreturn_def)
  show ?thesis unfolding recover_def Let_def
    by (intro rok_some rok_ensure rok_bind [OF find_by_email_rok] rok_bind [OF rok_weaken [OF rows]] keys
        rok_bind [OF session] rok_return) auto
qed

lemma password_reset_ok:
  "route_ok (\<lambda>s. app_ok s \<and> dev \<notin> d_id ` set (db_devices (as_db s)))
    (password_reset E dev token now later session p reg) (\<lambda>_. app_ok)"
  (is "route_ok ?P _ _")
proof -
  let ?Q = "\<lambda>out s. app_ok s \<and> (\<forall>acc. out = ResetUpdated acc \<longrightarrow>
      acc \<in> a_id ` set (db_accounts (as_db s)) \<and> dev \<notin> d_id ` set (db_devices (as_db s)))"
  have reset: "route_ok ?P (rquery (reset_password_with_recovery_session now h u)) ?Q" for h u
  proof (rule rok_call [where c = "ResetPassword now h u"])
    fix s assume s: "?P s"
    then show "\<exists>r. reset_password_with_recovery_session now h u (as_db s) = Inr r"
      using reset_password_ok app_okD by blast
    fix out db assume r: "reset_password_with_recovery_session now h u (as_db s) = Inr (out, db)"
      and ok: "app_ok (s\<lparr>as_db := db\<rparr>)"
    show "?Q out (s\<lparr>as_db := db\<rparr>)"
      using ok s reset_password_account [OF app_okD [of s]] r by auto
  qed auto
  have device: "route_ok (\<lambda>s. app_ok s \<and> acc \<in> a_id ` set (db_accounts (as_db s)) \<and> dev \<notin> d_id ` set (db_devices (as_db s)))
      (rquery (create_device dev later acc name kind h))
      (\<lambda>_ s. app_ok s \<and> acc \<in> a_id ` set (db_accounts (as_db s)))" for acc name kind h
    by (rule rok_call [where c = "CreateDevice dev later acc name kind h"])
      (use create_device_ok in \<open>auto dest: create_device_cases\<close>)
  have found: "route_ok (\<lambda>s. app_ok s \<and> acc \<in> a_id ` set (db_accounts (as_db s))) (rquery (find_account_by_id acc))
      (\<lambda>r s. app_ok s \<and> r \<noteq> None)" for acc
    unfolding find_account_by_id_def by (rule rok_select) (auto simp: find_None_iff)
  have unwrap: "route_ok (\<lambda>s. app_ok s \<and> r \<noteq> None) (rbind (rsome e (map_option f r)) k) (\<lambda>_. app_ok)"
    if "\<And>y. route_ok app_ok (k y) (\<lambda>_. app_ok)" for r e and f :: "account_view \<Rightarrow> uuid" and k :: "uuid \<Rightarrow> (str \<times> password_reset_response) route"
    using that by (cases r) (simp_all add: route_ok_def rsome_def rbind_def rreturn_def)
  have finish: "route_ok (\<lambda>s. app_ok s \<and> acc \<in> a_id ` set (db_accounts (as_db s)) \<and> dev \<notin> d_id ` set (db_devices (as_db s)))
    (rbind (rquery (create_device dev later acc name kind h)) (\<lambda>i.
      rbind (rquery (find_account_by_id acc)) (\<lambda>found. rbind (rsome e (map_option av_primary_doc_id found)) (\<lambda>d. rreturn (g i d)))))
    (\<lambda>_. app_ok)" for acc name kind h e and g :: "uuid \<Rightarrow> uuid \<Rightarrow> str \<times> password_reset_response"
    by (intro rok_bind [OF device] rok_bind [OF found] unwrap rok_return) auto
  show ?thesis unfolding password_reset_def Let_def
    by (intro rok_some rok_ensure rok_bind [OF rok_parse_keys] rok_bind [OF reset])
      (auto simp: doc_keys_mismatch_def split: password_reset_outcome.split intro!: rok_fail finish)
qed

section \<open>Every request\<close>

lemma serve_device_ok:
  "route_ok (\<lambda>s. authed l s \<and> fresh_for E (WithDevice now h r) (as_db s)) (serve_device E l r) (\<lambda>_. app_ok)"
proof (cases r)
  case (DevicesRegister dev token later reg)
  with rok_weaken [OF rok_void [OF devices_register_ok]] show ?thesis by auto
next
  case (DocsCreate doc later n)
  with rok_weaken [OF rok_void [OF docs_create_ok]] show ?thesis by auto
qed (auto intro: rok_weaken [OF rok_void [OF logout_ok]] rok_weaken [OF rok_void [OF delete_account_route_ok]]
    rok_weaken [OF password_change_ok] rok_weaken [OF rok_void [OF devices_list_ok]]
    rok_weaken [OF devices_rename_ok] rok_weaken [OF devices_revoke_ok]
    rok_weaken [OF rok_void [OF docs_list_ok]] rok_weaken [OF docs_delete_ok]
    rok_weaken [OF rok_void [OF invites_list_ok]] rok_weaken [OF rok_void [OF invites_create_ok]]
    rok_weaken [OF invites_revoke_ok] rok_weaken [OF rok_void [OF invites_accept_ok]]
    rok_weaken [OF rok_void [OF members_list_ok]] rok_weaken [OF remove_member_route_ok])

lemma fresh_for_devices_docs:
  "d_id ` set (db_devices db') = d_id ` set (db_devices db) \<Longrightarrow> db_docs db' = db_docs db \<Longrightarrow>
     fresh_for E (WithDevice now h r) db' = fresh_for E (WithDevice now h r) db"
  by (cases r) simp_all

lemma with_device_ok:
  "route_ok (\<lambda>s. app_ok s \<and> fresh_for E (WithDevice now h r) (as_db s)) (serve E (WithDevice now h r)) (\<lambda>_. app_ok)"
  unfolding route_ok_def
proof (intro allI impI)
  fix s assume s: "app_ok s \<and> fresh_for E (WithDevice now h r) (as_db s)"
  let ?D = "d_id ` set (db_devices (as_db s))" and ?M = "db_docs (as_db s)"
  have "route_ok (\<lambda>t. app_ok t \<and> ?D = d_id ` set (db_devices (as_db t)) \<and> ?M = db_docs (as_db t))
      (serve E (WithDevice now h r)) (\<lambda>_. app_ok)"
    unfolding serve.simps
    by (rule rok_bind [OF rok_device_auth], rule rok_weaken [OF serve_device_ok [where h = h and now = now]])
      (use s fresh_for_devices_docs in metis)
  with s show "case serve E (WithDevice now h r) s of (Inl e, s') \<Rightarrow> \<not> internal e \<and> app_ok s' | (Inr x, s') \<Rightarrow> app_ok s'"
    by (simp add: route_ok_def)
qed

lemma serve_ok:
  assumes "lowercase_ok E"
  shows "route_ok (\<lambda>s. app_ok s \<and> fresh_for E req (as_db s)) (serve E req) (\<lambda>_. app_ok)"
proof (cases req)
  case (WithDevice now h r)
  then show ?thesis using with_device_ok by simp
qed (auto intro: rok_void rok_weaken [OF rok_void [OF signup_ok [OF assms]]] rok_weaken [OF rok_void [OF prelogin_ok]]
    rok_weaken [OF rok_void [OF login_ok]] rok_weaken [OF rok_void [OF recover_ok]]
    rok_weaken [OF rok_void [OF password_reset_ok]] rok_weaken [OF rok_void [OF invites_fetch_ok]])

end
