(* ===== verification/Http_Props.thy ===== *)
theory Http_Props
  imports Http_Inv "HOL-Library.Code_Target_Nat"
begin

text \<open>
  What the HTTP surface promises: requests keep the server consistent and never fail inside,
  logging in takes exactly the password, a signup can be used at once, a lost password can be reset
  once, and a removed member is cut off.
\<close>

section \<open>Tokens and hashes\<close>

lemma or_eq_0: "or a b = (0::u8) \<longleftrightarrow> a = 0 \<and> b = 0"
  by (auto simp: bit_eq_iff bit_or_iff)

lemma xor_eq_0: "xor a b = (0::u8) \<longleftrightarrow> a = b"
  by (auto simp: bit_eq_iff bit_xor_iff)

lemma diff_fold: "fold (\<lambda>(x, y) diff. or diff (xor x y)) ps (d::u8) = 0 \<longleftrightarrow> d = 0 \<and> (\<forall>(x, y) \<in> set ps. x = y)"
  by (induction ps arbitrary: d) (auto simp: or_eq_0 xor_eq_0)

lemma constant_time_eq_iff: "constant_time_eq a b \<longleftrightarrow> a = b"
proof (cases "length a = length b")
  case True
  have "(\<forall>(x, y) \<in> set (zip a b). x = y) \<longleftrightarrow> a = b"
    using True by (induction a b rule: list_induct2) auto
  with True show ?thesis by (simp add: constant_time_eq_def diff_fold)
qed (auto simp: constant_time_eq_def)

text \<open>The \<open>hex\<close> crate: what it encodes it decodes, in text that has no separator of a header.\<close>

definition hex_ok :: "web_env \<Rightarrow> bool" where
  "hex_ok E \<longleftrightarrow> (\<forall>b. we_hex_decode E (we_hex_encode E b) = Some b \<and> trim (we_hex_encode E b) = we_hex_encode E b \<and>
     61 \<notin> set (we_hex_encode E b) \<and> 59 \<notin> set (we_hex_encode E b))"

lemma decode_encode_token: "hex_ok E \<Longrightarrow> length t = TOKEN_LEN \<Longrightarrow> decode_token E (encode_token E t) = Some t"
  by (simp add: hex_ok_def decode_token_def encode_token_def)

lemmas route_defs = rbind_def rreturn_def rfail_def rsome_def rensure_def rquery_def qselect_def

section \<open>Logging in\<close>

definition login_answer :: "account_row \<Rightarrow> server_db \<Rightarrow> login_response" where
  "login_answer a db =
     \<lparr>lr_account_id = a_id a, lr_primary_doc_id = a_primary_doc_id a,
      lr_memberships = map to_membership (map (\<lambda>m. projr (row_to_membership m)) (membership_rows (a_id a) db)),
      lr_recovery_present = recovery_present (row_to_account a), lr_device = None\<rparr>"

lemma login_eval:
  assumes "acct_inv (as_db s)"
  shows "login E dev token now email secret None s =
    (case Option.bind (normalize_email E email) (\<lambda>e. find (\<lambda>a. a_email a = e) (db_accounts (as_db s))) of
       None \<Rightarrow> (Inl InvalidCredentials, s)
     | Some a \<Rightarrow> if we_sha256 E secret = a_password_hash a then (Inr (None, login_answer a (as_db s)), s)
                 else (Inl InvalidCredentials, s))"
  by (simp add: login_def route_defs find_account_by_email_def list_memberships_ok [OF assms] constant_time_eq_iff
      login_answer_def row_to_account_def split: option.split)

lemma login_docs:
  assumes "acct_inv db"
  shows "ms_doc_id ` set (lr_memberships (login_answer a db)) = {doc. is_member doc (a_id a) db}"
proof -
  have "ms_doc_id (to_membership (projr (row_to_membership m))) = m_doc m" if m: "m \<in> set (db_members db)" for m
    using role_parses [OF assms m] by (auto simp: row_to_membership_def to_membership_def)
  then have "ms_doc_id ` set (lr_memberships (login_answer a db)) = m_doc ` set (membership_rows (a_id a) db)"
    by (auto simp: login_answer_def membership_rows_def image_image image_iff)
  also have "\<dots> = {doc. is_member doc (a_id a) db}"
    by (auto simp: membership_rows_def is_member_iff active_def)
  finally show ?thesis .
qed


section \<open>Signing up\<close>

lemma signup_cases:
  assumes "signup E acc dev doc token now req s = (Inr (cookie, resp), s')"
  obtains email primary home where "normalize_email E (su_email req) = Some email"
    "create_account acc dev doc now (signup_account E email primary token req) (as_db s) =
       Inr (\<lparr>ca_account_id = acc, ca_device_id = dev, ca_primary_doc_id = home\<rparr>, as_db s')"
    "s' = s\<lparr>as_db := as_db s'\<rparr>" "cookie = set_cookie (encode_token E token) (we_secure_cookies E)"
    "resp = \<lparr>sr_account_id = acc, sr_device_id = dev, sr_device_token = encode_token E token, sr_primary_doc_id = home\<rparr>"
proof -
  obtain email where e: "normalize_email E (su_email req) = Some email"
    using assms by (cases "normalize_email E (su_email req)") (simp_all add: signup_def route_defs)
  obtain primary c db where c: "create_account acc dev doc now (signup_account E email primary token req) (as_db s) = Inr (c, db)"
      and rest: "s' = s\<lparr>as_db := db\<rparr>" "cookie = set_cookie (encode_token E token) (we_secure_cookies E)"
      "resp = \<lparr>sr_account_id = ca_account_id c, sr_device_id = ca_device_id c, sr_device_token = encode_token E token,
         sr_primary_doc_id = ca_primary_doc_id c\<rparr>"
    using assms
    by (auto simp: signup_def e rbind_def rsome_def rensure_def rreturn_def rfail_def rcreate_account_def parse_primary_doc_id_def
        Let_def split: if_split_asm option.split_asm sum.split_asm prod.split_asm)
  from create_account_cases [OF c] c rest e show ?thesis by (intro that) auto
qed

text \<open>What a browser keeps of a \<open>Set-Cookie\<close> header and sends back.\<close>

definition cookie_pair :: "str \<Rightarrow> str" where
  "cookie_pair header = hd (split_on 59 header)"

lemma cookie_pair_set_cookie:
  assumes "59 \<notin> set token"
  shows "cookie_pair (set_cookie token secure) = COOKIE_NAME @ 61 # token"
proof -
  have "59 \<notin> set (COOKIE_NAME @ 61 # token)" using assms by (simp add: COOKIE_NAME_def lit_def)
  from split_on_append [OF this] show ?thesis
    by (simp add: cookie_pair_def set_cookie_def lit_def)
qed

lemma token_from_own_cookie:
  assumes "59 \<notin> set token" "trim token = token"
  shows "token_from_cookies [Some (cookie_pair (set_cookie token secure))] = Some token"
proof -
  let ?p = "COOKIE_NAME @ 61 # token"
  have "59 \<notin> set ?p" using assms by (simp add: COOKIE_NAME_def lit_def)
  moreover have "trim ?p = ?p"
  proof (rule trim_id)
    show "\<not> is_whitespace (last ?p)"
      using trim_last [OF assms(2)] by (cases "token = []") (simp_all add: is_whitespace_def)
  qed (simp_all add: COOKIE_NAME_def lit_def is_whitespace_def)
  moreover have "61 \<notin> set COOKIE_NAME" by (simp add: COOKIE_NAME_def lit_def)
  ultimately show ?thesis by (simp add: cookie_pair_set_cookie [OF assms(1)] split_on_free)
qed

lemma device_auth_token:
  assumes "case Option.bind (hh_authorization h) (strip_prefix (lit ''Bearer '')) of
      Some t \<Rightarrow> t = token | None \<Rightarrow> token_from_cookies (hh_cookies h) = Some token"
    and "decode_token E token = Some raw" "find_device_by_token_hash (we_sha256 E raw) (as_db s) = Inr (Some l, as_db s)"
  shows "fst (device_auth E now h s) = Inr l"
  using assms
  by (auto simp: device_auth_def Let_def rbind_def rsome_def rreturn_def rquery_def touch_device_last_seen_def qexec_def
      split: option.split_asm)

lemma new_device_found:
  assumes i: "acct_inv db" and c: "create_account acc dev minted now n db = Inr (c, db')"
    and f: "na_device_token_hash n \<notin> d_token_hash ` set (db_devices db)"
  shows "find_device_by_token_hash (na_device_token_hash n) db' =
    Inr (Some \<lparr>dl_account_id = acc, dl_device_id = dev, dl_primary_doc_id = ca_primary_doc_id c, dl_email = na_email n\<rparr>, db')"
proof -
  obtain doc where d: "c = \<lparr>ca_account_id = acc, ca_device_id = dev, ca_primary_doc_id = doc\<rparr>"
      "acc \<notin> a_id ` set (db_accounts db)"
      "db_accounts db' = db_accounts db @ [new_account_row acc doc n]"
      "db_devices db' = db_devices db @ [new_device_row dev acc (na_device_name n) (na_device_kind n) (na_device_token_hash n) now]"
    using create_account_cases [OF c] by auto
  have "filter (\<lambda>d. d_token_hash d = na_device_token_hash n) (db_devices db) = []" using f by (force simp: filter_empty_conv)
  moreover have "filter (\<lambda>a. a_id a = acc) (db_accounts db) = []" using d(2) by (force simp: filter_empty_conv)
  ultimately show ?thesis
    by (simp add: find_device_by_token_hash_def qselect_def d new_device_row_def new_account_row_def)
qed

text \<open>
  C38: a signup can be used at once. With the token it answers, or with the cookie it sets, the
  next request is authenticated as the new account on the new device, whose Home is the doc the answer
  names; and the email and secret of the signup log in to it.
\<close>

theorem signup_is_usable:
  assumes "hex_ok E" and "lowercase_ok E" and "server_reach (as_db s)" and "length token = TOKEN_LEN"
    and "we_sha256 E token \<notin> d_token_hash ` set (db_devices (as_db s))"
    and "signup E acc dev doc token now req s = (Inr (cookie, resp), s')"
    and "h = \<lparr>hh_authorization = Some (lit ''Bearer '' @ sr_device_token resp), hh_cookies = cs, hh_client_ip = ip\<rparr> \<or>
         h = \<lparr>hh_authorization = None, hh_cookies = [Some (cookie_pair cookie)], hh_client_ip = ip\<rparr>"
  shows "(\<exists>l. fst (device_auth E t h s') = Inr l \<and> dl_account_id l = acc \<and> dl_device_id l = dev \<and>
      dl_primary_doc_id l = sr_primary_doc_id resp) \<and>
    (\<exists>answer. fst (login E dev2 token2 t (su_email req) (su_auth_secret req) None s') = Inr (None, answer) \<and>
       lr_account_id answer = acc \<and> lr_primary_doc_id answer = sr_primary_doc_id resp)"
proof -
  note i = reach_acct_inv [OF assms(3)]
  from signup_cases [OF assms(6)] obtain email primary home where
    c: "normalize_email E (su_email req) = Some email"
      "create_account acc dev doc now (signup_account E email primary token req) (as_db s) =
         Inr (\<lparr>ca_account_id = acc, ca_device_id = dev, ca_primary_doc_id = home\<rparr>, as_db s')"
    and r: "cookie = set_cookie (encode_token E token) (we_secure_cookies E)"
      "resp = \<lparr>sr_account_id = acc, sr_device_id = dev, sr_device_token = encode_token E token, sr_primary_doc_id = home\<rparr>"
    by metis
  let ?n = "signup_account E email primary token req"
  let ?l = "\<lparr>dl_account_id = acc, dl_device_id = dev, dl_primary_doc_id = home, dl_email = email\<rparr>"
  have n: "na_device_token_hash ?n = we_sha256 E token" "na_email ?n = email" "recovery_paired ?n"
    "na_password_hash ?n = we_sha256 E (su_auth_secret req)"
    by (simp_all add: signup_account_def recovery_paired_def)
  have l: "find_device_by_token_hash (we_sha256 E token) (as_db s') = Inr (Some ?l, as_db s')"
    using new_device_found [OF i c(2)] assms(5) n by simp
  have x: "trim (encode_token E token) = encode_token E token" "59 \<notin> set (encode_token E token)"
    using assms(1) by (simp_all add: hex_ok_def encode_token_def)
  have "token_from_cookies [Some (cookie_pair cookie)] = Some (encode_token E token)"
    unfolding r(1) by (rule token_from_own_cookie [OF x(2,1)])
  with assms(7) have "fst (device_auth E t h s') = Inr ?l"
    by (intro device_auth_token [OF _ decode_encode_token [OF assms(1,4)] l]) (auto simp: r)
  moreover have "fst (login E dev2 token2 t (su_email req) (su_auth_secret req) None s') =
      Inr (None, login_answer (new_account_row acc home ?n) (as_db s'))"
  proof -
    have i': "acct_inv (as_db s')" by (rule create_account_inv [OF i c(2) n(3)])
    obtain db' where "as_db s' = db'" "email \<notin> a_email ` set (db_accounts (as_db s))"
        "db_accounts db' = db_accounts (as_db s) @ [new_account_row acc home ?n]"
      using create_account_cases [OF c(2)] n(2) by auto
    then have "find (\<lambda>a. a_email a = email) (db_accounts (as_db s')) = Some (new_account_row acc home ?n)"
      using acct_invD(1) [OF i'] by (intro find_unique_key) (simp_all add: keys_ok_def new_account_row_def n)
    with c(1) n(4) show ?thesis by (simp add: login_eval [OF i'] new_account_row_def)
  qed
  moreover have "a_id (new_account_row acc home ?n) = acc" "a_primary_doc_id (new_account_row acc home ?n) = home"
    by (simp_all add: new_account_row_def)
  ultimately show ?thesis by (simp add: r(2) login_answer_def)
qed

section \<open>Resetting a password\<close>

lemma recover_cases:
  assumes i: "acct_inv (as_db s)" and r: "recover E token now email secret s = (Inr resp, s')"
  obtains a db where "normalize_email E email = Some (a_email a)" "a \<in> set (db_accounts (as_db s))"
    "create_recovery_session now (a_id a) (we_sha256 E token) RECOVERY_SESSION_TTL_MILLIS (as_db s) = Inr ((), db)"
    "s' = s\<lparr>as_db := db\<rparr>" "rr_primary_doc_id resp = a_primary_doc_id a" "rr_account_id resp = a_id a"
    "rr_session_token resp = encode_token E token" "a_recovery_auth_hash a = Some (we_sha256 E secret)"
proof -
  obtain e where e: "normalize_email E email = Some e"
    using r by (cases "normalize_email E email") (simp_all add: recover_def route_defs)
  obtain a where a: "find (\<lambda>a. a_email a = e) (db_accounts (as_db s)) = Some a"
    using r by (cases "find (\<lambda>a. a_email a = e) (db_accounts (as_db s))")
      (simp_all add: recover_def route_defs e find_account_by_email_def)
  have as: "a \<in> set (db_accounts (as_db s))" "a_email a = e" using a by (auto simp: find_Some_iff)
  define av where "av = row_to_account a"
  have av: "av_id av = a_id a" "av_primary_doc_id av = a_primary_doc_id a" "av_recovery_auth_hash av = a_recovery_auth_hash a"
    by (simp_all add: av_def row_to_account_def)
  note eval = recover_def rbind_def rsome_def rreturn_def rquery_def qselect_def e a find_account_by_email_def
    av_def [symmetric] av list_memberships_ok [OF i]
  obtain h where h: "a_recovery_auth_hash a = Some h"
    using r by (cases "a_recovery_auth_hash a") (simp_all add: eval rfail_def)
  have hs: "h = we_sha256 E secret"
    using r by (cases "h = we_sha256 E secret") (simp_all add: eval h rensure_def rfail_def constant_time_eq_iff)
  obtain ks where r': "(case create_recovery_session now (a_id a) (we_sha256 E token) RECOVERY_SESSION_TTL_MILLIS (as_db s) of
      Inl e \<Rightarrow> (Inl (Internal (FromDb e)), s)
    | Inr (x, db) \<Rightarrow> (Inr \<lparr>rr_account_id = a_id a, rr_primary_doc_id = a_primary_doc_id a, rr_doc_keys = ks,
        rr_session_token = encode_token E token\<rparr>, s\<lparr>as_db := db\<rparr>)) = (Inr resp, s')"
    using r by (simp add: eval h hs rensure_def rfail_def constant_time_eq_iff Let_def
        split: if_split_asm sum.split_asm prod.split_asm)
  from r' show ?thesis using that [of a] e as h hs by (auto split: sum.split_asm)
qed

lemma password_reset_eval:
  assumes "trim (dr_name reg) \<noteq> []" "trim (dr_kind reg) \<noteq> []" "decode_token E session = Some raw"
    and "np_doc_keys p = [(text, w, n)]" "we_parse_uuid E text = Some d"
    and "reset_password_with_recovery_session now (we_sha256 E raw)
        (to_password_update E p [\<lparr>dk_doc_id = d, dk_wrapped_dek = w, dk_wrapped_dek_nonce = n\<rparr>]) (as_db s) =
      Inr (ResetUpdated acc, db1)"
    and "create_device dev later acc (dr_name reg) (dr_kind reg) (we_sha256 E token) db1 = Inr (i, db2)"
    and "find_account_by_id acc db2 = Inr (Some v, db2)"
  shows "password_reset E dev token now later session p reg s =
    (Inr (set_cookie (encode_token E token) (we_secure_cookies E),
       \<lparr>prr_device_id = i, prr_device_token = encode_token E token, prr_primary_doc_id = av_primary_doc_id v\<rparr>),
     s\<lparr>as_db := db2\<rparr>)"
  using assms(1-5,7,8) by (simp add: password_reset_def rensure_def rbind_def rsome_def rreturn_def rquery_def assms(6) Let_def)

lemma open_session_resets:
  assumes i: "acct_inv db" and r: "find (\<lambda>r. rs_token_hash r = h) (db_recovery db) = Some r"
      "rs_consumed_at r = None" "now \<le> rs_expires_at r"
    and a: "a \<in> set (db_accounts db)" "a_id a = rs_account r" and k: "map dk_doc_id (pu_doc_keys u) = [a_primary_doc_id a]"
  obtains db' where "reset_password_with_recovery_session now h u db = Inr (ResetUpdated (a_id a), db')"
    "db_accounts db' = map (set_password (a_id a) u) (db_accounts db)" "db_devices db' = db_devices db" "acct_inv db'"
proof -
  define db1 where "db1 = db\<lparr>db_accounts := map (set_password (a_id a) u) (db_accounts db),
    db_members := map (set_wrap (a_id a) (hd (pu_doc_keys u))) (db_members db)\<rparr>"
  define db' where "db' = db1\<lparr>db_recovery := map (consume_session h now) (db_recovery db1)\<rparr>"
  have "apply_password_update (rs_account r) u db = Inr (Updated, db1)"
    unfolding db1_def a(2) [symmetric] using apply_password_update_eq [OF i a(1) refl] k by simp
  with r have e: "reset_password_with_recovery_session now h u db = Inr (ResetUpdated (a_id a), db')"
    by (simp add: reset_password_with_recovery_session_def db'_def a(2))
  show ?thesis by (rule that [OF e _ _ reset_password_inv [OF i e]]) (simp_all add: db'_def db1_def)
qed

lemma login_account:
  assumes "acct_inv (as_db s)" "normalize_email E email = Some (a_email a)" "a \<in> set (db_accounts (as_db s))"
  shows "fst (login E dev token t email secret None s) =
    (if we_sha256 E secret = a_password_hash a then Inr (None, login_answer a (as_db s)) else Inl InvalidCredentials)"
proof -
  have "find (\<lambda>x. a_email x = a_email a) (db_accounts (as_db s)) = Some a"
    using acct_invD(1) [OF assms(1)] assms(3) by (intro find_unique_key) (simp_all add: keys_ok_def)
  with assms(2) show ?thesis by (simp add: login_eval [OF assms(1)])
qed

text \<open>
  C39: a forgotten password can be reset. After recovery was granted, the answered session resets
  the password within fifteen minutes, with a new wrap for the Home doc the answer names; from then
  on the new secret logs in to the account and no secret with another hash does.
\<close>

theorem forgotten_password_is_reset:
  assumes "hex_ok E" and "server_reach (as_db s)" and "length session = TOKEN_LEN"
    and "recover E session now email recovery s = (Inr resp, s1)"
    and "trim (dr_name reg) \<noteq> []" and "trim (dr_kind reg) \<noteq> []"
    and "np_doc_keys p = [(text, w, n)]" and "we_parse_uuid E text = Some (rr_primary_doc_id resp)"
    and "t1 \<le> now + RECOVERY_SESSION_TTL_MILLIS" and "dev \<notin> d_id ` set (db_devices (as_db s))"
  shows "\<exists>cookie answer s2.
    password_reset E dev token t1 t2 (rr_session_token resp) p reg s1 = (Inr (cookie, answer), s2) \<and>
    prr_primary_doc_id answer = rr_primary_doc_id resp \<and>
    (\<exists>x. fst (login E d tk t email (np_auth_secret p) None s2) = Inr (None, x) \<and> lr_account_id x = rr_account_id resp) \<and>
    (\<forall>secret. we_sha256 E secret \<noteq> we_sha256 E (np_auth_secret p) \<longrightarrow>
       fst (login E d tk t email secret None s2) = Inl InvalidCredentials)"
proof -
  note i = reach_acct_inv [OF assms(2)]
  from recover_cases [OF i assms(4)] obtain a db where
    a: "normalize_email E email = Some (a_email a)" "a \<in> set (db_accounts (as_db s))"
    and c: "create_recovery_session now (a_id a) (we_sha256 E session) RECOVERY_SESSION_TTL_MILLIS (as_db s) = Inr ((), db)"
    and r: "s1 = s\<lparr>as_db := db\<rparr>" "rr_primary_doc_id resp = a_primary_doc_id a" "rr_account_id resp = a_id a"
      "rr_session_token resp = encode_token E session" by metis
  note i1 = create_recovery_session_inv [OF i c]
  define row where "row = \<lparr>rs_token_hash = we_sha256 E session, rs_account = a_id a,
    rs_expires_at = now + RECOVERY_SESSION_TTL_MILLIS, rs_consumed_at = None\<rparr>"
  have db: "db_accounts db = db_accounts (as_db s)" "db_devices db = db_devices (as_db s)" "row \<in> set (db_recovery db)"
    using c by (auto simp: create_recovery_session_def insert_recovery_row_def row_def split: if_split_asm)
  let ?h = "we_sha256 E session"
  define u where "u = to_password_update E p [\<lparr>dk_doc_id = a_primary_doc_id a, dk_wrapped_dek = w, dk_wrapped_dek_nonce = n\<rparr>]"
  have f: "find (\<lambda>r. rs_token_hash r = ?h) (db_recovery db) = Some row"
    using acct_invD(1) [OF i1] db(3) by (intro find_unique_key) (simp_all add: keys_ok_def row_def)
  obtain db1 where d1: "reset_password_with_recovery_session t1 ?h u db = Inr (ResetUpdated (a_id a), db1)"
      "db_accounts db1 = map (set_password (a_id a) u) (db_accounts db)" "db_devices db1 = db_devices db" "acct_inv db1"
  proof (rule open_session_resets [OF i1 f, where a = a and u = u and now = t1])
    show "map dk_doc_id (pu_doc_keys u) = [a_primary_doc_id a]" by (simp add: u_def to_password_update_def)
  qed (use a db assms(9) in \<open>simp_all add: row_def\<close>)
  let ?a = "set_password (a_id a) u a"
  have a1: "?a \<in> set (db_accounts db1)" using a(2) by (simp add: d1(2) db(1))
  have a_fields: "a_id ?a = a_id a" "a_email ?a = a_email a" "a_primary_doc_id ?a = a_primary_doc_id a"
    "a_password_hash ?a = we_sha256 E (np_auth_secret p)"
    by (simp_all add: row_simps set_password_def u_def to_password_update_def)
  have "a_id a \<in> a_id ` set (db_accounts db1)" using imageI [OF a1, of a_id] a_fields(1) by simp
  then obtain db2 where d2: "create_device dev t2 (a_id a) (dr_name reg) (dr_kind reg) (we_sha256 E token) db1 = Inr (dev, db2)"
      "db_accounts db2 = db_accounts db1"
    using create_device_ok [of "a_id a" db1 dev] create_device_cases assms(10) by (fastforce simp: d1(3) db(2))
  have i2: "acct_inv db2" by (rule create_device_inv [OF d1(4) d2(1)])
  have v: "find_account_by_id (a_id a) db2 = Inr (Some (row_to_account ?a), db2)"
  proof -
    have "find (\<lambda>x. a_id x = a_id a) (db_accounts db2) = Some ?a"
      using acct_invD(1) [OF i2] a1 a_fields(1) d2(2) by (intro find_unique_key) (simp_all add: keys_ok_def)
    then show ?thesis by (simp add: find_account_by_id_def qselect_def)
  qed
  note reset = password_reset_eval [where s = s1, OF assms(5,6) decode_encode_token [OF assms(1,3)] assms(7,8)]
  have "password_reset E dev token t1 t2 (rr_session_token resp) p reg s1 =
      (Inr (set_cookie (encode_token E token) (we_secure_cookies E),
         \<lparr>prr_device_id = dev, prr_device_token = encode_token E token, prr_primary_doc_id = av_primary_doc_id (row_to_account ?a)\<rparr>),
       s1\<lparr>as_db := db2\<rparr>)"
    unfolding r(4) by (rule reset [OF _ d2(1) v]) (use d1(1) r in \<open>simp add: u_def\<close>)
  moreover have "fst (login E d tk t email secret None (s1\<lparr>as_db := db2\<rparr>)) =
      (if we_sha256 E secret = a_password_hash ?a then Inr (None, login_answer ?a db2) else Inl InvalidCredentials)" for secret
    using login_account [of "s1\<lparr>as_db := db2\<rparr>" E email ?a] i2 a(1) a_fields a1 d2(2) by simp
  ultimately show ?thesis
    by (simp add: a_fields r(2,3) row_to_account_def login_answer_def)
qed

section \<open>Removing a member\<close>

lemma close_for_account_subs:
  assumes "enc (DocClosed doc reason) = Some b"
  shows "subs_of doc (snd (close_for_account enc doc acc reason S)) = filter (\<lambda>x. sub_account x \<noteq> acc) (subs_of doc S)"
proof (cases "se_docs S doc")
  case None
  then show ?thesis using assms by (simp add: close_for_account_def subs_of_def)
next
  case (Some subs)
  from close_account_docs(1) [where enc = enc, OF this assms] Some show ?thesis by (simp add: subs_of_def Let_def)
qed

lemma active_role_member: "active_role doc acc db \<noteq> None \<Longrightarrow> is_member doc acc db"
  by (auto simp: active_role_def is_member_iff active_def find_Some_iff split: option.split_asm)

lemma rsessions_eq: "rsessions f t = (Inr (fst (f (as_sessions t))), t\<lparr>as_sessions := snd (f (as_sessions t))\<rparr>)"
  by (simp add: rsessions_def split_beta)

lemma remove_member_route_removed:
  assumes "we_parse_uuid E raw_doc = Some doc" "we_parse_uuid E raw_account = Some target"
    and "doc \<noteq> dl_primary_doc_id l" "remove_member now (dl_account_id l) doc target (as_db s) = Inr (Removed, db')"
  shows "remove_member_route E now l raw_doc raw_account s =
    (Inr (), s\<lparr>as_db := db', as_sessions :=
       snd (close_for_account (we_frame E) doc target ''membership removed'' (as_sessions s))\<rparr>)"
  using assms by (simp add: remove_member_route_def parse_doc_id_def rbind_def rsome_def rensure_def rreturn_def
      rquery_def rsessions_eq)

lemma stamped_members:
  assumes "db_members db' = map (stamp_removed doc target now) (db_members db)"
  shows "is_member doc acc db' \<longleftrightarrow> acc \<noteq> target \<and> is_member doc acc db"
proof -
  have k: "m_removed_at (stamp_removed doc target now m) = None \<longleftrightarrow>
      m_removed_at m = None \<and> \<not> (m_doc m = doc \<and> m_account m = target)" for m
    by (cases "m_doc m = doc"; cases "m_account m = target"; cases "m_removed_at m") (simp_all add: stamp_removed_def active_def)
  show ?thesis unfolding is_member_iff assms set_map by (simp add: row_simps k) metis
qed

text \<open>
  C40: when the request to remove a member succeeds, it came from the owner of the doc; the target,
  a member until then, is none afterwards and has no connection left on the doc, while every
  other account keeps its membership and its connections.
\<close>

theorem removed_member_is_cut_off:
  assumes "server_reach (as_db s)" and "we_frame E (DocClosed doc ''membership removed'') = Some b"
    and "we_parse_uuid E raw_doc = Some doc" and "we_parse_uuid E raw_account = Some target"
    and "remove_member_route E now l raw_doc raw_account s = (Inr (), s')"
  shows "is_active_owner doc (dl_account_id l) (as_db s) \<and> is_member doc target (as_db s) \<and>
    \<not> is_member doc target (as_db s') \<and>
    (\<forall>acc. acc \<noteq> target \<longrightarrow> is_member doc acc (as_db s') = is_member doc acc (as_db s)) \<and>
    subs_of doc (as_sessions s') = filter (\<lambda>x. sub_account x \<noteq> target) (subs_of doc (as_sessions s))"
proof -
  note i = reach_acct_inv [OF assms(1)]
  let ?close = "close_for_account (we_frame E) doc target ''membership removed''"
  obtain out db' where m: "remove_member now (dl_account_id l) doc target (as_db s) = Inr (out, db')"
    using remove_member_total by fastforce
  have out: "out = Removed" "s' = s\<lparr>as_db := db', as_sessions := snd (?close (as_sessions s))\<rparr>"
  proof -
    have ne: "doc \<noteq> dl_primary_doc_id l"
      using assms(3,5)
      by (cases "doc = dl_primary_doc_id l")
        (simp_all add: remove_member_route_def parse_doc_id_def rbind_def rsome_def rensure_def rreturn_def rfail_def)
    show o: "out = Removed"
      using assms(5) by (cases out) (simp_all add: remove_member_route_def parse_doc_id_def rbind_def rsome_def
          rensure_def rreturn_def rquery_def assms(3,4) m ne rfail_def)
    show "s' = s\<lparr>as_db := db', as_sessions := snd (?close (as_sessions s))\<rparr>"
      using assms(5) remove_member_route_removed [OF assms(3,4) ne m [unfolded o]] by simp
  qed
  have "active_role doc (dl_account_id l) (as_db s) = Some Owner \<and> active_role doc target (as_db s) \<noteq> None \<and>
      db_members db' = map (stamp_removed doc target now) (db_members (as_db s))"
    using remove_member_cases [OF m] unfolding out(1) by (elim disjE conjE) simp_all
  then have r: "active_role doc (dl_account_id l) (as_db s) = Some Owner" "active_role doc target (as_db s) \<noteq> None"
      "db_members db' = map (stamp_removed doc target now) (db_members (as_db s))" by blast+
  have "is_active_owner doc (dl_account_id l) (as_db s)"
    using active_role_owner [OF r(1)] is_active_owner_iff [OF acct_invD(3) [OF i]] by simp
  moreover have "is_member doc acc db' \<longleftrightarrow> acc \<noteq> target \<and> is_member doc acc (as_db s)" for acc
    by (rule stamped_members [OF r(3)])
  ultimately show ?thesis
    using active_role_member [OF r(2)] out(2) close_for_account_subs [where enc = "we_frame E", OF assms(2)] by simp
qed

section \<open>All requests\<close>

text \<open>
  C6: whatever a request holds, it leaves tables that a sequence of queries reaches and a registry
  that is well formed, and the answer is never an internal error, unless an id or token the server
  mints is already taken.
\<close>

theorem requests_are_safe:
  assumes "lowercase_ok E" and "server_reach (as_db s)" and "sess_inv (as_sessions s)"
    and "fresh_for E req (as_db s)" and "serve E req s = (r, s')"
  shows "server_reach (as_db s') \<and> sess_inv (as_sessions s') \<and> (\<forall>c. r \<noteq> Inl (Internal c))"
  using serve_ok [OF assms(1), of req] assms(2-5) unfolding route_ok_def app_ok_def
  by (cases r) (auto dest!: spec [of _ s])

section \<open>A concrete server\<close>

text \<open>
  Ids are one-character texts, hex digits are characters above 255, the hash is the identity and only
  ASCII has case.
\<close>

definition demo_web :: web_env where
  "demo_web =
     \<lparr>we_parse_uuid = (\<lambda>s. case s of [n] \<Rightarrow> Some (of_nat n) | _ \<Rightarrow> None),
      we_hex_decode = (\<lambda>s. Some (map (\<lambda>c. of_nat (c - 256)) s)), we_hex_encode = map (\<lambda>x. 256 + unat x),
      we_sha256 = (\<lambda>b. b), we_lowercase = sql_lower, we_frame = demo_senc, we_secure_cookies = True\<rparr>"

definition demo_req :: signup_request where
  "demo_req =
     \<lparr>su_email = lit '' A@b '', su_master_salt = [2], su_kdf_params = \<lparr>kdf_m_kib = 65536, kdf_t = 3, kdf_p = 1\<rparr>,
      su_auth_secret = [1], su_wrapped_dek = [3], su_wrapped_dek_nonce = [4], su_primary_doc_id = None,
      su_recovery = \<lparr>rm_recovery_salt = [5], rm_recovery_auth_secret = [6], rm_recovery_wrapped_dek = [7],
        rm_recovery_wrapped_dek_nonce = [8]\<rparr>,
      su_device_name = lit ''phone'', su_device_kind = lit ''ios''\<rparr>"

definition demo_token :: "u8 \<Rightarrow> bytes" where
  "demo_token x = replicate TOKEN_LEN x"

definition demo_app :: "server_db \<Rightarrow> sessions \<Rightarrow> app_state" where
  "demo_app db S = \<lparr>as_db = db, as_sessions = S, as_coordinator = coordinator_new, as_compactions = []\<rparr>"

lemma demo_app_fields: "as_db (demo_app db S) = db" "as_sessions (demo_app db S) = S"
  by (simp_all add: demo_app_def)

definition demo_start :: app_state where
  "demo_start = demo_app (empty_db [] [] []) sessions_new"

definition demo_signed_up :: app_state where
  "demo_signed_up = snd (signup demo_web 1 11 7 (demo_token 9) 0 demo_req demo_start)"

lemma demo_hex_ok: "hex_ok demo_web"
proof -
  have "trim (map (\<lambda>x. 256 + unat x) b) = map (\<lambda>x. 256 + unat x) b" for b :: bytes
  proof (cases "b = []")
    case False
    have "\<not> is_whitespace (256 + unat x)" for x :: u8
    proof -
      have "unat x < 2 ^ LENGTH(8)" by (rule unsigned_less)
      then show ?thesis by (simp add: is_whitespace_def)
    qed
    with False show ?thesis by (intro trim_id) (simp_all add: hd_map last_map)
  qed (simp add: trim_def)
  then show ?thesis by (auto simp: hex_ok_def demo_web_def o_def)
qed

lemma demo_lowercase_ok: "lowercase_ok demo_web"
proof -
  have ll: "sql_lower (sql_lower s) = sql_lower s" for s by (simp add: sql_lower_def o_def if_distrib cong: if_cong)
  have "sql_trim (sql_lower s) = sql_lower s" if t: "trim s = s" for s
  proof (cases "s = []")
    case False
    have "dropWhile is_whitespace s = s" using t dropWhile_prefix [of is_whitespace s] by (simp add: trim_def)
    then have "\<not> is_whitespace (hd s)" using False by (metis hd_dropWhile)
    then have "hd s \<noteq> 32" "last s \<noteq> 32" using trim_last [OF t False] by (auto simp: is_whitespace_def)
    moreover have "hd (sql_lower s) = 32 \<longleftrightarrow> hd s = 32" "last (sql_lower s) = 32 \<longleftrightarrow> last s = 32"
      using False by (auto simp: sql_lower_def hd_map last_map)
    ultimately have "dropWhile (\<lambda>c. c = 32) (sql_lower s) = sql_lower s"
      "dropWhile (\<lambda>c. c = 32) (rev (sql_lower s)) = rev (sql_lower s)"
      using False by (simp_all add: dropWhile_eq_self_iff hd_rev)
    then show ?thesis by (simp add: sql_trim_def)
  qed (simp add: sql_lower_def sql_trim_def)
  with ll show ?thesis by (simp add: lowercase_ok_def demo_web_def)
qed

lemma demo_start_ok: "server_reach (as_db demo_start)" "sess_inv (as_sessions demo_start)"
  by (auto simp: demo_start_def demo_app_def migrated sess_inv_def sessions_new_def subs_of_def all_subs_def)

lemma demo_signup_answer:
  "map_sum (\<lambda>_. ()) (sr_primary_doc_id \<circ> snd) (fst (signup demo_web 1 11 7 (demo_token 9) 0 demo_req demo_start)) = Inr 7"
  by code_simp

lemma demo_signed_up_ok: "app_ok demo_signed_up"
proof -
  have "app_ok demo_start \<and> 1 \<notin> a_id ` set (db_accounts (as_db demo_start)) \<and> 11 \<notin> d_id ` set (db_devices (as_db demo_start))"
    using demo_start_ok by (simp add: app_ok_def) (simp add: demo_start_def demo_app_def empty_db_def)
  with signup_ok [OF demo_lowercase_ok, of 1 11 7 "demo_token 9" 0 demo_req] demo_signup_answer show ?thesis
    unfolding route_ok_def demo_signed_up_def by (fastforce split: prod.split_asm sum.split_asm)
qed

lemma demo_signed_up_eq:
  obtains cookie resp where
    "signup demo_web 1 11 7 (demo_token 9) 0 demo_req demo_start = (Inr (cookie, resp), demo_signed_up)"
    "sr_primary_doc_id resp = 7"
proof -
  let ?r = "signup demo_web 1 11 7 (demo_token 9) 0 demo_req demo_start"
  obtain x where x: "fst ?r = Inr x" "sr_primary_doc_id (snd x) = 7"
    using demo_signup_answer by (cases "fst ?r") auto
  then have "?r = (Inr (fst x, snd x), demo_signed_up)" by (simp add: demo_signed_up_def prod_eq_iff)
  with x(2) show ?thesis using that by blast
qed

section \<open>Witnesses\<close>


theorem signup_is_usable_witness:
  "\<exists>l cookie. fst (device_auth demo_web 1
       \<lparr>hh_authorization = None, hh_cookies = [Some (cookie_pair cookie)], hh_client_ip = None\<rparr> demo_signed_up) = Inr l \<and>
     dl_account_id l = 1 \<and> dl_device_id l = 11 \<and> dl_primary_doc_id l = 7"
proof -
  obtain cookie resp where
    r: "signup demo_web 1 11 7 (demo_token 9) 0 demo_req demo_start = (Inr (cookie, resp), demo_signed_up)"
      "sr_primary_doc_id resp = 7"
    by (rule demo_signed_up_eq)
  have "length (demo_token 9) = TOKEN_LEN" by (simp add: demo_token_def)
  moreover have "we_sha256 demo_web (demo_token 9) \<notin> d_token_hash ` set (db_devices (as_db demo_start))"
    by (simp add: demo_start_def demo_app_def empty_db_def)
  ultimately show ?thesis
    using signup_is_usable [OF demo_hex_ok demo_lowercase_ok demo_start_ok(1) _ _ r(1) disjI2 [OF refl]] r(2) by metis
qed

definition demo_new_password :: new_password where
  "demo_new_password =
     \<lparr>np_master_salt = [22], np_kdf_params = \<lparr>kdf_m_kib = 65536, kdf_t = 3, kdf_p = 1\<rparr>, np_auth_secret = [23],
      np_doc_keys = [([7], [24], [25])]\<rparr>"

definition demo_reg :: device_registration where
  "demo_reg = \<lparr>dr_name = lit ''laptop'', dr_kind = lit ''linux''\<rparr>"

theorem forgotten_password_is_reset_witness:
  "\<exists>resp s1 cookie answer s2. recover demo_web (demo_token 20) 5 (lit ''a@b'') [6] demo_signed_up = (Inr resp, s1) \<and>
     password_reset demo_web 12 (demo_token 21) 6 7 (rr_session_token resp) demo_new_password demo_reg s1 =
       (Inr (cookie, answer), s2) \<and>
     fst (login demo_web 0 [] 8 (lit ''a@b'') [1] None s2) = Inl InvalidCredentials"
proof -
  let ?r = "recover demo_web (demo_token 20) 5 (lit ''a@b'') [6] demo_signed_up"
  have "map_sum (\<lambda>_. ()) rr_primary_doc_id (fst ?r) = Inr 7" by code_simp
  then obtain resp s1 where r: "?r = (Inr resp, s1)" "rr_primary_doc_id resp = 7"
    by (cases ?r; cases "fst ?r") auto
  have reach: "server_reach (as_db demo_signed_up)" using demo_signed_up_ok by (simp add: app_ok_def)
  have len: "length (demo_token 20) = TOKEN_LEN" by (simp add: demo_token_def)
  have name: "trim (dr_name demo_reg) \<noteq> []" "trim (dr_kind demo_reg) \<noteq> []" by code_simp+
  have keys: "np_doc_keys demo_new_password = [([7], [24], [25])]" by (simp add: demo_new_password_def)
  have parse: "we_parse_uuid demo_web [7] = Some (rr_primary_doc_id resp)" by (simp add: demo_web_def r(2))
  have time: "6 \<le> 5 + RECOVERY_SESSION_TTL_MILLIS" by (simp add: RECOVERY_SESSION_TTL_MILLIS_def)
  have "list_all (\<lambda>d. d_id d \<noteq> 12) (db_devices (as_db demo_signed_up))" by code_simp
  then have dev: "12 \<notin> d_id ` set (db_devices (as_db demo_signed_up))" by (auto simp: list_all_iff)
  have "we_sha256 demo_web [1] \<noteq> we_sha256 demo_web (np_auth_secret demo_new_password)"
    by (simp add: demo_web_def demo_new_password_def)
  with forgotten_password_is_reset [OF demo_hex_ok reach len r(1) name keys parse time dev, of "demo_token 21" 7 0 "[]" 8] r(1)
  show ?thesis by blast
qed

definition demo_live :: sessions where
  "demo_live = (demo_sessions [])\<lparr>se_docs := [9 \<mapsto> subs_of 7 (demo_sessions [])]\<rparr>"

theorem removed_member_is_cut_off_witness:
  "\<exists>s'. remove_member_route demo_web 6 \<lparr>dl_account_id = 1, dl_device_id = 11, dl_primary_doc_id = 7, dl_email = [97]\<rparr> [9] [2]
       (demo_app (run_call demo_accept demo_server) demo_live) = (Inr (), s') \<and>
     is_member 9 2 (run_call demo_accept demo_server) \<and> \<not> is_member 9 2 (as_db s') \<and>
     subs_of 9 (as_sessions s') = filter (\<lambda>x. sub_account x \<noteq> 2) (subs_of 9 demo_live)"
proof -
  let ?l = "\<lparr>dl_account_id = 1, dl_device_id = 11, dl_primary_doc_id = 7, dl_email = [97]\<rparr> :: device_lookup"
  let ?s = "demo_app (run_call demo_accept demo_server) demo_live"
  have "allowed demo_accept demo_server" by (simp add: demo_accept_def)
  from server_reach.call [OF demo_reach this] have reach: "server_reach (as_db ?s)" by (simp only: demo_app_fields)
  have enc: "we_frame demo_web (DocClosed 9 ''membership removed'') = Some [3]" by (simp add: demo_web_def demo_senc_def)
  have parse: "we_parse_uuid demo_web [9] = Some 9" "we_parse_uuid demo_web [2] = Some 2" by (simp_all add: demo_web_def)
  obtain db' where "remove_member 6 1 9 2 (run_call demo_accept demo_server) = Inr (Removed, db')"
    using demo_removed by (cases "remove_member 6 1 9 2 (run_call demo_accept demo_server)") auto
  then obtain s' where s': "remove_member_route demo_web 6 ?l [9] [2] ?s = (Inr (), s')"
    using remove_member_route_removed [OF parse, of ?l 6 ?s] by (simp add: demo_app_fields)
  note cut = removed_member_is_cut_off [OF reach enc parse s', unfolded demo_app_fields]
  show ?thesis by (rule exI [of _ s']) (use s' cut in blast)
qed

theorem requests_are_safe_witness:
  "\<exists>s'. serve demo_web (Signup 1 11 7 (demo_token 9) 0 demo_req) demo_start = (Inr (), s') \<and>
     server_reach (as_db s') \<and> sess_inv (as_sessions s')"
proof -
  let ?req = "Signup 1 11 7 (demo_token 9) 0 demo_req"
  have "fst (serve demo_web ?req demo_start) = Inr ()" by code_simp
  then obtain s' where s': "serve demo_web ?req demo_start = (Inr (), s')" by (metis prod.collapse)
  have "fresh_for demo_web ?req (as_db demo_start)" by (simp add: demo_start_def demo_app_def empty_db_def)
  from requests_are_safe [OF demo_lowercase_ok demo_start_ok this s'] s' show ?thesis by blast
qed

end
