(* ===== verification/Spec2Isabelle.thy ===== *)
theory Spec2Isabelle
  imports Sync_Composition Item_Values Item_Dates Notes_Edit Index_Rebuild Search_Run Http_Props
begin

text \<open>
  Monoplan is an end-to-end encrypted, local-first planner. A client keeps a Loro document per
  workspace, seals its updates, stores them locally and exchanges them with a server that only
  sees ciphertext and hands out per-doc sequence numbers. This development models, from the Rust
  sources, the parts that decide whether work is lost, duplicated, shown in the wrong place or
  shown to the wrong person.

  \<^bold>\<open>The parts and how they meet.\<close> The sync engine (\<open>core/src/sync.rs\<close>) takes local edits
  from the doc and frames from the server, and keeps its state in a \<open>LocalStorage\<close>
  (\<open>core/src/storage.rs\<close>, implemented by \<open>crates/storage-sqlite\<close>). Its frames
  (\<open>crates/protocol/src/sync.rs\<close>) reach a WebSocket session (\<open>server/src/sync/ws.rs\<close>), which
  works on the tables (\<open>server/src/sync/queries.rs\<close>), on the registry of live connections
  (\<open>sessions.rs\<close>) and on the snapshot coordinator (\<open>snapshot.rs\<close>). Accounts, devices, memberships and
  invites (\<open>server/src/auth/\<close>) live in the same tables and are changed by the HTTP routes
  (\<open>server/src/http/\<close>), which also close live connections. Inside the client, \<open>core/src/doc.rs\<close> turns
  the document into lists of items, through a projection index, edits notes by deltas and answers
  searches from an index (\<open>core/src/search.rs\<close>) that follows its events.

  \<^bold>\<open>Shared ground.\<close> \<open>Prelude\<close> has the machine types (\<open>u64\<close> counters as 64-bit words, their casts
  to SQLite's \<open>i64\<close>), \<open>Text\<close> Rust strings as lists of scalars with UTF-8 and UTF-16, \<open>Protocol\<close>
  the wire types.

  \<^bold>\<open>Client.\<close> \<open>Doc_Stream\<close>: version vectors, exports, imports and sealing; \<open>Loro_Laws\<close>: what is
  relied on of Loro and of the AEAD, as the predicates \<open>loro_ok\<close> and \<open>aead_ok\<close>.
  \<open>Storage\<close>: the storage trait as a record of operations, boot and replay, the in-memory
  reference storage, and the locales \<open>local_storage\<close> and \<open>reliable_storage\<close> that state what
  the engine may expect; they are interpreted for the in-memory storage there and for the sqlite
  storage in \<open>Sqlite_Storage\<close>, which models the tables, the transactions and failing statements.
  \<open>Sync_Engine\<close>: the whole state machine, one function per method of the engine.
  \<open>Engine_Durability\<close>, \<open>Engine_States\<close>, \<open>Engine_Snapshots\<close> and \<open>Client_Recovery\<close> show what
  survives a crash, that an acknowledgement never passes what is durable, that a push is resent
  until it is acknowledged, and what a snapshot holds.

  \<^bold>\<open>Items.\<close> \<open>Item_Values\<close> and \<open>Item_Dates\<close>: the scalars items are stored as. \<open>Projection\<close>:
  the struct \<open>ProjectionIndex\<close> with every method; \<open>Open_Order\<close>: the specification of what it
  holds; \<open>Index_Ops\<close>, \<open>Index_Moves\<close> and \<open>Index_Rebuild\<close>: the index side of the item mutations,
  that it always equals a rebuild, and where items land. \<open>Notes_Delta\<close> and \<open>Notes_Edit\<close>: deltas
  in UTF-16 units, their composition, validation and the stream to an editor. \<open>Search_Index\<close>: the
  search index, its upkeep and its queries; \<open>Search_Props\<close>, \<open>Search_Exact\<close> and \<open>Search_Run\<close> show that
  whatever the events, rebuilds and queries before it, a query answers what ranking the whole doc
  anew would; that a mutation's events name what it changed is assumed there (\<open>reported\<close>).

  \<^bold>\<open>Server, sync.\<close> \<open>Server_Queries\<close> has all tables of \<open>server/migrations/001_init.sql\<close> as one
  record and the queries of the update stream; \<open>Server_Stream\<close> their properties (dense seqs, stored
  once, linked snapshots, the horizon). \<open>Sessions\<close> and \<open>Snapshot_Coordinator\<close> are the in-memory parts.
  \<open>Ws\<close> is a session with every handler and the select loop; \<open>Ws_Pull\<close>, \<open>Ws_Access\<close> and
  \<open>Ws_Lifecycle\<close> show that a pull ends and delivers what is missing, that a frame stays on a doc its
  sender may open, and what a session gives back. \<open>Sync_Composition\<close> puts client and server
  together.

  \<^bold>\<open>Server, accounts.\<close> \<open>Accounts\<close> and \<open>Invites\<close> are the queries of \<open>server/src/auth/\<close>; a query
  is a function of the tables that fails or returns its result with the tables it leaves.
  \<open>Accounts_Inv\<close> and \<open>Invites_Inv\<close> prove the invariant of the tables query by query,
  \<open>Server_Calls\<close> collects all queries into an inductive set of reachable tables, and
  \<open>Server_Access\<close> states who may reach what in them. \<open>Http_Routes\<close> has every route, the device
  authentication, cookies and tokens; \<open>Http_Serve\<close> the router and a small Hoare logic for routes;
  \<open>Http_Total\<close> and \<open>Http_Inv\<close> show that no route fails inside and that all keep the invariant;
  \<open>Http_Props\<close> states what the routes promise together.

  \<^bold>\<open>Third-party code\<close> (Loro, XChaCha20-Poly1305, MessagePack, sha2, hex, uuid, the Unicode
  tables) is a parameter of the definitions that call it; theorems name the laws they need, and
  their witnesses instantiate them with concrete functions. Ids, random tokens and the clock are
  arguments. Loops over data are recursive functions that end; the pull loop, whose end depends on
  the tables, runs on fuel with an error value that is shown not to occur; the select loop
  consumes a given sequence of events. An error of a query leaves the tables unchanged, as its
  transaction is not committed. Requests and handlers run one after another: the server has one
  connection to its database, but two queries of one request may in reality be separated by
  another request's.

  \<^bold>\<open>Not modelled.\<close> The writes to Loro containers that accompany an index change and the routing of
  Loro's diffs (the containers are third-party code); place suggestions, the agenda and
  focus screens; the web bindings, the CLI's commands and its daemon, which are glue, terminal
  and socket I/O; key derivation and recovery codes, which only call Argon2, HKDF and BIP-39; JSON and
  base64 bodies, CORS, request ids and client addresses, which belong to the HTTP libraries; the
  opening of database files and their migrations; timestamps of the sync tables.
\<close>

end
